(* ===== verification/Prelude.thy ===== *)
theory Prelude
  imports Main "HOL-Library.Word"
begin

text \<open>
  Shared material of the development: the machine types of the C sources, the events the
  driver exchanges with its surroundings (registers, DMA-coherent memory, locks, wait queues,
  kernel services), and the generic lemmas on words, lists and functions that the component
  theories use.

  Every effect of the driver that another agent can observe is an entry of an event trace, newest
  entry first.  The value a register read returns is a parameter, a function of the trace so far
  and of the address: a theorem that leaves it open holds for every device.
\<close>

unbundle bit_operations_syntax

subsection \<open>Machine types\<close>

type_synonym u8 = "8 word"
type_synonym u16 = "16 word"
type_synonym u32 = "32 word"
type_synonym u64 = "64 word"

text \<open>Virtual and memory-mapped addresses; address 0 is the null pointer.\<close>

type_synonym ptr = nat

abbreviation (input) NULL :: ptr where "NULL \<equiv> 0"

text \<open>Automation: values of constants, register offsets, and frame facts of the operations.\<close>

named_theorems xdma_consts \<open>values of the bit masks and limits of the headers\<close>
named_theorems reg_offsets \<open>byte offsets of the device registers\<close>
named_theorems frame \<open>what an operation leaves unchanged\<close>

subsection \<open>Error numbers\<close>

definition EIO :: int where "EIO = 5"
definition EAGAIN :: int where "EAGAIN = 11"
definition ENOMEM :: int where "ENOMEM = 12"
definition EFAULT :: int where "EFAULT = 14"
definition EBUSY :: int where "EBUSY = 16"
definition ENODEV :: int where "ENODEV = 19"
definition EINVAL :: int where "EINVAL = 22"
definition ENOTTY :: int where "ENOTTY = 25"
definition EPROTO :: int where "EPROTO = 71"
definition ETIMEDOUT :: int where "ETIMEDOUT = 110"
definition ERESTARTSYS :: int where "ERESTARTSYS = 512"
definition EIOCBQUEUED :: int where "EIOCBQUEUED = 529"

lemmas errno_defs = EIO_def EAGAIN_def ENOMEM_def EFAULT_def EBUSY_def ENODEV_def EINVAL_def
  ENOTTY_def EPROTO_def ETIMEDOUT_def ERESTARTSYS_def EIOCBQUEUED_def

subsection \<open>Events\<close>

text \<open>Wait queues and locks are named by the structure that holds them.\<close>

datatype wait_queue = WqTransfer ptr | WqShutdown ptr | WqPerf ptr | WqEvents ptr nat | WqThread ptr

datatype lock_id = LkDev ptr | LkEngine ptr | LkDesc ptr | LkEvents ptr nat | LkXdevList | LkRcu
  | LkThread ptr | LkCdev ptr

text \<open>What an interrupt line is requested with: an engine, user interrupt \<open>i\<close> of a device, a device.\<close>

datatype irq_cookie = CookieEngine ptr | CookieUser ptr nat | CookieDev ptr

datatype event =
    Rd ptr u32              \<comment> \<open>a 32-bit read of device-visible memory and the value it returned\<close>
  | Wr ptr u32              \<comment> \<open>a 32-bit write of device-visible memory\<close>
  | Wake wait_queue
  | Acquire lock_id
  | Release lock_id
  | IoDone ptr int          \<comment> \<open>the completion callback of an asynchronous request\<close>
  | SchedWork ptr           \<comment> \<open>the bottom half of an engine is put on the work queue\<close>
  | UserHandler ptr u8 ptr  \<comment> \<open>a registered user interrupt handler is called\<close>
  | ReqIrq int irq_cookie int  \<comment> \<open>an interrupt line is requested, with the answer of the kernel\<close>
  | FreeIrq int irq_cookie
  | ToUser u64 "u8 list"    \<comment> \<open>bytes written to the memory of the calling process\<close>
  | Kernel string ptr int   \<comment> \<open>any other kernel service, with its main argument and result\<close>

text \<open>Net number of times a lock is held after a trace.\<close>

fun held :: "lock_id \<Rightarrow> event list \<Rightarrow> int" where
  "held l [] = 0"
| "held l (Acquire m # es) = held l es + (if l = m then 1 else 0)"
| "held l (Release m # es) = held l es - (if l = m then 1 else 0)"
| "held l (_ # es) = held l es"

lemma held_append: "held l (xs @ ys) = held l xs + held l ys"
  by (induction l xs rule: held.induct) auto

text \<open>The register writes of a trace, newest first.\<close>

fun writes :: "event list \<Rightarrow> (ptr \<times> u32) list" where
  "writes [] = []"
| "writes (Wr a v # es) = (a, v) # writes es"
| "writes (_ # es) = writes es"

text \<open>The last value the driver wrote to an address.\<close>

definition last_write :: "event list \<Rightarrow> ptr \<Rightarrow> u32 option" where
  "last_write es a = map_of (writes es) a"

lemma writes_append: "writes (xs @ ys) = writes xs @ writes ys"
  by (induction xs rule: writes.induct) auto

lemma last_write_simps [simp]:
  "last_write [] a = None"
  "last_write (Wr b v # es) a = (if a = b then Some v else last_write es a)"
  "last_write (Rd b v # es) a = last_write es a"
  "last_write (Wake w # es) a = last_write es a"
  "last_write (Acquire l # es) a = last_write es a"
  "last_write (Release l # es) a = last_write es a"
  "last_write (IoDone c n # es) a = last_write es a"
  "last_write (SchedWork p # es) a = last_write es a"
  "last_write (UserHandler p i q # es) a = last_write es a"
  "last_write (ReqIrq n ck r # es) a = last_write es a"
  "last_write (FreeIrq n ck # es) a = last_write es a"
  "last_write (ToUser ua bs # es) a = last_write es a"
  "last_write (Kernel f p r # es) a = last_write es a"
  by (simp_all add: last_write_def)

subsection \<open>Words\<close>

lemma and_mask_le: "x AND m \<le> (m :: 'a :: len word)"
  by (rule word_and_le1)

lemma unat_and_le: "unat (x AND m) \<le> unat (m :: 'a :: len word)"
  using word_and_le1 [of x m] by (simp add: word_le_nat_alt)

lemma word_and_eq_mod: "x AND mask n = (x :: 'a :: len word) mod 2 ^ n"
  by (simp flip: take_bit_eq_mask add: take_bit_eq_mod)

lemma unat_sub_le: "b \<le> a \<Longrightarrow> unat (a - b) = unat a - unat (b :: 'a :: len word)"
  by (simp add: unat_sub)

lemma unat_word_add_lt:
  "unat a + unat b < 2 ^ LENGTH('a) \<Longrightarrow> unat (a + b) = unat a + unat (b :: 'a :: len word)"
  by (simp add: unat_word_ariths)

lemma word_or_eq_0: "a OR b = 0 \<longleftrightarrow> a = 0 \<and> b = (0 :: 'a :: len word)"
  by (auto simp: bit_eq_iff bit_simps)

subsection \<open>Lists and functions\<close>

lemma take_Suc_nth_snoc: "i < length xs \<Longrightarrow> take (Suc i) xs = take i xs @ [xs ! i]"
  by (rule take_Suc_conv_app_nth)

lemma sum_list_take_le: "sum_list (take n xs) \<le> sum_list (xs :: nat list)"
  by (metis append_take_drop_id le_add1 sum_list_append)

subsection \<open>Decimal numbers\<close>

text \<open>What \<open>%d\<close> prints for a number that is not negative.\<close>

definition digit_char :: "nat \<Rightarrow> char" where
  "digit_char d = ''0123456789'' ! (d mod 10)"

fun dec :: "nat \<Rightarrow> string" where
  "dec n = (if n < 10 then [digit_char n] else dec (n div 10) @ [digit_char n])"

declare dec.simps [simp del]

lemma dec_not_empty: "dec n \<noteq> []"
  by (subst dec.simps) simp

subsection \<open>Invariants of step relations\<close>

text \<open>The contract between a step relation and its invariant: every step keeps it.  Clients
  get it for every reachable state.\<close>

locale invariant_system =
  fixes step :: "'s \<Rightarrow> 's \<Rightarrow> bool" and inv :: "'s \<Rightarrow> bool"
  assumes step_keeps: "step s s' \<Longrightarrow> inv s \<Longrightarrow> inv s'"
begin

lemma reach_keeps: "step\<^sup>*\<^sup>* s s' \<Longrightarrow> inv s \<Longrightarrow> inv s'"
  by (induction rule: rtranclp_induct) (auto dest: step_keeps)

lemma reach_establishes:
  assumes "\<And>s. start s \<Longrightarrow> inv s" and "start s" and "step\<^sup>*\<^sup>* s s'" and "\<And>s. inv s \<Longrightarrow> P s"
  shows "P s'"
  using assms reach_keeps by blast

end

end
