(* ===== verification/Xdma_Types.thy ===== *)
theory Xdma_Types
  imports Prelude
begin

text \<open>
  The data model of the driver, from \<^verbatim>\<open>xdma/libxdma.h\<close>: the limits and bit masks, the layout of
  the device registers, the structures (as records) and enumerations (as datatypes), and the state
  the driver works on.  The state \<open>kst\<close> holds one heap per structure, indexed by address, and the
  event trace; \<open>env\<close> holds the module parameters and what the driver cannot know: the values the
  device returns, the clock and the results of kernel services.

  Structure fields that only the C implementation needs (list links, locks, wait-queue heads and
  work items) are not fields here: a linked list is a HOL list of addresses, and locks, wait queues
  and work items appear as events.  Integers keep their width.
\<close>

subsection \<open>Limits and constants\<close>

definition XDMA_BAR_NUM :: nat where "XDMA_BAR_NUM = 6"
definition XDMA_BAR_SIZE :: int where "XDMA_BAR_SIZE = 0x8000"
definition XDMA_CHANNEL_NUM_MAX :: nat where "XDMA_CHANNEL_NUM_MAX = 4"
definition XDMA_ENG_IRQ_NUM :: nat where "XDMA_ENG_IRQ_NUM = 1"
definition XDMA_MAX_ADJ_BLOCK_SIZE :: u32 where "XDMA_MAX_ADJ_BLOCK_SIZE = 0x40"
definition XDMA_PAGE_SIZE :: u32 where "XDMA_PAGE_SIZE = 0x1000"
definition RX_STATUS_EOP :: u32 where "RX_STATUS_EOP = 1"
definition XDMA_OFS_INT_CTRL :: nat where "XDMA_OFS_INT_CTRL = 0x2000"
definition XDMA_OFS_CONFIG :: nat where "XDMA_OFS_CONFIG = 0x3000"
definition XDMA_ENGINE_XFER_MAX_DESC :: u32 where "XDMA_ENGINE_XFER_MAX_DESC = 0x800"
definition XDMA_ENGINE_CREDIT_XFER_MAX_DESC :: u32 where
  "XDMA_ENGINE_CREDIT_XFER_MAX_DESC = 0x3FF"
definition XDMA_DESC_BLEN_MAX :: u32 where "XDMA_DESC_BLEN_MAX = push_bit 28 1 - 1"

text \<open>Bits of the SG DMA control register.\<close>

definition XDMA_CTRL_RUN_STOP :: u32 where "XDMA_CTRL_RUN_STOP = push_bit 0 1"
definition XDMA_CTRL_IE_DESC_STOPPED :: u32 where "XDMA_CTRL_IE_DESC_STOPPED = push_bit 1 1"
definition XDMA_CTRL_IE_DESC_COMPLETED :: u32 where "XDMA_CTRL_IE_DESC_COMPLETED = push_bit 2 1"
definition XDMA_CTRL_IE_DESC_ALIGN_MISMATCH :: u32 where "XDMA_CTRL_IE_DESC_ALIGN_MISMATCH = push_bit 3 1"
definition XDMA_CTRL_IE_MAGIC_STOPPED :: u32 where "XDMA_CTRL_IE_MAGIC_STOPPED = push_bit 4 1"
definition XDMA_CTRL_IE_IDLE_STOPPED :: u32 where "XDMA_CTRL_IE_IDLE_STOPPED = push_bit 6 1"
definition XDMA_CTRL_IE_READ_ERROR :: u32 where "XDMA_CTRL_IE_READ_ERROR = push_bit 9 0x1F"
definition XDMA_CTRL_IE_DESC_ERROR :: u32 where "XDMA_CTRL_IE_DESC_ERROR = push_bit 19 0x1F"
definition XDMA_CTRL_NON_INCR_ADDR :: u32 where "XDMA_CTRL_NON_INCR_ADDR = push_bit 25 1"
definition XDMA_CTRL_POLL_MODE_WB :: u32 where "XDMA_CTRL_POLL_MODE_WB = push_bit 26 1"

text \<open>Bits of the SG DMA status register, and the error masks built from them.\<close>

definition XDMA_STAT_BUSY :: u32 where "XDMA_STAT_BUSY = push_bit 0 1"
definition XDMA_STAT_DESC_STOPPED :: u32 where "XDMA_STAT_DESC_STOPPED = push_bit 1 1"
definition XDMA_STAT_DESC_COMPLETED :: u32 where "XDMA_STAT_DESC_COMPLETED = push_bit 2 1"
definition XDMA_STAT_ALIGN_MISMATCH :: u32 where "XDMA_STAT_ALIGN_MISMATCH = push_bit 3 1"
definition XDMA_STAT_MAGIC_STOPPED :: u32 where "XDMA_STAT_MAGIC_STOPPED = push_bit 4 1"
definition XDMA_STAT_INVALID_LEN :: u32 where "XDMA_STAT_INVALID_LEN = push_bit 5 1"
definition XDMA_STAT_IDLE_STOPPED :: u32 where "XDMA_STAT_IDLE_STOPPED = push_bit 6 1"
definition XDMA_STAT_DESC_UNSUPP_REQ :: u32 where "XDMA_STAT_DESC_UNSUPP_REQ = push_bit 19 1"
definition XDMA_STAT_DESC_COMPL_ABORT :: u32 where "XDMA_STAT_DESC_COMPL_ABORT = push_bit 20 1"
definition XDMA_STAT_DESC_PARITY_ERR :: u32 where "XDMA_STAT_DESC_PARITY_ERR = push_bit 21 1"
definition XDMA_STAT_DESC_HEADER_EP :: u32 where "XDMA_STAT_DESC_HEADER_EP = push_bit 22 1"
definition XDMA_STAT_DESC_UNEXP_COMPL :: u32 where "XDMA_STAT_DESC_UNEXP_COMPL = push_bit 23 1"
definition XDMA_STAT_H2C_R_UNSUPP_REQ :: u32 where "XDMA_STAT_H2C_R_UNSUPP_REQ = push_bit 9 1"
definition XDMA_STAT_H2C_R_COMPL_ABORT :: u32 where "XDMA_STAT_H2C_R_COMPL_ABORT = push_bit 10 1"
definition XDMA_STAT_H2C_R_PARITY_ERR :: u32 where "XDMA_STAT_H2C_R_PARITY_ERR = push_bit 11 1"
definition XDMA_STAT_H2C_R_HEADER_EP :: u32 where "XDMA_STAT_H2C_R_HEADER_EP = push_bit 12 1"
definition XDMA_STAT_H2C_R_UNEXP_COMPL :: u32 where "XDMA_STAT_H2C_R_UNEXP_COMPL = push_bit 13 1"
definition XDMA_STAT_H2C_W_DECODE_ERR :: u32 where "XDMA_STAT_H2C_W_DECODE_ERR = push_bit 14 1"
definition XDMA_STAT_H2C_W_SLAVE_ERR :: u32 where "XDMA_STAT_H2C_W_SLAVE_ERR = push_bit 15 1"
definition XDMA_STAT_C2H_R_DECODE_ERR :: u32 where "XDMA_STAT_C2H_R_DECODE_ERR = push_bit 9 1"
definition XDMA_STAT_C2H_R_SLAVE_ERR :: u32 where "XDMA_STAT_C2H_R_SLAVE_ERR = push_bit 10 1"

definition XDMA_STAT_COMMON_ERR_MASK :: u32 where
  "XDMA_STAT_COMMON_ERR_MASK =
     XDMA_STAT_ALIGN_MISMATCH OR XDMA_STAT_MAGIC_STOPPED OR XDMA_STAT_INVALID_LEN"

definition XDMA_STAT_DESC_ERR_MASK :: u32 where
  "XDMA_STAT_DESC_ERR_MASK =
     XDMA_STAT_DESC_UNSUPP_REQ OR XDMA_STAT_DESC_COMPL_ABORT OR XDMA_STAT_DESC_PARITY_ERR OR XDMA_STAT_DESC_HEADER_EP OR XDMA_STAT_DESC_UNEXP_COMPL"

definition XDMA_STAT_H2C_R_ERR_MASK :: u32 where
  "XDMA_STAT_H2C_R_ERR_MASK =
     XDMA_STAT_H2C_R_UNSUPP_REQ OR XDMA_STAT_H2C_R_COMPL_ABORT OR XDMA_STAT_H2C_R_PARITY_ERR OR XDMA_STAT_H2C_R_HEADER_EP OR XDMA_STAT_H2C_R_UNEXP_COMPL"

definition XDMA_STAT_H2C_W_ERR_MASK :: u32 where
  "XDMA_STAT_H2C_W_ERR_MASK =
     XDMA_STAT_H2C_W_DECODE_ERR OR XDMA_STAT_H2C_W_SLAVE_ERR"

definition XDMA_STAT_C2H_R_ERR_MASK :: u32 where
  "XDMA_STAT_C2H_R_ERR_MASK =
     XDMA_STAT_C2H_R_DECODE_ERR OR XDMA_STAT_C2H_R_SLAVE_ERR"

definition XDMA_STAT_H2C_ERR_MASK :: u32 where
  "XDMA_STAT_H2C_ERR_MASK =
     XDMA_STAT_COMMON_ERR_MASK OR XDMA_STAT_DESC_ERR_MASK OR XDMA_STAT_H2C_R_ERR_MASK OR XDMA_STAT_H2C_W_ERR_MASK"

definition XDMA_STAT_C2H_ERR_MASK :: u32 where
  "XDMA_STAT_C2H_ERR_MASK =
     XDMA_STAT_COMMON_ERR_MASK OR XDMA_STAT_DESC_ERR_MASK OR XDMA_STAT_C2H_R_ERR_MASK"

text \<open>Bits of the descriptor control field and of the performance control register.\<close>

definition XDMA_DESC_STOPPED :: u32 where "XDMA_DESC_STOPPED = push_bit 0 1"
definition XDMA_DESC_COMPLETED :: u32 where "XDMA_DESC_COMPLETED = push_bit 1 1"
definition XDMA_DESC_EOP :: u32 where "XDMA_DESC_EOP = push_bit 4 1"
definition XDMA_PERF_RUN :: u32 where "XDMA_PERF_RUN = push_bit 0 1"
definition XDMA_PERF_CLEAR :: u32 where "XDMA_PERF_CLEAR = push_bit 1 1"
definition XDMA_PERF_AUTO :: u32 where "XDMA_PERF_AUTO = push_bit 2 1"

text \<open>Identifiers and other masks.\<close>

definition MAGIC_ENGINE :: u64 where "MAGIC_ENGINE = 0xEEEEEEEE"
definition MAGIC_DEVICE :: u64 where "MAGIC_DEVICE = 0xDDDDDDDD"
definition XDMA_ID_H2C :: u32 where "XDMA_ID_H2C = 0x1fc0"
definition XDMA_ID_C2H :: u32 where "XDMA_ID_C2H = 0x1fc1"
definition LS_BYTE_MASK :: u32 where "LS_BYTE_MASK = 0x000000FF"
definition BLOCK_ID_MASK :: u32 where "BLOCK_ID_MASK = 0xFFF00000"
definition BLOCK_ID_HEAD :: u32 where "BLOCK_ID_HEAD = 0x1FC00000"
definition IRQ_BLOCK_ID :: u32 where "IRQ_BLOCK_ID = 0x1fc20000"
definition CONFIG_BLOCK_ID :: u32 where "CONFIG_BLOCK_ID = 0x1fc30000"
definition WB_COUNT_MASK :: u32 where "WB_COUNT_MASK = 0x00ffffff"
definition WB_ERR_MASK :: u32 where "WB_ERR_MASK = push_bit 31 1"
definition POLL_TIMEOUT_SECONDS :: u64 where "POLL_TIMEOUT_SECONDS = 10"
definition MAX_USER_IRQ :: nat where "MAX_USER_IRQ = 16"
definition DESC_MAGIC :: u32 where "DESC_MAGIC = 0xAD4B0000"
definition H2C_CHANNEL_OFFSET :: nat where "H2C_CHANNEL_OFFSET = 0x1000"
definition SGDMA_OFFSET_FROM_CHANNEL :: nat where "SGDMA_OFFSET_FROM_CHANNEL = 0x4000"
definition CHANNEL_SPACING :: nat where "CHANNEL_SPACING = 0x100"
definition TARGET_SPACING :: nat where "TARGET_SPACING = 0x1000"
definition BYPASS_MODE_SPACING :: u32 where "BYPASS_MODE_SPACING = 0x0100"
definition XFER_FLAG_NEED_UNMAP :: u32 where "XFER_FLAG_NEED_UNMAP = 0x1"
definition XFER_FLAG_ST_C2H_EOP_RCVED :: u32 where "XFER_FLAG_ST_C2H_EOP_RCVED = 0x2"
definition XDEV_FLAG_OFFLINE :: u32 where "XDEV_FLAG_OFFLINE = 0x1"

text \<open>The two halves of a bus address, as the descriptor and register words carry them.\<close>

definition PCI_DMA_H :: "u64 \<Rightarrow> u32" where "PCI_DMA_H addr = ucast (drop_bit 16 (drop_bit 16 addr))"
definition PCI_DMA_L :: "u64 \<Rightarrow> u32" where "PCI_DMA_L addr = ucast (addr AND 0xffffffff)"

lemmas ctrl_stat_defs [xdma_consts] =
  XDMA_CTRL_RUN_STOP_def XDMA_CTRL_IE_DESC_STOPPED_def XDMA_CTRL_IE_DESC_COMPLETED_def
  XDMA_CTRL_IE_DESC_ALIGN_MISMATCH_def XDMA_CTRL_IE_MAGIC_STOPPED_def
  XDMA_CTRL_IE_IDLE_STOPPED_def XDMA_CTRL_IE_READ_ERROR_def XDMA_CTRL_IE_DESC_ERROR_def
  XDMA_CTRL_NON_INCR_ADDR_def XDMA_CTRL_POLL_MODE_WB_def XDMA_STAT_BUSY_def
  XDMA_STAT_DESC_STOPPED_def XDMA_STAT_DESC_COMPLETED_def XDMA_STAT_ALIGN_MISMATCH_def
  XDMA_STAT_MAGIC_STOPPED_def XDMA_STAT_INVALID_LEN_def XDMA_STAT_IDLE_STOPPED_def
  XDMA_STAT_DESC_UNSUPP_REQ_def XDMA_STAT_DESC_COMPL_ABORT_def XDMA_STAT_DESC_PARITY_ERR_def
  XDMA_STAT_DESC_HEADER_EP_def XDMA_STAT_DESC_UNEXP_COMPL_def XDMA_STAT_H2C_R_UNSUPP_REQ_def
  XDMA_STAT_H2C_R_COMPL_ABORT_def XDMA_STAT_H2C_R_PARITY_ERR_def XDMA_STAT_H2C_R_HEADER_EP_def
  XDMA_STAT_H2C_R_UNEXP_COMPL_def XDMA_STAT_H2C_W_DECODE_ERR_def XDMA_STAT_H2C_W_SLAVE_ERR_def
  XDMA_STAT_C2H_R_DECODE_ERR_def XDMA_STAT_C2H_R_SLAVE_ERR_def XDMA_STAT_COMMON_ERR_MASK_def
  XDMA_STAT_DESC_ERR_MASK_def XDMA_STAT_H2C_R_ERR_MASK_def XDMA_STAT_H2C_W_ERR_MASK_def
  XDMA_STAT_C2H_R_ERR_MASK_def XDMA_STAT_H2C_ERR_MASK_def XDMA_STAT_C2H_ERR_MASK_def

lemmas desc_const_defs [xdma_consts] =
  XDMA_MAX_ADJ_BLOCK_SIZE_def XDMA_PAGE_SIZE_def RX_STATUS_EOP_def XDMA_ENGINE_XFER_MAX_DESC_def
  XDMA_ENGINE_CREDIT_XFER_MAX_DESC_def XDMA_DESC_BLEN_MAX_def XDMA_DESC_STOPPED_def
  XDMA_DESC_COMPLETED_def XDMA_DESC_EOP_def XDMA_PERF_RUN_def XDMA_PERF_CLEAR_def
  XDMA_PERF_AUTO_def LS_BYTE_MASK_def WB_COUNT_MASK_def WB_ERR_MASK_def DESC_MAGIC_def
  XFER_FLAG_NEED_UNMAP_def XFER_FLAG_ST_C2H_EOP_RCVED_def XDEV_FLAG_OFFLINE_def BLOCK_ID_MASK_def
  BLOCK_ID_HEAD_def IRQ_BLOCK_ID_def CONFIG_BLOCK_ID_def XDMA_ID_H2C_def XDMA_ID_C2H_def
  BYPASS_MODE_SPACING_def

text \<open>Splitting a bus address loses nothing.\<close>

lemma low_mask32: "(0xffffffff :: u64) = mask 32"
  by (simp add: mask_eq_exp_minus_1)

lemma PCI_DMA_L_ucast: "PCI_DMA_L a = ucast a"
  unfolding PCI_DMA_L_def low_mask32 by (rule bit_eqI) (auto simp: bit_simps)

lemma PCI_DMA_join: "push_bit 32 (ucast (PCI_DMA_H a)) OR ucast (PCI_DMA_L a) = (a :: u64)"
  unfolding PCI_DMA_H_def PCI_DMA_L_ucast
  by (rule bit_eqI) (auto simp: bit_simps)

lemma PCI_DMA_inj: "PCI_DMA_H a = PCI_DMA_H b \<Longrightarrow> PCI_DMA_L a = PCI_DMA_L b \<Longrightarrow> a = b"
  by (metis PCI_DMA_join)

subsection \<open>Register layout\<close>

text \<open>A packed structure of 32-bit registers: its fields in order, each with its number of words.\<close>

type_synonym layout = "(string \<times> nat) list"

fun field_ofs :: "layout \<Rightarrow> string \<Rightarrow> nat" where
  "field_ofs [] f = 0"
| "field_ofs ((g, n) # fs) f = (if f = g then 0 else 4 * n + field_ofs fs f)"

definition engine_regs :: layout where
  "engine_regs =
     [(''identifier'', 1), (''control'', 1), (''control_w1s'', 1), (''control_w1c'', 1),
      (''reserved_1'', 12),
      (''status'', 1), (''status_rc'', 1), (''completed_desc_count'', 1), (''alignments'', 1),
      (''reserved_2'', 14),
      (''poll_mode_wb_lo'', 1), (''poll_mode_wb_hi'', 1), (''interrupt_enable_mask'', 1),
      (''interrupt_enable_mask_w1s'', 1), (''interrupt_enable_mask_w1c'', 1),
      (''reserved_3'', 9),
      (''perf_ctrl'', 1), (''perf_cyc_lo'', 1), (''perf_cyc_hi'', 1), (''perf_dat_lo'', 1),
      (''perf_dat_hi'', 1), (''perf_pnd_lo'', 1), (''perf_pnd_hi'', 1)]"

definition engine_sgdma_regs :: layout where
  "engine_sgdma_regs =
     [(''identifier'', 1), (''reserved_1'', 31), (''first_desc_lo'', 1), (''first_desc_hi'', 1),
      (''first_desc_adjacent'', 1), (''credits'', 1)]"

definition interrupt_regs :: layout where
  "interrupt_regs =
     [(''identifier'', 1), (''user_int_enable'', 1), (''user_int_enable_w1s'', 1),
      (''user_int_enable_w1c'', 1), (''channel_int_enable'', 1), (''channel_int_enable_w1s'', 1),
      (''channel_int_enable_w1c'', 1), (''reserved_1'', 9),
      (''user_int_request'', 1), (''channel_int_request'', 1), (''user_int_pending'', 1),
      (''channel_int_pending'', 1), (''reserved_2'', 12),
      (''user_msi_vector'', 8), (''channel_msi_vector'', 8)]"

definition config_regs :: layout where
  "config_regs = [(''identifier'', 1), (''reserved_1'', 4), (''msi_enable'', 1)]"

definition sgdma_common_regs :: layout where
  "sgdma_common_regs =
     [(''padding'', 8), (''credit_mode_enable'', 1), (''credit_mode_enable_w1s'', 1),
      (''credit_mode_enable_w1c'', 1)]"

lemma engine_regs_ofs [reg_offsets]:
  "field_ofs engine_regs ''identifier'' = 0x00"
  "field_ofs engine_regs ''control'' = 0x04"
  "field_ofs engine_regs ''control_w1s'' = 0x08"
  "field_ofs engine_regs ''control_w1c'' = 0x0C"
  "field_ofs engine_regs ''status'' = 0x40"
  "field_ofs engine_regs ''status_rc'' = 0x44"
  "field_ofs engine_regs ''completed_desc_count'' = 0x48"
  "field_ofs engine_regs ''alignments'' = 0x4C"
  "field_ofs engine_regs ''poll_mode_wb_lo'' = 0x88"
  "field_ofs engine_regs ''poll_mode_wb_hi'' = 0x8C"
  "field_ofs engine_regs ''interrupt_enable_mask'' = 0x90"
  "field_ofs engine_regs ''interrupt_enable_mask_w1s'' = 0x94"
  "field_ofs engine_regs ''interrupt_enable_mask_w1c'' = 0x98"
  "field_ofs engine_regs ''perf_ctrl'' = 0xC0"
  "field_ofs engine_regs ''perf_cyc_lo'' = 0xC4"
  "field_ofs engine_regs ''perf_cyc_hi'' = 0xC8"
  "field_ofs engine_regs ''perf_dat_lo'' = 0xCC"
  "field_ofs engine_regs ''perf_dat_hi'' = 0xD0"
  "field_ofs engine_regs ''perf_pnd_lo'' = 0xD4"
  "field_ofs engine_regs ''perf_pnd_hi'' = 0xD8"
  by (simp_all add: engine_regs_def)

lemma engine_sgdma_regs_ofs [reg_offsets]:
  "field_ofs engine_sgdma_regs ''first_desc_lo'' = 0x80"
  "field_ofs engine_sgdma_regs ''first_desc_hi'' = 0x84"
  "field_ofs engine_sgdma_regs ''first_desc_adjacent'' = 0x88"
  "field_ofs engine_sgdma_regs ''credits'' = 0x8C"
  by (simp_all add: engine_sgdma_regs_def)

lemma interrupt_regs_ofs [reg_offsets]:
  "field_ofs interrupt_regs ''identifier'' = 0x00"
  "field_ofs interrupt_regs ''user_int_enable'' = 0x04"
  "field_ofs interrupt_regs ''user_int_enable_w1s'' = 0x08"
  "field_ofs interrupt_regs ''user_int_enable_w1c'' = 0x0C"
  "field_ofs interrupt_regs ''channel_int_enable'' = 0x10"
  "field_ofs interrupt_regs ''channel_int_enable_w1s'' = 0x14"
  "field_ofs interrupt_regs ''channel_int_enable_w1c'' = 0x18"
  "field_ofs interrupt_regs ''user_int_request'' = 0x40"
  "field_ofs interrupt_regs ''channel_int_request'' = 0x44"
  "field_ofs interrupt_regs ''user_int_pending'' = 0x48"
  "field_ofs interrupt_regs ''channel_int_pending'' = 0x4C"
  "field_ofs interrupt_regs ''user_msi_vector'' = 0x80"
  "field_ofs interrupt_regs ''channel_msi_vector'' = 0xA0"
  by (simp_all add: interrupt_regs_def)

lemma other_regs_ofs [reg_offsets]:
  "field_ofs config_regs ''identifier'' = 0x00"
  "field_ofs sgdma_common_regs ''credit_mode_enable_w1s'' = 0x24"
  "field_ofs sgdma_common_regs ''credit_mode_enable_w1c'' = 0x28"
  by (simp_all add: config_regs_def sgdma_common_regs_def)
subsection \<open>Enumerations\<close>

datatype transfer_state =
    TRANSFER_STATE_NEW | TRANSFER_STATE_SUBMITTED | TRANSFER_STATE_COMPLETED
  | TRANSFER_STATE_FAILED | TRANSFER_STATE_ABORTED

text \<open>The direction type is the kernel's; a zeroed structure holds \<open>DMA_BIDIRECTIONAL\<close>.\<close>

datatype dma_data_direction = DMA_BIDIRECTIONAL | DMA_TO_DEVICE | DMA_FROM_DEVICE | DMA_NONE

text \<open>The shutdown state is declared as an enumeration and used as a bit set.\<close>

definition ENGINE_SHUTDOWN_NONE :: u32 where "ENGINE_SHUTDOWN_NONE = 0"
definition ENGINE_SHUTDOWN_REQUEST :: u32 where "ENGINE_SHUTDOWN_REQUEST = 1"
definition ENGINE_SHUTDOWN_IDLE :: u32 where "ENGINE_SHUTDOWN_IDLE = 2"

lemmas shutdown_defs [xdma_consts] =
  ENGINE_SHUTDOWN_NONE_def ENGINE_SHUTDOWN_REQUEST_def ENGINE_SHUTDOWN_IDLE_def

subsection \<open>Structures\<close>

text \<open>A descriptor: eight words, 32 bytes.  The host is little-endian, so the byte-order macros
  are the identity.\<close>

record xdma_desc =
  ds_control :: u32
  ds_bytes :: u32
  ds_src_addr_lo :: u32
  ds_src_addr_hi :: u32
  ds_dst_addr_lo :: u32
  ds_dst_addr_hi :: u32
  ds_next_lo :: u32
  ds_next_hi :: u32

definition sizeof_xdma_desc :: nat where "sizeof_xdma_desc = 32"
definition sizeof_xdma_result :: nat where "sizeof_xdma_result = 32"

definition zero_desc :: xdma_desc where
  "zero_desc = \<lparr>ds_control = 0, ds_bytes = 0, ds_src_addr_lo = 0, ds_src_addr_hi = 0,
     ds_dst_addr_lo = 0, ds_dst_addr_hi = 0, ds_next_lo = 0, ds_next_hi = 0\<rparr>"

record sw_desc =
  sd_addr :: u64
  sd_len :: u32

record scatterlist =
  sg_dma_address :: u64
  sg_dma_len :: u32

record sg_table =
  sgl :: "scatterlist list"
  nents :: nat
  orig_nents :: nat

text \<open>A request; its two embedded transfers live in the heap of transfers, at an offset from the
  request's address.  The array of software descriptors is a list.\<close>

record xdma_request_cb =
  r_addr :: ptr
  r_sgt :: ptr
  r_ep_addr :: u64
  r_aperture :: u32
  r_total_len :: u32
  r_offset :: u32
  r_sg :: nat
  r_sg_idx :: u32
  r_sg_offset :: u32
  r_cb :: ptr
  r_sw_desc_idx :: u32
  r_sw_desc_cnt :: u32
  r_sdesc :: "sw_desc list"

definition zero_request :: xdma_request_cb where
  "zero_request = \<lparr>r_addr = 0, r_sgt = 0, r_ep_addr = 0, r_aperture = 0, r_total_len = 0, r_offset = 0,
     r_sg = 0, r_sg_idx = 0, r_sg_offset = 0, r_cb = 0, r_sw_desc_idx = 0, r_sw_desc_cnt = 0, r_sdesc = []\<rparr>"

text \<open>The handle of an I/O call; the request it points to is held by value.\<close>

record xdma_io_cb =
  c_buf :: u64
  c_len :: u64
  c_private :: ptr
  c_pages_nr :: u32
  c_sgt :: ptr
  c_pages :: "u64 list"
  c_count :: u32
  c_ep_addr :: u64
  c_req :: "xdma_request_cb option"
  c_write :: bool
  c_io_done :: bool

definition zero_sgt :: sg_table where
  "zero_sgt = \<lparr>sgl = [], nents = 0, orig_nents = 0\<rparr>"

definition zero_io_cb :: xdma_io_cb where
  "zero_io_cb = \<lparr>c_buf = 0, c_len = 0, c_private = 0, c_pages_nr = 0, c_sgt = 0, c_pages = [], c_count = 0,
     c_ep_addr = 0, c_req = None, c_write = False, c_io_done = False\<rparr>"

record xdma_transfer =
  t_desc_virt :: ptr
  t_res_virt :: ptr
  t_res_bus :: u64
  t_desc_bus :: u64
  t_desc_adjacent :: u32
  t_desc_num :: u32
  t_desc_index :: u32
  t_desc_cmpl :: u32
  t_desc_cmpl_th :: u32
  t_dir :: dma_data_direction
  t_state :: transfer_state
  t_flags :: u32
  t_cyclic :: bool
  t_last_in_request :: bool
  t_len :: u32
  t_sgt :: ptr
  t_cb :: ptr

definition zero_transfer :: xdma_transfer where
  "zero_transfer = \<lparr>t_desc_virt = 0, t_res_virt = 0, t_res_bus = 0, t_desc_bus = 0,
     t_desc_adjacent = 0, t_desc_num = 0, t_desc_index = 0, t_desc_cmpl = 0, t_desc_cmpl_th = 0,
     t_dir = DMA_BIDIRECTIONAL, t_state = TRANSFER_STATE_NEW, t_flags = 0, t_cyclic = False,
     t_last_in_request = False, t_len = 0, t_sgt = 0, t_cb = 0\<rparr>"

text \<open>The performance measurement block of \<^verbatim>\<open>cdev_sgdma.h\<close>.\<close>

record xdma_performance_ioctl =
  pf_version :: u32
  pf_transfer_size :: u32
  pf_stopped :: u32
  pf_iterations :: u32
  pf_clock_cycle_count :: u64
  pf_data_cycle_count :: u64
  pf_pending_count :: u64

text \<open>The bit fields \<open>streaming\<close>, \<open>device_open\<close>, \<open>running\<close>, \<open>non_incr_addr\<close> and \<open>eop_flush\<close> are
  one bit wide and are Boolean here; \<open>channel\<close> is two bits wide.\<close>

record xdma_engine =
  e_magic :: u64
  e_xdev :: ptr
  e_name :: string
  e_regs :: ptr
  e_sgdma_regs :: ptr
  e_bypass_offset :: u32
  e_shutdown :: u32
  e_dir :: dma_data_direction
  e_addr_align :: u8
  e_len_granularity :: u8
  e_addr_bits :: u8
  e_channel :: "2 word"
  e_streaming :: bool
  e_device_open :: bool
  e_running :: bool
  e_non_incr_addr :: bool
  e_eop_flush :: bool
  e_desc_dequeued :: u32
  e_desc_max :: u32
  e_status :: u32
  e_interrupt_enable_mask_value :: u32
  e_transfer_list :: "ptr list"
  e_cyclic_result :: ptr
  e_cyclic_result_bus :: u64
  e_perf_buf_virt :: ptr
  e_perf_buf_bus :: u64
  e_poll_mode_addr_virt :: ptr
  e_poll_mode_bus :: u64
  e_msix_irq_line :: u32
  e_irq_bitmask :: u32
  e_desc_bus :: u64
  e_desc :: ptr
  e_desc_idx :: u32
  e_desc_used :: u32
  e_xdma_perf :: "xdma_performance_ioctl option"
  e_cmplthp :: ptr
  e_intr_work_cpu :: u32

definition zero_engine :: xdma_engine where
  "zero_engine = \<lparr>e_magic = 0, e_xdev = 0, e_name = [], e_regs = 0, e_sgdma_regs = 0,
     e_bypass_offset = 0, e_shutdown = 0, e_dir = DMA_BIDIRECTIONAL, e_addr_align = 0,
     e_len_granularity = 0, e_addr_bits = 0, e_channel = 0, e_streaming = False,
     e_device_open = False, e_running = False, e_non_incr_addr = False, e_eop_flush = False,
     e_desc_dequeued = 0, e_desc_max = 0, e_status = 0, e_interrupt_enable_mask_value = 0,
     e_transfer_list = [], e_cyclic_result = 0, e_cyclic_result_bus = 0, e_perf_buf_virt = 0,
     e_perf_buf_bus = 0, e_poll_mode_addr_virt = 0, e_poll_mode_bus = 0, e_msix_irq_line = 0,
     e_irq_bitmask = 0, e_desc_bus = 0, e_desc = 0, e_desc_idx = 0, e_desc_used = 0,
     e_xdma_perf = None, e_cmplthp = 0, e_intr_work_cpu = 0\<rparr>"

text \<open>A completion thread of \<^verbatim>\<open>xdma_thread.h\<close>; its list of work items is a list of engines, the
  handlers are those of \<^verbatim>\<open>xdma_thread.c\<close>, set or not.\<close>

record xdma_kthread =
  th_name :: string
  th_cpu :: u16
  th_id :: u16
  th_timeout :: u32
  th_schedule :: u32
  th_task :: ptr
  th_work_cnt :: u32
  th_work_list :: "ptr list"
  th_fpending :: bool
  th_fproc :: bool

definition zero_kthread :: xdma_kthread where
  "zero_kthread = \<lparr>th_name = [], th_cpu = 0, th_id = 0, th_timeout = 0, th_schedule = 0, th_task = 0,
     th_work_cnt = 0, th_work_list = [], th_fpending = False, th_fproc = False\<rparr>"

record xdma_user_irq =
  ui_user_idx :: u8
  ui_events_irq :: u8
  ui_handler :: ptr
  ui_dev :: ptr

text \<open>The device structure; its embedded engine arrays are arrays of engine addresses.\<close>

record xdma_dev =
  d_magic :: u64
  d_pdev :: ptr
  d_idx :: int
  d_flags :: u32
  d_bar :: "int \<Rightarrow> ptr"
  d_user_bar_idx :: int
  d_config_bar_idx :: int
  d_bypass_bar_idx :: int
  d_regions_in_use :: bool
  d_got_regions :: bool
  d_user_max :: nat
  d_c2h_channel_max :: nat
  d_h2c_channel_max :: nat
  d_irq_count :: u32
  d_irq_line :: int
  d_msi_enabled :: bool
  d_msix_enabled :: bool
  d_user_irq :: "nat \<Rightarrow> xdma_user_irq"
  d_mask_irq_user :: u32
  d_engines_num :: int
  d_mask_irq_h2c :: u32
  d_mask_irq_c2h :: u32
  d_engine_h2c :: "nat \<Rightarrow> ptr"
  d_engine_c2h :: "nat \<Rightarrow> ptr"
  d_input_dev :: ptr
  d_feature_id :: u64

text \<open>A character device; its user interrupt is a device and a number.\<close>

record xdma_cdev =
  cd_magic :: u64
  cd_xpdev :: ptr
  cd_xdev :: ptr
  cd_cdevno :: "int \<times> int"
  cd_bar :: int
  cd_base :: nat
  cd_engine :: ptr
  cd_user_irq :: "(ptr \<times> nat) option"
  cd_sys_device :: ptr

text \<open>The book-keeping of a PCI function; the embedded character devices are addresses.\<close>

record xdma_pci_dev =
  xp_magic :: u64
  xp_pdev :: ptr
  xp_xdev :: ptr
  xp_major :: int
  xp_user_max :: nat
  xp_c2h_channel_max :: nat
  xp_h2c_channel_max :: nat
  xp_flags :: u32
  xp_ctrl_cdev :: ptr
  xp_sgdma_c2h_cdev :: "nat \<Rightarrow> ptr"
  xp_sgdma_h2c_cdev :: "nat \<Rightarrow> ptr"
  xp_events_cdev :: "nat \<Rightarrow> ptr"
  xp_user_cdev :: ptr
  xp_bypass_c2h_cdev :: "nat \<Rightarrow> ptr"
  xp_bypass_h2c_cdev :: "nat \<Rightarrow> ptr"
  xp_bypass_cdev_base :: ptr
  xp_xvc_cdev :: ptr

text \<open>An asynchronous call on a character device: its file, the handles of its requests, and the
  counters.\<close>

record cdev_async_io =
  ca_iocb :: ptr
  ca_cb :: ptr
  ca_write :: bool
  ca_cancel :: bool
  ca_cmpl_cnt :: int
  ca_req_cnt :: int
  ca_res :: int
  ca_res2 :: int
  ca_err_cnt :: int

text \<open>An open file: its private data, position and flags.\<close>

record open_file =
  f_private_data :: ptr
  f_pos :: int
  f_flags :: u32

record char_state =
  cs_cdev :: "ptr \<Rightarrow> xdma_cdev"
  cs_xpdev :: "ptr \<Rightarrow> xdma_pci_dev"
  cs_caio :: "ptr \<Rightarrow> cdev_async_io"
  cs_file :: "ptr \<Rightarrow> open_file"
  cs_drvdata :: "ptr \<Rightarrow> ptr"
  cs_class :: ptr
  cs_cache :: ptr
  cs_xpdev_cnt :: int

definition zero_cdev :: xdma_cdev where
  "zero_cdev = \<lparr>cd_magic = 0, cd_xpdev = 0, cd_xdev = 0, cd_cdevno = (0, 0), cd_bar = 0, cd_base = 0, cd_engine = 0,
     cd_user_irq = None, cd_sys_device = 0\<rparr>"

definition zero_xpdev :: xdma_pci_dev where
  "zero_xpdev = \<lparr>xp_magic = 0, xp_pdev = 0, xp_xdev = 0, xp_major = 0, xp_user_max = 0, xp_c2h_channel_max = 0,
     xp_h2c_channel_max = 0, xp_flags = 0, xp_ctrl_cdev = 0, xp_sgdma_c2h_cdev = (\<lambda>_. 0), xp_sgdma_h2c_cdev = (\<lambda>_. 0),
     xp_events_cdev = (\<lambda>_. 0), xp_user_cdev = 0, xp_bypass_c2h_cdev = (\<lambda>_. 0), xp_bypass_h2c_cdev = (\<lambda>_. 0),
     xp_bypass_cdev_base = 0, xp_xvc_cdev = 0\<rparr>"

definition zero_caio :: cdev_async_io where
  "zero_caio = \<lparr>ca_iocb = 0, ca_cb = 0, ca_write = False, ca_cancel = False, ca_cmpl_cnt = 0, ca_req_cnt = 0,
     ca_res = 0, ca_res2 = 0, ca_err_cnt = 0\<rparr>"

definition char_state0 :: char_state where
  "char_state0 = \<lparr>cs_cdev = (\<lambda>_. zero_cdev), cs_xpdev = (\<lambda>_. zero_xpdev), cs_caio = (\<lambda>_. zero_caio),
     cs_file = (\<lambda>_. \<lparr>f_private_data = 0, f_pos = 0, f_flags = 0\<rparr>), cs_drvdata = (\<lambda>_. 0), cs_class = 0, cs_cache = 0,
     cs_xpdev_cnt = 0\<rparr>"

subsection \<open>The state of the driver and its environment\<close>

record kst =
  trace :: "event list"
  k_eng :: "ptr \<Rightarrow> xdma_engine"
  k_xfer :: "ptr \<Rightarrow> xdma_transfer"
  k_desc :: "ptr \<Rightarrow> xdma_desc"
  k_dev :: "ptr \<Rightarrow> xdma_dev"
  k_sgt :: "ptr \<Rightarrow> sg_table"
  k_cb :: "ptr \<Rightarrow> xdma_io_cb"
  k_thr :: "ptr \<Rightarrow> xdma_kthread"
  k_cs_threads :: ptr
  k_thread_cnt :: u32
  k_xdev_list :: "ptr list"
  k_char :: char_state

text \<open>Zeroed structures, and the state before anything has happened.\<close>

definition zero_user_irq :: xdma_user_irq where
  "zero_user_irq = \<lparr>ui_user_idx = 0, ui_events_irq = 0, ui_handler = 0, ui_dev = 0\<rparr>"

definition zero_dev :: xdma_dev where
  "zero_dev = \<lparr>d_magic = 0, d_pdev = 0, d_idx = 0, d_flags = 0, d_bar = (\<lambda>_. 0), d_user_bar_idx = 0,
     d_config_bar_idx = 0, d_bypass_bar_idx = 0, d_regions_in_use = False, d_got_regions = False,
     d_user_max = 0, d_c2h_channel_max = 0, d_h2c_channel_max = 0, d_irq_count = 0, d_irq_line = 0,
     d_msi_enabled = False, d_msix_enabled = False, d_user_irq = (\<lambda>_. zero_user_irq),
     d_mask_irq_user = 0, d_engines_num = 0, d_mask_irq_h2c = 0, d_mask_irq_c2h = 0,
     d_engine_h2c = (\<lambda>_. 0), d_engine_c2h = (\<lambda>_. 0), d_input_dev = 0, d_feature_id = 0\<rparr>"

definition kst0 :: kst where
  "kst0 = \<lparr>trace = [], k_eng = (\<lambda>_. zero_engine), k_xfer = (\<lambda>_. zero_transfer),
     k_desc = (\<lambda>_. zero_desc), k_dev = (\<lambda>_. zero_dev), k_sgt = (\<lambda>_. zero_sgt), k_cb = (\<lambda>_. zero_io_cb),
     k_thr = (\<lambda>_. zero_kthread), k_cs_threads = 0, k_thread_cnt = 0,
     k_xdev_list = [], k_char = char_state0\<rparr>"

text \<open>
  The size of a request header depends on the kernel configuration (locks and wait queues), so it is
  a field too, as are the place of its embedded transfers and the frequency \<open>HZ\<close> of the clock.
  \<open>dma_map tr l\<close> is the list of entries the mapping of a scatter-gather list returns, empty on failure.  \<open>hw tr a\<close> is the value a 32-bit read of the device-visible address \<open>a\<close> returns after the events
  \<open>tr\<close>; \<open>jiffies tr\<close> the kernel clock then; \<open>ksvc tr f x\<close> the result of the kernel service \<open>f\<close> on
  \<open>x\<close>, constant further arguments being part of the name.  \<open>irq_vector d i\<close> is the interrupt line of vector \<open>i\<close> of the PCI function \<open>d\<close>,
  \<open>pdev_no_msi\<close> and \<open>pdev_bus_flags\<close> what its structure and the buses above it say about message
  signalled interrupts, \<open>bar_len\<close> the length of a BAR; \<open>umem\<close> is the memory of the calling process,
  with \<open>None\<close> where it cannot be read, \<open>uwr\<close> tells where it can be written, and \<open>gup\<close> is the answer to
  pinning pages of it: an error, or the pages that could be pinned.  The places of the embedded engines,
  character devices and tables are fields as well.
\<close>

record env =
  poll_mode :: u32
  interrupt_mode :: u32
  enable_st_c2h_credit :: u32
  desc_blen_max :: u32
  sizeof_request_cb :: u32
  offsetof_tfer :: nat
  sizeof_transfer :: nat
  sizeof_kthread :: nat
  sizeof_dev :: nat
  sizeof_engine :: nat
  offsetof_h2c :: nat
  offsetof_c2h :: nat
  sizeof_io_cb :: nat
  offsetof_sgt :: nat
  cdev_ofs :: "string \<Rightarrow> nat \<Rightarrow> nat"
  HZ :: u64
  dma_map :: "event list \<Rightarrow> scatterlist list \<Rightarrow> scatterlist list"
  hw :: "event list \<Rightarrow> ptr \<Rightarrow> u32"
  jiffies :: "event list \<Rightarrow> u64"
  ksvc :: "event list \<Rightarrow> string \<Rightarrow> ptr \<Rightarrow> int"
  irq_vector :: "ptr \<Rightarrow> nat \<Rightarrow> int"
  pdev_no_msi :: "ptr \<Rightarrow> bool"
  pdev_bus_flags :: "ptr \<Rightarrow> u32 list"
  bar_len :: "ptr \<Rightarrow> nat \<Rightarrow> u64"
  umem :: "event list \<Rightarrow> u64 \<Rightarrow> u8 option"
  uwr :: "event list \<Rightarrow> u64 \<Rightarrow> bool"
  gup :: "event list \<Rightarrow> u64 \<Rightarrow> u32 \<Rightarrow> int + u64 list"

text \<open>A quiet environment: interrupt mode, a device whose registers all read 0.\<close>

definition env0 :: env where
  "env0 = \<lparr>poll_mode = 0, interrupt_mode = 0, enable_st_c2h_credit = 0,
     desc_blen_max = XDMA_DESC_BLEN_MAX, sizeof_request_cb = 400, offsetof_tfer = 64,
     sizeof_transfer = 160, sizeof_kthread = 144, sizeof_dev = 8192, sizeof_engine = 512,
     offsetof_h2c = 2048, offsetof_c2h = 4096, sizeof_io_cb = 96, offsetof_sgt = 32, cdev_ofs = (\<lambda>_ i. i),
     HZ = 250, dma_map = (\<lambda>_ l. l), hw = (\<lambda>_ _. 0),
     jiffies = (\<lambda>_. 0), ksvc = (\<lambda>_ _ _. 0), irq_vector = (\<lambda>_ i. int i + 32),
     pdev_no_msi = (\<lambda>_. False), pdev_bus_flags = (\<lambda>_. []), bar_len = (\<lambda>_ _. 0), umem = (\<lambda>_ _. Some 0), uwr = (\<lambda>_ _. True),
     gup = (\<lambda>_ a n. Inr (map (\<lambda>i. a div 4096 + of_nat i) [0..<unat n]))\<rparr>"

definition emit :: "event \<Rightarrow> kst \<Rightarrow> kst" where
  "emit ev s = s\<lparr>trace := ev # trace s\<rparr>"

definition upd_eng :: "ptr \<Rightarrow> (xdma_engine \<Rightarrow> xdma_engine) \<Rightarrow> kst \<Rightarrow> kst" where
  "upd_eng e f s = s\<lparr>k_eng := (k_eng s)(e := f (k_eng s e))\<rparr>"

definition upd_xfer :: "ptr \<Rightarrow> (xdma_transfer \<Rightarrow> xdma_transfer) \<Rightarrow> kst \<Rightarrow> kst" where
  "upd_xfer t f s = s\<lparr>k_xfer := (k_xfer s)(t := f (k_xfer s t))\<rparr>"

definition upd_desc :: "ptr \<Rightarrow> (xdma_desc \<Rightarrow> xdma_desc) \<Rightarrow> kst \<Rightarrow> kst" where
  "upd_desc p f s = s\<lparr>k_desc := (k_desc s)(p := f (k_desc s p))\<rparr>"

definition upd_dev :: "ptr \<Rightarrow> (xdma_dev \<Rightarrow> xdma_dev) \<Rightarrow> kst \<Rightarrow> kst" where
  "upd_dev d f s = s\<lparr>k_dev := (k_dev s)(d := f (k_dev s d))\<rparr>"

definition upd_sgt :: "ptr \<Rightarrow> (sg_table \<Rightarrow> sg_table) \<Rightarrow> kst \<Rightarrow> kst" where
  "upd_sgt p f s = s\<lparr>k_sgt := (k_sgt s)(p := f (k_sgt s p))\<rparr>"

definition upd_cb :: "ptr \<Rightarrow> (xdma_io_cb \<Rightarrow> xdma_io_cb) \<Rightarrow> kst \<Rightarrow> kst" where
  "upd_cb p f s = s\<lparr>k_cb := (k_cb s)(p := f (k_cb s p))\<rparr>"

definition upd_thr :: "ptr \<Rightarrow> (xdma_kthread \<Rightarrow> xdma_kthread) \<Rightarrow> kst \<Rightarrow> kst" where
  "upd_thr p f s = s\<lparr>k_thr := (k_thr s)(p := f (k_thr s p))\<rparr>"

definition upd_char :: "(char_state \<Rightarrow> char_state) \<Rightarrow> kst \<Rightarrow> kst" where
  "upd_char f s = s\<lparr>k_char := f (k_char s)\<rparr>"

lemmas upd_defs = emit_def upd_eng_def upd_xfer_def upd_desc_def upd_dev_def upd_sgt_def upd_cb_def
  upd_thr_def upd_char_def

lemma emit_sel [simp]:
  "trace (emit ev s) = ev # trace s" "k_eng (emit ev s) = k_eng s" "k_xfer (emit ev s) = k_xfer s"
  "k_desc (emit ev s) = k_desc s" "k_dev (emit ev s) = k_dev s"
  "k_xdev_list (emit ev s) = k_xdev_list s"
  "k_thr (emit ev s) = k_thr s" "k_cs_threads (emit ev s) = k_cs_threads s"
  "k_thread_cnt (emit ev s) = k_thread_cnt s" "k_char (emit ev s) = k_char s"
  "k_sgt (emit ev s) = k_sgt s" "k_cb (emit ev s) = k_cb s"
  by (simp_all add: emit_def)

lemma upd_eng_sel [simp]:
  "trace (upd_eng e f s) = trace s" "k_eng (upd_eng e f s) = (k_eng s)(e := f (k_eng s e))"
  "k_xfer (upd_eng e f s) = k_xfer s" "k_desc (upd_eng e f s) = k_desc s"
  "k_dev (upd_eng e f s) = k_dev s" "k_xdev_list (upd_eng e f s) = k_xdev_list s"
  "k_thr (upd_eng e f s) = k_thr s" "k_cs_threads (upd_eng e f s) = k_cs_threads s"
  "k_thread_cnt (upd_eng e f s) = k_thread_cnt s" "k_char (upd_eng e f s) = k_char s"
  "k_sgt (upd_eng e f s) = k_sgt s" "k_cb (upd_eng e f s) = k_cb s"
  by (simp_all add: upd_eng_def)

lemma upd_xfer_sel [simp]:
  "trace (upd_xfer t f s) = trace s" "k_eng (upd_xfer t f s) = k_eng s"
  "k_xfer (upd_xfer t f s) = (k_xfer s)(t := f (k_xfer s t))" "k_desc (upd_xfer t f s) = k_desc s"
  "k_dev (upd_xfer t f s) = k_dev s" "k_xdev_list (upd_xfer t f s) = k_xdev_list s"
  "k_thr (upd_xfer t f s) = k_thr s" "k_cs_threads (upd_xfer t f s) = k_cs_threads s"
  "k_thread_cnt (upd_xfer t f s) = k_thread_cnt s" "k_char (upd_xfer t f s) = k_char s"
  "k_sgt (upd_xfer t f s) = k_sgt s" "k_cb (upd_xfer t f s) = k_cb s"
  by (simp_all add: upd_xfer_def)

lemma upd_desc_sel [simp]:
  "trace (upd_desc p f s) = trace s" "k_eng (upd_desc p f s) = k_eng s"
  "k_xfer (upd_desc p f s) = k_xfer s" "k_desc (upd_desc p f s) = (k_desc s)(p := f (k_desc s p))"
  "k_dev (upd_desc p f s) = k_dev s" "k_xdev_list (upd_desc p f s) = k_xdev_list s"
  "k_thr (upd_desc p f s) = k_thr s" "k_cs_threads (upd_desc p f s) = k_cs_threads s"
  "k_thread_cnt (upd_desc p f s) = k_thread_cnt s" "k_char (upd_desc p f s) = k_char s"
  "k_sgt (upd_desc p f s) = k_sgt s" "k_cb (upd_desc p f s) = k_cb s"
  by (simp_all add: upd_desc_def)

lemma upd_dev_sel [simp]:
  "trace (upd_dev d f s) = trace s" "k_eng (upd_dev d f s) = k_eng s"
  "k_xfer (upd_dev d f s) = k_xfer s" "k_desc (upd_dev d f s) = k_desc s"
  "k_dev (upd_dev d f s) = (k_dev s)(d := f (k_dev s d))"
  "k_xdev_list (upd_dev d f s) = k_xdev_list s"
  "k_thr (upd_dev d f s) = k_thr s" "k_cs_threads (upd_dev d f s) = k_cs_threads s"
  "k_thread_cnt (upd_dev d f s) = k_thread_cnt s" "k_char (upd_dev d f s) = k_char s"
  "k_sgt (upd_dev d f s) = k_sgt s" "k_cb (upd_dev d f s) = k_cb s"
  by (simp_all add: upd_dev_def)

lemma upd_sgt_sel [simp]:
  "trace (upd_sgt p f s) = trace s" "k_eng (upd_sgt p f s) = k_eng s" "k_xfer (upd_sgt p f s) = k_xfer s"
  "k_desc (upd_sgt p f s) = k_desc s" "k_dev (upd_sgt p f s) = k_dev s" "k_cb (upd_sgt p f s) = k_cb s"
  "k_sgt (upd_sgt p f s) = (k_sgt s)(p := f (k_sgt s p))" "k_xdev_list (upd_sgt p f s) = k_xdev_list s"
  "k_thr (upd_sgt p f s) = k_thr s" "k_cs_threads (upd_sgt p f s) = k_cs_threads s"
  "k_thread_cnt (upd_sgt p f s) = k_thread_cnt s" "k_char (upd_sgt p f s) = k_char s"
  by (simp_all add: upd_sgt_def)

lemma upd_cb_sel [simp]:
  "trace (upd_cb p f s) = trace s" "k_eng (upd_cb p f s) = k_eng s" "k_xfer (upd_cb p f s) = k_xfer s"
  "k_desc (upd_cb p f s) = k_desc s" "k_dev (upd_cb p f s) = k_dev s" "k_sgt (upd_cb p f s) = k_sgt s"
  "k_cb (upd_cb p f s) = (k_cb s)(p := f (k_cb s p))" "k_xdev_list (upd_cb p f s) = k_xdev_list s"
  "k_thr (upd_cb p f s) = k_thr s" "k_cs_threads (upd_cb p f s) = k_cs_threads s"
  "k_thread_cnt (upd_cb p f s) = k_thread_cnt s" "k_char (upd_cb p f s) = k_char s"
  by (simp_all add: upd_cb_def)

lemma upd_thr_sel [simp]:
  "trace (upd_thr p f s) = trace s" "k_eng (upd_thr p f s) = k_eng s" "k_xfer (upd_thr p f s) = k_xfer s"
  "k_desc (upd_thr p f s) = k_desc s" "k_dev (upd_thr p f s) = k_dev s" "k_sgt (upd_thr p f s) = k_sgt s"
  "k_cb (upd_thr p f s) = k_cb s" "k_xdev_list (upd_thr p f s) = k_xdev_list s"
  "k_thr (upd_thr p f s) = (k_thr s)(p := f (k_thr s p))" "k_cs_threads (upd_thr p f s) = k_cs_threads s"
  "k_thread_cnt (upd_thr p f s) = k_thread_cnt s" "k_char (upd_thr p f s) = k_char s"
  by (simp_all add: upd_thr_def)

lemma upd_char_sel [simp]:
  "trace (upd_char f s) = trace s" "k_eng (upd_char f s) = k_eng s" "k_xfer (upd_char f s) = k_xfer s"
  "k_desc (upd_char f s) = k_desc s" "k_dev (upd_char f s) = k_dev s" "k_sgt (upd_char f s) = k_sgt s"
  "k_cb (upd_char f s) = k_cb s" "k_xdev_list (upd_char f s) = k_xdev_list s" "k_thr (upd_char f s) = k_thr s"
  "k_cs_threads (upd_char f s) = k_cs_threads s" "k_thread_cnt (upd_char f s) = k_thread_cnt s"
  "k_char (upd_char f s) = f (k_char s)"
  by (simp_all add: upd_char_def)

subsection \<open>Register access and kernel services\<close>

definition read_register :: "env \<Rightarrow> ptr \<Rightarrow> kst \<Rightarrow> u32 \<times> kst" where
  "read_register ev iomem s = (let v = hw ev (trace s) iomem in (v, emit (Rd iomem v) s))"

definition write_register :: "u32 \<Rightarrow> ptr \<Rightarrow> kst \<Rightarrow> kst" where
  "write_register v mem s = emit (Wr mem v) s"

definition kcall :: "env \<Rightarrow> string \<Rightarrow> ptr \<Rightarrow> kst \<Rightarrow> int \<times> kst" where
  "kcall ev f x s = (let r = ksvc ev (trace s) f x in (r, emit (Kernel f x r) s))"

definition build_u32 :: "u32 \<Rightarrow> u32 \<Rightarrow> u32" where
  "build_u32 hi lo = push_bit 16 (hi AND 0xFFFF) OR (lo AND 0xFFFF)"

definition build_u64 :: "u64 \<Rightarrow> u64 \<Rightarrow> u64" where
  "build_u64 hi lo = push_bit 32 (hi AND 0xFFFFFFF) OR (lo AND 0xFFFFFFFF)"

lemma read_register_sel [simp]:
  "fst (read_register ev a s) = hw ev (trace s) a"
  "trace (snd (read_register ev a s)) = Rd a (hw ev (trace s) a) # trace s"
  "k_eng (snd (read_register ev a s)) = k_eng s" "k_xfer (snd (read_register ev a s)) = k_xfer s"
  "k_desc (snd (read_register ev a s)) = k_desc s" "k_dev (snd (read_register ev a s)) = k_dev s"
  "k_xdev_list (snd (read_register ev a s)) = k_xdev_list s"
  "k_thr (snd (read_register ev a s)) = k_thr s" "k_cs_threads (snd (read_register ev a s)) = k_cs_threads s"
  "k_thread_cnt (snd (read_register ev a s)) = k_thread_cnt s"
  "k_char (snd (read_register ev a s)) = k_char s"
  "k_sgt (snd (read_register ev a s)) = k_sgt s" "k_cb (snd (read_register ev a s)) = k_cb s"
  by (simp_all add: read_register_def Let_def)

lemma kcall_sel [simp]:
  "fst (kcall ev f x s) = ksvc ev (trace s) f x"
  "trace (snd (kcall ev f x s)) = Kernel f x (ksvc ev (trace s) f x) # trace s"
  "k_eng (snd (kcall ev f x s)) = k_eng s" "k_xfer (snd (kcall ev f x s)) = k_xfer s"
  "k_desc (snd (kcall ev f x s)) = k_desc s" "k_dev (snd (kcall ev f x s)) = k_dev s"
  "k_xdev_list (snd (kcall ev f x s)) = k_xdev_list s"
  "k_thr (snd (kcall ev f x s)) = k_thr s" "k_cs_threads (snd (kcall ev f x s)) = k_cs_threads s"
  "k_thread_cnt (snd (kcall ev f x s)) = k_thread_cnt s"
  "k_char (snd (kcall ev f x s)) = k_char s"
  "k_sgt (snd (kcall ev f x s)) = k_sgt s" "k_cb (snd (kcall ev f x s)) = k_cb s"
  by (simp_all add: kcall_def Let_def)

text \<open>The addresses of the registers of an engine.\<close>

definition ereg :: "xdma_engine \<Rightarrow> string \<Rightarrow> ptr" where
  "ereg eng r = e_regs eng + field_ofs engine_regs r"

definition esgreg :: "xdma_engine \<Rightarrow> string \<Rightarrow> ptr" where
  "esgreg eng r = e_sgdma_regs eng + field_ofs engine_sgdma_regs r"

text \<open>The two register blocks of an engine lie \<open>SGDMA_OFFSET_FROM_CHANNEL\<close> apart, so no register of
  one is a register of the other.\<close>

definition regs_placed :: "xdma_engine \<Rightarrow> bool" where
  "regs_placed eng \<longleftrightarrow> e_sgdma_regs eng = e_regs eng + SGDMA_OFFSET_FROM_CHANNEL"

lemma write_register_sel [simp]:
  "trace (write_register v a s) = Wr a v # trace s" "k_eng (write_register v a s) = k_eng s"
  "k_xfer (write_register v a s) = k_xfer s" "k_desc (write_register v a s) = k_desc s"
  "k_dev (write_register v a s) = k_dev s" "k_xdev_list (write_register v a s) = k_xdev_list s"
  "k_thr (write_register v a s) = k_thr s" "k_cs_threads (write_register v a s) = k_cs_threads s"
  "k_thread_cnt (write_register v a s) = k_thread_cnt s" "k_char (write_register v a s) = k_char s"
  "k_sgt (write_register v a s) = k_sgt s" "k_cb (write_register v a s) = k_cb s"
  by (simp_all add: write_register_def)

end
