(* ===== verification/Xdma_Desc.thy ===== *)
theory Xdma_Desc
  imports Xdma_Types
begin

text \<open>
  Descriptors (\<^verbatim>\<open>libxdma.c\<close>): chaining them into a singly linked list, filling in addresses,
  lengths, control bits and adjacency counts.  The operations on one descriptor are functions on
  the record; the operations on arrays work on the descriptor heap of the state.

  The lemmas show that the list the device follows from the first bus address is exactly the array,
  in order, and that an adjacency count never reaches past the end of its 64-descriptor block.
\<close>

subsection \<open>Adjacency counts\<close>

definition xdma_get_next_adj :: "u32 \<Rightarrow> u32 \<Rightarrow> u32" where
  "xdma_get_next_adj remaining next_lo =
     (if remaining \<le> 1 then 0
      else
        let next_index =
              drop_bit 5 (next_lo AND (XDMA_PAGE_SIZE - 1)) mod XDMA_MAX_ADJ_BLOCK_SIZE
        in min (XDMA_MAX_ADJ_BLOCK_SIZE - next_index - 1) (remaining - 1))"

subsection \<open>One descriptor\<close>

definition xdma_desc_link :: "xdma_desc \<Rightarrow> ptr \<Rightarrow> u64 \<Rightarrow> xdma_desc" where
  "xdma_desc_link first second second_bus =
     (let control = ds_control first AND 0x00FFC0ff;
          first =
            (if second \<noteq> NULL
             then first\<lparr>ds_next_lo := PCI_DMA_L second_bus, ds_next_hi := PCI_DMA_H second_bus\<rparr>
             else first\<lparr>ds_next_lo := 0, ds_next_hi := 0\<rparr>);
          control = control OR DESC_MAGIC
      in first\<lparr>ds_control := control\<rparr>)"

definition xdma_desc_adjacent :: "xdma_desc \<Rightarrow> u32 \<Rightarrow> xdma_desc" where
  "xdma_desc_adjacent desc next_adjacent =
     (let control = ds_control desc AND 0x0000f0ff;
          control = control OR (0xAD4B0000 OR push_bit 8 next_adjacent)
      in desc\<lparr>ds_control := control\<rparr>)"

definition xdma_desc_control_set :: "xdma_desc \<Rightarrow> u32 \<Rightarrow> int \<times> xdma_desc" where
  "xdma_desc_control_set first control_field =
     (let control = ds_control first AND NOT LS_BYTE_MASK
      in if control_field AND NOT LS_BYTE_MASK \<noteq> 0 then (- EINVAL, first)
         else (0, first\<lparr>ds_control := control OR control_field\<rparr>))"

definition xdma_desc_set ::
    "xdma_desc \<Rightarrow> u64 \<Rightarrow> u64 \<Rightarrow> u32 \<Rightarrow> dma_data_direction \<Rightarrow> xdma_desc" where
  "xdma_desc_set desc rc_bus_addr ep_addr len dir =
     (let desc = desc\<lparr>ds_bytes := len\<rparr>
      in if dir = DMA_TO_DEVICE
         then desc\<lparr>ds_src_addr_lo := PCI_DMA_L rc_bus_addr, ds_src_addr_hi := PCI_DMA_H rc_bus_addr,
                   ds_dst_addr_lo := PCI_DMA_L ep_addr, ds_dst_addr_hi := PCI_DMA_H ep_addr\<rparr>
         else desc\<lparr>ds_src_addr_lo := PCI_DMA_L ep_addr, ds_src_addr_hi := PCI_DMA_H ep_addr,
                   ds_dst_addr_lo := PCI_DMA_L rc_bus_addr, ds_dst_addr_hi := PCI_DMA_H rc_bus_addr\<rparr>)"

subsection \<open>Arrays of descriptors\<close>

text \<open>The address of entry \<open>i\<close> of a descriptor array.\<close>

definition desc_at :: "ptr \<Rightarrow> nat \<Rightarrow> ptr" where
  "desc_at p i = p + sizeof_xdma_desc * i"

text \<open>The loop of \<open>transfer_desc_init\<close>: \<open>k\<close> descriptors are linked to their successor, the one
  after them is the last.\<close>

fun transfer_desc_init_loop :: "ptr \<Rightarrow> u64 \<Rightarrow> nat \<Rightarrow> kst \<Rightarrow> kst" where
  "transfer_desc_init_loop dv desc_bus 0 s =
     upd_desc dv (\<lambda>d. d\<lparr>ds_next_lo := 0, ds_next_hi := 0, ds_bytes := 0, ds_control := DESC_MAGIC\<rparr>) s"
| "transfer_desc_init_loop dv desc_bus (Suc k) s =
     (let desc_bus = desc_bus + of_nat sizeof_xdma_desc;
          s = upd_desc dv (\<lambda>d. d\<lparr>ds_next_lo := PCI_DMA_L desc_bus, ds_next_hi := PCI_DMA_H desc_bus,
                                 ds_bytes := 0, ds_control := DESC_MAGIC\<rparr>) s
      in transfer_desc_init_loop (dv + sizeof_xdma_desc) desc_bus k s)"

definition transfer_desc_init :: "ptr \<Rightarrow> u32 \<Rightarrow> kst \<Rightarrow> int \<times> kst" where
  "transfer_desc_init transfer count s =
     (0, transfer_desc_init_loop (t_desc_virt (k_xfer s transfer)) (t_desc_bus (k_xfer s transfer))
           (nat (sint count - 1)) s)"

fun xdma_desc_done :: "ptr \<Rightarrow> nat \<Rightarrow> kst \<Rightarrow> kst" where
  "xdma_desc_done dv 0 s = s"
| "xdma_desc_done dv (Suc n) s = xdma_desc_done (dv + sizeof_xdma_desc) n (upd_desc dv (\<lambda>_. zero_desc) s)"

subsection \<open>What the device sees\<close>

text \<open>The bus address a descriptor's next field holds, and the list the device follows from bus
  address \<open>b\<close> in an array that starts at bus address \<open>bus0\<close> and virtual address \<open>virt0\<close>, at most
  \<open>fuel\<close> descriptors long; a next address of 0 ends the list.\<close>

definition desc_next :: "xdma_desc \<Rightarrow> u64" where
  "desc_next d = push_bit 32 (ucast (ds_next_hi d)) OR ucast (ds_next_lo d)"

fun desc_walk :: "ptr \<Rightarrow> u64 \<Rightarrow> (ptr \<Rightarrow> xdma_desc) \<Rightarrow> nat \<Rightarrow> u64 \<Rightarrow> ptr list option" where
  "desc_walk virt0 bus0 mem 0 b = None"
| "desc_walk virt0 bus0 mem (Suc fuel) b =
     (let p = virt0 + unat (b - bus0); n = desc_next (mem p)
      in if n = 0 then Some [p] else map_option ((#) p) (desc_walk virt0 bus0 mem fuel n))"

text \<open>The control fields: the magic number, the 6-bit adjacency count, the control bits.\<close>

definition desc_magic :: "xdma_desc \<Rightarrow> u32" where "desc_magic d = drop_bit 16 (ds_control d)"
definition desc_adj :: "xdma_desc \<Rightarrow> u32" where "desc_adj d = drop_bit 8 (ds_control d) AND 0x3F"
definition desc_bits :: "xdma_desc \<Rightarrow> u32" where "desc_bits d = ds_control d AND 0xFF"

subsection \<open>Lemmas on single descriptors\<close>

lemma desc_next_split: "ds_next_lo d = PCI_DMA_L b \<Longrightarrow> ds_next_hi d = PCI_DMA_H b \<Longrightarrow> desc_next d = b"
  by (simp add: desc_next_def PCI_DMA_join)

lemma desc_next_zero: "ds_next_lo d = 0 \<Longrightarrow> ds_next_hi d = 0 \<Longrightarrow> desc_next d = 0"
  by (simp add: desc_next_def)

lemma next_index_unat:
  "unat (drop_bit 5 (x AND (XDMA_PAGE_SIZE - 1)) mod XDMA_MAX_ADJ_BLOCK_SIZE :: u32) = unat x div 32 mod 64"
proof -
  have m: "(XDMA_PAGE_SIZE - 1 :: u32) = mask 12"
    by (simp add: XDMA_PAGE_SIZE_def mask_eq_exp_minus_1)
  have "unat (drop_bit 5 (x AND (XDMA_PAGE_SIZE - 1)) :: u32) = unat x mod 4096 div 32"
    unfolding m word_and_eq_mod by (simp add: drop_bit_eq_div unat_div unat_mod)
  moreover have "unat x mod 4096 div 32 = unat x div 32 mod 128"
    using mod_mult2_eq [of "unat x" 32 128] by simp
  ultimately show ?thesis
    by (simp add: unat_mod XDMA_MAX_ADJ_BLOCK_SIZE_def mod_mod_cancel)
qed

text \<open>The adjacency count leaves the current block of 64 descriptors (2 KiB) never.\<close>

lemma next_adj_le_remaining: "unat (xdma_get_next_adj r x) \<le> unat r - 1"
proof (cases "r \<le> 1")
  case False
  then have "unat (r - 1) = unat r - 1"
    by (subst unat_sub) (auto simp: word_le_nat_alt)
  then show ?thesis
    using False by (simp add: xdma_get_next_adj_def Let_def min_def word_le_nat_alt)
qed (simp add: xdma_get_next_adj_def)

lemma next_adj_in_block: "unat x div 32 mod 64 + unat (xdma_get_next_adj r x) \<le> 63"
proof (cases "r \<le> 1")
  case False
  define i :: u32 where "i = drop_bit 5 (x AND (XDMA_PAGE_SIZE - 1)) mod XDMA_MAX_ADJ_BLOCK_SIZE"
  have i: "unat i = unat x div 32 mod 64"
    unfolding i_def by (rule next_index_unat)
  then have lt: "unat i < 64" by simp
  then have "unat (XDMA_MAX_ADJ_BLOCK_SIZE - i - 1) = 63 - unat i"
    by (simp add: XDMA_MAX_ADJ_BLOCK_SIZE_def unat_sub word_le_nat_alt)
  moreover have "xdma_get_next_adj r x \<le> XDMA_MAX_ADJ_BLOCK_SIZE - i - 1"
    using False unfolding xdma_get_next_adj_def Let_def i_def by simp
  ultimately show ?thesis
    using lt unfolding i [symmetric] word_le_nat_alt by simp
qed (simp add: xdma_get_next_adj_def)

text \<open>The masks of the control word, as bit ranges.\<close>

lemma control_masks:
  "(0x0000f0ff :: u32) = push_bit 12 (mask 4) OR mask 8"
  "(0x00FFC0ff :: u32) = push_bit 14 (mask 10) OR mask 8"
  "(0x3F :: u32) = mask 6" "(0xFF :: u32) = mask 8" "LS_BYTE_MASK = mask 8"
  by (simp_all add: mask_eq_exp_minus_1 LS_BYTE_MASK_def)

definition desc_magic_num :: u32 where "desc_magic_num = 0xAD4B"

lemma adjacent_control:
  "ds_control (xdma_desc_adjacent d n) =
     (ds_control d AND (push_bit 12 (mask 4) OR mask 8)) OR (push_bit 16 desc_magic_num OR push_bit 8 n)"
  by (simp add: xdma_desc_adjacent_def Let_def control_masks(1) [symmetric] desc_magic_num_def)

lemma bit_magic_num: "bit desc_magic_num n \<Longrightarrow> n < 16"
proof -
  have "take_bit 16 desc_magic_num = desc_magic_num"
    by (simp add: desc_magic_num_def)
  then show "bit desc_magic_num n \<Longrightarrow> n < 16" by (metis bit_take_bit_iff)
qed

lemma bit_le_63: "unat (w :: u32) \<le> 63 \<Longrightarrow> bit w n \<Longrightarrow> n < 6"
proof -
  assume "unat w \<le> 63"
  then have "w AND mask 6 = w"
    unfolding word_and_eq_mod by (simp add: word_unat_eq_iff unat_mod)
  then have "bit w n = (n < 6 \<and> bit w n)" by (metis bit_and_iff bit_mask_iff)
  then show "bit w n \<Longrightarrow> n < 6" by blast
qed

text \<open>Setting the adjacency count of a descriptor whose count is still 0 keeps the control bits
  and writes the magic number and the count.\<close>

lemma desc_adjacent_fields:
  assumes "desc_adj d = 0" and "unat n \<le> 63"
  shows "desc_adj (xdma_desc_adjacent d n) = n"
    and "desc_bits (xdma_desc_adjacent d n) = desc_bits d"
proof -
  have z: "\<not> bit (ds_control d) (8 + i)" if "i < 6" for i
  proof
    assume "bit (ds_control d) (8 + i)"
    then have "bit (desc_adj d) i"
      using that bit_imp_le_length [of "ds_control d" "8 + i"]
      by (auto simp: desc_adj_def control_masks bit_simps)
    then show False using assms(1) by simp
  qed
  have l: "bit n i \<Longrightarrow> i < 6" for i by (rule bit_le_63 [OF assms(2)])
  show "desc_adj (xdma_desc_adjacent d n) = n"
    unfolding desc_adj_def adjacent_control control_masks
    by (rule bit_eqI) (auto simp: bit_simps dest: l z)
  show "desc_bits (xdma_desc_adjacent d n) = desc_bits d"
    unfolding desc_bits_def adjacent_control control_masks
    by (rule bit_eqI) (auto simp: bit_simps)
qed

lemma desc_adjacent_magic:
  "unat n \<le> 63 \<Longrightarrow> desc_magic (xdma_desc_adjacent d n) = 0xAD4B"
  unfolding desc_magic_def adjacent_control desc_magic_num_def [symmetric]
  by (rule bit_eqI) (auto simp: bit_simps dest: bit_le_63 bit_magic_num)

lemma desc_adjacent_frame [simp, frame]:
  "ds_next_lo (xdma_desc_adjacent d n) = ds_next_lo d"
  "ds_next_hi (xdma_desc_adjacent d n) = ds_next_hi d"
  "ds_bytes (xdma_desc_adjacent d n) = ds_bytes d"
  "ds_src_addr_lo (xdma_desc_adjacent d n) = ds_src_addr_lo d"
  "ds_src_addr_hi (xdma_desc_adjacent d n) = ds_src_addr_hi d"
  "ds_dst_addr_lo (xdma_desc_adjacent d n) = ds_dst_addr_lo d"
  "ds_dst_addr_hi (xdma_desc_adjacent d n) = ds_dst_addr_hi d"
  by (simp_all add: xdma_desc_adjacent_def Let_def)

text \<open>Setting the control bits keeps the magic number and the adjacency count.\<close>

lemma control_set_fields:
  assumes "c AND NOT LS_BYTE_MASK = 0"
  shows "fst (xdma_desc_control_set d c) = 0"
    and "desc_bits (snd (xdma_desc_control_set d c)) = c"
    and "desc_adj (snd (xdma_desc_control_set d c)) = desc_adj d"
    and "desc_magic (snd (xdma_desc_control_set d c)) = desc_magic d"
proof -
  have l: "n < 8" if "bit c n" for n
  proof (rule ccontr)
    assume "\<not> n < 8"
    then have "bit (c AND NOT LS_BYTE_MASK) n"
      using that bit_imp_le_length [OF that] by (auto simp: control_masks(5) bit_simps)
    then show False using assms by simp
  qed
  show "fst (xdma_desc_control_set d c) = 0"
    using assms by (simp add: xdma_desc_control_set_def Let_def)
  have ctl: "ds_control (snd (xdma_desc_control_set d c)) = (ds_control d AND NOT (mask 8)) OR c"
    using assms by (simp add: xdma_desc_control_set_def Let_def control_masks(5))
  show "desc_bits (snd (xdma_desc_control_set d c)) = c"
    unfolding desc_bits_def ctl control_masks by (rule bit_eqI) (auto simp: bit_simps dest: l)
  show "desc_adj (snd (xdma_desc_control_set d c)) = desc_adj d"
    unfolding desc_adj_def ctl control_masks by (rule bit_eqI) (auto simp: bit_simps dest: l)
  show "desc_magic (snd (xdma_desc_control_set d c)) = desc_magic d"
    unfolding desc_magic_def ctl
    by (rule bit_eqI) (auto simp: bit_simps dest: l bit_imp_le_length)
qed

lemma control_set_frame [simp, frame]:
  "ds_next_lo (snd (xdma_desc_control_set d c)) = ds_next_lo d"
  "ds_next_hi (snd (xdma_desc_control_set d c)) = ds_next_hi d"
  "ds_bytes (snd (xdma_desc_control_set d c)) = ds_bytes d"
  "ds_src_addr_lo (snd (xdma_desc_control_set d c)) = ds_src_addr_lo d"
  "ds_src_addr_hi (snd (xdma_desc_control_set d c)) = ds_src_addr_hi d"
  "ds_dst_addr_lo (snd (xdma_desc_control_set d c)) = ds_dst_addr_lo d"
  "ds_dst_addr_hi (snd (xdma_desc_control_set d c)) = ds_dst_addr_hi d"
  by (simp_all add: xdma_desc_control_set_def Let_def)

lemma desc_set_frame [simp, frame]:
  "ds_next_lo (xdma_desc_set d rc ep n dir) = ds_next_lo d"
  "ds_next_hi (xdma_desc_set d rc ep n dir) = ds_next_hi d"
  "ds_control (xdma_desc_set d rc ep n dir) = ds_control d"
  "ds_bytes (xdma_desc_set d rc ep n dir) = n"
  by (simp_all add: xdma_desc_set_def Let_def)

subsection \<open>Lemmas on descriptor arrays\<close>

lemma desc_at_inj [simp]: "desc_at p i = desc_at p j \<longleftrightarrow> i = j"
  by (simp add: desc_at_def sizeof_xdma_desc_def)

lemma desc_at_Suc: "desc_at (p + sizeof_xdma_desc) i = desc_at p (Suc i)"
  by (simp add: desc_at_def)

lemma desc_at_0 [simp]: "desc_at p 0 = p"
  by (simp add: desc_at_def)

lemma init_loop_frame [simp, frame]:
  "trace (transfer_desc_init_loop dv b k s) = trace s"
  "k_eng (transfer_desc_init_loop dv b k s) = k_eng s"
  "k_xfer (transfer_desc_init_loop dv b k s) = k_xfer s"
  "k_dev (transfer_desc_init_loop dv b k s) = k_dev s"
  "k_xdev_list (transfer_desc_init_loop dv b k s) = k_xdev_list s"
  by (induction dv b k s rule: transfer_desc_init_loop.induct) (simp_all add: Let_def)

lemma init_loop_outside:
  "(\<And>i. i \<le> k \<Longrightarrow> p \<noteq> desc_at dv i) \<Longrightarrow> k_desc (transfer_desc_init_loop dv b k s) p = k_desc s p"
proof (induction dv b k s rule: transfer_desc_init_loop.induct)
  case (1 dv b s)
  then show ?case using "1" [of 0] by simp
next
  case (2 dv b k s)
  from "2.prems" [of 0] have "p \<noteq> dv" by simp
  moreover have "\<And>i. i \<le> k \<Longrightarrow> p \<noteq> desc_at (dv + sizeof_xdma_desc) i"
    using "2.prems" by (simp add: desc_at_Suc)
  ultimately show ?case using "2.IH" by (simp add: Let_def)
qed

lemma init_loop_entry:
  "i \<le> k \<Longrightarrow> k_desc (transfer_desc_init_loop dv b k s) (desc_at dv i) =
     (k_desc s (desc_at dv i))
       \<lparr>ds_control := DESC_MAGIC, ds_bytes := 0,
        ds_next_lo := (if i < k then PCI_DMA_L (b + of_nat (sizeof_xdma_desc * Suc i)) else 0),
        ds_next_hi := (if i < k then PCI_DMA_H (b + of_nat (sizeof_xdma_desc * Suc i)) else 0)\<rparr>"
proof (induction dv b k s arbitrary: i rule: transfer_desc_init_loop.induct)
  case (1 dv b s)
  then show ?case by simp
next
  case (2 dv b k s)
  let ?b = "b + of_nat sizeof_xdma_desc"
  let ?s = "upd_desc dv (\<lambda>d. d\<lparr>ds_next_lo := PCI_DMA_L ?b, ds_next_hi := PCI_DMA_H ?b,
                               ds_bytes := 0, ds_control := DESC_MAGIC\<rparr>) s"
  show ?case
  proof (cases i)
    case 0
    have "\<And>j. j \<le> k \<Longrightarrow> dv \<noteq> desc_at (dv + sizeof_xdma_desc) j"
      by (simp add: desc_at_def sizeof_xdma_desc_def)
    then have "k_desc (transfer_desc_init_loop (dv + sizeof_xdma_desc) ?b k ?s) dv = k_desc ?s dv"
      by (rule init_loop_outside)
    with 0 show ?thesis by (simp add: Let_def)
  next
    case (Suc j)
    with "2.prems" have "j \<le> k" by simp
    moreover have "desc_at (dv + sizeof_xdma_desc) j \<noteq> dv"
      by (simp add: desc_at_def sizeof_xdma_desc_def)
    moreover have at: "desc_at dv (Suc j) = desc_at (dv + sizeof_xdma_desc) j"
      by (simp add: desc_at_Suc)
    moreover have bus: "b + of_nat (sizeof_xdma_desc * Suc (Suc j)) = ?b + of_nat (sizeof_xdma_desc * Suc j)"
      by (simp add: algebra_simps)
    ultimately show ?thesis
      using "2.IH" [OF refl refl, of j] Suc
      by (simp add: Let_def at bus add.assoc del: of_nat_mult of_nat_add)
  qed
qed

text \<open>An array whose entries are linked in order, the last one ending the list.\<close>

definition desc_chained :: "(ptr \<Rightarrow> xdma_desc) \<Rightarrow> ptr \<Rightarrow> u64 \<Rightarrow> nat \<Rightarrow> bool" where
  "desc_chained mem virt0 bus0 n \<longleftrightarrow>
     (\<forall>i < n. desc_next (mem (desc_at virt0 i)) =
        (if Suc i < n then bus0 + of_nat (sizeof_xdma_desc * Suc i) else 0))"

text \<open>The array lies in the bus address space: no address of it wraps around and none is 0.\<close>

definition bus_fits :: "u64 \<Rightarrow> nat \<Rightarrow> bool" where
  "bus_fits bus0 n \<longleftrightarrow> 0 < unat bus0 \<and> unat bus0 + sizeof_xdma_desc * n < 2 ^ 64"

lemma bus_fits_offset:
  assumes "bus_fits bus0 n" and "i \<le> n"
  shows "unat (bus0 + of_nat (sizeof_xdma_desc * i) - bus0) = sizeof_xdma_desc * i"
    and "bus0 + of_nat (sizeof_xdma_desc * i) \<noteq> 0"
proof -
  have le: "unat bus0 + sizeof_xdma_desc * i < 2 ^ 64" and pos: "0 < unat bus0"
    using assms by (auto simp: bus_fits_def sizeof_xdma_desc_def)
  then have m: "unat (of_nat (sizeof_xdma_desc * i) :: u64) = sizeof_xdma_desc * i"
    by (simp add: unat_of_nat take_bit_nat_eq_self del: of_nat_mult)
  then show "unat (bus0 + of_nat (sizeof_xdma_desc * i) - bus0) = sizeof_xdma_desc * i"
    by simp
  from le m have "unat (bus0 + of_nat (sizeof_xdma_desc * i)) = unat bus0 + sizeof_xdma_desc * i"
    by (subst unat_word_add_lt) simp_all
  with pos show "bus0 + of_nat (sizeof_xdma_desc * i) \<noteq> 0"
    by (metis add_gr_0 less_numeral_extra(3) unat_0)
qed

lemma desc_walk_from:
  assumes c: "desc_chained mem virt0 bus0 n" and f: "bus_fits bus0 n"
  shows "i < n \<Longrightarrow> desc_walk virt0 bus0 mem (n - i) (bus0 + of_nat (sizeof_xdma_desc * i)) =
           Some (map (desc_at virt0) [i..<n])"
proof (induction "n - i" arbitrary: i)
  case 0
  then show ?case by simp
next
  case (Suc k)
  have at: "virt0 + unat (bus0 + of_nat (sizeof_xdma_desc * i) - bus0) = desc_at virt0 i"
    using bus_fits_offset(1) [OF f, of i] Suc.prems by (simp add: desc_at_def)
  have fuel: "n - i = Suc (n - Suc i)" using Suc.prems by simp
  show ?case
  proof (cases "Suc i < n")
    case True
    then have nx: "desc_next (mem (desc_at virt0 i)) = bus0 + of_nat (sizeof_xdma_desc * Suc i)"
      using c Suc.prems by (simp add: desc_chained_def del: of_nat_mult mult_Suc_right)
    moreover have "bus0 + of_nat (sizeof_xdma_desc * Suc i) \<noteq> 0"
      using bus_fits_offset(2) [OF f, of "Suc i"] True by linarith
    moreover have "desc_walk virt0 bus0 mem (n - Suc i) (bus0 + of_nat (sizeof_xdma_desc * Suc i)) =
        Some (map (desc_at virt0) [Suc i..<n])"
      using Suc.hyps True by (intro Suc.hyps(1)) auto
    ultimately show ?thesis
      unfolding fuel desc_walk.simps Let_def at
      by (simp add: upt_rec [of i] Suc.prems del: of_nat_mult mult_Suc_right)
  next
    case False
    then have "n = Suc i" using Suc.prems by simp
    moreover have "desc_next (mem (desc_at virt0 i)) = 0"
      using c Suc.prems False by (simp add: desc_chained_def)
    ultimately show ?thesis
      unfolding fuel desc_walk.simps Let_def at by simp
  qed
qed

lemma desc_walk_chained:
  assumes "desc_chained mem virt0 bus0 n" and "bus_fits bus0 n" and "0 < n"
  shows "desc_walk virt0 bus0 mem n bus0 = Some (map (desc_at virt0) [0..<n])"
  using desc_walk_from [OF assms(1,2), of 0] assms(3) by simp

lemma init_loop_chained:
  "desc_chained (k_desc (transfer_desc_init_loop dv b k s)) dv b (Suc k)"
  unfolding desc_chained_def
proof (intro allI impI)
  fix i assume "i < Suc k"
  then show "desc_next (k_desc (transfer_desc_init_loop dv b k s) (desc_at dv i)) =
      (if Suc i < Suc k then b + of_nat (sizeof_xdma_desc * Suc i) else 0)"
    by (subst init_loop_entry) (auto intro: desc_next_split desc_next_zero)
qed

lemma desc_done_outside:
  "(\<And>j. j < n \<Longrightarrow> p \<noteq> desc_at dv j) \<Longrightarrow> k_desc (xdma_desc_done dv n s) p = k_desc s p"
proof (induction dv n s rule: xdma_desc_done.induct)
  case (2 dv n s)
  from "2.prems" [of 0] have "p \<noteq> dv" by simp
  moreover have "k_desc (xdma_desc_done (dv + sizeof_xdma_desc) n (upd_desc dv (\<lambda>_. zero_desc) s)) p =
      k_desc (upd_desc dv (\<lambda>_. zero_desc) s) p"
    using "2.prems" by (intro "2.IH") (simp add: desc_at_Suc)
  ultimately show ?case by simp
qed simp

lemma desc_done_entry: "i < n \<Longrightarrow> k_desc (xdma_desc_done dv n s) (desc_at dv i) = zero_desc"
proof (induction dv n s arbitrary: i rule: xdma_desc_done.induct)
  case (2 dv n s)
  show ?case
  proof (cases i)
    case 0
    have "\<And>j. j < n \<Longrightarrow> dv \<noteq> desc_at (dv + sizeof_xdma_desc) j"
      by (simp add: desc_at_def sizeof_xdma_desc_def)
    with 0 show ?thesis by (simp add: desc_done_outside)
  next
    case (Suc j)
    with "2.IH" [of j] "2.prems" show ?thesis by (simp add: desc_at_Suc)
  qed
qed simp

lemma desc_done_frame [simp, frame]:
  "trace (xdma_desc_done dv n s) = trace s" "k_eng (xdma_desc_done dv n s) = k_eng s"
  "k_xfer (xdma_desc_done dv n s) = k_xfer s" "k_dev (xdma_desc_done dv n s) = k_dev s"
  "k_xdev_list (xdma_desc_done dv n s) = k_xdev_list s"
  by (induction dv n s rule: xdma_desc_done.induct) simp_all

subsection \<open>Properties\<close>

text \<open>An adjacency count is below the number of remaining descriptors, and the block of
  adjacent descriptors it announces never crosses a boundary of 64 descriptors (2 KiB), so never a
  page boundary.\<close>

theorem next_adj_never_crosses_block:
  "unat (xdma_get_next_adj remaining next_lo) \<le> unat remaining - 1 \<and>
   (unat next_lo + 32 * unat (xdma_get_next_adj remaining next_lo)) div 2048 = unat next_lo div 2048"
proof
  show "unat (xdma_get_next_adj remaining next_lo) \<le> unat remaining - 1"
    by (rule next_adj_le_remaining)
  let ?x = "unat next_lo" and ?a = "unat (xdma_get_next_adj remaining next_lo)"
  have "?x div 32 mod 64 + ?a \<le> 63" by (rule next_adj_in_block)
  moreover have "(?x + 32 * ?a) div 2048 = (?x div 32 + ?a) div 64"
    by (simp add: div_mult2_eq [of _ 32 64, simplified])
  moreover have "?x div 2048 = ?x div 32 div 64"
    by (simp add: div_mult2_eq [of _ 32 64, simplified])
  ultimately show "(?x + 32 * ?a) div 2048 = ?x div 2048"
    by (simp add: div_add1_eq [of "?x div 32" ?a 64])
qed

text \<open>C4: Initialising the descriptors of a transfer chains them: from the bus address of the first
  one the device visits exactly the \<open>count\<close> descriptors of the array, in order, and stops.\<close>

theorem transfer_desc_init_walk:
  assumes "0 < sint count"
    and "bus_fits (t_desc_bus (k_xfer s t)) (nat (sint count))"
  shows "desc_walk (t_desc_virt (k_xfer s t)) (t_desc_bus (k_xfer s t))
           (k_desc (snd (transfer_desc_init t count s))) (nat (sint count)) (t_desc_bus (k_xfer s t)) =
         Some (map (desc_at (t_desc_virt (k_xfer s t))) [0..<nat (sint count)])"
proof -
  have "Suc (nat (sint count - 1)) = nat (sint count)" using assms(1) by simp
  with init_loop_chained have "desc_chained (k_desc (snd (transfer_desc_init t count s)))
      (t_desc_virt (k_xfer s t)) (t_desc_bus (k_xfer s t)) (nat (sint count))"
    by (metis transfer_desc_init_def snd_conv)
  then show ?thesis using assms by (intro desc_walk_chained) auto
qed

theorem transfer_desc_init_walk_witness:
  "desc_walk 0x8000 0x1000
     (k_desc (snd (transfer_desc_init 1 3
        (kst0\<lparr>k_xfer := (\<lambda>_. zero_transfer\<lparr>t_desc_virt := 0x8000, t_desc_bus := 0x1000\<rparr>)\<rparr>)))) 3 0x1000
   = Some [0x8000, 0x8020, 0x8040]"
  using transfer_desc_init_walk [of 3 "kst0\<lparr>k_xfer :=
      (\<lambda>_. zero_transfer\<lparr>t_desc_virt := 0x8000, t_desc_bus := 0x1000\<rparr>)\<rparr>" 1]
  by (simp add: bus_fits_def sizeof_xdma_desc_def desc_at_def upt_rec)

text \<open>The mask of \<open>xdma_desc_adjacent\<close> keeps bits 12 and 13 of the old control word, which belong to
  the adjacency count: a second call does not replace the first count.\<close>

lemma desc_adjacent_keeps_stale_bits:
  "desc_adj (xdma_desc_adjacent (xdma_desc_adjacent zero_desc 63) 1) = 49"
  by (simp add: desc_adj_def xdma_desc_adjacent_def zero_desc_def)

end
