(* ===== verification/Xdma_Flags.thy ===== *)
theory Xdma_Flags
  imports Xdma_Types
begin

text \<open>
  The flag word of a device (\<^verbatim>\<open>libxdma.h\<close>): checked, set and cleared under the device lock.  The
  interface the rest of the driver relies on is the locale \<open>flag_word\<close>: what a check returns after a
  set or a clear, that other flags keep their value, and that the lock is released.
\<close>

definition xdma_device_flag_check :: "ptr \<Rightarrow> u32 \<Rightarrow> kst \<Rightarrow> int \<times> kst" where
  "xdma_device_flag_check xdev f s =
     (let s = emit (Acquire (LkDev xdev)) s
      in if d_flags (k_dev s xdev) AND f \<noteq> 0
         then (1, emit (Release (LkDev xdev)) s)
         else (0, emit (Release (LkDev xdev)) s))"

definition xdma_device_flag_test_n_set :: "ptr \<Rightarrow> u32 \<Rightarrow> kst \<Rightarrow> int \<times> kst" where
  "xdma_device_flag_test_n_set xdev f s =
     (let s = emit (Acquire (LkDev xdev)) s;
          (rv, s) =
            (if d_flags (k_dev s xdev) AND f \<noteq> 0
             then (1, emit (Release (LkDev xdev)) s)
             else (0, upd_dev xdev (\<lambda>d. d\<lparr>d_flags := d_flags d OR f\<rparr>) s))
      in (rv, emit (Release (LkDev xdev)) s))"

definition xdma_device_flag_set :: "ptr \<Rightarrow> u32 \<Rightarrow> kst \<Rightarrow> kst" where
  "xdma_device_flag_set xdev f s =
     (let s = emit (Acquire (LkDev xdev)) s;
          s = upd_dev xdev (\<lambda>d. d\<lparr>d_flags := d_flags d OR f\<rparr>) s
      in emit (Release (LkDev xdev)) s)"

definition xdma_device_flag_clear :: "ptr \<Rightarrow> u32 \<Rightarrow> kst \<Rightarrow> kst" where
  "xdma_device_flag_clear xdev f s =
     (let s = emit (Acquire (LkDev xdev)) s;
          s = upd_dev xdev (\<lambda>d. d\<lparr>d_flags := d_flags d AND NOT f\<rparr>) s
      in emit (Release (LkDev xdev)) s)"

subsection \<open>The interface\<close>

locale flag_word =
  fixes check :: "'w::len word \<Rightarrow> 's \<Rightarrow> int \<times> 's"
    and setf :: "'w word \<Rightarrow> 's \<Rightarrow> 's"
    and clear :: "'w word \<Rightarrow> 's \<Rightarrow> 's"
    and flags :: "'s \<Rightarrow> 'w word"
    and depth :: "'s \<Rightarrow> int"
  assumes check_result: "fst (check f s) = (if flags s AND f \<noteq> 0 then 1 else 0)"
    and check_flags: "flags (snd (check f s)) = flags s"
    and set_flags: "flags (setf f s) = flags s OR f"
    and clear_flags: "flags (clear f s) = flags s AND NOT f"
    and balanced: "depth (snd (check f s)) = depth s" "depth (setf f s) = depth s" "depth (clear f s) = depth s"
begin

lemma check_after_set: "f \<noteq> 0 \<Longrightarrow> fst (check f (setf f s)) = 1"
  by (simp add: check_result set_flags bit.conj_disj_distrib2)

lemma check_after_clear: "fst (check f (clear f s)) = 0"
  by (simp add: check_result clear_flags and.assoc)

lemma check_other_set:
  assumes "f AND g = 0"
  shows "fst (check g (setf f s)) = fst (check g s)"
  using assms by (simp add: check_result set_flags bit.conj_disj_distrib2)

lemma check_other_clear:
  assumes "f AND g = 0"
  shows "fst (check g (clear f s)) = fst (check g s)"
proof -
  have "NOT f AND g = g"
    using assms by (auto simp: bit_eq_iff bit_simps)
  then have "(flags s AND NOT f) AND g = flags s AND g" by (simp add: and.assoc)
  then show ?thesis by (simp add: check_result clear_flags)
qed

end

interpretation dev_flags: flag_word "xdma_device_flag_check d" "xdma_device_flag_set d"
    "xdma_device_flag_clear d" "\<lambda>s. d_flags (k_dev s d)" "\<lambda>s. held (LkDev d) (trace s)" for d
  by unfold_locales
    (simp_all add: xdma_device_flag_check_def xdma_device_flag_set_def xdma_device_flag_clear_def Let_def)

lemma flag_check_sel [simp]:
  "fst (xdma_device_flag_check d f s) = (if d_flags (k_dev s d) AND f \<noteq> 0 then 1 else 0)"
  "k_eng (snd (xdma_device_flag_check d f s)) = k_eng s" "k_xfer (snd (xdma_device_flag_check d f s)) = k_xfer s"
  "k_desc (snd (xdma_device_flag_check d f s)) = k_desc s" "k_dev (snd (xdma_device_flag_check d f s)) = k_dev s"
  "trace (snd (xdma_device_flag_check d f s)) = Release (LkDev d) # Acquire (LkDev d) # trace s"
  by (simp_all add: xdma_device_flag_check_def Let_def)

subsection \<open>Properties\<close>

text \<open>A device put offline is seen offline by every later check until it is put online again, and
  is then seen online; other flags keep their value throughout, and the lock is free again after
  each operation.\<close>

theorem device_flag_roundtrip:
  assumes "f \<noteq> 0" and "f AND g = 0"
  shows "fst (xdma_device_flag_check d f (xdma_device_flag_set d f s)) = 1 \<and>
    fst (xdma_device_flag_check d f (xdma_device_flag_clear d f (xdma_device_flag_set d f s))) = 0 \<and>
    fst (xdma_device_flag_check d g (xdma_device_flag_clear d f (xdma_device_flag_set d f s)))
      = fst (xdma_device_flag_check d g s) \<and>
    held (LkDev d) (trace (xdma_device_flag_clear d f (xdma_device_flag_set d f s))) = held (LkDev d) (trace s)"
  using assms dev_flags.check_after_set dev_flags.check_after_clear dev_flags.check_other_set
    dev_flags.check_other_clear dev_flags.balanced
  by simp

theorem device_flag_roundtrip_witness:
  "fst (xdma_device_flag_check 7 1 (xdma_device_flag_set 7 1 kst0)) = 1"
  using device_flag_roundtrip [of 1 2 7 kst0] by simp

text \<open>Testing and setting a flag that is already set releases the device lock twice.\<close>

theorem flag_test_n_set_double_release:
  assumes "d_flags (k_dev s d) AND f \<noteq> 0"
  shows "held (LkDev d) (trace (snd (xdma_device_flag_test_n_set d f s))) = held (LkDev d) (trace s) - 1"
  using assms by (simp add: xdma_device_flag_test_n_set_def Let_def)

end
