(* ===== verification/Xdma_Engine.thy ===== *)
theory Xdma_Engine
  imports Xdma_Desc Xdma_Flags
begin

text \<open>
  One SG DMA engine (\<^verbatim>\<open>libxdma.c\<close>): performance counters, reading and dumping its status, stopping
  and starting it.  The lemmas give every operation in closed form (which fields of which structure
  change, which registers are written in which order); the component theories above rest on them.
\<close>

subsection \<open>Performance counters\<close>

definition enable_perf :: "env \<Rightarrow> ptr \<Rightarrow> kst \<Rightarrow> kst" where
  "enable_perf ev e s =
     (let eng = k_eng s e;
          s = write_register XDMA_PERF_CLEAR (ereg eng ''perf_ctrl'') s;
          (_, s) = read_register ev (ereg eng ''identifier'') s;
          s = write_register (XDMA_PERF_AUTO OR XDMA_PERF_RUN) (ereg eng ''perf_ctrl'') s;
          (_, s) = read_register ev (ereg eng ''identifier'') s
      in s)"

definition set_perf :: "ptr \<Rightarrow> (xdma_performance_ioctl \<Rightarrow> xdma_performance_ioctl) \<Rightarrow> kst \<Rightarrow> kst" where
  "set_perf e f = upd_eng e (\<lambda>g. g\<lparr>e_xdma_perf := map_option f (e_xdma_perf g)\<rparr>)"

definition get_perf_stats :: "env \<Rightarrow> ptr \<Rightarrow> kst \<Rightarrow> kst" where
  "get_perf_stats ev e s =
     (if e = NULL then s
      else if e_xdma_perf (k_eng s e) = None then s
      else
        let eng = k_eng s e; hi = 0;
            (lo, s) = read_register ev (ereg eng ''completed_desc_count'') s;
            s = set_perf e (\<lambda>p. p\<lparr>pf_iterations := ucast (build_u64 hi (ucast lo))\<rparr>) s;
            (hi, s) = read_register ev (ereg eng ''perf_cyc_hi'') s;
            (lo, s) = read_register ev (ereg eng ''perf_cyc_lo'') s;
            s = set_perf e (\<lambda>p. p\<lparr>pf_clock_cycle_count := build_u64 (ucast hi) (ucast lo)\<rparr>) s;
            (hi, s) = read_register ev (ereg eng ''perf_dat_hi'') s;
            (lo, s) = read_register ev (ereg eng ''perf_dat_lo'') s;
            s = set_perf e (\<lambda>p. p\<lparr>pf_data_cycle_count := build_u64 (ucast hi) (ucast lo)\<rparr>) s;
            (hi, s) = read_register ev (ereg eng ''perf_pnd_hi'') s;
            (lo, s) = read_register ev (ereg eng ''perf_pnd_lo'') s
        in set_perf e (\<lambda>p. p\<lparr>pf_pending_count := build_u64 (ucast hi) (ucast lo)\<rparr>) s)"

subsection \<open>Status\<close>

fun read_all :: "env \<Rightarrow> ptr list \<Rightarrow> kst \<Rightarrow> kst" where
  "read_all ev [] s = s"
| "read_all ev (a # as) s = read_all ev as (snd (read_register ev a s))"

definition engine_reg_dump :: "env \<Rightarrow> ptr \<Rightarrow> kst \<Rightarrow> int \<times> kst" where
  "engine_reg_dump ev e s =
     (if e = NULL then (- EINVAL, s)
      else
        let eng = k_eng s e;
            (w, s) = read_register ev (ereg eng ''identifier'') s
        in if w AND BLOCK_ID_MASK \<noteq> BLOCK_ID_HEAD then (- EINVAL, s)
           else (0, read_all ev
                  [ereg eng ''status'', ereg eng ''control'', esgreg eng ''first_desc_lo'',
                   esgreg eng ''first_desc_hi'', esgreg eng ''first_desc_adjacent'',
                   ereg eng ''completed_desc_count'', ereg eng ''interrupt_enable_mask''] s))"

text \<open>The text of the status dump.  \<open>put c x\<close> is the conditional \<open>sprintf\<close> at the end of the buffer,
  \<open>comma\<close> the assignment to the last character written.  The result is the text before the final
  NUL overwrites its last character; the buffer must hold it and the NUL of the last \<open>sprintf\<close>.\<close>

definition hex08 :: "u32 \<Rightarrow> string" where
  "hex08 v = map (\<lambda>i. ''0123456789abcdef'' ! unat (drop_bit (4 * i) v AND 0xF)) [7, 6, 5, 4, 3, 2, 1, 0]"

definition put :: "bool \<Rightarrow> string \<Rightarrow> string \<Rightarrow> string" where
  "put c x buf = (if c then buf @ x else buf)"

definition comma :: "string \<Rightarrow> string" where
  "comma buf = butlast buf @ '',''"

definition text_common :: "u32 \<Rightarrow> string \<Rightarrow> string" where
  "text_common v buf =
     (if v AND XDMA_STAT_COMMON_ERR_MASK \<noteq> 0 then
        comma (put (v AND XDMA_STAT_IDLE_STOPPED \<noteq> 0) ''IDLE_STOPPED ''
          (put (v AND XDMA_STAT_INVALID_LEN \<noteq> 0) ''INVLIAD_LEN ''
            (put (v AND XDMA_STAT_MAGIC_STOPPED \<noteq> 0) ''MAGIC_STOPPED ''
              (put (v AND XDMA_STAT_ALIGN_MISMATCH \<noteq> 0) ''ALIGN_MISMATCH '' buf))))
      else buf)"

definition text_h2c :: "u32 \<Rightarrow> string \<Rightarrow> string" where
  "text_h2c v buf =
     (let buf = (if v AND XDMA_STAT_H2C_R_ERR_MASK \<noteq> 0 then
            comma (put (v AND XDMA_STAT_H2C_R_UNEXP_COMPL \<noteq> 0) ''UNEXP_COMPL ''
              (put (v AND XDMA_STAT_H2C_R_HEADER_EP \<noteq> 0) ''HEADER_EP ''
                (put (v AND XDMA_STAT_H2C_R_PARITY_ERR \<noteq> 0) ''PARITY ''
                  (put (v AND XDMA_STAT_H2C_R_COMPL_ABORT \<noteq> 0) ''COMPL_ABORT ''
                    (put (v AND XDMA_STAT_H2C_R_UNSUPP_REQ \<noteq> 0) ''UNSUPP_REQ '' (buf @ ''R:''))))))
          else buf)
      in if v AND XDMA_STAT_H2C_W_ERR_MASK \<noteq> 0 then
           comma (put (v AND XDMA_STAT_H2C_W_SLAVE_ERR \<noteq> 0) ''SLAVE_ERR ''
             (put (v AND XDMA_STAT_H2C_W_DECODE_ERR \<noteq> 0) ''DECODE_ERR '' (buf @ ''W:'')))
         else buf)"

definition text_c2h :: "u32 \<Rightarrow> string \<Rightarrow> string" where
  "text_c2h v buf =
     (if v AND XDMA_STAT_C2H_R_ERR_MASK \<noteq> 0 then
        comma (put (v AND XDMA_STAT_C2H_R_SLAVE_ERR \<noteq> 0) ''SLAVE_ERR ''
          (put (v AND XDMA_STAT_C2H_R_DECODE_ERR \<noteq> 0) ''DECODE_ERR '' (buf @ ''R:'')))
      else buf)"

definition text_desc :: "u32 \<Rightarrow> string \<Rightarrow> string" where
  "text_desc v buf =
     (if v AND XDMA_STAT_DESC_ERR_MASK \<noteq> 0 then
        comma (put (v AND XDMA_STAT_DESC_UNEXP_COMPL \<noteq> 0) ''UNEXP_COMPL ''
          (put (v AND XDMA_STAT_DESC_HEADER_EP \<noteq> 0) ''HEADER_EP ''
            (put (v AND XDMA_STAT_DESC_PARITY_ERR \<noteq> 0) ''PARITY ''
              (put (v AND XDMA_STAT_DESC_COMPL_ABORT \<noteq> 0) ''COMPL_ABORT ''
                (put (v AND XDMA_STAT_DESC_UNSUPP_REQ \<noteq> 0) ''UNSUPP_REQ '' (buf @ ''DESC_ERR:''))))))
      else buf)"

definition status_text :: "string \<Rightarrow> u32 \<Rightarrow> dma_data_direction \<Rightarrow> string" where
  "status_text name v dir =
     (let buf = ''SG engine '' @ name @ '' status: 0x'' @ hex08 v @ '': '';
          buf = put (v AND XDMA_STAT_BUSY \<noteq> 0) ''BUSY,'' buf;
          buf = put (v AND XDMA_STAT_DESC_STOPPED \<noteq> 0) ''DESC_STOPPED,'' buf;
          buf = put (v AND XDMA_STAT_DESC_COMPLETED \<noteq> 0) ''DESC_COMPL,'' buf;
          buf = text_common v buf;
          buf = (if dir = DMA_TO_DEVICE then text_h2c v buf else text_c2h v buf)
      in text_desc v buf)"

text \<open>The message, or \<open>None\<close> when it does not fit the 256-byte buffer on the stack.\<close>

definition engine_status_dump :: "ptr \<Rightarrow> kst \<Rightarrow> string option" where
  "engine_status_dump e s =
     (let eng = k_eng s e; buf = status_text (e_name eng) (e_status eng) (e_dir eng)
      in if 256 < length buf + 1 then None else Some (butlast buf))"

definition engine_status_read :: "env \<Rightarrow> ptr \<Rightarrow> bool \<Rightarrow> bool \<Rightarrow> kst \<Rightarrow> int \<times> kst" where
  "engine_status_read ev e clear dump s =
     (if e = NULL then (- EINVAL, s)
      else
        let (rv, s) = (if dump then engine_reg_dump ev e s else (0, s))
        in if rv < 0 then (rv, s)
           else
             let eng = k_eng s e;
                 (w, s) = read_register ev (if clear then ereg eng ''status_rc'' else ereg eng ''status'') s
             in (rv, upd_eng e (\<lambda>g. g\<lparr>e_status := w\<rparr>) s))"

subsection \<open>Stopping and starting\<close>

definition stop_control :: "env \<Rightarrow> u32" where
  "stop_control ev =
     (let w = 0 OR XDMA_CTRL_IE_DESC_ALIGN_MISMATCH OR XDMA_CTRL_IE_MAGIC_STOPPED
                OR XDMA_CTRL_IE_READ_ERROR OR XDMA_CTRL_IE_DESC_ERROR
      in if poll_mode ev \<noteq> 0 then w OR XDMA_CTRL_POLL_MODE_WB
         else w OR XDMA_CTRL_IE_DESC_STOPPED OR XDMA_CTRL_IE_DESC_COMPLETED)"

definition credit_mode :: "env \<Rightarrow> xdma_engine \<Rightarrow> bool" where
  "credit_mode ev eng \<longleftrightarrow> enable_st_c2h_credit ev \<noteq> 0 \<and> e_streaming eng \<and> e_dir eng = DMA_FROM_DEVICE"

definition xdma_engine_stop :: "env \<Rightarrow> ptr \<Rightarrow> kst \<Rightarrow> int \<times> kst" where
  "xdma_engine_stop ev e s =
     (if e = NULL then (- EINVAL, s)
      else
        let eng = k_eng s e;
            s = (if credit_mode ev eng then write_register 0 (esgreg eng ''credits'') s else s);
            s = write_register (stop_control ev) (ereg eng ''control'') s
        in (0, upd_eng e (\<lambda>g. g\<lparr>e_running := False\<rparr>) s))"

definition start_control :: "env \<Rightarrow> xdma_engine \<Rightarrow> u32" where
  "start_control ev eng =
     (let w = XDMA_CTRL_RUN_STOP OR XDMA_CTRL_IE_READ_ERROR OR XDMA_CTRL_IE_DESC_ERROR
                OR XDMA_CTRL_IE_DESC_ALIGN_MISMATCH OR XDMA_CTRL_IE_MAGIC_STOPPED;
          w = (if poll_mode ev \<noteq> 0 then w OR XDMA_CTRL_POLL_MODE_WB
               else w OR XDMA_CTRL_IE_DESC_STOPPED OR XDMA_CTRL_IE_DESC_COMPLETED)
      in if e_non_incr_addr eng then w OR XDMA_CTRL_NON_INCR_ADDR else w)"

definition perf_interrupts :: u32 where
  "perf_interrupts =
     XDMA_CTRL_IE_DESC_STOPPED OR XDMA_CTRL_IE_DESC_COMPLETED OR XDMA_CTRL_IE_DESC_ALIGN_MISMATCH
       OR XDMA_CTRL_IE_MAGIC_STOPPED OR XDMA_CTRL_IE_IDLE_STOPPED OR XDMA_CTRL_IE_READ_ERROR
       OR XDMA_CTRL_IE_DESC_ERROR"

definition engine_start_mode_config :: "env \<Rightarrow> ptr \<Rightarrow> kst \<Rightarrow> int \<times> kst" where
  "engine_start_mode_config ev e s =
     (if e = NULL then (- EINVAL, s)
      else
        let eng = k_eng s e;
            s = (if e_xdma_perf eng \<noteq> None
                 then write_register perf_interrupts (ereg eng ''interrupt_enable_mask'') s else s);
            s = write_register (start_control ev eng) (ereg eng ''control'') s;
            (_, s) = read_register ev (ereg eng ''status'') s
        in (0, s))"

text \<open>\<open>engine_start\<close> returns the transfer it started, or the null pointer.\<close>

definition engine_start :: "env \<Rightarrow> ptr \<Rightarrow> kst \<Rightarrow> ptr \<times> kst" where
  "engine_start ev e s =
     (if e = NULL then (NULL, s)
      else if e_running (k_eng s e) then (NULL, s)
      else
        case e_transfer_list (k_eng s e) of
          [] \<Rightarrow> (NULL, s)
        | transfer # _ \<Rightarrow>
            if transfer = NULL then (NULL, s)
            else
              let s = upd_eng e (\<lambda>g. g\<lparr>e_shutdown := ENGINE_SHUTDOWN_NONE\<rparr>) s;
                  eng = k_eng s e;
                  s = (if credit_mode ev eng
                       then write_register (e_desc_used eng) (esgreg eng ''credits'') s else s);
                  s = upd_eng e (\<lambda>g. g\<lparr>e_desc_dequeued := 0\<rparr>) s;
                  x = k_xfer s transfer;
                  s = write_register (PCI_DMA_L (t_desc_bus x)) (esgreg eng ''first_desc_lo'') s;
                  s = write_register (PCI_DMA_H (t_desc_bus x)) (esgreg eng ''first_desc_hi'') s;
                  next_adj = xdma_get_next_adj (t_desc_adjacent x) (PCI_DMA_L (t_desc_bus x));
                  s = write_register next_adj (esgreg eng ''first_desc_adjacent'') s;
                  (rv, s) = engine_start_mode_config ev e s
              in if rv < 0 then (NULL, s)
                 else
                   let (rv, s) = engine_status_read ev e False False s
                   in if rv < 0 then (NULL, s)
                      else (transfer, upd_eng e (\<lambda>g. g\<lparr>e_running := True\<rparr>) s))"

subsection \<open>Closed forms\<close>

lemma set_perf_sel [simp]:
  "trace (set_perf e f s) = trace s" "k_xfer (set_perf e f s) = k_xfer s" "k_desc (set_perf e f s) = k_desc s"
  "k_dev (set_perf e f s) = k_dev s"
  "k_eng (set_perf e f s) = (k_eng s)(e := (k_eng s e)\<lparr>e_xdma_perf := map_option f (e_xdma_perf (k_eng s e))\<rparr>)"
  by (simp_all add: set_perf_def)

lemma status_read_sel [simp]:
  assumes "e \<noteq> NULL"
  shows "fst (engine_status_read ev e c False s) = 0"
    and "trace (snd (engine_status_read ev e c False s)) =
      (let a = ereg (k_eng s e) (if c then ''status_rc'' else ''status'') in Rd a (hw ev (trace s) a) # trace s)"
    and "k_eng (snd (engine_status_read ev e c False s)) = (k_eng s)(e := (k_eng s e)\<lparr>e_status :=
      hw ev (trace s) (ereg (k_eng s e) (if c then ''status_rc'' else ''status''))\<rparr>)"
    and "k_xfer (snd (engine_status_read ev e c False s)) = k_xfer s"
    and "k_desc (snd (engine_status_read ev e c False s)) = k_desc s"
    and "k_dev (snd (engine_status_read ev e c False s)) = k_dev s"
  using assms by (simp_all add: engine_status_read_def Let_def split_beta)

lemma engine_stop_sel [simp]:
  assumes "e \<noteq> NULL"
  shows "fst (xdma_engine_stop ev e s) = 0"
    and "trace (snd (xdma_engine_stop ev e s)) =
      Wr (ereg (k_eng s e) ''control'') (stop_control ev) #
        (if credit_mode ev (k_eng s e) then [Wr (esgreg (k_eng s e) ''credits'') 0] else []) @ trace s"
    and "k_eng (snd (xdma_engine_stop ev e s)) = (k_eng s)(e := (k_eng s e)\<lparr>e_running := False\<rparr>)"
    and "k_xfer (snd (xdma_engine_stop ev e s)) = k_xfer s"
    and "k_desc (snd (xdma_engine_stop ev e s)) = k_desc s"
    and "k_dev (snd (xdma_engine_stop ev e s)) = k_dev s"
  using assms by (simp_all add: xdma_engine_stop_def Let_def)

lemma mode_config_sel [simp]:
  assumes "e \<noteq> NULL"
  shows "fst (engine_start_mode_config ev e s) = 0"
    and "k_eng (snd (engine_start_mode_config ev e s)) = k_eng s"
    and "k_xfer (snd (engine_start_mode_config ev e s)) = k_xfer s"
    and "k_desc (snd (engine_start_mode_config ev e s)) = k_desc s"
    and "k_dev (snd (engine_start_mode_config ev e s)) = k_dev s"
  using assms by (simp_all add: engine_start_mode_config_def Let_def split_beta)

lemma mode_config_writes:
  assumes "e \<noteq> NULL"
  shows "writes (trace (snd (engine_start_mode_config ev e s))) =
    (ereg (k_eng s e) ''control'', start_control ev (k_eng s e)) #
      (if e_xdma_perf (k_eng s e) \<noteq> None
       then [(ereg (k_eng s e) ''interrupt_enable_mask'', perf_interrupts)] else []) @ writes (trace s)"
  using assms by (simp add: engine_start_mode_config_def Let_def split_beta)

lemma engine_start_idle:
  assumes "e = NULL \<or> e_running (k_eng s e) \<or> e_transfer_list (k_eng s e) = [] \<or> hd (e_transfer_list (k_eng s e)) = NULL"
  shows "engine_start ev e s = (NULL, s)"
  using assms by (auto simp: engine_start_def split: list.splits)

text \<open>The registers written by a start, newest first.\<close>

definition start_writes :: "env \<Rightarrow> xdma_engine \<Rightarrow> xdma_transfer \<Rightarrow> (ptr \<times> u32) list" where
  "start_writes ev eng x =
     (ereg eng ''control'', start_control ev eng) #
     (if e_xdma_perf eng \<noteq> None then [(ereg eng ''interrupt_enable_mask'', perf_interrupts)] else []) @
     [(esgreg eng ''first_desc_adjacent'', xdma_get_next_adj (t_desc_adjacent x) (PCI_DMA_L (t_desc_bus x))),
      (esgreg eng ''first_desc_hi'', PCI_DMA_H (t_desc_bus x)),
      (esgreg eng ''first_desc_lo'', PCI_DMA_L (t_desc_bus x))] @
     (if credit_mode ev eng then [(esgreg eng ''credits'', e_desc_used eng)] else [])"

lemma reg_of_update [simp]:
  "ereg (eng\<lparr>e_shutdown := x\<rparr>) r = ereg eng r" "esgreg (eng\<lparr>e_shutdown := x\<rparr>) r = esgreg eng r"
  "ereg (eng\<lparr>e_desc_dequeued := n\<rparr>) r = ereg eng r" "esgreg (eng\<lparr>e_desc_dequeued := n\<rparr>) r = esgreg eng r"
  "ereg (eng\<lparr>e_status := n\<rparr>) r = ereg eng r" "esgreg (eng\<lparr>e_status := n\<rparr>) r = esgreg eng r"
  "ereg (eng\<lparr>e_running := b\<rparr>) r = ereg eng r" "esgreg (eng\<lparr>e_running := b\<rparr>) r = esgreg eng r"
  "ereg (eng\<lparr>e_transfer_list := l\<rparr>) r = ereg eng r" "esgreg (eng\<lparr>e_transfer_list := l\<rparr>) r = esgreg eng r"
  "ereg (eng\<lparr>e_xdma_perf := q\<rparr>) r = ereg eng r" "esgreg (eng\<lparr>e_xdma_perf := q\<rparr>) r = esgreg eng r"
  "start_control ev (eng\<lparr>e_shutdown := x\<rparr>) = start_control ev eng"
  "start_control ev (eng\<lparr>e_desc_dequeued := n\<rparr>) = start_control ev eng"
  "credit_mode ev (eng\<lparr>e_shutdown := x\<rparr>) = credit_mode ev eng"
  by (simp_all add: ereg_def esgreg_def start_control_def credit_mode_def)

lemma engine_start_ok:
  assumes "e \<noteq> NULL" and "\<not> e_running (k_eng s e)" and "e_transfer_list (k_eng s e) = t # ts" and "t \<noteq> NULL"
  shows "fst (engine_start ev e s) = t"
    and "\<exists>w. k_eng (snd (engine_start ev e s)) = (k_eng s)(e := (k_eng s e)
          \<lparr>e_shutdown := ENGINE_SHUTDOWN_NONE, e_desc_dequeued := 0, e_status := w, e_running := True\<rparr>)"
    and "k_xfer (snd (engine_start ev e s)) = k_xfer s"
    and "k_desc (snd (engine_start ev e s)) = k_desc s"
    and "k_dev (snd (engine_start ev e s)) = k_dev s"
    and "writes (trace (snd (engine_start ev e s))) = start_writes ev (k_eng s e) (k_xfer s t) @ writes (trace s)"
  using assms by (auto simp: engine_start_def Let_def split_beta mode_config_writes start_writes_def)

subsection \<open>The run bit\<close>

text \<open>The run bit the driver last wrote to the control register of an engine.\<close>

definition run_written :: "xdma_engine \<Rightarrow> (ptr \<times> u32) list \<Rightarrow> bool" where
  "run_written eng ws =
     (case map_of ws (ereg eng ''control'') of None \<Rightarrow> False | Some w \<Rightarrow> w AND XDMA_CTRL_RUN_STOP \<noteq> 0)"

definition run_consistent :: "ptr \<Rightarrow> kst \<Rightarrow> bool" where
  "run_consistent e s \<longleftrightarrow> e_running (k_eng s e) = run_written (k_eng s e) (writes (trace s))"

lemma start_control_run: "start_control ev eng AND XDMA_CTRL_RUN_STOP \<noteq> 0"
  by (simp add: start_control_def Let_def xdma_consts)

lemma stop_control_run: "stop_control ev AND XDMA_CTRL_RUN_STOP = 0"
  by (simp add: stop_control_def Let_def xdma_consts)

lemma regs_apart:
  assumes "regs_placed eng"
  shows "esgreg eng ''credits'' \<noteq> ereg eng ''control''"
    and "esgreg eng ''first_desc_lo'' \<noteq> ereg eng ''control''"
    and "esgreg eng ''first_desc_hi'' \<noteq> ereg eng ''control''"
    and "esgreg eng ''first_desc_adjacent'' \<noteq> ereg eng ''control''"
    and "ereg eng ''interrupt_enable_mask'' \<noteq> ereg eng ''control''"
    and "ereg eng ''interrupt_enable_mask_w1s'' \<noteq> ereg eng ''control''"
  using assms by (simp_all add: regs_placed_def ereg_def esgreg_def reg_offsets SGDMA_OFFSET_FROM_CHANNEL_def)

text \<open>How a string of writes to other registers leaves the run bit alone.\<close>

lemma run_written_Cons [simp]:
  "run_written eng ((a, w) # ws) =
     (if a = ereg eng ''control'' then w AND XDMA_CTRL_RUN_STOP \<noteq> 0 else run_written eng ws)"
  by (simp add: run_written_def)

lemma run_written_cong: "e_regs eng = e_regs eng' \<Longrightarrow> run_written eng = run_written eng'"
  by (simp add: run_written_def ereg_def fun_eq_iff)

lemma run_written_start: "run_written eng (start_writes ev eng x @ ws)"
  using start_control_run by (simp add: start_writes_def)

subsection \<open>The length of the status text\<close>

lemma length_put_le: "length (put c x buf) \<le> length buf + length x"
  by (simp add: put_def)

lemma length_comma: "length (comma buf) = max 1 (length buf)"
  by (cases buf) (auto simp: comma_def)

lemma length_put_mono: "length buf \<le> n \<Longrightarrow> length (put c x buf) \<le> n + length x"
  using length_put_le [of c x buf] by simp

lemma section_lengths:
  "length (text_common v buf) \<le> max 1 (length buf + 54)"
  "length (text_h2c v buf) \<le> length buf + 77"
  "length (text_c2h v buf) \<le> length buf + 23"
  "length (text_desc v buf) \<le> length buf + 61"
  by (auto simp: text_common_def text_h2c_def text_c2h_def text_desc_def Let_def length_comma put_def)

lemma status_text_c2h_length:
  assumes "dir \<noteq> DMA_TO_DEVICE"
  shows "length (status_text name v dir) \<le> length name + 198"
proof -
  define b0 where "b0 = ''SG engine '' @ name @ '' status: 0x'' @ hex08 v @ '': ''"
  define b1 where "b1 = put (v AND XDMA_STAT_DESC_COMPLETED \<noteq> 0) ''DESC_COMPL,''
    (put (v AND XDMA_STAT_DESC_STOPPED \<noteq> 0) ''DESC_STOPPED,'' (put (v AND XDMA_STAT_BUSY \<noteq> 0) ''BUSY,'' b0))"
  have "length b0 = length name + 31" by (simp add: b0_def hex08_def)
  then have "length b1 \<le> length name + 60" by (simp add: b1_def put_def)
  moreover have "status_text name v dir = text_desc v (text_c2h v (text_common v b1))"
    unfolding status_text_def Let_def b1_def b0_def using assms by (simp only: if_False)
  ultimately show ?thesis
    using section_lengths(1) [of v b1] section_lengths(3) [of v "text_common v b1"]
      section_lengths(4) [of v "text_c2h v (text_common v b1)"]
    by simp
qed

subsection \<open>Properties\<close>

text \<open>C6: Starting an idle engine with a queued transfer programs the device in the order it needs:
  the bus address of the transfer's first descriptor (in two halves that join to it) and the
  adjacency count are written first, the control word with the run bit last; the driver then marks the
  engine running and no longer shut down, and starts counting dequeued descriptors from 0.\<close>

theorem engine_start_programs:
  fixes ev :: env
  assumes "e \<noteq> NULL" and "\<not> e_running (k_eng s e)" and "e_transfer_list (k_eng s e) = t # ts" and "t \<noteq> NULL"
    and "regs_placed (k_eng s e)"
  defines "eng \<equiv> k_eng s e" and "x \<equiv> k_xfer s t" and "s' \<equiv> snd (engine_start ev e s)"
  shows "fst (engine_start ev e s) = t \<and>
    hd (writes (trace s')) = (ereg eng ''control'', start_control ev eng) \<and>
    start_control ev eng AND XDMA_CTRL_RUN_STOP \<noteq> 0 \<and>
    (\<exists>lo hi. map_of (tl (writes (trace s'))) (esgreg eng ''first_desc_lo'') = Some lo \<and>
       map_of (tl (writes (trace s'))) (esgreg eng ''first_desc_hi'') = Some hi \<and>
       push_bit 32 (ucast hi) OR ucast lo = t_desc_bus x) \<and>
    map_of (tl (writes (trace s'))) (esgreg eng ''first_desc_adjacent'')
      = Some (xdma_get_next_adj (t_desc_adjacent x) (PCI_DMA_L (t_desc_bus x))) \<and>
    e_running (k_eng s' e) \<and> e_shutdown (k_eng s' e) = ENGINE_SHUTDOWN_NONE \<and> e_desc_dequeued (k_eng s' e) = 0 \<and>
    e_transfer_list (k_eng s' e) = t # ts"
proof -
  have ne: "esgreg eng ''first_desc_lo'' \<noteq> ereg eng ''interrupt_enable_mask''"
    "esgreg eng ''first_desc_hi'' \<noteq> ereg eng ''interrupt_enable_mask''"
    "esgreg eng ''first_desc_adjacent'' \<noteq> ereg eng ''interrupt_enable_mask''"
    using assms(5)
    by (simp_all add: eng_def regs_placed_def ereg_def esgreg_def reg_offsets SGDMA_OFFSET_FROM_CHANNEL_def)
  have w: "writes (trace s') = start_writes ev eng x @ writes (trace s)"
    using engine_start_ok(6) [OF assms(1-4)] by (simp add: s'_def eng_def x_def)
  have o: "esgreg eng ''first_desc_lo'' \<noteq> esgreg eng ''first_desc_hi''"
    "esgreg eng ''first_desc_lo'' \<noteq> esgreg eng ''first_desc_adjacent''"
    "esgreg eng ''first_desc_hi'' \<noteq> esgreg eng ''first_desc_adjacent''"
    by (simp_all add: esgreg_def reg_offsets)
  have "map_of (tl (writes (trace s'))) (esgreg eng ''first_desc_lo'') = Some (PCI_DMA_L (t_desc_bus x))"
    "map_of (tl (writes (trace s'))) (esgreg eng ''first_desc_hi'') = Some (PCI_DMA_H (t_desc_bus x))"
    and adj: "map_of (tl (writes (trace s'))) (esgreg eng ''first_desc_adjacent'')
      = Some (xdma_get_next_adj (t_desc_adjacent x) (PCI_DMA_L (t_desc_bus x)))"
    and hd: "hd (writes (trace s')) = (ereg eng ''control'', start_control ev eng)"
    using o ne by (simp_all add: w start_writes_def)
  then have ex: "\<exists>lo hi. map_of (tl (writes (trace s'))) (esgreg eng ''first_desc_lo'') = Some lo \<and>
       map_of (tl (writes (trace s'))) (esgreg eng ''first_desc_hi'') = Some hi \<and>
       push_bit 32 (ucast hi) OR ucast lo = t_desc_bus x"
    using PCI_DMA_join [of "t_desc_bus x"] by metis
  obtain st where k: "k_eng s' = (k_eng s)(e := (k_eng s e)
      \<lparr>e_shutdown := ENGINE_SHUTDOWN_NONE, e_desc_dequeued := 0, e_status := st, e_running := True\<rparr>)"
    using engine_start_ok(2) [OF assms(1-4)] by (auto simp: s'_def)
  have "e_running (k_eng s' e) \<and> e_shutdown (k_eng s' e) = ENGINE_SHUTDOWN_NONE \<and>
    e_desc_dequeued (k_eng s' e) = 0 \<and> e_transfer_list (k_eng s' e) = t # ts"
    using assms(3) by (simp add: k)
  with engine_start_ok(1) [OF assms(1-4)] start_control_run hd ex adj show ?thesis by (intro conjI) simp_all
qed

text \<open>A concrete engine with one queued transfer.\<close>

definition one_transfer :: kst where
  "one_transfer = kst0\<lparr>
     k_eng := (\<lambda>_. zero_engine)(1 := zero_engine\<lparr>e_magic := MAGIC_ENGINE, e_xdev := 9, e_regs := 0x10000,
       e_sgdma_regs := 0x14000, e_dir := DMA_TO_DEVICE, e_transfer_list := [2]\<rparr>),
     k_xfer := (\<lambda>_. zero_transfer)(2 := zero_transfer\<lparr>t_desc_bus := 0x123456780, t_desc_adjacent := 3,
       t_desc_num := 3, t_state := TRANSFER_STATE_SUBMITTED\<rparr>)\<rparr>"

theorem engine_start_programs_witness:
  "fst (engine_start env0 1 one_transfer) = 2 \<and>
   hd (writes (trace (snd (engine_start env0 1 one_transfer)))) = (0x10004, 0x00F83E1F)"
proof -
  have "start_control env0 (k_eng one_transfer 1) = 0x00F83E1F"
    by (simp add: start_control_def one_transfer_def env0_def zero_engine_def Let_def xdma_consts)
  moreover have "ereg (k_eng one_transfer 1) ''control'' = 0x10004"
    by (simp add: ereg_def one_transfer_def reg_offsets)
  ultimately show ?thesis
    using engine_start_programs [of 1 one_transfer 2 "[]" env0]
    by (simp add: one_transfer_def zero_engine_def regs_placed_def SGDMA_OFFSET_FROM_CHANNEL_def)
qed

text \<open>The status dump of a card-to-host engine fits its 256-byte buffer for every status value,
  as the engine name has at most 15 characters.\<close>

theorem status_dump_c2h_fits:
  assumes "e_dir (k_eng s e) \<noteq> DMA_TO_DEVICE" and "length (e_name (k_eng s e)) \<le> 15"
  shows "engine_status_dump e s \<noteq> None"
  using status_text_c2h_length [OF assms(1), of "e_name (k_eng s e)" "e_status (k_eng s e)"] assms(2)
  by (simp add: engine_status_dump_def Let_def)

theorem status_dump_c2h_fits_witness:
  "engine_status_dump 0 (kst0\<lparr>k_eng := (\<lambda>_. zero_engine\<lparr>e_status := 0xFFFFFFFF, e_dir := DMA_FROM_DEVICE\<rparr>)\<rparr>) \<noteq> None"
  by (rule status_dump_c2h_fits) (simp_all add: zero_engine_def)

text \<open>The dump of a host-to-card engine does not fit: with every status bit set, which is what a read
  returns once the device has left the bus, the text of engine \<open>0-H2C0-MM\<close> needs 261 bytes and a
  terminator.\<close>

theorem status_dump_h2c_overflow:
  "engine_status_dump 0 (kst0\<lparr>k_eng := (\<lambda>_. zero_engine
     \<lparr>e_name := ''0-H2C0-MM'', e_status := 0xFFFFFFFF, e_dir := DMA_TO_DEVICE\<rparr>)\<rparr>) = None"
  by (simp add: engine_status_dump_def status_text_def text_common_def text_h2c_def text_desc_def Let_def
      length_comma put_def xdma_consts hex08_def)

end
