(* ===== verification/Xdma_IntRegs.thy ===== *)
theory Xdma_IntRegs
  imports Xdma_Types
begin

text \<open>
  The interrupt control block of a device (\<^verbatim>\<open>libxdma.c\<close>): enabling and disabling channel and user
  interrupts by write-one-to-set and write-one-to-clear registers, and reading the request words.
\<close>

definition ireg :: "xdma_dev \<Rightarrow> string \<Rightarrow> ptr" where
  "ireg d r = d_bar d (d_config_bar_idx d) + XDMA_OFS_INT_CTRL + field_ofs interrupt_regs r"

definition check_nonzero_interrupt_status :: "env \<Rightarrow> ptr \<Rightarrow> kst \<Rightarrow> kst" where
  "check_nonzero_interrupt_status ev xdev s =
     (let d = k_dev s xdev;
          (_, s) = read_register ev (ireg d ''user_int_enable'') s;
          (_, s) = read_register ev (ireg d ''channel_int_enable'') s;
          (_, s) = read_register ev (ireg d ''user_int_request'') s;
          (_, s) = read_register ev (ireg d ''channel_int_request'') s;
          (_, s) = read_register ev (ireg d ''user_int_pending'') s;
          (_, s) = read_register ev (ireg d ''channel_int_pending'') s
      in s)"

definition channel_interrupts_enable :: "ptr \<Rightarrow> u32 \<Rightarrow> kst \<Rightarrow> kst" where
  "channel_interrupts_enable xdev msk s = write_register msk (ireg (k_dev s xdev) ''channel_int_enable_w1s'') s"

definition channel_interrupts_disable :: "ptr \<Rightarrow> u32 \<Rightarrow> kst \<Rightarrow> kst" where
  "channel_interrupts_disable xdev msk s = write_register msk (ireg (k_dev s xdev) ''channel_int_enable_w1c'') s"

definition user_interrupts_enable :: "ptr \<Rightarrow> u32 \<Rightarrow> kst \<Rightarrow> kst" where
  "user_interrupts_enable xdev msk s = write_register msk (ireg (k_dev s xdev) ''user_int_enable_w1s'') s"

definition user_interrupts_disable :: "ptr \<Rightarrow> u32 \<Rightarrow> kst \<Rightarrow> kst" where
  "user_interrupts_disable xdev msk s = write_register msk (ireg (k_dev s xdev) ''user_int_enable_w1c'') s"

definition read_interrupts :: "env \<Rightarrow> ptr \<Rightarrow> kst \<Rightarrow> u32 \<times> kst" where
  "read_interrupts ev xdev s =
     (let d = k_dev s xdev;
          (hi, s) = read_register ev (ireg d ''user_int_request'') s;
          (lo, s) = read_register ev (ireg d ''channel_int_request'') s
      in (build_u32 hi lo, s))"

lemmas interrupts_defs = channel_interrupts_enable_def channel_interrupts_disable_def
  user_interrupts_enable_def user_interrupts_disable_def

lemma interrupts_sel [simp]:
  "k_eng (channel_interrupts_enable d m s) = k_eng s" "k_xfer (channel_interrupts_enable d m s) = k_xfer s"
  "k_dev (channel_interrupts_enable d m s) = k_dev s" "k_desc (channel_interrupts_enable d m s) = k_desc s"
  "k_eng (channel_interrupts_disable d m s) = k_eng s" "k_xfer (channel_interrupts_disable d m s) = k_xfer s"
  "k_dev (channel_interrupts_disable d m s) = k_dev s" "k_desc (channel_interrupts_disable d m s) = k_desc s"
  "k_eng (user_interrupts_enable d m s) = k_eng s" "k_xfer (user_interrupts_enable d m s) = k_xfer s"
  "k_dev (user_interrupts_enable d m s) = k_dev s" "k_desc (user_interrupts_enable d m s) = k_desc s"
  "k_eng (user_interrupts_disable d m s) = k_eng s" "k_xfer (user_interrupts_disable d m s) = k_xfer s"
  "k_dev (user_interrupts_disable d m s) = k_dev s" "k_desc (user_interrupts_disable d m s) = k_desc s"
  by (simp_all add: interrupts_defs)

lemma interrupts_trace [simp]:
  "trace (channel_interrupts_enable d m s) = Wr (ireg (k_dev s d) ''channel_int_enable_w1s'') m # trace s"
  "trace (channel_interrupts_disable d m s) = Wr (ireg (k_dev s d) ''channel_int_enable_w1c'') m # trace s"
  "trace (user_interrupts_enable d m s) = Wr (ireg (k_dev s d) ''user_int_enable_w1s'') m # trace s"
  "trace (user_interrupts_disable d m s) = Wr (ireg (k_dev s d) ''user_int_enable_w1c'') m # trace s"
  by (simp_all add: interrupts_defs)

text \<open>The word returned for the pending requests holds the user requests in its upper and the
  channel requests in its lower 16 bits, each exactly as the device returned it.\<close>

theorem read_interrupts_halves:
  "drop_bit 16 (fst (read_interrupts ev xdev s)) =
      hw ev (trace s) (ireg (k_dev s xdev) ''user_int_request'') AND 0xFFFF \<and>
    fst (read_interrupts ev xdev s) AND 0xFFFF =
      hw ev (Rd (ireg (k_dev s xdev) ''user_int_request'')
                (hw ev (trace s) (ireg (k_dev s xdev) ''user_int_request'')) # trace s)
        (ireg (k_dev s xdev) ''channel_int_request'') AND 0xFFFF"
proof -
  have m: "(0xFFFF :: u32) = mask 16" by (simp add: mask_eq_exp_minus_1)
  show ?thesis
    unfolding read_interrupts_def build_u32_def Let_def split_beta read_register_sel m fst_conv
    by (auto simp: bit_eq_iff bit_simps)
qed

end
