(* ===== verification/Xdma_Service.thy ===== *)
theory Xdma_Service
  imports Xdma_Engine Xdma_IntRegs
begin

text \<open>
  Servicing an engine (\<^verbatim>\<open>libxdma.c\<close>): completing the transfers the device has finished, from the
  interrupt bottom half or from polling, restarting the engine when transfers are left, queueing and
  aborting transfers.

  The completion callback of an asynchronous request is an event.  Memory the device writes (the
  polled write-back word, the result blocks of streaming transfers) is read like a register.
\<close>

subsection \<open>Completing transfers\<close>

definition engine_service_shutdown :: "env \<Rightarrow> ptr \<Rightarrow> kst \<Rightarrow> int \<times> kst" where
  "engine_service_shutdown ev e s =
     (let (rv, s) = xdma_engine_stop ev e s
      in if rv < 0 then (rv, s) else (0, emit (Wake (WqShutdown e)) s))"

definition engine_transfer_completion :: "ptr \<Rightarrow> ptr \<Rightarrow> kst \<Rightarrow> ptr \<times> kst" where
  "engine_transfer_completion e transfer s =
     (if e = NULL then (NULL, s)
      else if transfer = NULL then (NULL, s)
      else
        let s = emit (Wake (WqTransfer transfer)) s;
            x = k_xfer s transfer;
            s = (if t_cb x \<noteq> NULL \<and> t_last_in_request x then emit (IoDone (t_cb x) 0) s else s)
        in (transfer, s))"

text \<open>\<open>list_del(engine->transfer_list.next)\<close>\<close>

definition transfer_list_del :: "ptr \<Rightarrow> kst \<Rightarrow> kst" where
  "transfer_list_del e = upd_eng e (\<lambda>g. g\<lparr>e_transfer_list := tl (e_transfer_list g)\<rparr>)"

definition head_transfer :: "ptr \<Rightarrow> kst \<Rightarrow> ptr" where
  "head_transfer e s = (case e_transfer_list (k_eng s e) of [] \<Rightarrow> NULL | t # _ \<Rightarrow> t)"

text \<open>The body and the head of the loop over the transfers that are complete.\<close>

definition service_list_step :: "ptr \<Rightarrow> ptr \<Rightarrow> kst \<Rightarrow> kst" where
  "service_list_step e transfer s =
     (let s = transfer_list_del e s;
          s = upd_eng e (\<lambda>g. g\<lparr>e_desc_dequeued := e_desc_dequeued g + t_desc_num (k_xfer s transfer)\<rparr>) s;
          s = upd_xfer transfer (\<lambda>x. x\<lparr>t_state := TRANSFER_STATE_COMPLETED\<rparr>) s
      in snd (engine_transfer_completion e transfer s))"

lemma list_del_sel [simp]:
  "trace (transfer_list_del e s) = trace s" "k_xfer (transfer_list_del e s) = k_xfer s"
  "k_desc (transfer_list_del e s) = k_desc s" "k_dev (transfer_list_del e s) = k_dev s"
  "k_eng (transfer_list_del e s) =
     (k_eng s)(e := (k_eng s e)\<lparr>e_transfer_list := tl (e_transfer_list (k_eng s e))\<rparr>)"
  by (simp_all add: transfer_list_del_def)

lemma completion_sel [simp]:
  "k_eng (snd (engine_transfer_completion e t s)) = k_eng s"
  "k_xfer (snd (engine_transfer_completion e t s)) = k_xfer s"
  "k_desc (snd (engine_transfer_completion e t s)) = k_desc s"
  "k_dev (snd (engine_transfer_completion e t s)) = k_dev s"
  "writes (trace (snd (engine_transfer_completion e t s))) = writes (trace s)"
  "held l (trace (snd (engine_transfer_completion e t s))) = held l (trace s)"
  "fst (engine_transfer_completion e t s) = (if e = NULL then NULL else t)"
  by (simp_all add: engine_transfer_completion_def Let_def)

lemma service_list_step_eng [simp]:
  "k_eng (service_list_step e t s) = (k_eng s)(e := (k_eng s e)
     \<lparr>e_transfer_list := tl (e_transfer_list (k_eng s e)),
      e_desc_dequeued := e_desc_dequeued (k_eng s e) + t_desc_num (k_xfer s t)\<rparr>)"
  by (simp add: service_list_step_def Let_def)

lemma tl_Cons_length: "tl xs = y # ys \<Longrightarrow> length xs - Suc 0 < length xs"
  by (cases xs) auto

function service_list_loop :: "ptr \<Rightarrow> ptr \<Rightarrow> u32 \<Rightarrow> kst \<Rightarrow> (ptr \<times> u32) \<times> kst" where
  "service_list_loop e transfer desc_completed s =
     (if transfer \<noteq> NULL \<and> \<not> t_cyclic (k_xfer s transfer) \<and> desc_completed > t_desc_num (k_xfer s transfer)
      then let desc_completed = desc_completed - t_desc_num (k_xfer s transfer);
               s = service_list_step e transfer s
           in service_list_loop e (head_transfer e s) desc_completed s
      else ((transfer, desc_completed), s))"
  by pat_completeness auto
termination
  by (relation "measure (\<lambda>(e, t, n, s). length (e_transfer_list (k_eng s e)) + (if t = NULL then 0 else 1))")
    (auto simp: head_transfer_def tl_Cons_length split: list.splits)

declare service_list_loop.simps [simp del]

definition engine_service_transfer_list :: "ptr \<Rightarrow> ptr \<Rightarrow> u32 \<Rightarrow> kst \<Rightarrow> (ptr \<times> u32) \<times> kst" where
  "engine_service_transfer_list e transfer desc_completed s =
     (if e = NULL then ((NULL, desc_completed), s)
      else if transfer = NULL then ((NULL, desc_completed), s)
      else service_list_loop e transfer desc_completed s)"

definition engine_err_handle :: "env \<Rightarrow> ptr \<Rightarrow> ptr \<Rightarrow> u32 \<Rightarrow> kst \<Rightarrow> int \<times> kst" where
  "engine_err_handle ev e transfer desc_completed s =
     (let s = (if e_status (k_eng s e) AND XDMA_STAT_BUSY \<noteq> 0
               then snd (read_register ev (ereg (k_eng s e) ''status'') s) else s);
          s = upd_xfer transfer (\<lambda>x. x\<lparr>t_state := TRANSFER_STATE_FAILED\<rparr>) s
      in xdma_engine_stop ev e s)"

definition status_error :: "xdma_engine \<Rightarrow> bool" where
  "status_error eng \<longleftrightarrow>
     (e_dir eng = DMA_FROM_DEVICE \<and> e_status eng AND XDMA_STAT_C2H_ERR_MASK \<noteq> 0) \<or>
     (e_dir eng = DMA_TO_DEVICE \<and> e_status eng AND XDMA_STAT_H2C_ERR_MASK \<noteq> 0)"

text \<open>The search for an end-of-packet mark in the result blocks \<open>i, i + 1, \<dots>\<close>: \<open>k\<close> blocks.\<close>

fun eop_scan :: "env \<Rightarrow> ptr \<Rightarrow> nat \<Rightarrow> nat \<Rightarrow> kst \<Rightarrow> bool \<times> kst" where
  "eop_scan ev result i 0 s = (False, s)"
| "eop_scan ev result i (Suc k) s =
     (let (status, s) = read_register ev (result + sizeof_xdma_result * i) s
      in if status AND RX_STATUS_EOP \<noteq> 0 then (True, s) else eop_scan ev result (Suc i) k s)"

definition eop_account :: "bool \<Rightarrow> u32 \<Rightarrow> xdma_transfer \<Rightarrow> xdma_transfer" where
  "eop_account found desc_completed x =
     x\<lparr>t_flags := (if found then t_flags x OR XFER_FLAG_ST_C2H_EOP_RCVED else t_flags x),
       t_desc_cmpl := t_desc_cmpl x + desc_completed\<rparr>"

lemma eop_account_sel [simp]:
  "t_state (eop_account found n x) = t_state x" "t_desc_num (eop_account found n x) = t_desc_num x"
  "t_desc_cmpl (eop_account found n x) = t_desc_cmpl x + n" "t_cyclic (eop_account found n x) = t_cyclic x"
  by (simp_all add: eop_account_def)

definition engine_service_final_transfer :: "env \<Rightarrow> ptr \<Rightarrow> ptr \<Rightarrow> u32 \<Rightarrow> kst \<Rightarrow> ptr \<times> kst" where
  "engine_service_final_transfer ev e transfer desc_completed s =
     (if e = NULL then (NULL, s)
      else if transfer = NULL then (NULL, s)
      else
        let transfer_del =
              (\<lambda>s. engine_transfer_completion e transfer (transfer_list_del e s))
        in if status_error (k_eng s e) then
             transfer_del (snd (engine_err_handle ev e transfer desc_completed s))
           else if desc_completed < t_desc_num (k_xfer s transfer) then
             if e_eop_flush (k_eng s e) then
               let (found, s) = eop_scan ev (t_res_virt (k_xfer s transfer)) 0 (nat (sint desc_completed)) s;
                   s = upd_xfer transfer (eop_account found desc_completed) s
               in if t_flags (k_xfer s transfer) AND XFER_FLAG_ST_C2H_EOP_RCVED = 0 then (NULL, s)
                  else
                    let (_, s) = engine_service_shutdown ev e s;
                        s = upd_xfer transfer (\<lambda>x. x\<lparr>t_state := TRANSFER_STATE_COMPLETED\<rparr>) s;
                        s = upd_eng e (\<lambda>g. g\<lparr>e_desc_dequeued :=
                              e_desc_dequeued g + t_desc_cmpl (k_xfer s transfer)\<rparr>) s
                    in transfer_del s
             else
               let s = upd_xfer transfer (\<lambda>x. x\<lparr>t_state := TRANSFER_STATE_FAILED\<rparr>) s;
                   s = upd_eng e (\<lambda>g. g\<lparr>e_desc_dequeued :=
                         e_desc_dequeued g + t_desc_num (k_xfer s transfer)\<rparr>) s;
                   s = upd_xfer transfer (\<lambda>x. x\<lparr>t_desc_cmpl := desc_completed\<rparr>) s
               in transfer_del s
           else
             let s = upd_xfer transfer (\<lambda>x. x\<lparr>t_state := TRANSFER_STATE_COMPLETED,
                       t_desc_cmpl := t_desc_num x\<rparr>) s;
                 s = upd_eng e (\<lambda>g. g\<lparr>e_desc_dequeued :=
                       e_desc_dequeued g + t_desc_num (k_xfer s transfer)\<rparr>) s
             in transfer_del s)"

definition engine_service_perf :: "ptr \<Rightarrow> u32 \<Rightarrow> kst \<Rightarrow> int \<times> kst" where
  "engine_service_perf e desc_completed s =
     (if e = NULL then (- EINVAL, s)
      else if e_xdma_perf (k_eng s e) \<noteq> None then
        let s = (if e_status (k_eng s e) AND XDMA_STAT_DESC_COMPLETED \<noteq> 0
                 then set_perf e (\<lambda>p. p\<lparr>pf_iterations := desc_completed\<rparr>) s else s);
            s = (if e_status (k_eng s e) AND XDMA_STAT_DESC_STOPPED \<noteq> 0
                 then emit (Wake (WqPerf e)) (set_perf e (\<lambda>p. p\<lparr>pf_stopped := 1\<rparr>) s) else s)
        in (0, s)
      else (0, s))"

definition engine_service_resume :: "env \<Rightarrow> ptr \<Rightarrow> kst \<Rightarrow> int \<times> kst" where
  "engine_service_resume ev e s =
     (if e = NULL then (- EINVAL, s)
      else if \<not> e_running (k_eng s e) then
        if e_transfer_list (k_eng s e) \<noteq> [] then
          let (transfer_started, s) = engine_start ev e s
          in if transfer_started = NULL then (- EINVAL, s) else (0, s)
        else if e_shutdown (k_eng s e) AND ENGINE_SHUTDOWN_REQUEST \<noteq> 0 then
          let s = upd_eng e (\<lambda>g. g\<lparr>e_shutdown := e_shutdown g OR ENGINE_SHUTDOWN_IDLE\<rparr>) s
          in (0, emit (Wake (WqShutdown e)) s)
        else (0, s)
      else if e_transfer_list (k_eng s e) = [] then (0, snd (engine_service_shutdown ev e s))
      else (0, s))"

subsection \<open>The service routine\<close>

text \<open>The part of \<open>engine_service\<close> after the number of completed descriptors is known not to be 0.\<close>

definition engine_service_queue :: "env \<Rightarrow> ptr \<Rightarrow> u32 \<Rightarrow> kst \<Rightarrow> int \<times> kst" where
  "engine_service_queue ev e desc_count s =
     (let transfer = head_transfer e s;
          (rv, s) = (if e_transfer_list (k_eng s e) \<noteq> [] then engine_service_perf e desc_count s else (0, s))
      in if rv < 0 then (rv, s)
         else
           let desc_count = desc_count - e_desc_dequeued (k_eng s e);
               ((transfer, desc_count), s) = engine_service_transfer_list e transfer desc_count s;
               (transfer, s) = engine_service_final_transfer ev e transfer desc_count s;
               s = (if \<not> e_eop_flush (k_eng s e) then snd (engine_service_resume ev e s) else s)
           in (0, s))"

definition engine_service :: "env \<Rightarrow> ptr \<Rightarrow> u32 \<Rightarrow> kst \<Rightarrow> int \<times> kst" where
  "engine_service ev e desc_writeback s =
     (let desc_count = desc_writeback AND WB_COUNT_MASK;
          err_flag = desc_writeback AND WB_ERR_MASK;
          done = (if err_flag \<noteq> 0 then - 1 else 0)
      in if e = NULL then (- EINVAL, s)
         else if \<not> e_running (k_eng s e) then
           let (rv, s) = engine_status_read ev e True False s
           in if rv < 0 then (rv, s) else (0, s)
         else
           let (rv, s) = (if desc_count = 0 \<or> err_flag \<noteq> 0 then engine_status_read ev e True False s else (0, s))
           in if rv < 0 then (rv, s)
              else
                let (rv, s) =
                      (if (e_running (k_eng s e) \<and> e_status (k_eng s e) AND XDMA_STAT_BUSY = 0) \<or>
                          (\<not> e_eop_flush (k_eng s e) \<and> desc_count \<noteq> 0)
                       then engine_service_shutdown ev e s else (0, s))
                in if rv < 0 then (rv, s)
                   else
                     let (desc_count, s) =
                           (if desc_count = 0
                            then read_register ev (ereg (k_eng s e) ''completed_desc_count'') s
                            else (desc_count, s))
                     in if desc_count = 0 then (done, s)
                        else
                          let (rv, s) = engine_service_queue ev e desc_count s
                          in if rv < 0 then (rv, s) else (done, s))"

definition engine_service_work :: "env \<Rightarrow> ptr \<Rightarrow> kst \<Rightarrow> kst" where
  "engine_service_work ev e s =
     (if e_magic (k_eng s e) \<noteq> MAGIC_ENGINE then s
      else
        let s = emit (Acquire (LkEngine e)) s;
            (rv, s) = engine_service ev e 0 s;
            eng = k_eng s e;
            s = (if rv < 0 then s
                 else if d_msix_enabled (k_dev s (e_xdev eng)) then
                   write_register (e_interrupt_enable_mask_value eng) (ereg eng ''interrupt_enable_mask_w1s'') s
                 else channel_interrupts_enable (e_xdev eng) (e_irq_bitmask eng) s)
        in emit (Release (LkEngine e)) s)"

subsection \<open>Polling\<close>

definition NUM_POLLS_PER_SCHED :: u32 where "NUM_POLLS_PER_SCHED = 100"

text \<open>\<open>time_after(a, b)\<close>: the clock wraps around, so the comparison is on the signed difference.\<close>

definition time_after :: "u64 \<Rightarrow> u64 \<Rightarrow> bool" where
  "time_after a b \<longleftrightarrow> sint (b - a) < 0"

text \<open>The polling loop; \<open>None\<close> stands for a loop that never ends.\<close>

partial_function (option) wb_poll ::
    "env \<Rightarrow> ptr \<Rightarrow> u32 \<Rightarrow> u64 \<Rightarrow> u32 \<Rightarrow> kst \<Rightarrow> (u32 \<times> kst) option" where
  "wb_poll ev wb_data expected_wb timeout sched_limit s =
     (let (desc_wb, s) = read_register ev wb_data s;
          s = (if desc_wb \<noteq> 0 then write_register 0 wb_data s else s)
      in if desc_wb AND WB_ERR_MASK \<noteq> 0 then Some (desc_wb, s)
         else if desc_wb \<ge> expected_wb then Some (desc_wb, s)
         else if time_after (jiffies ev (trace s)) timeout then
           Some (if desc_wb AND WB_COUNT_MASK > expected_wb then expected_wb OR WB_ERR_MASK else desc_wb, s)
         else
           let s = (if sched_limit \<noteq> 0 \<and> sched_limit mod NUM_POLLS_PER_SCHED = 0
                    then emit (Kernel ''schedule'' 0 0) s else s)
           in wb_poll ev wb_data expected_wb timeout (sched_limit + 1) s)"

definition engine_service_wb_monitor :: "env \<Rightarrow> ptr \<Rightarrow> u32 \<Rightarrow> kst \<Rightarrow> (u32 \<times> kst) option" where
  "engine_service_wb_monitor ev e expected_wb s =
     (if e = NULL then Some (of_int (- EINVAL), s)
      else
        let wb_data = e_poll_mode_addr_virt (k_eng s e);
            timeout = jiffies ev (trace s) + POLL_TIMEOUT_SECONDS * HZ ev
        in if expected_wb = 0 then Some (0, s) else wb_poll ev wb_data expected_wb timeout 0 s)"

definition engine_service_poll :: "env \<Rightarrow> ptr \<Rightarrow> u32 \<Rightarrow> kst \<Rightarrow> (int \<times> kst) option" where
  "engine_service_poll ev e expected_desc_count s =
     (if e = NULL then Some (- EINVAL, s)
      else if e_magic (k_eng s e) \<noteq> MAGIC_ENGINE then Some (- EINVAL, s)
      else
        case engine_service_wb_monitor ev e expected_desc_count s of
          None \<Rightarrow> None
        | Some (desc_wb, s) \<Rightarrow>
            if desc_wb = 0 then Some (0, s)
            else
              let s = emit (Acquire (LkEngine e)) s;
                  (rv, s) = engine_service ev e desc_wb s
              in Some (rv, emit (Release (LkEngine e)) s))"

subsection \<open>Queueing and aborting\<close>

definition transfer_abort :: "ptr \<Rightarrow> ptr \<Rightarrow> kst \<Rightarrow> int \<times> kst" where
  "transfer_abort e transfer s =
     (if e = NULL then (- EINVAL, s)
      else if transfer = NULL then (- EINVAL, s)
      else if t_desc_num (k_xfer s transfer) = 0 then (- EINVAL, s)
      else
        let s = (if head_transfer e s = transfer then transfer_list_del e s else s);
            s = (if t_state (k_xfer s transfer) = TRANSFER_STATE_SUBMITTED
                 then upd_xfer transfer (\<lambda>x. x\<lparr>t_state := TRANSFER_STATE_ABORTED\<rparr>) s else s)
        in (0, s))"

definition transfer_queue :: "env \<Rightarrow> ptr \<Rightarrow> ptr \<Rightarrow> kst \<Rightarrow> int \<times> kst" where
  "transfer_queue ev e transfer s =
     (if e = NULL then (- EINVAL, s)
      else if e_xdev (k_eng s e) = NULL then (- EINVAL, s)
      else if transfer = NULL then (- EINVAL, s)
      else if t_desc_num (k_xfer s transfer) = 0 then (- EINVAL, s)
      else
        let xdev = e_xdev (k_eng s e);
            (offline, s) = xdma_device_flag_check xdev XDEV_FLAG_OFFLINE s
        in if offline \<noteq> 0 then (- EBUSY, s)
           else
             let s = emit (Acquire (LkEngine e)) s;
                 (rv, s) =
                   (if e_shutdown (k_eng s e) AND ENGINE_SHUTDOWN_REQUEST \<noteq> 0 then (- EBUSY, s)
                    else
                      let s = upd_xfer transfer (\<lambda>x. x\<lparr>t_state := TRANSFER_STATE_SUBMITTED\<rparr>) s;
                          s = upd_eng e (\<lambda>g. g\<lparr>e_transfer_list := e_transfer_list g @ [transfer]\<rparr>) s
                      in if \<not> e_running (k_eng s e) then (0, snd (engine_start ev e s)) else (0, s))
             in (rv, emit (Release (LkEngine e)) s))"

subsection \<open>Frame facts\<close>

lemma shutdown_sel [simp]:
  assumes "e \<noteq> NULL"
  shows "fst (engine_service_shutdown ev e s) = 0"
    and "k_eng (snd (engine_service_shutdown ev e s)) = (k_eng s)(e := (k_eng s e)\<lparr>e_running := False\<rparr>)"
    and "k_xfer (snd (engine_service_shutdown ev e s)) = k_xfer s"
    and "k_desc (snd (engine_service_shutdown ev e s)) = k_desc s"
    and "k_dev (snd (engine_service_shutdown ev e s)) = k_dev s"
    and "writes (trace (snd (engine_service_shutdown ev e s))) =
      (ereg (k_eng s e) ''control'', stop_control ev) #
        (if credit_mode ev (k_eng s e) then [(esgreg (k_eng s e) ''credits'', 0)] else []) @ writes (trace s)"
    and "held l (trace (snd (engine_service_shutdown ev e s))) = held l (trace s)"
  using assms by (simp_all add: engine_service_shutdown_def Let_def split_beta)

lemma eop_scan_sel [simp]:
  "k_eng (snd (eop_scan ev r i k s)) = k_eng s" "k_xfer (snd (eop_scan ev r i k s)) = k_xfer s"
  "k_desc (snd (eop_scan ev r i k s)) = k_desc s" "k_dev (snd (eop_scan ev r i k s)) = k_dev s"
  "writes (trace (snd (eop_scan ev r i k s))) = writes (trace s)"
  "held l (trace (snd (eop_scan ev r i k s))) = held l (trace s)"
  by (induction k arbitrary: i s) (simp_all add: Let_def split_beta)

lemma service_list_step_sel [simp]:
  "k_xfer (service_list_step e t s) = (k_xfer s)(t := (k_xfer s t)\<lparr>t_state := TRANSFER_STATE_COMPLETED\<rparr>)"
  "k_desc (service_list_step e t s) = k_desc s" "k_dev (service_list_step e t s) = k_dev s"
  "writes (trace (service_list_step e t s)) = writes (trace s)"
  "held l (trace (service_list_step e t s)) = held l (trace s)"
  by (simp_all add: service_list_step_def Let_def)

subsection \<open>The completed prefix of the queue\<close>

text \<open>How many transfers at the head of the queue the loop completes when \<open>n\<close> descriptors are
  accounted for: it stops at a cyclic transfer and at the one the device finished last.\<close>

fun dequeued :: "u32 \<Rightarrow> xdma_transfer list \<Rightarrow> nat" where
  "dequeued n [] = 0"
| "dequeued n (x # xs) = (if \<not> t_cyclic x \<and> n > t_desc_num x then Suc (dequeued (n - t_desc_num x) xs) else 0)"

definition head_of :: "ptr list \<Rightarrow> ptr" where
  "head_of ts = (case ts of [] \<Rightarrow> NULL | t # _ \<Rightarrow> t)"

lemma head_of_simps [simp]: "head_of [] = NULL" "head_of (t # ts) = t"
  by (simp_all add: head_of_def)

lemma head_transfer_eq: "head_transfer e s = head_of (e_transfer_list (k_eng s e))"
  by (simp add: head_transfer_def head_of_def)

text \<open>The tasks waiting for the transfers \<open>dn\<close> have been woken between two states.\<close>

definition woken :: "ptr list \<Rightarrow> kst \<Rightarrow> kst \<Rightarrow> bool" where
  "woken dn s s' \<longleftrightarrow> (\<exists>new. trace s' = new @ trace s \<and> (\<forall>t \<in> set dn. Wake (WqTransfer t) \<in> set new))"

lemma woken_refl [simp]: "woken [] s s"
  by (simp add: woken_def)

lemma woken_trans: "woken xs s s1 \<Longrightarrow> woken ys s1 s2 \<Longrightarrow> set zs \<subseteq> set xs \<union> set ys \<Longrightarrow> woken zs s s2"
  unfolding woken_def by (elim exE conjE) (rule exI, auto)

lemma woken_completion: "e \<noteq> NULL \<Longrightarrow> t \<noteq> NULL \<Longrightarrow> woken [t] s (snd (engine_transfer_completion e t s))"
  by (auto simp: woken_def engine_transfer_completion_def Let_def)

lemma woken_step: "e \<noteq> NULL \<Longrightarrow> t \<noteq> NULL \<Longrightarrow> woken [t] s (service_list_step e t s)"
  by (auto simp: woken_def service_list_step_def engine_transfer_completion_def Let_def)

text \<open>What the loop has done to the state after completing the transfers \<open>dn\<close>.\<close>

definition list_done :: "ptr \<Rightarrow> ptr list \<Rightarrow> ptr list \<Rightarrow> kst \<Rightarrow> kst \<Rightarrow> bool" where
  "list_done e dn rest s s' \<longleftrightarrow>
     k_xfer s' = (\<lambda>t. if t \<in> set dn then (k_xfer s t)\<lparr>t_state := TRANSFER_STATE_COMPLETED\<rparr> else k_xfer s t) \<and>
     k_eng s' = (k_eng s)(e := (k_eng s e)\<lparr>e_transfer_list := rest,
       e_desc_dequeued := e_desc_dequeued (k_eng s e) + (\<Sum>t \<leftarrow> dn. t_desc_num (k_xfer s t))\<rparr>) \<and>
     k_desc s' = k_desc s \<and> k_dev s' = k_dev s \<and> writes (trace s') = writes (trace s) \<and>
     (\<forall>l. held l (trace s') = held l (trace s)) \<and> woken dn s s'"

lemma list_done_refl:
  assumes "e_transfer_list (k_eng s e) = ts"
  shows "list_done e [] ts s s"
proof -
  have "(k_eng s e)\<lparr>e_transfer_list := ts, e_desc_dequeued := e_desc_dequeued (k_eng s e)\<rparr> = k_eng s e"
    using assms by (cases "k_eng s e") simp
  then show ?thesis by (simp add: list_done_def)
qed

lemma list_done_Cons:
  assumes "list_done e dn rest (service_list_step e t s) s'" and "t \<notin> set dn" and "e \<noteq> NULL" and "t \<noteq> NULL"
  shows "list_done e (t # dn) rest s s'"
proof -
  have m: "map (\<lambda>u. t_desc_num (k_xfer (service_list_step e t s) u)) dn = map (\<lambda>u. t_desc_num (k_xfer s u)) dn"
    using assms(2) by (simp add: map_eq_conv)
  have x: "k_xfer s' = (\<lambda>u. if u \<in> set (t # dn) then (k_xfer s u)\<lparr>t_state := TRANSFER_STATE_COMPLETED\<rparr> else k_xfer s u)"
    using assms by (auto simp: list_done_def)
  have "k_eng s' = (k_eng s)(e := (k_eng s e)\<lparr>e_transfer_list := rest,
       e_desc_dequeued := e_desc_dequeued (k_eng s e) + (\<Sum>u \<leftarrow> t # dn. t_desc_num (k_xfer s u))\<rparr>)"
    using assms(1) unfolding list_done_def m by (simp add: add.assoc)
  moreover have "woken (t # dn) s s'"
    using assms(1) woken_trans [OF woken_step [OF assms(3,4)], of dn s s' "t # dn"] by (simp add: list_done_def)
  ultimately show ?thesis
    using assms(1) x unfolding list_done_def by simp
qed

lemma service_list_loop_done:
  assumes "e_transfer_list (k_eng s e) = ts" and "distinct ts" and "NULL \<notin> set ts" and "e \<noteq> NULL"
  shows "fst (service_list_loop e (head_of ts) n s) =
      (head_of (drop (dequeued n (map (k_xfer s) ts)) ts),
       n - (\<Sum>t \<leftarrow> take (dequeued n (map (k_xfer s) ts)) ts. t_desc_num (k_xfer s t))) \<and>
    list_done e (take (dequeued n (map (k_xfer s) ts)) ts) (drop (dequeued n (map (k_xfer s) ts)) ts)
      s (snd (service_list_loop e (head_of ts) n s))"
  using assms
proof (induction ts arbitrary: n s)
  case Nil
  then show ?case by (simp add: service_list_loop.simps [of e NULL n s] list_done_refl)
next
  case (Cons t ts)
  let ?s = "service_list_step e t s" and ?n = "n - t_desc_num (k_xfer s t)"
  have l: "e_transfer_list (k_eng ?s e) = ts" using Cons.prems by simp
  have t: "t \<notin> set ts" "t \<noteq> NULL" using Cons.prems by auto
  have step: "service_list_loop e t n s =
      (if \<not> t_cyclic (k_xfer s t) \<and> n > t_desc_num (k_xfer s t)
       then service_list_loop e (head_of ts) ?n ?s else ((t, n), s))"
    using t l by (subst service_list_loop.simps) (simp add: head_transfer_eq Let_def)
  have map: "map (k_xfer ?s) ts = map (k_xfer s) ts"
    using t by auto
  have sum: "(\<Sum>u \<leftarrow> take k ts. t_desc_num (k_xfer ?s u)) = (\<Sum>u \<leftarrow> take k ts. t_desc_num (k_xfer s u))" for k
    using map by (metis (no_types, lifting) map_map take_map comp_def map_eq_conv)
  show ?case
  proof (cases "\<not> t_cyclic (k_xfer s t) \<and> n > t_desc_num (k_xfer s t)")
    case True
    let ?k = "dequeued ?n (map (k_xfer s) ts)"
    have IH: "fst (service_list_loop e (head_of ts) ?n ?s) =
        (head_of (drop ?k ts), ?n - (\<Sum>u \<leftarrow> take ?k ts. t_desc_num (k_xfer s u)))"
      "list_done e (take ?k ts) (drop ?k ts) ?s (snd (service_list_loop e (head_of ts) ?n ?s))"
      using Cons.IH [OF l, of ?n] Cons.prems unfolding map sum by auto
    have "t \<notin> set (take ?k ts)" using t by (auto dest: in_set_takeD)
    from list_done_Cons [OF IH(2) this Cons.prems(4) t(2)] IH(1) True step show ?thesis by (simp add: algebra_simps)
  next
    case False
    then show ?thesis using Cons.prems step by (auto intro: list_done_refl)
  qed
qed

end
