(* ===== verification/Xdma_Thread.thy ===== *)
theory Xdma_Thread
  imports Xdma_Service
begin

text \<open>
  The completion threads of polled mode (\<^verbatim>\<open>xdma_thread.c\<close>): an array of kernel threads, each with a
  list of engines it polls; engines are attached when they are set up and detached when they are
  destroyed.  The threads' main loop runs until the kernel asks it to stop.
\<close>

definition thr_at :: "env \<Rightarrow> nat \<Rightarrow> kst \<Rightarrow> ptr" where
  "thr_at ev i s = k_cs_threads s + sizeof_kthread ev * i"

subsection \<open>The work of a thread\<close>

definition xdma_thread_cmpl_status_pend :: "ptr \<Rightarrow> kst \<Rightarrow> bool \<times> kst" where
  "xdma_thread_cmpl_status_pend e s =
     (let s = emit (Acquire (LkEngine e)) s;
          pend = e_transfer_list (k_eng s e) \<noteq> []
      in (pend, emit (Release (LkEngine e)) s))"

text \<open>On an empty transfer list \<open>list_entry\<close> yields an address inside the engine, not the null pointer;
  \<open>junk\<close> is the word read there as the completion threshold.\<close>

definition xdma_thread_cmpl_status_proc :: "env \<Rightarrow> u32 \<Rightarrow> ptr \<Rightarrow> kst \<Rightarrow> kst option" where
  "xdma_thread_cmpl_status_proc ev junk e s =
     (let th = (case e_transfer_list (k_eng s e) of [] \<Rightarrow> junk | t # _ \<Rightarrow> t_desc_cmpl_th (k_xfer s t))
      in map_option snd (engine_service_poll ev e th s))"

fun work_pending_loop :: "ptr list \<Rightarrow> kst \<Rightarrow> bool \<times> kst" where
  "work_pending_loop [] s = (False, s)"
| "work_pending_loop (e # es) s =
     (let (pend, s) = xdma_thread_cmpl_status_pend e s
      in if pend then (True, s) else work_pending_loop es s)"

definition xthread_work_pending :: "ptr \<Rightarrow> kst \<Rightarrow> bool \<times> kst" where
  "xthread_work_pending thp s =
     (if th_work_list (k_thr s thp) = [] then (False, s)
      else if th_fpending (k_thr s thp) then work_pending_loop (th_work_list (k_thr s thp)) s
      else (False, s))"

definition xthread_reschedule :: "ptr \<Rightarrow> kst \<Rightarrow> kst" where
  "xthread_reschedule thp s =
     (if th_timeout (k_thr s thp) \<noteq> 0
      then emit (Kernel ''wait_event_interruptible_timeout'' thp (uint (th_timeout (k_thr s thp)))) s
      else emit (Kernel ''wait_event_interruptible'' thp 0) s)"

fun work_loop :: "env \<Rightarrow> u32 \<Rightarrow> ptr list \<Rightarrow> kst \<Rightarrow> kst option" where
  "work_loop ev junk [] s = Some s"
| "work_loop ev junk (e # es) s =
     (case xdma_thread_cmpl_status_proc ev junk e s of
        None \<Rightarrow> None
      | Some s \<Rightarrow> work_loop ev junk es s)"

text \<open>One round of the main loop, and the loop; \<open>None\<close> stands for a round or a loop that does not end.
  While the thread sleeps it holds no lock and other threads change the state; what they do is the
  function \<open>others\<close>.\<close>

definition xthread_round :: "env \<Rightarrow> (kst \<Rightarrow> kst) \<Rightarrow> u32 \<Rightarrow> ptr \<Rightarrow> kst \<Rightarrow> kst option" where
  "xthread_round ev others junk thp s =
     (let s = emit (Acquire (LkThread thp)) s;
          (pend, s) = xthread_work_pending thp s;
          s = (if pend then s
               else emit (Acquire (LkThread thp)) (others (xthread_reschedule thp (emit (Release (LkThread thp)) s))));
          s = upd_thr thp (\<lambda>t. t\<lparr>th_schedule := 0\<rparr>) s
      in case (if th_work_cnt (k_thr s thp) \<noteq> 0 then work_loop ev junk (th_work_list (k_thr s thp)) s else Some s) of
           None \<Rightarrow> None
         | Some s \<Rightarrow> Some (emit (Kernel ''schedule'' 0 0) (emit (Release (LkThread thp)) s)))"

partial_function (option) xthread_main :: "env \<Rightarrow> (kst \<Rightarrow> kst) \<Rightarrow> u32 \<Rightarrow> ptr \<Rightarrow> kst \<Rightarrow> kst option" where
  "xthread_main ev others junk thp s =
     (let (stop, s) = kcall ev ''kthread_should_stop'' thp s
      in if stop \<noteq> 0 then Some s
         else case xthread_round ev others junk thp s of
                None \<Rightarrow> None
              | Some s \<Rightarrow> xthread_main ev others junk thp s)"

subsection \<open>Starting and stopping threads\<close>

definition xdma_kthread_start :: "env \<Rightarrow> ptr \<Rightarrow> string \<Rightarrow> nat \<Rightarrow> kst \<Rightarrow> int \<times> kst" where
  "xdma_kthread_start ev thp name tid s =
     (if th_task (k_thr s thp) \<noteq> NULL then (- EINVAL, s)
      else
        let s = upd_thr thp (\<lambda>t. t\<lparr>th_name := take 15 (name @ dec tid), th_id := of_nat tid, th_work_list := []\<rparr>) s;
            (task, s) = kcall ev ''kthread_create_on_node'' thp s
        in if task < 0 then (- EFAULT, upd_thr thp (\<lambda>t. t\<lparr>th_task := NULL\<rparr>) s)
           else
             let s = upd_thr thp (\<lambda>t. t\<lparr>th_task := nat task\<rparr>) s;
                 s = emit (Kernel ''kthread_bind'' (nat task) (uint (th_cpu (k_thr s thp)))) s
             in (0, emit (Kernel ''wake_up_process'' (nat task) 0) s))"

definition xdma_kthread_stop :: "env \<Rightarrow> ptr \<Rightarrow> kst \<Rightarrow> int \<times> kst" where
  "xdma_kthread_stop ev thp s =
     (if th_task (k_thr s thp) = NULL then (0, s)
      else
        let s = upd_thr thp (\<lambda>t. t\<lparr>th_schedule := 1\<rparr>) s;
            (rv, s) = kcall ev ''kthread_stop'' (th_task (k_thr s thp)) s
        in if rv < 0 then (rv, s) else (0, upd_thr thp (\<lambda>t. t\<lparr>th_task := NULL\<rparr>) s))"

definition xdma_kthread_wakeup :: "ptr \<Rightarrow> kst \<Rightarrow> kst" where
  "xdma_kthread_wakeup thp s = emit (Wake (WqThread thp)) (upd_thr thp (\<lambda>t. t\<lparr>th_schedule := 1\<rparr>) s)"

subsection \<open>Attaching engines to threads\<close>

definition xdma_thread_remove_work :: "ptr \<Rightarrow> kst \<Rightarrow> kst" where
  "xdma_thread_remove_work e s =
     (let s = emit (Acquire (LkEngine e)) s;
          cmpl_thread = e_cmplthp (k_eng s e);
          s = upd_eng e (\<lambda>g. g\<lparr>e_cmplthp := NULL\<rparr>) s;
          s = emit (Release (LkEngine e)) s
      in if cmpl_thread \<noteq> NULL then
           let s = emit (Acquire (LkThread cmpl_thread)) s;
               s = upd_thr cmpl_thread (\<lambda>t. t\<lparr>th_work_list := remove1 e (th_work_list t),
                     th_work_cnt := th_work_cnt t - 1\<rparr>) s
           in emit (Release (LkThread cmpl_thread)) s
         else s)"

text \<open>The search for a thread: \<open>k\<close> threads from index \<open>i\<close> on; \<open>idx\<close> and \<open>v\<close> are the variables of the C
  loop, \<open>cnt\<close> is \<open>thread_cnt\<close>.\<close>

fun pick_thread :: "env \<Rightarrow> nat \<Rightarrow> nat \<Rightarrow> nat \<Rightarrow> nat \<Rightarrow> u32 \<Rightarrow> kst \<Rightarrow> nat \<times> kst" where
  "pick_thread ev cnt i 0 idx v s = (idx, s)"
| "pick_thread ev cnt i (Suc k) idx v s =
     (let thp = thr_at ev i s;
          s = emit (Acquire (LkThread thp)) s;
          w = th_work_cnt (k_thr s thp)
      in if idx = cnt then pick_thread ev cnt (Suc i) k i w (emit (Release (LkThread thp)) s)
         else if w = 0 then (i, emit (Release (LkThread thp)) s)
         else pick_thread ev cnt (Suc i) k (if w < v then i else idx) v (emit (Release (LkThread thp)) s))"

definition xdma_thread_add_work :: "env \<Rightarrow> ptr \<Rightarrow> kst \<Rightarrow> kst" where
  "xdma_thread_add_work ev e s =
     (let cnt = unat (k_thread_cnt s);
          (idx, s) = pick_thread ev cnt 0 cnt cnt 0 s;
          thp = thr_at ev idx s;
          s = emit (Acquire (LkThread thp)) s;
          s = upd_thr thp (\<lambda>t. t\<lparr>th_work_list := th_work_list t @ [e]\<rparr>) s;
          s = upd_eng e (\<lambda>g. g\<lparr>e_intr_work_cpu := of_nat idx\<rparr>) s;
          s = upd_thr thp (\<lambda>t. t\<lparr>th_work_cnt := th_work_cnt t + 1\<rparr>) s;
          s = emit (Release (LkThread thp)) s;
          s = emit (Acquire (LkEngine e)) s;
          s = upd_eng e (\<lambda>g. g\<lparr>e_cmplthp := thp\<rparr>) s
      in emit (Release (LkEngine e)) s)"

subsection \<open>Creating and destroying the array\<close>

text \<open>The loop over the online CPUs, and \<open>xdma_threads_create\<close>; the list of CPUs is an argument.\<close>

fun threads_create_loop :: "env \<Rightarrow> nat list \<Rightarrow> u32 \<Rightarrow> nat \<Rightarrow> kst \<Rightarrow> int \<times> kst" where
  "threads_create_loop ev [] num_threads i s = (0, s)"
| "threads_create_loop ev (cpu # cpus) num_threads i s =
     (let thp = thr_at ev i s;
          s = upd_thr thp (\<lambda>t. t\<lparr>th_cpu := of_nat cpu, th_timeout := 0, th_fproc := True, th_fpending := True\<rparr>) s;
          (rv, s) = xdma_kthread_start ev thp ''cmpl_status_th'' (unat (k_thread_cnt s)) s
      in if rv < 0 then
           (rv, (emit (Kernel ''kfree'' (k_cs_threads s) 0) s)\<lparr>k_cs_threads := NULL, k_thread_cnt := 0\<rparr>)
         else
           let s = s\<lparr>k_thread_cnt := k_thread_cnt s + 1\<rparr>
           in if k_thread_cnt s = num_threads then (0, s) else threads_create_loop ev cpus num_threads (Suc i) s)"

definition xdma_threads_create :: "env \<Rightarrow> nat list \<Rightarrow> u32 \<Rightarrow> kst \<Rightarrow> int \<times> kst" where
  "xdma_threads_create ev cpus num_threads s =
     (if k_thread_cnt s \<noteq> 0 then (0, s)
      else
        let (p, s) = kcall ev ''kzalloc'' (unat num_threads * sizeof_kthread ev) s
        in if p = 0 then (- ENOMEM, s\<lparr>k_cs_threads := NULL\<rparr>)
           else
             let s = s\<lparr>k_cs_threads := nat p\<rparr>;
                 s = fold (\<lambda>i s. upd_thr (thr_at ev i s) (\<lambda>_. zero_kthread) s) [0..<unat num_threads] s
             in threads_create_loop ev cpus num_threads 0 s)"

definition xdma_threads_destroy :: "env \<Rightarrow> kst \<Rightarrow> kst" where
  "xdma_threads_destroy ev s =
     (if k_thread_cnt s = 0 then s
      else
        let s = fold (\<lambda>i s. if th_fproc (k_thr s (thr_at ev i s)) then snd (xdma_kthread_stop ev (thr_at ev i s) s) else s)
                  [0..<unat (k_thread_cnt s)] s;
            s = emit (Kernel ''kfree'' (k_cs_threads s) 0) s
        in s\<lparr>k_cs_threads := NULL, k_thread_cnt := 0\<rparr>)"

subsection \<open>Which thread an engine gets\<close>

lemma thr_at_emit [simp]: "thr_at ev i (emit x s) = thr_at ev i s"
  by (simp add: thr_at_def)

lemma thr_at_inj: "0 < sizeof_kthread ev \<Longrightarrow> thr_at ev i s = thr_at ev j s \<longleftrightarrow> i = j"
  by (simp add: thr_at_def)

text \<open>The work count of the thread at an index.\<close>

definition load :: "env \<Rightarrow> kst \<Rightarrow> nat \<Rightarrow> u32" where
  "load ev s i = th_work_cnt (k_thr s (thr_at ev i s))"

lemma load_emit [simp]: "load ev (emit x s) i = load ev s i"
  by (simp add: load_def)

text \<open>The search changes nothing but the trace, and gives back the locks it takes.\<close>

lemma pick_thread_frame:
  "\<exists>es. snd (pick_thread ev cnt i k idx v s) = s\<lparr>trace := es @ trace s\<rparr> \<and> (\<forall>l. held l es = 0)"
proof (induction ev cnt i k idx v s rule: pick_thread.induct)
  case (1 ev cnt i idx v s)
  show ?case by (rule exI [of _ "[]"]) simp
next
  case (2 ev cnt i k idx v s)
  let ?a = "Acquire (LkThread (thr_at ev i s))" and ?r = "Release (LkThread (thr_at ev i s))"
  let ?s = "emit ?r (emit ?a s)"
  have *: "\<exists>es'. t = s\<lparr>trace := es' @ trace s\<rparr> \<and> (\<forall>l. held l es' = 0)"
    if "t = ?s\<lparr>trace := es @ trace ?s\<rparr>" and "\<forall>l. held l es = 0" for t es
    using that by (intro exI [of _ "es @ [?r, ?a]"]) (simp add: emit_def held_append)
  have stop: "\<exists>es'. ?s = s\<lparr>trace := es' @ trace s\<rparr> \<and> (\<forall>l. held l es' = 0)"
    by (rule * [of _ "[]"]) simp_all
  show ?case
    using 2 stop * by (fastforce simp: Let_def)
qed

lemma all_from: "i < c \<Longrightarrow> (\<forall>j. i \<le> j \<longrightarrow> j < c \<longrightarrow> P j) \<longleftrightarrow> P i \<and> (\<forall>j. Suc i \<le> j \<longrightarrow> j < (c :: nat) \<longrightarrow> P j)"
  by (metis Suc_leD Suc_leI le_eq_less_or_eq)

text \<open>The index found: below the number of threads, and idle when some searched thread is idle.\<close>

lemma pick_thread_idx:
  assumes "i + k = cnt" and "idx < i \<and> (load ev s idx = 0 \<longrightarrow> v = 0) \<or> i = 0 \<and> idx = cnt \<and> 0 < cnt"
    and "fst (pick_thread ev cnt i k idx v s) = r"
  shows "r < cnt \<and> (load ev s r \<noteq> 0 \<longrightarrow> (\<forall>j. i \<le> j \<longrightarrow> j < cnt \<longrightarrow> load ev s j \<noteq> 0) \<and> (idx < i \<longrightarrow> load ev s idx \<noteq> 0))"
  using assms
proof (induction ev cnt i k idx v s arbitrary: r rule: pick_thread.induct)
  case (1 ev cnt i idx v s)
  then show ?case by auto
next
  case (2 ev cnt i k idx v s)
  let ?a = "Acquire (LkThread (thr_at ev i s))" and ?r = "Release (LkThread (thr_at ev i s))"
  let ?w = "th_work_cnt (k_thr s (thr_at ev i s))"
  let ?s = "emit ?r (emit ?a s)"
  have w: "load ev s i = ?w" by (simp add: load_def)
  consider "idx = cnt" | "idx \<noteq> cnt" "?w = 0" | "idx \<noteq> cnt" "?w \<noteq> 0" by blast
  then show ?case
  proof cases
    case 1
    have "fst (pick_thread ev cnt (Suc i) k i ?w ?s) = r"
      using 2(5) 1 by (simp add: Let_def)
    from 2(1) [OF refl refl refl, simplified, OF 1 _ _ this] 2(3,4) 1 w all_from [of i cnt "\<lambda>j. load ev s j \<noteq> 0"] show ?thesis
      by auto
  next
    case 2
    then show ?thesis using "2.prems" w by (auto simp: Let_def)
  next
    case 3
    have "fst (pick_thread ev cnt (Suc i) k (if ?w < v then i else idx) v ?s) = r"
      using 2(5) 3 by (simp add: Let_def)
    moreover have "(if ?w < v then i else idx) < Suc i \<and> (load ev ?s (if ?w < v then i else idx) = 0 \<longrightarrow> v = 0)"
      using 2(3,4) 3 w by auto
    ultimately have ih: "r < cnt \<and> (load ev s r \<noteq> 0 \<longrightarrow> (\<forall>j. Suc i \<le> j \<longrightarrow> j < cnt \<longrightarrow> load ev s j \<noteq> 0) \<and> load ev s (if ?w < v then i else idx) \<noteq> 0)"
      using 2(2) [OF refl refl refl, simplified, OF 3] 2(3) by auto
    have "load ev s idx \<noteq> 0" if "?w < v" "idx < i"
      using that 2(4) by auto
    then show ?thesis
      using ih w 3 2(3) by (subst all_from) (auto split: if_splits)
  qed
qed

text \<open>Attaching an engine in closed form: the thread found, and the state after.\<close>

definition chosen :: "env \<Rightarrow> kst \<Rightarrow> nat" where
  "chosen ev s = fst (pick_thread ev (unat (k_thread_cnt s)) 0 (unat (k_thread_cnt s)) (unat (k_thread_cnt s)) 0 s)"

lemma add_work_sel:
  fixes ev e s
  defines "t \<equiv> thr_at ev (chosen ev s) s" and "s' \<equiv> xdma_thread_add_work ev e s"
  shows "k_thr s' = (k_thr s)(t := (k_thr s t)\<lparr>th_work_list := th_work_list (k_thr s t) @ [e], th_work_cnt := th_work_cnt (k_thr s t) + 1\<rparr>)"
    and "k_eng s' = (k_eng s)(e := (k_eng s e)\<lparr>e_intr_work_cpu := of_nat (chosen ev s), e_cmplthp := t\<rparr>)"
    and "held l (trace s') = held l (trace s)"
    and "k_cs_threads s' = k_cs_threads s" and "k_thread_cnt s' = k_thread_cnt s"
proof -
  let ?c = "unat (k_thread_cnt s)"
  obtain r s1 where p: "pick_thread ev ?c 0 ?c ?c 0 s = (r, s1)" by fastforce
  with pick_thread_frame [of ev ?c 0 ?c ?c 0 s] obtain es
    where s1: "s1 = s\<lparr>trace := es @ trace s\<rparr>" and es: "\<forall>l. held l es = 0" by auto
  have t: "t = thr_at ev r s" "thr_at ev r s1 = t" "chosen ev s = r"
    by (simp_all add: t_def chosen_def p s1 thr_at_def)
  note d = s'_def xdma_thread_add_work_def p t(2,3) Let_def
  show "k_thr s' = (k_thr s)(t := (k_thr s t)\<lparr>th_work_list := th_work_list (k_thr s t) @ [e], th_work_cnt := th_work_cnt (k_thr s t) + 1\<rparr>)"
    "k_eng s' = (k_eng s)(e := (k_eng s e)\<lparr>e_intr_work_cpu := of_nat (chosen ev s), e_cmplthp := t\<rparr>)"
    "k_cs_threads s' = k_cs_threads s" "k_thread_cnt s' = k_thread_cnt s"
    by (simp_all add: d) (simp_all add: s1)
  show "held l (trace s') = held l (trace s)"
    using es by (simp add: d) (simp add: s1 held_append)
qed

lemma remove_work_sel:
  fixes e s
  defines "t \<equiv> e_cmplthp (k_eng s e)" and "s' \<equiv> xdma_thread_remove_work e s"
  shows "k_thr s' = (if t = NULL then k_thr s else (k_thr s)(t := (k_thr s t)\<lparr>th_work_list := remove1 e (th_work_list (k_thr s t)), th_work_cnt := th_work_cnt (k_thr s t) - 1\<rparr>))"
    and "k_eng s' = (k_eng s)(e := (k_eng s e)\<lparr>e_cmplthp := NULL\<rparr>)"
    and "held l (trace s') = held l (trace s)"
    and "k_cs_threads s' = k_cs_threads s" and "k_thread_cnt s' = k_thread_cnt s"
  by (simp_all add: s'_def xdma_thread_remove_work_def Let_def t_def)

text \<open>Loads agree with the lists of work.\<close>

definition loads_ok :: "kst \<Rightarrow> bool" where
  "loads_ok s \<longleftrightarrow> (\<forall>p. th_work_cnt (k_thr s p) = of_nat (length (th_work_list (k_thr s p))))"

text \<open>An engine is on the list of exactly the thread it points to.\<close>

definition attached :: "kst \<Rightarrow> bool" where
  "attached s \<longleftrightarrow> (\<forall>p e. p \<noteq> NULL \<longrightarrow> (e \<in> set (th_work_list (k_thr s p)) \<longleftrightarrow> e_cmplthp (k_eng s e) = p))
     \<and> (\<forall>p. distinct (th_work_list (k_thr s p)))"

text \<open>with at least one completion thread, \<open>xdma_thread_add_work\<close> puts the engine at the end of
  the work list of one thread of the array, raises that thread's count and records the thread in the
  engine; no other thread changes, all locks are given back, and when some thread of the array is
  idle the chosen one is idle.\<close>

theorem thread_add_work_contract:
  fixes ev s e
  defines "t \<equiv> thr_at ev (chosen ev s) s" and "s' \<equiv> xdma_thread_add_work ev e s"
  assumes cnt: "k_thread_cnt s \<noteq> 0"
  shows "chosen ev s < unat (k_thread_cnt s) \<and>
    ((\<exists>j < unat (k_thread_cnt s). load ev s j = 0) \<longrightarrow> th_work_cnt (k_thr s t) = 0) \<and>
    th_work_list (k_thr s' t) = th_work_list (k_thr s t) @ [e]
       \<and> th_work_cnt (k_thr s' t) = th_work_cnt (k_thr s t) + 1 \<and> e_cmplthp (k_eng s' e) = t \<and>
    (p \<noteq> t \<longrightarrow> k_thr s' p = k_thr s p) \<and>
    held l (trace s') = held l (trace s)"
proof (intro conjI)
  let ?c = "unat (k_thread_cnt s)"
  have "0 < ?c" using cnt by (simp add: unat_gt_0)
  then have "chosen ev s < ?c \<and> (load ev s (chosen ev s) \<noteq> 0 \<longrightarrow> (\<forall>j. 0 \<le> j \<longrightarrow> j < ?c \<longrightarrow> load ev s j \<noteq> 0) \<and> (?c < 0 \<longrightarrow> load ev s ?c \<noteq> 0))"
    by (intro pick_thread_idx [where v = 0]) (simp_all add: chosen_def)
  then show "chosen ev s < ?c" and "(\<exists>j < ?c. load ev s j = 0) \<longrightarrow> th_work_cnt (k_thr s t) = 0"
    by (auto simp: t_def load_def)
qed (simp_all add: add_work_sel t_def s'_def)

text \<open>Two threads at 4096 with one engine each on the first: the second is chosen.\<close>

definition two_threads :: kst where
  "two_threads = kst0\<lparr>k_cs_threads := 4096, k_thread_cnt := 2,
     k_thr := (k_thr kst0)(4096 := zero_kthread\<lparr>th_work_cnt := 1, th_work_list := [100]\<rparr>),
     k_eng := (k_eng kst0)(100 := zero_engine\<lparr>e_cmplthp := 4096\<rparr>)\<rparr>"

theorem thread_add_work_contract_witness:
  "k_thread_cnt two_threads \<noteq> 0 \<and> chosen env0 two_threads < unat (k_thread_cnt two_threads) \<and> chosen env0 two_threads = 1"
proof -
  have c: "k_thread_cnt two_threads \<noteq> 0" by (simp add: two_threads_def)
  have "chosen env0 two_threads = 1"
    by (simp add: chosen_def two_threads_def) (simp add: numeral_2_eq_2 thr_at_def env0_def kst0_def zero_kthread_def)
  with c thread_add_work_contract [OF c, of env0] show ?thesis by simp
qed

lemma add_work_loads: "loads_ok s \<Longrightarrow> loads_ok (xdma_thread_add_work ev e s)"
  by (simp add: loads_ok_def add_work_sel)

lemma remove_work_loads:
  assumes "loads_ok s" and "attached s"
  shows "loads_ok (xdma_thread_remove_work e s)"
proof -
  let ?t = "e_cmplthp (k_eng s e)"
  have "length (remove1 e (th_work_list (k_thr s ?t))) + 1 = length (th_work_list (k_thr s ?t))" if "?t \<noteq> NULL"
    using assms(2) that length_pos_if_in_set [of e "th_work_list (k_thr s ?t)"] by (auto simp: attached_def length_remove1)
  then have "(of_nat (length (remove1 e (th_work_list (k_thr s ?t)))) :: u32) = of_nat (length (th_work_list (k_thr s ?t))) - 1" if "?t \<noteq> NULL"
    using that by (metis add_diff_cancel_right' of_nat_1 of_nat_add)
  with assms(1) show ?thesis
    by (simp add: loads_ok_def remove_work_sel)
qed

lemma add_work_attached:
  assumes "attached s" and "e_cmplthp (k_eng s e) = NULL" and "thr_at ev (chosen ev s) s \<noteq> NULL"
  shows "attached (xdma_thread_add_work ev e s)"
  using assms by (auto simp: attached_def add_work_sel)

lemma remove_work_attached: "attached s \<Longrightarrow> attached (xdma_thread_remove_work e s)"
  by (auto simp: attached_def remove_work_sel)

text \<open>Attaching keeps the bookkeeping consistent: counts agree with the lists, every engine is on
  the list of exactly the thread it points to; and detaching an engine just attached restores every
  thread.\<close>

theorem thread_work_roundtrip:
  assumes cnt: "k_thread_cnt s \<noteq> 0" and arr: "k_cs_threads s \<noteq> NULL"
    and ok: "loads_ok s" "attached s" and new: "e_cmplthp (k_eng s e) = NULL"
  shows "loads_ok (xdma_thread_add_work ev e s) \<and> attached (xdma_thread_add_work ev e s)
    \<and> k_thr (xdma_thread_remove_work e (xdma_thread_add_work ev e s)) = k_thr s
    \<and> loads_ok (xdma_thread_remove_work f s) \<and> attached (xdma_thread_remove_work f s)"
proof -
  let ?t = "thr_at ev (chosen ev s) s"
  have t: "?t \<noteq> NULL" using arr by (simp add: thr_at_def)
  have "e \<notin> set (th_work_list (k_thr s ?t))"
    using ok(2) new t by (auto simp: attached_def)
  then have "k_thr (xdma_thread_remove_work e (xdma_thread_add_work ev e s)) = k_thr s"
    using t by (simp add: remove_work_sel add_work_sel remove1_append)
  with t ok new show ?thesis
    by (simp add: add_work_loads add_work_attached remove_work_loads remove_work_attached)
qed

theorem thread_work_roundtrip_witness:
  "loads_ok (xdma_thread_add_work env0 300 two_threads)
    \<and> k_thr (xdma_thread_remove_work 300 (xdma_thread_add_work env0 300 two_threads)) = k_thr two_threads"
proof -
  note d = two_threads_def kst0_def zero_kthread_def zero_engine_def
  have h: "k_thread_cnt two_threads \<noteq> 0" "k_cs_threads two_threads \<noteq> NULL" "loads_ok two_threads"
    "attached two_threads" "e_cmplthp (k_eng two_threads 300) = NULL"
    by (auto simp: d loads_ok_def attached_def)
  from thread_work_roundtrip [OF h, of env0] show ?thesis by simp
qed

end
