(* ===== verification/Xdma_Request.thy ===== *)
theory Xdma_Request
  imports Xdma_Types
begin

text \<open>
  Turning a mapped scatter-gather table into a request (\<^verbatim>\<open>xdma_init_request\<close>): every entry
  is cut into pieces of at most \<open>desc_blen_max\<close> bytes, one software descriptor each.

  The C code first computes how many descriptors it needs, allocates them and then writes them; it
  compares the number written with the number allocated only afterwards.  The model keeps the size
  of the allocation and makes a write outside it a result of its own, \<open>ReqOverflow\<close>.
\<close>

datatype req_result = Req xdma_request_cb | ReqNull | ReqOverflow

subsection \<open>The operations\<close>

text \<open>The allocation: the size in bytes is computed in 32 bits; the zeroed allocation falls back to
  \<open>vmalloc\<close>.  The result is the address and the number of software descriptors that fit.\<close>

definition xdma_request_alloc :: "env \<Rightarrow> u32 \<Rightarrow> kst \<Rightarrow> (ptr \<times> nat) option \<times> kst" where
  "xdma_request_alloc ev sdesc_nr s =
     (let size = sizeof_request_cb ev + sdesc_nr * 16;
          cap = (unat size - unat (sizeof_request_cb ev)) div 16;
          (req, s) = kcall ev ''kzalloc'' (unat size) s
      in if req \<noteq> 0 then (Some (nat req, cap), s)
         else let (req, s) = kcall ev ''vmalloc'' (unat size) s
              in (if req \<noteq> 0 then Some (nat req, cap) else None, s))"

definition xdma_request_free :: "ptr \<Rightarrow> kst \<Rightarrow> kst" where
  "xdma_request_free req s = emit (Kernel ''kvfree'' req 0) s"

text \<open>The first loop: how many extra descriptors the long entries need.\<close>

fun request_extra :: "u32 \<Rightarrow> scatterlist list \<Rightarrow> u32 \<Rightarrow> u32" where
  "request_extra blen [] extra = extra"
| "request_extra blen (sg # sgs) extra =
     (let len = sg_dma_len sg
      in request_extra blen sgs
           (if len > blen then extra + (len + blen - 1) div blen else extra))"

text \<open>The inner loop: the pieces of one entry, appended to those already written.\<close>

function request_split :: "u32 \<Rightarrow> nat \<Rightarrow> u64 \<Rightarrow> u32 \<Rightarrow> sw_desc list \<Rightarrow> sw_desc list option" where
  "request_split blen cap addr tlen sdesc =
     (if tlen = 0 then Some sdesc
      else if cap \<le> length sdesc then None
      else if tlen > blen
      then request_split blen cap (addr + ucast blen) (tlen - blen)
             (sdesc @ [\<lparr>sd_addr = addr, sd_len = blen\<rparr>])
      else Some (sdesc @ [\<lparr>sd_addr = addr, sd_len = tlen\<rparr>]))"
  by pat_completeness auto
termination
  by (relation "measure (\<lambda>(blen, cap, addr, tlen, sdesc). cap - length sdesc)") auto

declare request_split.simps [simp del]

fun request_fill :: "u32 \<Rightarrow> nat \<Rightarrow> scatterlist list \<Rightarrow> u32 \<Rightarrow> sw_desc list \<Rightarrow> (u32 \<times> sw_desc list) option" where
  "request_fill blen cap [] tot sdesc = Some (tot, sdesc)"
| "request_fill blen cap (sg # sgs) tot sdesc =
     (case request_split blen cap (sg_dma_address sg) (sg_dma_len sg) sdesc of
        None \<Rightarrow> None
      | Some sdesc \<Rightarrow> request_fill blen cap sgs (tot + sg_dma_len sg) sdesc)"

definition xdma_init_request :: "env \<Rightarrow> ptr \<Rightarrow> u64 \<Rightarrow> kst \<Rightarrow> req_result \<times> kst" where
  "xdma_init_request ev sgt ep_addr s =
     (let blen = desc_blen_max ev;
          sgs = take (nents (k_sgt s sgt)) (sgl (k_sgt s sgt));
          max = of_nat (nents (k_sgt s sgt)) + request_extra blen sgs 0;
          (alloc, s) = xdma_request_alloc ev max s
      in case alloc of
           None \<Rightarrow> (ReqNull, s)
         | Some (req, cap) \<Rightarrow>
             (case request_fill blen cap sgs 0 [] of
                None \<Rightarrow> (ReqOverflow, s)
              | Some (tot, sdesc) \<Rightarrow>
                  if length sdesc > unat max then (ReqNull, xdma_request_free req s)
                  else (Req (zero_request\<lparr>r_addr := req, r_sgt := sgt, r_ep_addr := ep_addr, r_total_len := tot,
                             r_sw_desc_cnt := of_nat (length sdesc), r_sdesc := sdesc\<rparr>), s)))"

subsection \<open>The reference: the pieces of an entry in closed form\<close>

definition pieces_nr :: "nat \<Rightarrow> nat \<Rightarrow> nat" where
  "pieces_nr blen len = (len + blen - 1) div blen"

definition piece :: "u32 \<Rightarrow> u64 \<Rightarrow> u32 \<Rightarrow> nat \<Rightarrow> sw_desc" where
  "piece blen addr len k =
     \<lparr>sd_addr = addr + of_nat (k * unat blen),
      sd_len = of_nat (min (unat blen) (unat len - k * unat blen))\<rparr>"

definition pieces :: "u32 \<Rightarrow> scatterlist \<Rightarrow> sw_desc list" where
  "pieces blen sg =
     map (piece blen (sg_dma_address sg) (sg_dma_len sg))
       [0..<pieces_nr (unat blen) (unat (sg_dma_len sg))]"

text \<open>A table the 32-bit arithmetic of the counting loop can handle.\<close>

definition request_fits :: "env \<Rightarrow> scatterlist list \<Rightarrow> bool" where
  "request_fits ev sgs \<longleftrightarrow>
     0 < unat (desc_blen_max ev) \<and>
     (\<forall>sg \<in> set sgs. unat (sg_dma_len sg) + unat (desc_blen_max ev) \<le> 2 ^ 32) \<and>
     unat (sizeof_request_cb ev)
       + 16 * (length sgs + (\<Sum>sg \<leftarrow> sgs. pieces_nr (unat (desc_blen_max ev)) (unat (sg_dma_len sg)))) < 2 ^ 32"

subsection \<open>Lemmas\<close>

lemma pieces_nr_0 [simp]: "0 < b \<Longrightarrow> pieces_nr b 0 = 0"
  by (simp add: pieces_nr_def)

lemma pieces_nr_pos: "0 < b \<Longrightarrow> 0 < n \<Longrightarrow> pieces_nr b n = Suc ((n - 1) div b)"
  by (cases n) (simp_all add: pieces_nr_def div_add_self2)

lemma pieces_nr_small: "0 < n \<Longrightarrow> n \<le> b \<Longrightarrow> pieces_nr b n = 1"
  by (simp add: pieces_nr_pos)

lemma pieces_nr_step: "0 < b \<Longrightarrow> b < n \<Longrightarrow> pieces_nr b n = Suc (pieces_nr b (n - b))"
  by (simp add: pieces_nr_pos le_div_geq)

lemma piece_shift:
  assumes "blen < len"
  shows "piece blen addr len (Suc k) = piece blen (addr + ucast blen) (len - blen) k"
proof -
  have "unat (len - blen) = unat len - unat blen"
    using assms by (simp add: unat_sub)
  moreover have "(ucast blen :: u64) = of_nat (unat blen)" by simp
  ultimately show ?thesis by (simp add: piece_def algebra_simps)
qed

lemma pieces_unfold:
  assumes "0 < blen"
  shows "pieces blen \<lparr>sg_dma_address = addr, sg_dma_len = len\<rparr> =
    (if len = 0 then []
     else if len > blen
     then \<lparr>sd_addr = addr, sd_len = blen\<rparr> #
            pieces blen \<lparr>sg_dma_address = addr + ucast blen, sg_dma_len = len - blen\<rparr>
     else [\<lparr>sd_addr = addr, sd_len = len\<rparr>])"
proof -
  have b: "0 < unat blen" using assms by (simp add: word_less_nat_alt)
  consider "len = 0" | "len > blen" | "len \<noteq> 0" "\<not> len > blen" by blast
  then show ?thesis
  proof cases
    case 1
    then show ?thesis using b by (simp add: pieces_def)
  next
    case 2
    then have l: "unat blen < unat len" and s: "unat (len - blen) = unat len - unat blen"
      by (simp_all add: word_less_nat_alt unat_sub word_le_nat_alt)
    have "[0..<Suc n] = 0 # map Suc [0..<n]" for n by (simp add: upt_conv_Cons map_Suc_upt del: upt_Suc)
    moreover have "piece blen addr len 0 = \<lparr>sd_addr = addr, sd_len = blen\<rparr>"
      using l by (simp add: piece_def)
    ultimately show ?thesis
      using 2 b l s by (auto simp: pieces_def pieces_nr_step piece_shift)
  next
    case 3
    then have l: "0 < unat len" "unat len \<le> unat blen"
      by (auto simp: word_less_nat_alt unat_gt_0)
    then show ?thesis
      using 3 by (simp add: pieces_def pieces_nr_small piece_def)
  qed
qed

lemma request_split_pieces:
  "0 < blen \<Longrightarrow> length sdesc + length (pieces blen \<lparr>sg_dma_address = addr, sg_dma_len = tlen\<rparr>) \<le> cap \<Longrightarrow>
   request_split blen cap addr tlen sdesc =
     Some (sdesc @ pieces blen \<lparr>sg_dma_address = addr, sg_dma_len = tlen\<rparr>)"
proof (induction blen cap addr tlen sdesc rule: request_split.induct)
  case (1 blen cap addr tlen sdesc)
  note p = pieces_unfold [OF "1.prems"(1), of addr tlen]
  show ?case
    using "1.prems" "1.IH" by (subst request_split.simps) (auto simp: p split: if_splits)
qed

lemma request_fill_pieces:
  "0 < blen \<Longrightarrow> length sdesc + length (concat (map (pieces blen) sgs)) \<le> cap \<Longrightarrow>
   request_fill blen cap sgs tot sdesc =
     Some (tot + (\<Sum>sg \<leftarrow> sgs. sg_dma_len sg), sdesc @ concat (map (pieces blen) sgs))"
proof (induction sgs arbitrary: tot sdesc)
  case (Cons sg sgs)
  have sg: "\<lparr>sg_dma_address = sg_dma_address sg, sg_dma_len = sg_dma_len sg\<rparr> = sg" by simp
  have "request_split blen cap (sg_dma_address sg) (sg_dma_len sg) sdesc = Some (sdesc @ pieces blen sg)"
    using request_split_pieces [of blen sdesc "sg_dma_address sg" "sg_dma_len sg" cap] Cons.prems
    by (simp add: sg)
  then show ?case
    using Cons by (simp add: algebra_simps)
qed simp

lemma length_pieces: "length (pieces blen sg) = pieces_nr (unat blen) (unat (sg_dma_len sg))"
  by (simp add: pieces_def)

lemma count_word:
  assumes "0 < unat blen" and "unat len + unat blen \<le> 2 ^ 32"
  shows "unat ((len + blen - 1) div blen :: u32) = pieces_nr (unat blen) (unat len)"
proof -
  have one: "unat (blen - 1) = unat blen - 1"
    using assms(1) by (subst unat_sub) (auto simp: word_le_nat_alt)
  have "unat (len + (blen - 1)) = unat len + (unat blen - 1)"
    using assms by (subst unat_word_add_lt) (auto simp: one)
  then show ?thesis
    using assms(1) by (simp add: unat_div pieces_nr_def algebra_simps)
qed

text \<open>The long entries, which the counting loop counts in full.\<close>

definition long_pieces :: "u32 \<Rightarrow> scatterlist list \<Rightarrow> nat" where
  "long_pieces blen sgs =
     (\<Sum>sg \<leftarrow> sgs. if sg_dma_len sg > blen then pieces_nr (unat blen) (unat (sg_dma_len sg)) else 0)"

lemma request_extra_eq:
  assumes "0 < unat blen" and "\<And>sg. sg \<in> set sgs \<Longrightarrow> unat (sg_dma_len sg) + unat blen \<le> 2 ^ 32"
  shows "request_extra blen sgs extra = extra + of_nat (long_pieces blen sgs)"
  using assms(2)
proof (induction sgs arbitrary: extra)
  case (Cons sg sgs)
  have "(sg_dma_len sg + blen - 1) div blen = of_nat (pieces_nr (unat blen) (unat (sg_dma_len sg)))"
    using count_word [OF assms(1), of "sg_dma_len sg"] Cons.prems [of sg]
    by (metis list.set_intros(1) of_nat_unat ucast_id)
  then show ?case
    using Cons by (simp add: long_pieces_def Let_def algebra_simps)
qed (simp add: long_pieces_def)

lemma pieces_total_le:
  assumes "0 < unat blen"
  shows "length (concat (map (pieces blen) sgs)) \<le> length sgs + long_pieces blen sgs"
proof (induction sgs)
  case (Cons sg sgs)
  have "pieces_nr (unat blen) (unat (sg_dma_len sg)) \<le> 1" if "\<not> sg_dma_len sg > blen"
    using that assms pieces_nr_small [of "unat (sg_dma_len sg)" "unat blen"]
    by (cases "sg_dma_len sg = 0") (auto simp: word_less_nat_alt unat_gt_0)
  with Cons show ?case by (auto simp: long_pieces_def length_pieces)
qed (simp add: long_pieces_def)

lemma long_pieces_le:
  "long_pieces blen sgs \<le> (\<Sum>sg \<leftarrow> sgs. pieces_nr (unat blen) (unat (sg_dma_len sg)))"
  by (induction sgs) (auto simp: long_pieces_def)

lemma request_alloc_cap:
  assumes "unat (sizeof_request_cb ev) + 16 * unat n < 2 ^ 32"
    and "fst (xdma_request_alloc ev n s) = Some (req, cap)"
  shows "cap = unat n"
proof -
  have m: "unat (n * 16) = 16 * unat n"
    using assms(1) by (simp add: unat_word_ariths)
  then have "unat (sizeof_request_cb ev + n * 16) = unat (sizeof_request_cb ev) + 16 * unat n"
    using assms(1) by (subst unat_word_add_lt) auto
  with assms(2) show ?thesis
    by (auto simp: xdma_request_alloc_def Let_def kcall_def split: if_splits)
qed

text \<open>The pieces of one entry add up to the entry, follow each other, and none is empty or too
  long.\<close>

definition pieces_ok :: "u32 \<Rightarrow> u64 \<Rightarrow> nat \<Rightarrow> sw_desc list \<Rightarrow> bool" where
  "pieces_ok blen addr len ps \<longleftrightarrow>
     (\<Sum>p \<leftarrow> ps. unat (sd_len p)) = len \<and> (\<forall>p \<in> set ps. 0 < sd_len p \<and> sd_len p \<le> blen) \<and>
     (\<forall>k < length ps. sd_addr (ps ! k) = addr + of_nat (\<Sum>p \<leftarrow> take k ps. unat (sd_len p)))"

lemma pieces_ok_Cons:
  assumes "pieces_ok blen (addr + ucast blen) len ps" and "0 < blen"
  shows "pieces_ok blen addr (unat blen + len) (\<lparr>sd_addr = addr, sd_len = blen\<rparr> # ps)"
proof -
  have "(ucast blen :: u64) = of_nat (unat blen)" by simp
  then show ?thesis
    using assms by (auto simp: pieces_ok_def nth_Cons' take_Cons' algebra_simps)
qed

lemma pieces_ok_pieces:
  assumes "0 < blen"
  shows "pieces_ok blen addr (unat len) (pieces blen \<lparr>sg_dma_address = addr, sg_dma_len = len\<rparr>)"
proof (induction "unat len" arbitrary: addr len rule: less_induct)
  case less
  have b: "0 < unat blen" using assms by (simp add: word_less_nat_alt)
  show ?case
  proof (cases "len > blen")
    case True
    then have s: "unat (len - blen) = unat len - unat blen" "unat blen < unat len"
      by (simp_all add: word_less_nat_alt unat_sub word_le_nat_alt)
    then have "unat (len - blen) < unat len" using b by simp
    from pieces_ok_Cons [OF less.hyps [OF this, of "addr + ucast blen"] assms] s True
    show ?thesis by (subst pieces_unfold [OF assms]) auto
  next
    case False
    then show ?thesis
      by (subst pieces_unfold [OF assms]) (auto simp: pieces_ok_def word_gt_0)
  qed
qed

text \<open>The request in closed form.\<close>

lemma init_request_ok:
  assumes sgs: "sgs = take (nents (k_sgt s sgt)) (sgl (k_sgt s sgt))" and len: "nents (k_sgt s sgt) \<le> length (sgl (k_sgt s sgt))"
    and fits: "request_fits ev sgs"
    and alloc: "fst (xdma_request_alloc ev (of_nat (length sgs) + request_extra (desc_blen_max ev) sgs 0) s) \<noteq> None"
  shows "\<exists>req. fst (xdma_init_request ev sgt ep_addr s) = Req req \<and>
      r_sdesc req = concat (map (pieces (desc_blen_max ev)) sgs) \<and>
      unat (r_sw_desc_cnt req) = length (r_sdesc req) \<and> r_sw_desc_idx req = 0 \<and>
      r_ep_addr req = ep_addr"
proof -
  let ?b = "desc_blen_max ev" and ?sgs = sgs
  let ?max = "of_nat (nents (k_sgt s sgt)) + request_extra ?b ?sgs 0 :: u32"
  have n: "nents (k_sgt s sgt) = length sgs" using sgs len by simp
  have b: "0 < unat ?b" and sz: "unat (sizeof_request_cb ev) + 16 * (length ?sgs + long_pieces ?b ?sgs) < 2 ^ 32"
    using fits long_pieces_le [of ?b ?sgs] by (auto simp: request_fits_def)
  have "?max = of_nat (length ?sgs + long_pieces ?b ?sgs)"
    unfolding n using fits b by (subst request_extra_eq) (auto simp: request_fits_def)
  then have max: "unat ?max = length ?sgs + long_pieces ?b ?sgs"
    using sz by (simp add: unat_of_nat take_bit_nat_eq_self del: of_nat_add)
  obtain p cap where cap: "fst (xdma_request_alloc ev ?max s) = Some (p, cap)" using alloc n by auto
  then have "cap = unat ?max" using request_alloc_cap [of ev ?max s p cap] sz max by simp
  then have le: "length (concat (map (pieces ?b) ?sgs)) \<le> cap"
    using pieces_total_le [OF b, of ?sgs] max by simp
  have "request_fill ?b cap ?sgs 0 [] = Some (\<Sum>sg \<leftarrow> ?sgs. sg_dma_len sg, concat (map (pieces ?b) ?sgs))"
    using request_fill_pieces [of ?b "[]" ?sgs cap 0] le b by (simp add: word_less_nat_alt)
  moreover have "length (concat (map (pieces ?b) ?sgs)) < 2 ^ 32"
    using pieces_total_le [OF b, of ?sgs] sz by simp
  ultimately show ?thesis
    using cap \<open>cap = unat ?max\<close> le
    unfolding xdma_init_request_def sgs [symmetric]
    by (auto simp: Let_def zero_request_def unat_of_nat take_bit_nat_eq_self split: prod.splits)
qed

lemma init_request_frame [simp]:
  "k_eng (snd (xdma_init_request ev sgt ep s)) = k_eng s" "k_dev (snd (xdma_init_request ev sgt ep s)) = k_dev s"
  "k_xfer (snd (xdma_init_request ev sgt ep s)) = k_xfer s" "k_sgt (snd (xdma_init_request ev sgt ep s)) = k_sgt s"
  "held l (trace (snd (xdma_init_request ev sgt ep s))) = held l (trace s)"
  by (auto simp: xdma_init_request_def xdma_request_alloc_def xdma_request_free_def Let_def split_beta
      split: option.splits)

subsection \<open>Properties\<close>

text \<open>C5: For a scatter-gather table within the range of the 32-bit counting arithmetic, building
  the request never writes outside its allocation and never takes the branch \<open>Cannot transfer more
  than supported length\<close>; unless memory runs out it returns a request whose software descriptors are
  exactly the pieces of the entries, in order.\<close>

theorem init_request_pieces:
  assumes sgs: "sgs = take (nents (k_sgt s sgt)) (sgl (k_sgt s sgt))" and len: "nents (k_sgt s sgt) \<le> length (sgl (k_sgt s sgt))"
    and fits: "request_fits ev sgs"
    and alloc: "fst (xdma_request_alloc ev (of_nat (length sgs) + request_extra (desc_blen_max ev) sgs 0) s) \<noteq> None"
  shows "\<exists>req. fst (xdma_init_request ev sgt ep_addr s) = Req req \<and>
      r_sdesc req = concat (map (pieces (desc_blen_max ev)) sgs) \<and>
      unat (r_sw_desc_cnt req) = length (r_sdesc req) \<and> r_sw_desc_idx req = 0 \<and>
      r_ep_addr req = ep_addr"
  using init_request_ok [OF assms] .

text \<open>The pieces of an entry are contiguous, non-empty, at most \<open>desc_blen_max\<close> bytes long, and
  their lengths add up to the length of the entry: the request moves every byte once.\<close>

theorem pieces_cover_entry:
  assumes "0 < blen"
  shows "(\<Sum>p \<leftarrow> pieces blen sg. unat (sd_len p)) = unat (sg_dma_len sg) \<and>
    (\<forall>p \<in> set (pieces blen sg). 0 < sd_len p \<and> sd_len p \<le> blen) \<and>
    (\<forall>k < length (pieces blen sg). sd_addr (pieces blen sg ! k) =
       sg_dma_address sg + of_nat (\<Sum>p \<leftarrow> take k (pieces blen sg). unat (sd_len p)))"
proof -
  obtain addr len where sg: "sg = \<lparr>sg_dma_address = addr, sg_dma_len = len\<rparr>" by (cases sg) auto
  show ?thesis
    using pieces_ok_pieces [OF assms, of addr len] unfolding sg pieces_ok_def scatterlist.simps .
qed

theorem pieces_cover_entry_witness:
  "pieces 4 \<lparr>sg_dma_address = 100, sg_dma_len = 10\<rparr> =
     [\<lparr>sd_addr = 100, sd_len = 4\<rparr>, \<lparr>sd_addr = 104, sd_len = 4\<rparr>, \<lparr>sd_addr = 108, sd_len = 2\<rparr>] \<and>
   (\<Sum>p \<leftarrow> pieces 4 \<lparr>sg_dma_address = 100, sg_dma_len = 10\<rparr>. unat (sd_len p)) = 10"
proof
  show "pieces 4 \<lparr>sg_dma_address = 100, sg_dma_len = 10\<rparr> =
     [\<lparr>sd_addr = 100, sd_len = 4\<rparr>, \<lparr>sd_addr = 104, sd_len = 4\<rparr>, \<lparr>sd_addr = 108, sd_len = 2\<rparr>]"
    by (simp add: pieces_def pieces_nr_def piece_def upt_rec)
  show "(\<Sum>p \<leftarrow> pieces 4 \<lparr>sg_dma_address = 100, sg_dma_len = 10\<rparr>. unat (sd_len p)) = 10"
    using pieces_cover_entry [of 4 "\<lparr>sg_dma_address = 100, sg_dma_len = 10\<rparr>"] by simp
qed

text \<open>A state with a scatter-gather table of 10 and 3 bytes.\<close>

definition two_entries :: kst where
  "two_entries = kst0\<lparr>k_sgt := (\<lambda>_. \<lparr>sgl = [\<lparr>sg_dma_address = 100, sg_dma_len = 10\<rparr>,
     \<lparr>sg_dma_address = 200, sg_dma_len = 3\<rparr>], nents = 2, orig_nents = 2\<rparr>)\<rparr>"

theorem init_request_pieces_witness:
  "\<exists>req. fst (xdma_init_request (env0\<lparr>desc_blen_max := 4, ksvc := (\<lambda>_ _ _. 1)\<rparr>) 5 0 two_entries) = Req req \<and>
     length (r_sdesc req) = 4"
proof -
  let ?ev = "env0\<lparr>desc_blen_max := 4, ksvc := (\<lambda>_ _ _. 1)\<rparr>"
  let ?l = "[\<lparr>sg_dma_address = 100, sg_dma_len = 10\<rparr>, \<lparr>sg_dma_address = 200, sg_dma_len = 3\<rparr>]"
  have "request_fits ?ev ?l"
    by (simp add: request_fits_def env0_def pieces_nr_def)
  moreover have "fst (xdma_request_alloc ?ev (of_nat (length ?l) + request_extra (desc_blen_max ?ev) ?l 0) two_entries) \<noteq> None"
    by (simp add: xdma_request_alloc_def Let_def split_beta)
  ultimately show ?thesis
    using init_request_pieces [of ?l two_entries 5 ?ev 0]
    by (auto simp: length_pieces pieces_nr_def two_entries_def)
qed

text \<open>The counting loop adds in 32 bits: with the default limit, one entry of 4 GiB minus one byte
  needs 17 descriptors, the count wraps around to 0 extra ones, and the filling loop writes outside
  the allocation before the code compares the two numbers.\<close>

theorem init_request_count_wraps:
  "fst (xdma_init_request (env0\<lparr>ksvc := (\<lambda>_ _ _. 1)\<rparr>) 5 0 (kst0\<lparr>k_sgt := (\<lambda>_.
     \<lparr>sgl = [\<lparr>sg_dma_address = 0x100000000, sg_dma_len = 0xFFFFFFFF\<rparr>], nents = 1, orig_nents = 1\<rparr>)\<rparr>))
   = ReqOverflow"
  by (simp add: xdma_init_request_def xdma_request_alloc_def kcall_def Let_def env0_def kst0_def
      XDMA_DESC_BLEN_MAX_def request_split.simps)

end
