(* ===== verification/Xdma_Transfer.thy ===== *)
theory Xdma_Transfer
  imports Xdma_Service Xdma_Request
begin

text \<open>
  Building a transfer (\<^verbatim>\<open>libxdma.c\<close>): taking descriptors from the ring of an engine, filling them
  from the software descriptors of a request, linking and terminating them; and clearing them when
  the transfer is done.
\<close>

subsection \<open>The operations\<close>

definition upd_descs :: "ptr \<Rightarrow> (nat \<Rightarrow> xdma_desc \<Rightarrow> xdma_desc) \<Rightarrow> nat \<Rightarrow> kst \<Rightarrow> kst" where
  "upd_descs dv f n s = fold (\<lambda>i. upd_desc (desc_at dv i) (f i)) [0..<n] s"

definition transfer_destroy :: "ptr \<Rightarrow> ptr \<Rightarrow> kst \<Rightarrow> kst" where
  "transfer_destroy xdev xfer s =
     (let x = k_xfer s xfer;
          s = xdma_desc_done (t_desc_virt x) (unat (t_desc_num x)) s
      in if t_last_in_request x \<and> t_flags x AND XFER_FLAG_NEED_UNMAP \<noteq> 0 then
           if nents (k_sgt s (t_sgt x)) \<noteq> 0 then
             let s = emit (Kernel ''pci_unmap_sg'' (t_sgt x) (int (nents (k_sgt s (t_sgt x))))) s
             in upd_sgt (t_sgt x) (\<lambda>g. g\<lparr>nents := 0\<rparr>) s
           else s
         else s)"

text \<open>The loop of \<open>transfer_build\<close> over the software descriptors \<open>sds\<close>: descriptor \<open>j\<close> and following,
  endpoint address \<open>ep\<close>, bus address of the result blocks \<open>bus\<close>.\<close>

definition transfer_build_step :: "ptr \<Rightarrow> ptr \<Rightarrow> sw_desc \<Rightarrow> nat \<Rightarrow> u64 \<Rightarrow> u64 \<Rightarrow> kst \<Rightarrow> kst" where
  "transfer_build_step e xfer sdesc j ep bus s =
     (let eng = k_eng s e; x = k_xfer s xfer; p = desc_at (t_desc_virt x) j;
          s = upd_desc p (\<lambda>d. xdma_desc_set d (sd_addr sdesc) ep (sd_len sdesc) (t_dir x)) s;
          s = upd_xfer xfer (\<lambda>x. x\<lparr>t_len := t_len x + sd_len sdesc\<rparr>) s
      in if e_streaming eng \<and> e_dir eng = DMA_FROM_DEVICE then
           let s = emit (Kernel ''memset'' (t_res_virt x + sizeof_xdma_result * j) 0) s
           in upd_desc p (\<lambda>d. d\<lparr>ds_src_addr_lo := PCI_DMA_L bus, ds_src_addr_hi := PCI_DMA_H bus\<rparr>) s
         else s)"

fun transfer_build_loop :: "ptr \<Rightarrow> ptr \<Rightarrow> sw_desc list \<Rightarrow> nat \<Rightarrow> u64 \<Rightarrow> u64 \<Rightarrow> kst \<Rightarrow> u64 \<times> kst" where
  "transfer_build_loop e xfer [] j ep bus s = (ep, s)"
| "transfer_build_loop e xfer (sdesc # sds) j ep bus s =
     transfer_build_loop e xfer sds (Suc j)
       (if \<not> e_non_incr_addr (k_eng s e) then ep + ucast (sd_len sdesc) else ep)
       (if e_streaming (k_eng s e) \<and> e_dir (k_eng s e) = DMA_FROM_DEVICE
        then bus + of_nat sizeof_xdma_result else bus)
       (transfer_build_step e xfer sdesc j ep bus s)"

definition transfer_build ::
    "ptr \<Rightarrow> xdma_request_cb \<Rightarrow> ptr \<Rightarrow> u32 \<Rightarrow> kst \<Rightarrow> xdma_request_cb \<times> kst" where
  "transfer_build e req xfer desc_max s =
     (let sds = take (unat desc_max) (drop (unat (r_sw_desc_idx req)) (r_sdesc req));
          (ep, s) = transfer_build_loop e xfer sds 0 (r_ep_addr req) (t_res_bus (k_xfer s xfer)) s
      in (req\<lparr>r_ep_addr := ep, r_sw_desc_idx := r_sw_desc_idx req + desc_max\<rparr>, s))"

text \<open>The parts of \<open>transfer_init\<close>: where the transfer lies in the ring of the engine, the control bits
  of its descriptors, their adjacency counts.\<close>

definition transfer_place :: "xdma_engine \<Rightarrow> ptr \<Rightarrow> kst \<Rightarrow> kst" where
  "transfer_place eng xfer =
     (let idx = unat (e_desc_idx eng)
      in upd_xfer xfer (\<lambda>x. x\<lparr>t_dir := e_dir eng,
           t_desc_virt := desc_at (e_desc eng) idx,
           t_res_virt := e_cyclic_result eng + sizeof_xdma_result * idx,
           t_desc_bus := e_desc_bus eng + of_nat (sizeof_xdma_desc * idx),
           t_res_bus := e_cyclic_result_bus eng + of_nat (sizeof_xdma_result * idx),
           t_desc_index := e_desc_idx eng\<rparr>))"

definition transfer_mark :: "xdma_engine \<Rightarrow> ptr \<Rightarrow> u32 \<Rightarrow> ptr \<Rightarrow> kst \<Rightarrow> kst" where
  "transfer_mark eng dv desc_max xfer s =
     (let last = desc_max - 1;
          control = XDMA_DESC_STOPPED OR XDMA_DESC_EOP OR XDMA_DESC_COMPLETED;
          s = upd_desc (desc_at dv (unat last)) (\<lambda>d. snd (xdma_desc_control_set d control)) s
      in if e_eop_flush eng
         then upd_xfer xfer (\<lambda>x. x\<lparr>t_desc_cmpl_th := 1\<rparr>)
                (upd_descs dv (\<lambda>_ d. snd (xdma_desc_control_set d XDMA_DESC_COMPLETED)) (unat last) s)
         else upd_xfer xfer (\<lambda>x. x\<lparr>t_desc_cmpl_th := desc_max\<rparr>) s)"

definition transfer_adjacent :: "ptr \<Rightarrow> u32 \<Rightarrow> kst \<Rightarrow> kst" where
  "transfer_adjacent dv desc_num =
     upd_descs dv (\<lambda>i d. xdma_desc_adjacent d (xdma_get_next_adj (desc_num - of_nat i - 1) (ds_next_lo d)))
       (unat desc_num)"

definition transfer_init :: "ptr \<Rightarrow> xdma_request_cb \<Rightarrow> ptr \<Rightarrow> kst \<Rightarrow> (int \<times> xdma_request_cb) \<times> kst" where
  "transfer_init e req xfer s =
     (let desc_max = min (r_sw_desc_cnt req - r_sw_desc_idx req) (e_desc_max (k_eng s e));
          s = upd_xfer xfer (\<lambda>_. zero_transfer) s;
          s = emit (Acquire (LkEngine e)) s;
          eng = k_eng s e;
          s = transfer_place eng xfer s;
          desc_max = (if e_desc_idx eng + desc_max \<ge> e_desc_max eng
                      then e_desc_max eng - e_desc_idx eng else desc_max);
          (_, s) = transfer_desc_init xfer desc_max s;
          (req, s) = transfer_build e req xfer desc_max s;
          s = upd_xfer xfer (\<lambda>x. x\<lparr>t_desc_adjacent := desc_max\<rparr>) s;
          dv = t_desc_virt (k_xfer s xfer);
          s = transfer_mark eng dv desc_max xfer s;
          s = upd_xfer xfer (\<lambda>x. x\<lparr>t_desc_num := desc_max\<rparr>) s;
          s = upd_eng e (\<lambda>g. g\<lparr>e_desc_idx := (e_desc_idx g + desc_max) mod e_desc_max g,
                e_desc_used := e_desc_used g + desc_max\<rparr>) s;
          s = transfer_adjacent dv desc_max s
      in ((0, req), emit (Release (LkEngine e)) s))"

subsection \<open>Lemmas: loops over descriptors\<close>

lemma upd_descs_frame [simp, frame]:
  "trace (upd_descs dv f n s) = trace s" "k_eng (upd_descs dv f n s) = k_eng s"
  "k_xfer (upd_descs dv f n s) = k_xfer s" "k_dev (upd_descs dv f n s) = k_dev s"
  "k_sgt (upd_descs dv f n s) = k_sgt s" "k_cb (upd_descs dv f n s) = k_cb s"
  by (induction n) (simp_all add: upd_descs_def)

lemma upd_descs_at:
  "k_desc (upd_descs dv f n s) p =
     (if \<exists>i < n. p = desc_at dv i then f (THE i. p = desc_at dv i) (k_desc s p) else k_desc s p)"
proof (induction n)
  case (Suc n)
  have the: "(THE i. desc_at dv j = desc_at dv i) = j" for j by simp
  have "k_desc (upd_descs dv f (Suc n) s) p =
      (if p = desc_at dv n then f n (k_desc (upd_descs dv f n s) p) else k_desc (upd_descs dv f n s) p)"
    by (simp add: upd_descs_def)
  also have "\<dots> = (if \<exists>i < Suc n. p = desc_at dv i then f (THE i. p = desc_at dv i) (k_desc s p) else k_desc s p)"
    unfolding Suc.IH by (auto simp: less_Suc_eq the)
  finally show ?case .
qed (simp add: upd_descs_def)

lemma upd_descs_entry: "i < n \<Longrightarrow> k_desc (upd_descs dv f n s) (desc_at dv i) = f i (k_desc s (desc_at dv i))"
  by (subst upd_descs_at) auto

lemma upd_descs_beyond: "n \<le> i \<Longrightarrow> k_desc (upd_descs dv f n s) (desc_at dv i) = k_desc s (desc_at dv i)"
  by (subst upd_descs_at) auto

lemma upd_descs_outside: "(\<And>i. i < n \<Longrightarrow> p \<noteq> desc_at dv i) \<Longrightarrow> k_desc (upd_descs dv f n s) p = k_desc s p"
  by (subst upd_descs_at) auto

text \<open>The endpoint address of software descriptor \<open>i\<close>.\<close>

definition ep_at :: "bool \<Rightarrow> u64 \<Rightarrow> sw_desc list \<Rightarrow> nat \<Rightarrow> u64" where
  "ep_at incr ep sds i = (if incr then ep + (\<Sum>d \<leftarrow> take i sds. ucast (sd_len d)) else ep)"

text \<open>The descriptor that \<open>transfer_build\<close> writes for it.\<close>

definition built_desc :: "xdma_engine \<Rightarrow> dma_data_direction \<Rightarrow> u64 \<Rightarrow> u64 \<Rightarrow> sw_desc \<Rightarrow> xdma_desc \<Rightarrow> xdma_desc" where
  "built_desc eng dir ep bus sd d =
     (let d = xdma_desc_set d (sd_addr sd) ep (sd_len sd) dir
      in if e_streaming eng \<and> e_dir eng = DMA_FROM_DEVICE
         then d\<lparr>ds_src_addr_lo := PCI_DMA_L bus, ds_src_addr_hi := PCI_DMA_H bus\<rparr> else d)"

lemma built_desc_frame [simp]:
  "ds_next_lo (built_desc eng dir ep bus sd d) = ds_next_lo d" "ds_next_hi (built_desc eng dir ep bus sd d) = ds_next_hi d"
  "ds_control (built_desc eng dir ep bus sd d) = ds_control d" "ds_bytes (built_desc eng dir ep bus sd d) = sd_len sd"
  by (simp_all add: built_desc_def Let_def)

lemma build_step_sel [simp, frame]:
  "k_eng (transfer_build_step e x sd j ep bus s) = k_eng s" "k_dev (transfer_build_step e x sd j ep bus s) = k_dev s"
  "k_sgt (transfer_build_step e x sd j ep bus s) = k_sgt s" "k_cb (transfer_build_step e x sd j ep bus s) = k_cb s"
  "k_xfer (transfer_build_step e x sd j ep bus s) =
     (k_xfer s)(x := (k_xfer s x)\<lparr>t_len := t_len (k_xfer s x) + sd_len sd\<rparr>)"
  "k_desc (transfer_build_step e x sd j ep bus s) = (k_desc s)(desc_at (t_desc_virt (k_xfer s x)) j :=
     built_desc (k_eng s e) (t_dir (k_xfer s x)) ep bus sd (k_desc s (desc_at (t_desc_virt (k_xfer s x)) j)))"
  "held l (trace (transfer_build_step e x sd j ep bus s)) = held l (trace s)"
  "writes (trace (transfer_build_step e x sd j ep bus s)) = writes (trace s)"
  by (simp_all add: transfer_build_step_def built_desc_def Let_def)

lemma build_loop_frame [simp, frame]:
  "k_eng (snd (transfer_build_loop e x sds j ep bus s)) = k_eng s"
  "k_dev (snd (transfer_build_loop e x sds j ep bus s)) = k_dev s"
  "k_sgt (snd (transfer_build_loop e x sds j ep bus s)) = k_sgt s"
  "k_cb (snd (transfer_build_loop e x sds j ep bus s)) = k_cb s"
  "held l (trace (snd (transfer_build_loop e x sds j ep bus s))) = held l (trace s)"
  "writes (trace (snd (transfer_build_loop e x sds j ep bus s))) = writes (trace s)"
  by (induction sds arbitrary: j ep bus s) simp_all

lemma build_loop_xfer:
  "k_xfer (snd (transfer_build_loop e x sds j ep bus s)) =
     (k_xfer s)(x := (k_xfer s x)\<lparr>t_len := t_len (k_xfer s x) + (\<Sum>d \<leftarrow> sds. sd_len d)\<rparr>)"
proof (induction sds arbitrary: j ep bus s)
  case Nil
  have "(k_xfer s x)\<lparr>t_len := t_len (k_xfer s x)\<rparr> = k_xfer s x" by simp
  then show ?case by (simp del: xdma_transfer.surjective)
qed (simp add: add.assoc)

lemma build_loop_ep:
  "fst (transfer_build_loop e x sds j ep bus s) = ep_at (\<not> e_non_incr_addr (k_eng s e)) ep sds (length sds)"
  by (induction sds arbitrary: j ep bus s) (simp_all add: ep_at_def add.assoc)

lemma build_loop_outside:
  "(\<And>i. i < length sds \<Longrightarrow> p \<noteq> desc_at (t_desc_virt (k_xfer s x)) (j + i)) \<Longrightarrow>
   k_desc (snd (transfer_build_loop e x sds j ep bus s)) p = k_desc s p"
proof (induction sds arbitrary: j ep bus s)
  case (Cons sd sds)
  have "p \<noteq> desc_at (t_desc_virt (k_xfer s x)) j" using Cons.prems [of 0] by simp
  moreover have "p \<noteq> desc_at (t_desc_virt (k_xfer s x)) (Suc j + i)" if "i < length sds" for i
    using Cons.prems [of "Suc i"] that by simp
  ultimately show ?case using Cons.IH by simp
qed simp

text \<open>The result block whose address descriptor \<open>i\<close> of a streaming transfer carries.\<close>

lemma build_loop_entry:
  "i < length sds \<Longrightarrow>
   k_desc (snd (transfer_build_loop e x sds j ep bus s)) (desc_at (t_desc_virt (k_xfer s x)) (j + i)) =
     built_desc (k_eng s e) (t_dir (k_xfer s x)) (ep_at (\<not> e_non_incr_addr (k_eng s e)) ep sds i)
       (bus + of_nat (sizeof_xdma_result * i)) (sds ! i) (k_desc s (desc_at (t_desc_virt (k_xfer s x)) (j + i)))"
proof (induction sds arbitrary: i j ep bus s)
  case (Cons sd sds)
  let ?s = "transfer_build_step e x sd j ep bus s"
  show ?case
  proof (cases i)
    case 0
    then show ?thesis by (simp add: build_loop_outside ep_at_def)
  next
    case (Suc k)
    then have k: "k < length sds" using Cons.prems by simp
    have b: "built_desc g dir ep (if e_streaming g \<and> e_dir g = DMA_FROM_DEVICE then b1 else b2) sd d =
        built_desc g dir ep b1 sd d" for g dir ep b1 b2 sd d
      by (auto simp: built_desc_def Let_def)
    have b2: "(if c then x + y else x) + z = (if c then x + y + z else x + z)" for c and x y z :: u64 by simp
    show ?thesis
      using Cons.IH [OF k, of "Suc j" _ _ ?s] Suc
      by (simp add: ep_at_def b b2 add.assoc)
  qed
qed simp

subsection \<open>Taking descriptors from the ring\<close>

text \<open>How many descriptors a transfer gets: what the request still needs, up to the end of the ring.\<close>

definition ring_take :: "xdma_engine \<Rightarrow> xdma_request_cb \<Rightarrow> u32" where
  "ring_take eng req =
     (let n = min (r_sw_desc_cnt req - r_sw_desc_idx req) (e_desc_max eng)
      in if e_desc_idx eng + n \<ge> e_desc_max eng then e_desc_max eng - e_desc_idx eng else n)"

definition ring_ok :: "xdma_engine \<Rightarrow> bool" where
  "ring_ok eng \<longleftrightarrow> e_desc_idx eng < e_desc_max eng \<and> unat (e_desc_max eng) < 2 ^ 31"

definition req_ok :: "xdma_request_cb \<Rightarrow> bool" where
  "req_ok req \<longleftrightarrow> r_sw_desc_idx req \<le> r_sw_desc_cnt req \<and> unat (r_sw_desc_cnt req) = length (r_sdesc req)"

lemma ring_take_unat:
  assumes "ring_ok eng" and "req_ok req"
  shows "unat (ring_take eng req) =
    min (unat (r_sw_desc_cnt req) - unat (r_sw_desc_idx req)) (unat (e_desc_max eng) - unat (e_desc_idx eng))"
proof -
  let ?r = "r_sw_desc_cnt req - r_sw_desc_idx req"
  have r: "unat ?r = unat (r_sw_desc_cnt req) - unat (r_sw_desc_idx req)"
    using assms(2) by (simp add: req_ok_def unat_sub_le)
  have i: "unat (e_desc_idx eng) < unat (e_desc_max eng)" "unat (e_desc_max eng) < 2 ^ 31"
    using assms(1) by (simp_all add: ring_ok_def word_less_nat_alt)
  then have d: "unat (e_desc_max eng - e_desc_idx eng) = unat (e_desc_max eng) - unat (e_desc_idx eng)"
    by (simp add: unat_sub_le word_le_nat_alt)
  have m: "unat (min ?r (e_desc_max eng)) = min (unat ?r) (unat (e_desc_max eng))"
    by (simp add: min_def word_le_nat_alt)
  have "unat (e_desc_idx eng + min ?r (e_desc_max eng)) = unat (e_desc_idx eng) + min (unat ?r) (unat (e_desc_max eng))"
    using i by (subst unat_word_add_lt) (auto simp: m)
  then show ?thesis
    using i by (auto simp: ring_take_def Let_def word_le_nat_alt m d r)
qed

lemma ring_take_pos:
  assumes "ring_ok eng" and "req_ok req" and "r_sw_desc_idx req < r_sw_desc_cnt req"
  shows "0 < unat (ring_take eng req)"
  using assms ring_take_unat [OF assms(1,2)] by (simp add: ring_ok_def word_less_nat_alt)

text \<open>The descriptors of the ring are used from the current index on, without leaving the ring, and the
  index stays inside it.\<close>

lemma ring_bounds:
  assumes "ring_ok eng" and "req_ok req"
  shows "unat (e_desc_idx eng) + unat (ring_take eng req) \<le> unat (e_desc_max eng)"
    and "unat ((e_desc_idx eng + ring_take eng req) mod e_desc_max eng) =
      (unat (e_desc_idx eng) + unat (ring_take eng req)) mod unat (e_desc_max eng)"
    and "(e_desc_idx eng + ring_take eng req) mod e_desc_max eng < e_desc_max eng"
proof -
  have i: "unat (e_desc_idx eng) < unat (e_desc_max eng)" "unat (e_desc_max eng) < 2 ^ 31"
    using assms(1) by (simp_all add: ring_ok_def word_less_nat_alt)
  show le: "unat (e_desc_idx eng) + unat (ring_take eng req) \<le> unat (e_desc_max eng)"
    using i by (simp add: ring_take_unat [OF assms])
  then have "unat (e_desc_idx eng + ring_take eng req) = unat (e_desc_idx eng) + unat (ring_take eng req)"
    using i by (subst unat_word_add_lt) auto
  then show u: "unat ((e_desc_idx eng + ring_take eng req) mod e_desc_max eng) =
      (unat (e_desc_idx eng) + unat (ring_take eng req)) mod unat (e_desc_max eng)"
    by (simp add: unat_mod)
  show "(e_desc_idx eng + ring_take eng req) mod e_desc_max eng < e_desc_max eng"
    using i by (simp add: word_less_nat_alt u)
qed

subsection \<open>The closed form of a new transfer\<close>

text \<open>The software descriptors a transfer carries.\<close>

definition xfer_sds :: "xdma_engine \<Rightarrow> xdma_request_cb \<Rightarrow> sw_desc list" where
  "xfer_sds eng req = take (unat (ring_take eng req)) (drop (unat (r_sw_desc_idx req)) (r_sdesc req))"

lemma length_xfer_sds:
  assumes "ring_ok eng" and "req_ok req"
  shows "length (xfer_sds eng req) = unat (ring_take eng req)"
  using assms by (simp add: xfer_sds_def ring_take_unat req_ok_def)

definition new_xfer :: "xdma_engine \<Rightarrow> xdma_request_cb \<Rightarrow> xdma_transfer" where
  "new_xfer eng req = (let n = ring_take eng req; idx = unat (e_desc_idx eng) in
     zero_transfer\<lparr>t_dir := e_dir eng, t_desc_virt := desc_at (e_desc eng) idx,
       t_res_virt := e_cyclic_result eng + sizeof_xdma_result * idx,
       t_desc_bus := e_desc_bus eng + of_nat (sizeof_xdma_desc * idx),
       t_res_bus := e_cyclic_result_bus eng + of_nat (sizeof_xdma_result * idx),
       t_desc_index := e_desc_idx eng, t_len := (\<Sum>d \<leftarrow> xfer_sds eng req. sd_len d), t_desc_adjacent := n,
       t_desc_cmpl_th := (if e_eop_flush eng then 1 else n), t_desc_num := n\<rparr>)"

text \<open>Descriptor \<open>i\<close> of \<open>n\<close> as \<open>transfer_init\<close> leaves it, from what was there before.\<close>

definition new_desc :: "xdma_engine \<Rightarrow> xdma_request_cb \<Rightarrow> nat \<Rightarrow> xdma_desc \<Rightarrow> xdma_desc" where
  "new_desc eng req i d =
     (let n = unat (ring_take eng req); x = new_xfer eng req; sds = xfer_sds eng req;
          b = t_desc_bus x + of_nat (sizeof_xdma_desc * Suc i);
          d = d\<lparr>ds_control := DESC_MAGIC, ds_bytes := 0,
                ds_next_lo := (if Suc i < n then PCI_DMA_L b else 0), ds_next_hi := (if Suc i < n then PCI_DMA_H b else 0)\<rparr>;
          d = built_desc eng (e_dir eng) (ep_at (\<not> e_non_incr_addr eng) (r_ep_addr req) sds i)
                (t_res_bus x + of_nat (sizeof_xdma_result * i)) (sds ! i) d;
          d = (if Suc i = n then snd (xdma_desc_control_set d (XDMA_DESC_STOPPED OR XDMA_DESC_EOP OR XDMA_DESC_COMPLETED))
               else if e_eop_flush eng then snd (xdma_desc_control_set d XDMA_DESC_COMPLETED) else d)
      in xdma_desc_adjacent d (xdma_get_next_adj (ring_take eng req - of_nat i - 1) (ds_next_lo d)))"

lemma sint_small:
  assumes "unat (n :: u32) < 2 ^ 31"
  shows "sint n = int (unat n)"
proof -
  have u: "uint n = int (unat n)" by simp
  have "int (unat n) < int (2 ^ 31)" using assms by (simp only: of_nat_less_iff)
  then have "int (unat n) < 2 ^ 31" by (simp only: of_nat_power of_nat_numeral)
  then have "signed_take_bit 31 (uint n) = uint n"
    unfolding u by (intro signed_take_bit_int_eq_self) linarith+
  then show ?thesis by (simp add: sint_uint)
qed

lemma nat_sint_pred:
  assumes "unat (n :: u32) < 2 ^ 31"
  shows "nat (sint n - 1) = unat n - 1"
proof -
  have "nat (int k - 1) = k - 1" for k by arith
  then show ?thesis unfolding sint_small [OF assms] .
qed

lemma place_sel [simp]:
  "trace (transfer_place g x s) = trace s" "k_eng (transfer_place g x s) = k_eng s" "k_desc (transfer_place g x s) = k_desc s"
  "k_dev (transfer_place g x s) = k_dev s" "k_sgt (transfer_place g x s) = k_sgt s" "k_cb (transfer_place g x s) = k_cb s"
  by (simp_all add: transfer_place_def Let_def)

lemma mark_sel [simp]:
  "trace (transfer_mark g dv n x s) = trace s" "k_eng (transfer_mark g dv n x s) = k_eng s"
  "k_dev (transfer_mark g dv n x s) = k_dev s" "k_sgt (transfer_mark g dv n x s) = k_sgt s" "k_cb (transfer_mark g dv n x s) = k_cb s"
  "k_xfer (transfer_mark g dv n x s) = (k_xfer s)(x := (k_xfer s x)\<lparr>t_desc_cmpl_th := (if e_eop_flush g then 1 else n)\<rparr>)"
  by (simp_all add: transfer_mark_def Let_def)

lemma mark_entry:
  assumes "i < unat n"
  shows "k_desc (transfer_mark g dv n x s) (desc_at dv i) =
    (if Suc i = unat n
     then snd (xdma_desc_control_set (k_desc s (desc_at dv i)) (XDMA_DESC_STOPPED OR XDMA_DESC_EOP OR XDMA_DESC_COMPLETED))
     else if e_eop_flush g then snd (xdma_desc_control_set (k_desc s (desc_at dv i)) XDMA_DESC_COMPLETED)
     else k_desc s (desc_at dv i))"
proof -
  have "unat (n - 1) = unat n - 1" using assms by (subst unat_sub_le) (auto simp: word_le_nat_alt)
  then show ?thesis
    using assms by (auto simp: transfer_mark_def Let_def upd_descs_entry upd_descs_beyond)
qed

lemma mark_outside:
  assumes "0 < unat n" and "\<And>i. i < unat n \<Longrightarrow> p \<noteq> desc_at dv i"
  shows "k_desc (transfer_mark g dv n x s) p = k_desc s p"
proof -
  have "unat (n - 1) = unat n - 1" using assms(1) by (subst unat_sub_le) (auto simp: word_le_nat_alt)
  then show ?thesis
    using assms by (auto simp: transfer_mark_def Let_def upd_descs_outside)
qed

lemma adjacent_sel [simp]:
  "trace (transfer_adjacent dv n s) = trace s" "k_eng (transfer_adjacent dv n s) = k_eng s"
  "k_xfer (transfer_adjacent dv n s) = k_xfer s" "k_dev (transfer_adjacent dv n s) = k_dev s"
  "k_sgt (transfer_adjacent dv n s) = k_sgt s" "k_cb (transfer_adjacent dv n s) = k_cb s"
  by (simp_all add: transfer_adjacent_def)

lemma init_loop_frame2 [simp]:
  "k_sgt (transfer_desc_init_loop dv b k s) = k_sgt s" "k_cb (transfer_desc_init_loop dv b k s) = k_cb s"
  by (induction dv b k s rule: transfer_desc_init_loop.induct) (simp_all add: Let_def)

text \<open>The state after the descriptors are filled in.\<close>

definition ti_build :: "ptr \<Rightarrow> xdma_request_cb \<Rightarrow> ptr \<Rightarrow> kst \<Rightarrow> u64 \<times> kst" where
  "ti_build e req xfer s =
     (let eng = k_eng s e; x = new_xfer eng req;
          s1 = transfer_place eng xfer (emit (Acquire (LkEngine e)) (upd_xfer xfer (\<lambda>_. zero_transfer) s));
          s2 = transfer_desc_init_loop (t_desc_virt x) (t_desc_bus x) (unat (ring_take eng req) - 1) s1
      in transfer_build_loop e xfer (xfer_sds eng req) 0 (r_ep_addr req) (t_res_bus x) s2)"

lemma ti_build_sel [simp]:
  "k_eng (snd (ti_build e req x s)) = k_eng s" "k_dev (snd (ti_build e req x s)) = k_dev s"
  "k_sgt (snd (ti_build e req x s)) = k_sgt s" "k_cb (snd (ti_build e req x s)) = k_cb s"
  "writes (trace (snd (ti_build e req x s))) = writes (trace s)"
  "held l (trace (snd (ti_build e req x s))) = held l (trace s) + (if l = LkEngine e then 1 else 0)"
  "fst (ti_build e req x s) = ep_at (\<not> e_non_incr_addr (k_eng s e)) (r_ep_addr req) (xfer_sds (k_eng s e) req)
     (length (xfer_sds (k_eng s e) req))"
  by (simp_all add: ti_build_def Let_def build_loop_ep)

lemma ti_build_xfer:
  "k_xfer (snd (ti_build e req x s)) = (k_xfer s)(x := (new_xfer (k_eng s e) req)
     \<lparr>t_desc_adjacent := 0, t_desc_cmpl_th := 0, t_desc_num := 0\<rparr>)"
  by (simp add: ti_build_def Let_def build_loop_xfer transfer_place_def new_xfer_def zero_transfer_def)

lemma transfer_init_eq:
  assumes ring: "ring_ok (k_eng s e)" and req: "req_ok req"
  shows "transfer_init e req xfer s =
    (let eng = k_eng s e; n = ring_take eng req; dv = t_desc_virt (new_xfer eng req);
         s2 = upd_xfer xfer (\<lambda>x. x\<lparr>t_desc_adjacent := n\<rparr>) (snd (ti_build e req xfer s));
         s3 = upd_xfer xfer (\<lambda>x. x\<lparr>t_desc_num := n\<rparr>) (transfer_mark eng dv n xfer s2);
         s4 = upd_eng e (\<lambda>g. g\<lparr>e_desc_idx := (e_desc_idx g + n) mod e_desc_max g, e_desc_used := e_desc_used g + n\<rparr>) s3
     in ((0, req\<lparr>r_ep_addr := fst (ti_build e req xfer s), r_sw_desc_idx := r_sw_desc_idx req + n\<rparr>),
         emit (Release (LkEngine e)) (transfer_adjacent dv n s4)))"
proof -
  let ?eng = "k_eng s e"
  let ?n = "ring_take ?eng req" and ?x = "new_xfer ?eng req"
  define s1 where "s1 = transfer_place ?eng xfer (emit (Acquire (LkEngine e)) (upd_xfer xfer (\<lambda>_. zero_transfer) s))"
  define s2 where "s2 = transfer_desc_init_loop (t_desc_virt ?x) (t_desc_bus ?x) (unat ?n - 1) s1"
  have "unat ?n \<le> unat (e_desc_max ?eng)" using ring_bounds(1) [OF assms] by simp
  then have n: "nat (sint ?n - 1) = unat ?n - 1"
    using ring by (intro nat_sint_pred) (auto simp: ring_ok_def)
  have r: "(if e_desc_idx ?eng + min (r_sw_desc_cnt req - r_sw_desc_idx req) (e_desc_max ?eng) \<ge> e_desc_max ?eng
      then e_desc_max ?eng - e_desc_idx ?eng else min (r_sw_desc_cnt req - r_sw_desc_idx req) (e_desc_max ?eng)) = ?n"
    by (simp add: ring_take_def Let_def)
  have x1: "t_desc_virt (k_xfer s1 xfer) = t_desc_virt ?x" "t_desc_bus (k_xfer s1 xfer) = t_desc_bus ?x"
    "t_res_bus (k_xfer s1 xfer) = t_res_bus ?x"
    by (simp_all add: s1_def transfer_place_def new_xfer_def Let_def)
  have init: "transfer_desc_init xfer ?n s1 = (0, s2)"
    by (simp only: transfer_desc_init_def n x1 s2_def)
  have kx: "t_res_bus (k_xfer s2 xfer) = t_res_bus ?x" using x1(3) by (simp add: s2_def)
  have tb: "ti_build e req xfer s =
      transfer_build_loop e xfer (xfer_sds ?eng req) 0 (r_ep_addr req) (t_res_bus ?x) s2"
    by (simp only: ti_build_def Let_def s2_def s1_def)
  have build: "transfer_build e req xfer ?n s2 =
      (req\<lparr>r_ep_addr := fst (ti_build e req xfer s), r_sw_desc_idx := r_sw_desc_idx req + ?n\<rparr>, snd (ti_build e req xfer s))"
    unfolding transfer_build_def Let_def split_beta kx tb xfer_sds_def ..
  have dv: "t_desc_virt (k_xfer (snd (ti_build e req xfer s)) xfer) = t_desc_virt ?x"
    by (simp add: ti_build_xfer)
  show ?thesis
    unfolding transfer_init_def Let_def emit_sel upd_xfer_sel r s1_def [symmetric] init split_conv build
    by (simp add: dv)
qed

text \<open>What the transfer and the engine are afterwards, and what is untouched.\<close>

lemma transfer_init_sel:
  assumes ring: "ring_ok (k_eng s e)" and req: "req_ok req"
  shows "fst (transfer_init e req xfer s) = (0, req\<lparr>
      r_ep_addr := ep_at (\<not> e_non_incr_addr (k_eng s e)) (r_ep_addr req) (xfer_sds (k_eng s e) req) (length (xfer_sds (k_eng s e) req)),
      r_sw_desc_idx := r_sw_desc_idx req + ring_take (k_eng s e) req\<rparr>)"
    and "k_xfer (snd (transfer_init e req xfer s)) = (k_xfer s)(xfer := new_xfer (k_eng s e) req)"
    and "k_eng (snd (transfer_init e req xfer s)) = (k_eng s)(e := (k_eng s e)\<lparr>
      e_desc_idx := (e_desc_idx (k_eng s e) + ring_take (k_eng s e) req) mod e_desc_max (k_eng s e),
      e_desc_used := e_desc_used (k_eng s e) + ring_take (k_eng s e) req\<rparr>)"
    and "k_dev (snd (transfer_init e req xfer s)) = k_dev s" and "k_sgt (snd (transfer_init e req xfer s)) = k_sgt s"
    and "k_cb (snd (transfer_init e req xfer s)) = k_cb s"
    and "writes (trace (snd (transfer_init e req xfer s))) = writes (trace s)"
    and "held l (trace (snd (transfer_init e req xfer s))) = held l (trace s)"
proof -
  have x: "(new_xfer g req)\<lparr>t_desc_adjacent := ring_take g req, t_desc_cmpl_th := (if e_eop_flush g then 1 else ring_take g req),
      t_desc_num := ring_take g req\<rparr> = new_xfer g req" for g
    by (simp add: new_xfer_def Let_def zero_transfer_def)
  show "k_xfer (snd (transfer_init e req xfer s)) = (k_xfer s)(xfer := new_xfer (k_eng s e) req)"
    using x [of "k_eng s e"] by (simp add: transfer_init_eq [OF assms] Let_def ti_build_xfer)
qed (simp_all add: transfer_init_eq [OF assms] Let_def)

lemma transfer_init_entry:
  assumes ring: "ring_ok (k_eng s e)" and req: "req_ok req" and i: "i < unat (ring_take (k_eng s e) req)"
  shows "k_desc (snd (transfer_init e req xfer s)) (desc_at (t_desc_virt (new_xfer (k_eng s e) req)) i) =
    new_desc (k_eng s e) req i (k_desc s (desc_at (t_desc_virt (new_xfer (k_eng s e) req)) i))"
proof -
  let ?eng = "k_eng s e" and ?n = "unat (ring_take (k_eng s e) req)"
  let ?dv = "t_desc_virt (new_xfer ?eng req)"
  define s1 where "s1 = transfer_place ?eng xfer (emit (Acquire (LkEngine e)) (upd_xfer xfer (\<lambda>_. zero_transfer) s))"
  have l: "i < length (xfer_sds ?eng req)" "i \<le> ?n - 1" using i length_xfer_sds [OF ring req] by simp_all
  have x1: "t_desc_virt (k_xfer s1 xfer) = ?dv" "t_dir (k_xfer s1 xfer) = e_dir ?eng" "k_desc s1 = k_desc s"
    by (simp_all add: s1_def transfer_place_def new_xfer_def Let_def)
  have tb: "k_desc (snd (ti_build e req xfer s)) (desc_at ?dv i) =
      built_desc ?eng (e_dir ?eng) (ep_at (\<not> e_non_incr_addr ?eng) (r_ep_addr req) (xfer_sds ?eng req) i)
        (t_res_bus (new_xfer ?eng req) + of_nat (sizeof_xdma_result * i)) (xfer_sds ?eng req ! i)
        (k_desc (transfer_desc_init_loop ?dv (t_desc_bus (new_xfer ?eng req)) (?n - 1) s1) (desc_at ?dv i))"
    using build_loop_entry [OF l(1), of e xfer 0 "r_ep_addr req" "t_res_bus (new_xfer ?eng req)"
        "transfer_desc_init_loop ?dv (t_desc_bus (new_xfer ?eng req)) (?n - 1) s1"] x1
    by (simp add: ti_build_def Let_def s1_def del: of_nat_mult)
  have "Suc i < ?n \<longleftrightarrow> i < ?n - 1" by arith
  then show ?thesis
    using i init_loop_entry [OF l(2), of ?dv "t_desc_bus (new_xfer ?eng req)" s1] x1(3)
    by (simp add: transfer_init_eq [OF ring req] Let_def transfer_adjacent_def upd_descs_entry mark_entry tb new_desc_def
        del: of_nat_mult of_nat_Suc mult_Suc_right)
qed

lemma transfer_init_outside:
  assumes ring: "ring_ok (k_eng s e)" and req: "req_ok req" and pos: "0 < unat (ring_take (k_eng s e) req)"
    and out: "\<And>i. i < unat (ring_take (k_eng s e) req) \<Longrightarrow> p \<noteq> desc_at (t_desc_virt (new_xfer (k_eng s e) req)) i"
  shows "k_desc (snd (transfer_init e req xfer s)) p = k_desc s p"
proof -
  let ?eng = "k_eng s e" and ?n = "unat (ring_take (k_eng s e) req)"
  have dv: "t_desc_virt (k_xfer (transfer_place ?eng xfer (emit (Acquire (LkEngine e)) (upd_xfer xfer (\<lambda>_. zero_transfer) s))) xfer)
      = t_desc_virt (new_xfer ?eng req)"
    by (simp add: transfer_place_def new_xfer_def Let_def)
  have "k_desc (snd (ti_build e req xfer s)) p = k_desc s p"
    unfolding ti_build_def Let_def
    using out pos length_xfer_sds [OF ring req] dv
    by (subst build_loop_outside) (auto simp: init_loop_outside)
  then show ?thesis
    using out by (simp add: transfer_init_eq [OF ring req] Let_def transfer_adjacent_def upd_descs_outside mark_outside [OF pos])
qed

subsection \<open>The fields of the new descriptors\<close>

definition desc_src :: "xdma_desc \<Rightarrow> u64" where
  "desc_src d = push_bit 32 (ucast (ds_src_addr_hi d)) OR ucast (ds_src_addr_lo d)"

definition desc_dst :: "xdma_desc \<Rightarrow> u64" where
  "desc_dst d = push_bit 32 (ucast (ds_dst_addr_hi d)) OR ucast (ds_dst_addr_lo d)"

lemma next_adj_le_63: "unat (xdma_get_next_adj r x) \<le> 63"
  using next_adj_in_block [of x r] by simp

lemma magic_fields:
  "ds_control d = DESC_MAGIC \<Longrightarrow> desc_adj d = 0" "ds_control d = DESC_MAGIC \<Longrightarrow> desc_bits d = 0"
  by (simp_all add: desc_adj_def desc_bits_def DESC_MAGIC_def)

text \<open>The control bits of a transfer's descriptors: only the last one stops the engine.\<close>

definition ctl_bits :: "bool \<Rightarrow> bool \<Rightarrow> u32" where
  "ctl_bits eop_flush is_last =
     (if is_last then XDMA_DESC_STOPPED OR XDMA_DESC_EOP OR XDMA_DESC_COMPLETED
      else if eop_flush then XDMA_DESC_COMPLETED else 0)"

lemma ctl_bits_byte: "ctl_bits f l AND NOT LS_BYTE_MASK = 0"
  by (simp add: ctl_bits_def xdma_consts LS_BYTE_MASK_def)

lemma new_desc_fields:
  fixes i :: nat and d :: xdma_desc
  assumes "i < unat (ring_take eng req)"
  defines "d' \<equiv> new_desc eng req i d" and "n \<equiv> unat (ring_take eng req)"
  defines "b \<equiv> t_desc_bus (new_xfer eng req) + of_nat (sizeof_xdma_desc * Suc i)"
  shows "ds_next_lo d' = (if Suc i < n then PCI_DMA_L b else 0)" and "ds_next_hi d' = (if Suc i < n then PCI_DMA_H b else 0)"
    and "ds_bytes d' = sd_len (xfer_sds eng req ! i)" and "desc_magic d' = 0xAD4B"
    and "desc_bits d' = ctl_bits (e_eop_flush eng) (Suc i = n)"
    and "desc_adj d' = xdma_get_next_adj (ring_take eng req - of_nat i - 1) (ds_next_lo d')"
proof -
  define d1 where "d1 = built_desc eng (e_dir eng) (ep_at (\<not> e_non_incr_addr eng) (r_ep_addr req) (xfer_sds eng req) i)
    (t_res_bus (new_xfer eng req) + of_nat (sizeof_xdma_result * i)) (xfer_sds eng req ! i)
    (d\<lparr>ds_control := DESC_MAGIC, ds_bytes := 0, ds_next_lo := (if Suc i < n then PCI_DMA_L b else 0),
       ds_next_hi := (if Suc i < n then PCI_DMA_H b else 0)\<rparr>)"
  define d2 where "d2 = (if Suc i = n then snd (xdma_desc_control_set d1 (XDMA_DESC_STOPPED OR XDMA_DESC_EOP OR XDMA_DESC_COMPLETED))
    else if e_eop_flush eng then snd (xdma_desc_control_set d1 XDMA_DESC_COMPLETED) else d1)"
  have d': "d' = xdma_desc_adjacent d2 (xdma_get_next_adj (ring_take eng req - of_nat i - 1) (ds_next_lo d2))"
    unfolding d'_def new_desc_def Let_def d2_def d1_def n_def b_def by simp
  have m: "ds_control d1 = DESC_MAGIC" by (simp add: d1_def)
  have bits: "desc_bits d2 = ctl_bits (e_eop_flush eng) (Suc i = n)" "desc_adj d2 = 0"
    using magic_fields [OF m] control_set_fields [OF ctl_bits_byte, of d1]
    by (simp_all add: d2_def ctl_bits_def xdma_consts LS_BYTE_MASK_def control_set_fields)
  show "ds_next_lo d' = (if Suc i < n then PCI_DMA_L b else 0)" "ds_next_hi d' = (if Suc i < n then PCI_DMA_H b else 0)"
    "ds_bytes d' = sd_len (xfer_sds eng req ! i)"
    by (simp_all add: d' d2_def d1_def)
  show "desc_magic d' = 0xAD4B" by (simp add: d' desc_adjacent_magic next_adj_le_63)
  show "desc_bits d' = ctl_bits (e_eop_flush eng) (Suc i = n)"
    "desc_adj d' = xdma_get_next_adj (ring_take eng req - of_nat i - 1) (ds_next_lo d')"
    using desc_adjacent_fields [OF bits(2) next_adj_le_63] bits(1) by (simp_all add: d')
qed

lemma new_desc_addresses:
  fixes req :: xdma_request_cb
  assumes "\<not> e_streaming eng"
  defines "ep \<equiv> \<lambda>i. ep_at (\<not> e_non_incr_addr eng) (r_ep_addr req) (xfer_sds eng req) i"
  shows "desc_src (new_desc eng req i d) = (if e_dir eng = DMA_TO_DEVICE then sd_addr (xfer_sds eng req ! i) else ep i)"
    and "desc_dst (new_desc eng req i d) = (if e_dir eng = DMA_TO_DEVICE then ep i else sd_addr (xfer_sds eng req ! i))"
  using assms by (auto simp: desc_src_def desc_dst_def new_desc_def built_desc_def xdma_desc_set_def Let_def PCI_DMA_join)

subsection \<open>Properties\<close>

text \<open>A new transfer takes the next descriptors of the engine's ring: at least one, never past the
  end of the ring, and as many as the request still needs up to there.  The ring index stays inside
  the ring, the number of descriptors in use grows by what was taken, the request advances by as
  much, and the engine lock is released.\<close>

theorem transfer_init_ring:
  fixes s :: kst and xfer :: ptr
  assumes ring: "ring_ok (k_eng s e)" and req: "req_ok req" and more: "r_sw_desc_idx req < r_sw_desc_cnt req"
  defines "s' \<equiv> snd (transfer_init e req xfer s)" and "req' \<equiv> snd (fst (transfer_init e req xfer s))"
  shows "0 < unat (t_desc_num (k_xfer s' xfer)) \<and>
    unat (t_desc_index (k_xfer s' xfer)) + unat (t_desc_num (k_xfer s' xfer)) \<le> unat (e_desc_max (k_eng s' e)) \<and>
    unat (t_desc_num (k_xfer s' xfer)) =
      min (unat (r_sw_desc_cnt req) - unat (r_sw_desc_idx req)) (unat (e_desc_max (k_eng s e)) - unat (e_desc_idx (k_eng s e))) \<and>
    ring_ok (k_eng s' e) \<and> req_ok req' \<and>
    e_desc_used (k_eng s' e) = e_desc_used (k_eng s e) + t_desc_num (k_xfer s' xfer) \<and>
    r_sw_desc_idx req' = r_sw_desc_idx req + t_desc_num (k_xfer s' xfer) \<and>
    held l (trace s') = held l (trace s)"
proof -
  let ?n = "ring_take (k_eng s e) req"
  note sel = transfer_init_sel [OF ring req]
  have x: "t_desc_num (k_xfer s' xfer) = ?n" "t_desc_index (k_xfer s' xfer) = e_desc_idx (k_eng s e)"
    by (simp_all add: s'_def sel new_xfer_def Let_def)
  have e: "e_desc_max (k_eng s' e) = e_desc_max (k_eng s e)" "e_desc_used (k_eng s' e) = e_desc_used (k_eng s e) + ?n"
    "ring_ok (k_eng s' e)"
    using ring ring_bounds(3) [OF ring req] by (simp_all add: s'_def sel ring_ok_def)
  have n: "unat ?n \<le> unat (r_sw_desc_cnt req) - unat (r_sw_desc_idx req)" by (simp add: ring_take_unat [OF ring req])
  have i: "unat (r_sw_desc_idx req) < unat (r_sw_desc_cnt req)" using more by (simp add: word_less_nat_alt)
  moreover have "unat (r_sw_desc_cnt req) < 2 ^ LENGTH(32)" by (rule unsigned_less)
  ultimately have "unat (r_sw_desc_idx req + ?n) = unat (r_sw_desc_idx req) + unat ?n"
    using n by (intro unat_word_add_lt) linarith
  then have "req_ok req'"
    using req n i by (simp add: req'_def sel req_ok_def word_le_nat_alt)
  then show ?thesis
    using ring_take_pos [OF ring req more] ring_bounds(1) [OF ring req] ring_take_unat [OF ring req] x e
    by (simp add: s'_def req'_def sel)
qed

text \<open>C32: The descriptors of a new transfer are what the device needs: from the bus address of the
  transfer it visits its descriptors in order and stops after the last; descriptor \<open>i\<close> moves the next
  piece of the request, in the right direction, and carries the magic number, the adjacency count that
  stays within its block, and the stop bit exactly when it is the last.\<close>

theorem transfer_init_descriptors:
  fixes s :: kst and xfer :: ptr
  assumes ring: "ring_ok (k_eng s e)" and req: "req_ok req" and more: "r_sw_desc_idx req < r_sw_desc_cnt req"
  defines "s' \<equiv> snd (transfer_init e req xfer s)"
  defines "x \<equiv> k_xfer s' xfer"
  defines "n \<equiv> unat (t_desc_num x)"
  assumes bus: "bus_fits (t_desc_bus x) n"
  shows "desc_walk (t_desc_virt x) (t_desc_bus x) (k_desc s') n (t_desc_bus x) = Some (map (desc_at (t_desc_virt x)) [0..<n]) \<and>
    (\<forall>i < n. let d = k_desc s' (desc_at (t_desc_virt x) i); sd = r_sdesc req ! (unat (r_sw_desc_idx req) + i) in
       ds_bytes d = sd_len sd \<and> desc_magic d = 0xAD4B \<and>
       desc_bits d = ctl_bits (e_eop_flush (k_eng s e)) (Suc i = n) \<and>
       desc_adj d = xdma_get_next_adj (t_desc_num x - of_nat i - 1) (ds_next_lo d) \<and>
       (\<not> e_streaming (k_eng s e) \<longrightarrow> (if e_dir (k_eng s e) = DMA_TO_DEVICE then desc_src d else desc_dst d) = sd_addr sd))"
proof -
  let ?eng = "k_eng s e"
  note sel = transfer_init_sel [OF ring req]
  have x: "x = new_xfer ?eng req" by (simp add: x_def s'_def sel)
  have n: "n = unat (ring_take ?eng req)" by (simp add: n_def x new_xfer_def Let_def)
  have num: "t_desc_num x = ring_take ?eng req" by (simp add: x new_xfer_def Let_def)
  have pos: "0 < n" using ring_take_pos [OF ring req more] by (simp add: n)
  have d: "k_desc s' (desc_at (t_desc_virt x) i) = new_desc ?eng req i (k_desc s (desc_at (t_desc_virt x) i))" if "i < n" for i
    using transfer_init_entry [OF ring req] that by (simp add: s'_def x n)
  have "desc_chained (k_desc s') (t_desc_virt x) (t_desc_bus x) n"
    unfolding desc_chained_def
  proof (intro allI impI)
    fix i assume i: "i < n"
    then show "desc_next (k_desc s' (desc_at (t_desc_virt x) i)) =
        (if Suc i < n then t_desc_bus x + of_nat (sizeof_xdma_desc * Suc i) else 0)"
      using new_desc_fields(1,2) [of i ?eng req "k_desc s (desc_at (t_desc_virt x) i)"]
      unfolding d [OF i] unfolding n x by (auto intro: desc_next_split desc_next_zero)
  qed
  then have walk: "desc_walk (t_desc_virt x) (t_desc_bus x) (k_desc s') n (t_desc_bus x) = Some (map (desc_at (t_desc_virt x)) [0..<n])"
    using bus pos by (intro desc_walk_chained)
  have sd: "xfer_sds ?eng req ! i = r_sdesc req ! (unat (r_sw_desc_idx req) + i)" if "i < n" for i
    using that length_xfer_sds [OF ring req] by (simp add: xfer_sds_def n)
  show ?thesis
  proof (intro conjI allI impI)
    fix i assume i: "i < n"
    then have i': "i < unat (ring_take ?eng req)" by (simp add: n)
    show "let d = k_desc s' (desc_at (t_desc_virt x) i); sd = r_sdesc req ! (unat (r_sw_desc_idx req) + i) in
       ds_bytes d = sd_len sd \<and> desc_magic d = 0xAD4B \<and>
       desc_bits d = ctl_bits (e_eop_flush (k_eng s e)) (Suc i = n) \<and>
       desc_adj d = xdma_get_next_adj (t_desc_num x - of_nat i - 1) (ds_next_lo d) \<and>
       (\<not> e_streaming (k_eng s e) \<longrightarrow> (if e_dir (k_eng s e) = DMA_TO_DEVICE then desc_src d else desc_dst d) = sd_addr sd)"
      using new_desc_fields [OF i', of "k_desc s (desc_at (t_desc_virt x) i)"] new_desc_addresses [of ?eng req i]
      unfolding Let_def d [OF i] sd [OF i, symmetric] unfolding num n by auto
  qed (rule walk)
qed

text \<open>A concrete ring of four descriptors with two left before its end, and a request for three.\<close>

definition ring_state :: kst where
  "ring_state = kst0\<lparr>k_eng := (\<lambda>_. zero_engine\<lparr>e_desc_max := 4, e_desc_idx := 2, e_desc := 0x8000,
     e_desc_bus := 0x100000, e_dir := DMA_TO_DEVICE\<rparr>)\<rparr>"

definition req3 :: xdma_request_cb where
  "req3 = zero_request\<lparr>r_sw_desc_cnt := 3, r_ep_addr := 0x40, r_sdesc := [\<lparr>sd_addr = 0x1000, sd_len = 16\<rparr>,
     \<lparr>sd_addr = 0x2000, sd_len = 32\<rparr>, \<lparr>sd_addr = 0x3000, sd_len = 8\<rparr>]\<rparr>"

lemma ring_state_ok: "ring_ok (k_eng ring_state 1)" "req_ok req3" "r_sw_desc_idx req3 < r_sw_desc_cnt req3"
  by (simp_all add: ring_ok_def req_ok_def ring_state_def req3_def zero_request_def)

theorem transfer_init_ring_witness:
  "unat (t_desc_num (k_xfer (snd (transfer_init 1 req3 2 ring_state)) 2)) = 2 \<and>
   ring_ok (k_eng (snd (transfer_init 1 req3 2 ring_state)) 1)"
  using transfer_init_ring [OF ring_state_ok, of 2 LkRcu]
  by (simp add: ring_state_def req3_def zero_request_def)

theorem transfer_init_descriptors_witness:
  "let s' = snd (transfer_init 1 req3 2 ring_state); d = k_desc s' (desc_at (t_desc_virt (k_xfer s' 2)) 1) in
   ds_bytes d = 32 \<and> desc_src d = 0x2000 \<and> desc_bits d = 0x13"
proof -
  let ?s = "snd (transfer_init 1 req3 2 ring_state)"
  have x: "k_xfer ?s 2 = new_xfer (k_eng ring_state 1) req3"
    by (simp only: transfer_init_sel [OF ring_state_ok(1,2)] fun_upd_same)
  have n: "unat (t_desc_num (k_xfer ?s 2)) = 2"
    using ring_take_unat [OF ring_state_ok(1,2)] unfolding x
    by (simp add: new_xfer_def Let_def ring_state_def req3_def zero_request_def)
  have b: "t_desc_bus (k_xfer ?s 2) = 0x100040"
    unfolding x by (simp add: new_xfer_def Let_def ring_state_def sizeof_xdma_desc_def)
  have "bus_fits (t_desc_bus (k_xfer ?s 2)) (unat (t_desc_num (k_xfer ?s 2)))"
    unfolding n b by (simp add: bus_fits_def sizeof_xdma_desc_def)
  from transfer_init_descriptors [OF ring_state_ok this] have
    "let d = k_desc ?s (desc_at (t_desc_virt (k_xfer ?s 2)) 1); sd = r_sdesc req3 ! (unat (r_sw_desc_idx req3) + 1) in
       ds_bytes d = sd_len sd \<and> desc_bits d = ctl_bits (e_eop_flush (k_eng ring_state 1)) (Suc 1 = 2) \<and>
       (\<not> e_streaming (k_eng ring_state 1) \<longrightarrow>
         (if e_dir (k_eng ring_state 1) = DMA_TO_DEVICE then desc_src d else desc_dst d) = sd_addr sd)"
    unfolding n Let_def by (metis one_less_numeral_iff semiring_norm(76))
  moreover have "r_sdesc req3 ! (unat (r_sw_desc_idx req3) + 1) = \<lparr>sd_addr = 0x2000, sd_len = 32\<rparr>"
    "\<not> e_streaming (k_eng ring_state 1)" "e_dir (k_eng ring_state 1) = DMA_TO_DEVICE"
    "ctl_bits (e_eop_flush (k_eng ring_state 1)) (Suc 1 = 2) = 0x13"
    by (simp_all add: req3_def zero_request_def ring_state_def zero_engine_def ctl_bits_def xdma_consts)
  ultimately show ?thesis unfolding Let_def by simp
qed

end
