(* ===== verification/Xdma_Queue.thy ===== *)
theory Xdma_Queue
  imports Xdma_Service
begin

text \<open>
  The transfer queue of an engine: the invariant every operation keeps, the step relation of the
  operations that touch the queue (queueing, the interrupt bottom half, polling, aborting, and what
  other parts of the driver may do meanwhile), and the properties of the reachable states.
\<close>

subsection \<open>The invariant\<close>

text \<open>The queue holds distinct transfers, all submitted, none empty.  The flag that the engine runs
  agrees with the run bit last written to its control register.\<close>

definition queue_ok :: "ptr list \<Rightarrow> (ptr \<Rightarrow> xdma_transfer) \<Rightarrow> bool" where
  "queue_ok ts X \<longleftrightarrow> distinct ts \<and> NULL \<notin> set ts \<and>
     (\<forall>t \<in> set ts. t_state (X t) = TRANSFER_STATE_SUBMITTED \<and> t_desc_num (X t) \<noteq> 0)"

text \<open>The registers of an engine lie in the configuration BAR of its device, below the interrupt
  block; the write-back word of polled mode is ordinary memory.\<close>

definition in_bar :: "(ptr \<Rightarrow> xdma_dev) \<Rightarrow> xdma_engine \<Rightarrow> bool" where
  "in_bar D g \<longleftrightarrow>
     (let d = D (e_xdev g); b = d_bar d (d_config_bar_idx d)
      in b \<le> e_regs g \<and> e_regs g + 0x100 \<le> b + XDMA_OFS_INT_CTRL \<and>
         e_poll_mode_addr_virt g \<noteq> ereg g ''control'')"

definition qinv :: "ptr \<Rightarrow> kst \<Rightarrow> bool" where
  "qinv e s \<longleftrightarrow> e \<noteq> NULL \<and> regs_placed (k_eng s e) \<and> in_bar (k_dev s) (k_eng s e) \<and>
     run_consistent e s \<and> queue_ok (e_transfer_list (k_eng s e)) (k_xfer s)"

lemma queue_ok_Nil [simp]: "queue_ok [] X"
  by (simp add: queue_ok_def)

lemma queue_ok_tl: "queue_ok ts X \<Longrightarrow> queue_ok (tl ts) X"
  by (cases ts) (auto simp: queue_ok_def)

lemma queue_ok_drop: "queue_ok ts X \<Longrightarrow> queue_ok (drop k ts) X"
  by (auto simp: queue_ok_def dest: in_set_dropD)

lemma queue_ok_other:
  "queue_ok ts X \<Longrightarrow> (\<And>t. t \<in> set ts \<Longrightarrow> Y t = X t) \<Longrightarrow> queue_ok ts Y"
  by (auto simp: queue_ok_def)

lemma queue_ok_snoc:
  "queue_ok ts X \<Longrightarrow> t \<notin> set ts \<Longrightarrow> t \<noteq> NULL \<Longrightarrow> t_state (X t) = TRANSFER_STATE_SUBMITTED \<Longrightarrow>
   t_desc_num (X t) \<noteq> 0 \<Longrightarrow> queue_ok (ts @ [t]) X"
  by (auto simp: queue_ok_def)

text \<open>The invariant only looks at the registers' place, the queue and the run flag.\<close>

lemma run_written_update [simp]:
  "run_written (g\<lparr>e_running := b\<rparr>) = run_written g" "run_written (g\<lparr>e_status := w\<rparr>) = run_written g"
  "run_written (g\<lparr>e_transfer_list := l\<rparr>) = run_written g" "run_written (g\<lparr>e_desc_dequeued := n\<rparr>) = run_written g"
  "run_written (g\<lparr>e_shutdown := n\<rparr>) = run_written g" "run_written (g\<lparr>e_xdma_perf := q\<rparr>) = run_written g"
  by (rule run_written_cong, simp)+

lemma regs_placed_update [simp]:
  "regs_placed (g\<lparr>e_running := b\<rparr>) = regs_placed g" "regs_placed (g\<lparr>e_status := w\<rparr>) = regs_placed g"
  "regs_placed (g\<lparr>e_transfer_list := l\<rparr>) = regs_placed g" "regs_placed (g\<lparr>e_desc_dequeued := n\<rparr>) = regs_placed g"
  "regs_placed (g\<lparr>e_shutdown := n\<rparr>) = regs_placed g" "regs_placed (g\<lparr>e_xdma_perf := q\<rparr>) = regs_placed g"
  by (simp_all add: regs_placed_def)

lemma in_bar_update [simp]:
  "in_bar D (g\<lparr>e_running := b\<rparr>) = in_bar D g" "in_bar D (g\<lparr>e_status := w\<rparr>) = in_bar D g"
  "in_bar D (g\<lparr>e_transfer_list := l\<rparr>) = in_bar D g" "in_bar D (g\<lparr>e_desc_dequeued := n\<rparr>) = in_bar D g"
  "in_bar D (g\<lparr>e_shutdown := n\<rparr>) = in_bar D g" "in_bar D (g\<lparr>e_xdma_perf := q\<rparr>) = in_bar D g"
  by (simp_all add: in_bar_def)

lemma qinv_cong:
  assumes "qinv e s" and "writes (trace s') = writes (trace s)" and "e_regs (k_eng s' e) = e_regs (k_eng s e)"
    and "e_sgdma_regs (k_eng s' e) = e_sgdma_regs (k_eng s e)" and "e_running (k_eng s' e) = e_running (k_eng s e)"
    and "e_xdev (k_eng s' e) = e_xdev (k_eng s e)" and "k_dev s' = k_dev s"
    and "e_poll_mode_addr_virt (k_eng s' e) = e_poll_mode_addr_virt (k_eng s e)"
    and "queue_ok (e_transfer_list (k_eng s' e)) (k_xfer s')"
  shows "qinv e s'"
  using assms run_written_cong [of "k_eng s' e" "k_eng s e"]
  by (simp add: qinv_def run_consistent_def regs_placed_def in_bar_def ereg_def)

subsection \<open>Every operation keeps it\<close>

lemma qinv_shutdown: "qinv e s \<Longrightarrow> qinv e (snd (engine_service_shutdown ev e s))"
  by (simp add: qinv_def run_consistent_def stop_control_run)

lemma qinv_stop: "qinv e s \<Longrightarrow> qinv e (snd (xdma_engine_stop ev e s))"
  by (simp add: qinv_def run_consistent_def stop_control_run)

lemma qinv_status_read: "qinv e s \<Longrightarrow> qinv e (snd (engine_status_read ev e c False s))"
  by (simp add: qinv_def run_consistent_def Let_def)

lemma qinv_perf: "qinv e s \<Longrightarrow> qinv e (snd (engine_service_perf e n s))"
  by (simp add: qinv_def run_consistent_def engine_service_perf_def Let_def)

lemma qinv_read: "qinv e s \<Longrightarrow> qinv e (snd (read_register ev a s))"
  by (simp add: qinv_def run_consistent_def)

lemma qinv_emit: "qinv e s \<Longrightarrow> writes (x # trace s) = writes (trace s) \<Longrightarrow> qinv e (emit x s)"
  by (simp add: qinv_def run_consistent_def)

lemma qinv_write: "qinv e s \<Longrightarrow> a \<noteq> ereg (k_eng s e) ''control'' \<Longrightarrow> qinv e (write_register w a s)"
  by (simp add: qinv_def run_consistent_def)

lemma qinv_start: "qinv e s \<Longrightarrow> qinv e (snd (engine_start ev e s))"
proof (cases "e_running (k_eng s e) \<or> e_transfer_list (k_eng s e) = []")
  case True
  then show "qinv e s \<Longrightarrow> ?thesis" by (auto simp: engine_start_idle)
next
  case False
  assume inv: "qinv e s"
  from False obtain t ts where l: "e_transfer_list (k_eng s e) = t # ts" by (cases "e_transfer_list (k_eng s e)") auto
  have "e \<noteq> NULL" "\<not> e_running (k_eng s e)" "t \<noteq> NULL"
    using inv False l by (auto simp: qinv_def queue_ok_def)
  note start = engine_start_ok [OF this(1,2) l this(3), of ev]
  obtain w where "k_eng (snd (engine_start ev e s)) = (k_eng s)(e := (k_eng s e)
      \<lparr>e_shutdown := ENGINE_SHUTDOWN_NONE, e_desc_dequeued := 0, e_status := w, e_running := True\<rparr>)"
    using start(2) by blast
  then show ?thesis
    using inv start run_written_start by (simp add: qinv_def run_consistent_def)
qed

lemma list_doneD:
  assumes "list_done e dn rest s s'"
  shows "t \<notin> set dn \<Longrightarrow> k_xfer s' t = k_xfer s t"
    and "t \<in> set dn \<Longrightarrow> k_xfer s' t = (k_xfer s t)\<lparr>t_state := TRANSFER_STATE_COMPLETED\<rparr>"
    and "k_eng s' = (k_eng s)(e := (k_eng s e)\<lparr>e_transfer_list := rest,
       e_desc_dequeued := e_desc_dequeued (k_eng s e) + (\<Sum>t \<leftarrow> dn. t_desc_num (k_xfer s t))\<rparr>)"
    and "writes (trace s') = writes (trace s)" and "held l (trace s') = held l (trace s)" and "k_dev s' = k_dev s"
    and "k_desc s' = k_desc s"
    and "woken dn s s'"
  using assms unfolding list_done_def by simp_all

lemma list_done_qinv:
  assumes inv: "qinv e s" and d: "list_done e (take k ts) (drop k ts) s s'" and ts: "ts = e_transfer_list (k_eng s e)"
  shows "qinv e s'"
proof -
  have q: "queue_ok ts (k_xfer s)" using inv ts by (simp add: qinv_def)
  then have disj: "set (take k ts) \<inter> set (drop k ts) = {}"
    by (metis append_take_drop_id distinct_append queue_ok_def)
  have "k_xfer s' t = k_xfer s t" if "t \<in> set (drop k ts)" for t
    using that disj list_doneD(1) [OF d, of t] by (meson disjoint_iff)
  then have "queue_ok (drop k ts) (k_xfer s')"
    by (rule queue_ok_other [OF queue_ok_drop [OF q]])
  moreover have "e_transfer_list (k_eng s' e) = drop k ts" "e_regs (k_eng s' e) = e_regs (k_eng s e)"
    "e_sgdma_regs (k_eng s' e) = e_sgdma_regs (k_eng s e)" "e_running (k_eng s' e) = e_running (k_eng s e)"
    "writes (trace s') = writes (trace s)" "e_xdev (k_eng s' e) = e_xdev (k_eng s e)" "k_dev s' = k_dev s"
    "e_poll_mode_addr_virt (k_eng s' e) = e_poll_mode_addr_virt (k_eng s e)"
    by (simp_all add: list_doneD(3,4,6) [OF d])
  ultimately show ?thesis using qinv_cong [OF inv] by simp
qed

lemma qinv_transfer_list:
  assumes "qinv e s"
  shows "qinv e (snd (engine_service_transfer_list e (head_transfer e s) n s))"
proof (cases "head_transfer e s = NULL")
  case False
  have q: "distinct (e_transfer_list (k_eng s e))" "NULL \<notin> set (e_transfer_list (k_eng s e))" "e \<noteq> NULL"
    using assms by (simp_all add: qinv_def queue_ok_def)
  from service_list_loop_done [OF refl q, of n]
  have "qinv e (snd (service_list_loop e (head_of (e_transfer_list (k_eng s e))) n s))"
    using list_done_qinv [OF assms _ refl] by blast
  then show ?thesis
    using False q by (simp add: engine_service_transfer_list_def head_transfer_eq)
qed (use assms in \<open>auto simp: engine_service_transfer_list_def\<close>)

text \<open>While the transfer \<open>t\<close> at the head is being completed, the rest of the queue is in order.\<close>

definition qinv_head :: "ptr \<Rightarrow> ptr \<Rightarrow> kst \<Rightarrow> bool" where
  "qinv_head t e s \<longleftrightarrow> e \<noteq> NULL \<and> regs_placed (k_eng s e) \<and> in_bar (k_dev s) (k_eng s e) \<and>
     run_consistent e s \<and> queue_ok (tl (e_transfer_list (k_eng s e))) (k_xfer s) \<and> t \<notin> set (tl (e_transfer_list (k_eng s e)))"

lemma qinv_headI: "qinv e s \<Longrightarrow> t = head_transfer e s \<Longrightarrow> qinv_head t e s"
  by (cases "e_transfer_list (k_eng s e)") (auto simp: qinv_def qinv_head_def head_transfer_eq queue_ok_def)

lemma qinv_head_xfer: "qinv_head t e s \<Longrightarrow> qinv_head t e (upd_xfer t f s)"
  by (simp add: qinv_head_def run_consistent_def queue_ok_def)

lemma qinv_head_read: "qinv_head t e s \<Longrightarrow> qinv_head t e (snd (read_register ev a s))"
  by (simp add: qinv_head_def run_consistent_def)

lemma qinv_head_eop: "qinv_head t e s \<Longrightarrow> qinv_head t e (snd (eop_scan ev r i k s))"
  by (simp add: qinv_head_def run_consistent_def)

lemma qinv_head_stop: "qinv_head t e s \<Longrightarrow> qinv_head t e (snd (xdma_engine_stop ev e s))"
  by (simp add: qinv_head_def run_consistent_def stop_control_run)

lemma qinv_head_shutdown: "qinv_head t e s \<Longrightarrow> qinv_head t e (snd (engine_service_shutdown ev e s))"
  by (simp add: qinv_head_def run_consistent_def stop_control_run)

lemma qinv_head_dequeued: "qinv_head t e s \<Longrightarrow> qinv_head t e (upd_eng e (\<lambda>g. g\<lparr>e_desc_dequeued := f g\<rparr>) s)"
  by (simp add: qinv_head_def run_consistent_def)

lemma qinv_head_del: "qinv_head t e s \<Longrightarrow> qinv e (transfer_list_del e s)"
  by (simp add: qinv_head_def qinv_def run_consistent_def)

lemma qinv_completion: "qinv e s \<Longrightarrow> qinv e (snd (engine_transfer_completion e t s))"
  by (simp add: qinv_def run_consistent_def)

lemma qinv_head_err: "qinv_head t e s \<Longrightarrow> qinv_head t e (snd (engine_err_handle ev e t n s))"
  by (simp add: engine_err_handle_def Let_def qinv_head_stop qinv_head_xfer qinv_head_read)

lemmas qinv_head_intros = qinv_completion qinv_head_del qinv_head_dequeued qinv_head_shutdown
  qinv_head_eop qinv_head_xfer qinv_head_err

text \<open>The end-of-packet branch that leaves the transfer on the queue.\<close>

lemma qinv_eop_wait:
  assumes "qinv e s"
  shows "qinv e (upd_xfer t (eop_account b n) (snd (eop_scan ev r i k s)))"
  using assms by (auto simp: qinv_def run_consistent_def queue_ok_def)

lemma qinv_final:
  assumes inv: "qinv e s"
  shows "qinv e (snd (engine_service_final_transfer ev e (head_transfer e s) n s))"
proof (cases "head_transfer e s = NULL")
  case True
  then show ?thesis using inv by (auto simp: engine_service_final_transfer_def)
next
  case False
  define t where "t = head_transfer e s"
  define fin where "fin = engine_service_final_transfer ev e t n s"
  define scan where "scan = eop_scan ev (t_res_virt (k_xfer s t)) 0 (nat (sint n)) s"
  define s1 where "s1 = upd_xfer t (eop_account (fst scan) n) (snd scan)"
  have e: "e \<noteq> NULL" "t \<noteq> NULL" using inv False by (simp_all add: qinv_def t_def)
  have h: "qinv_head t e s" using inv by (simp add: qinv_headI t_def)
  then have h1: "qinv_head t e s1" by (simp add: s1_def scan_def qinv_head_eop qinv_head_xfer)
  have w: "qinv e s1" using inv by (simp add: s1_def scan_def qinv_eop_wait)
  have del: "qinv_head t e x \<Longrightarrow> qinv e (snd (engine_transfer_completion e t (transfer_list_del e x)))" for x
    by (intro qinv_completion qinv_head_del)
  consider "status_error (k_eng s e)"
    | "\<not> status_error (k_eng s e)" "n < t_desc_num (k_xfer s t)" "e_eop_flush (k_eng s e)"
    | "\<not> status_error (k_eng s e)" "n < t_desc_num (k_xfer s t)" "\<not> e_eop_flush (k_eng s e)"
    | "\<not> status_error (k_eng s e)" "\<not> n < t_desc_num (k_xfer s t)" by blast
  then have "qinv e (snd fin)"
  proof cases
    case 1
    then show ?thesis
      using e h by (simp add: fin_def engine_service_final_transfer_def Let_def del qinv_head_err)
  next
    case 2
    define s2 where "s2 = upd_eng e (\<lambda>g. g\<lparr>e_desc_dequeued := e_desc_dequeued g + t_desc_cmpl (k_xfer s1 t)\<rparr>)
          (upd_xfer t (\<lambda>x. x\<lparr>t_state := TRANSFER_STATE_COMPLETED\<rparr>) (snd (engine_service_shutdown ev e s1)))"
    have "snd fin \<in> {s1, snd (engine_transfer_completion e t (transfer_list_del e s2))}"
      using e 2 by (simp add: fin_def engine_service_final_transfer_def s2_def Let_def split_beta flip: scan_def s1_def)
    moreover have "qinv_head t e s2"
      unfolding s2_def using h1 by (intro qinv_head_dequeued qinv_head_xfer qinv_head_shutdown)
    ultimately show ?thesis using w del by auto
  next
    case 3
    then show ?thesis
      using e h by (simp add: fin_def engine_service_final_transfer_def Let_def del qinv_head_xfer qinv_head_dequeued)
  next
    case 4
    then show ?thesis
      using e h by (simp add: fin_def engine_service_final_transfer_def Let_def del qinv_head_xfer qinv_head_dequeued)
  qed
  then show ?thesis by (simp add: fin_def t_def)
qed

lemma qinv_resume: "qinv e s \<Longrightarrow> qinv e (snd (engine_service_resume ev e s))"
proof -
  assume inv: "qinv e s"
  then have e: "e \<noteq> NULL" by (simp add: qinv_def)
  have idle: "qinv e (emit (Wake w) (upd_eng e (\<lambda>g. g\<lparr>e_shutdown := f g\<rparr>) s))" for w f
    using inv by (simp add: qinv_def run_consistent_def)
  show ?thesis
    using e inv idle qinv_start [OF inv, of ev] qinv_shutdown [OF inv, of ev]
    by (simp add: engine_service_resume_def Let_def split_beta)
qed

lemma transfer_list_head:
  assumes "qinv e s"
  shows "fst (fst (engine_service_transfer_list e (head_transfer e s) n s)) =
    head_transfer e (snd (engine_service_transfer_list e (head_transfer e s) n s))"
proof (cases "head_transfer e s = NULL")
  case False
  let ?ts = "e_transfer_list (k_eng s e)"
  have q: "distinct ?ts" "NULL \<notin> set ?ts" "e \<noteq> NULL"
    using assms by (simp_all add: qinv_def queue_ok_def)
  note d = service_list_loop_done [OF refl q, of n]
  from d list_doneD(3) [OF conjunct2 [OF d]]
  have "fst (fst (service_list_loop e (head_of ?ts) n s)) =
      head_of (e_transfer_list (k_eng (snd (service_list_loop e (head_of ?ts) n s)) e))" by simp
  with False q show ?thesis by (simp add: engine_service_transfer_list_def head_transfer_eq)
qed (auto simp: engine_service_transfer_list_def)

lemma head_after_perf [simp]: "head_transfer e (snd (engine_service_perf e n s)) = head_transfer e s"
  by (simp add: engine_service_perf_def Let_def head_transfer_eq)

text \<open>The parts of the service routine, named.\<close>

definition sv_perf :: "ptr \<Rightarrow> u32 \<Rightarrow> kst \<Rightarrow> kst" where
  "sv_perf e n s = (if e_transfer_list (k_eng s e) \<noteq> [] then snd (engine_service_perf e n s) else s)"

definition sv_list :: "ptr \<Rightarrow> u32 \<Rightarrow> kst \<Rightarrow> (ptr \<times> u32) \<times> kst" where
  "sv_list e n s = engine_service_transfer_list e (head_transfer e s) (n - e_desc_dequeued (k_eng s e)) s"

definition sv_final :: "env \<Rightarrow> ptr \<Rightarrow> (ptr \<times> u32) \<times> kst \<Rightarrow> kst" where
  "sv_final ev e r = snd (engine_service_final_transfer ev e (fst (fst r)) (snd (fst r)) (snd r))"

lemma service_queue_parts:
  assumes "e \<noteq> NULL"
  shows "engine_service_queue ev e n s =
    (0, let s3 = sv_final ev e (sv_list e n (sv_perf e n s))
        in if e_eop_flush (k_eng s3 e) then s3 else snd (engine_service_resume ev e s3))"
proof -
  have rv: "fst (engine_service_perf e n s) = 0"
    using assms by (simp add: engine_service_perf_def Let_def)
  have h: "head_transfer e (sv_perf e n s) = head_transfer e s" by (simp add: sv_perf_def)
  show ?thesis
    unfolding engine_service_queue_def sv_final_def sv_list_def h Let_def split_beta
    using rv by (simp add: sv_perf_def)
qed

lemma qinv_sv_final:
  assumes "qinv e s"
  shows "qinv e (sv_final ev e (sv_list e n (sv_perf e n s)))"
proof -
  have 1: "qinv e (sv_perf e n s)" using assms qinv_perf by (simp add: sv_perf_def)
  have 2: "qinv e (snd (sv_list e n (sv_perf e n s)))"
    unfolding sv_list_def by (rule qinv_transfer_list [OF 1])
  have h: "fst (fst (sv_list e n (sv_perf e n s))) = head_transfer e (snd (sv_list e n (sv_perf e n s)))"
    unfolding sv_list_def by (rule transfer_list_head [OF 1])
  show ?thesis
    unfolding sv_final_def h by (rule qinv_final [OF 2])
qed

lemma qinv_queue_part:
  assumes "qinv e s"
  shows "qinv e (snd (engine_service_queue ev e n s))"
proof -
  have e: "e \<noteq> NULL" using assms by (simp add: qinv_def)
  show ?thesis
    using qinv_sv_final [OF assms, of ev n] qinv_resume by (simp add: service_queue_parts [OF e] Let_def)
qed

definition sv_status :: "env \<Rightarrow> ptr \<Rightarrow> u32 \<Rightarrow> kst \<Rightarrow> kst" where
  "sv_status ev e wb s =
     (if wb AND WB_COUNT_MASK = 0 \<or> wb AND WB_ERR_MASK \<noteq> 0 then snd (engine_status_read ev e True False s) else s)"

definition sv_stop :: "env \<Rightarrow> ptr \<Rightarrow> u32 \<Rightarrow> kst \<Rightarrow> kst" where
  "sv_stop ev e wb s =
     (if e_running (k_eng s e) \<and> e_status (k_eng s e) AND XDMA_STAT_BUSY = 0 \<or>
         \<not> e_eop_flush (k_eng s e) \<and> wb AND WB_COUNT_MASK \<noteq> 0
      then snd (engine_service_shutdown ev e s) else s)"

definition sv_count :: "env \<Rightarrow> ptr \<Rightarrow> u32 \<Rightarrow> kst \<Rightarrow> u32 \<times> kst" where
  "sv_count ev e wb s =
     (if wb AND WB_COUNT_MASK = 0 then read_register ev (ereg (k_eng s e) ''completed_desc_count'') s
      else (wb AND WB_COUNT_MASK, s))"

lemma service_parts:
  assumes "e \<noteq> NULL" and "e_running (k_eng s e)"
  shows "engine_service ev e wb s =
    (if wb AND WB_ERR_MASK \<noteq> 0 then - 1 else 0,
     let r = sv_count ev e wb (sv_stop ev e wb (sv_status ev e wb s))
     in if fst r = 0 then snd r else snd (engine_service_queue ev e (fst r) (snd r)))"
proof -
  have q: "fst (engine_service_queue ev e n x) = 0" for n x
    by (simp add: service_queue_parts [OF assms(1)])
  have st: "(if wb AND WB_COUNT_MASK = 0 \<or> wb AND WB_ERR_MASK \<noteq> 0 then engine_status_read ev e True False s else (0, s))
      = (0, sv_status ev e wb s)"
    using assms(1) by (auto simp: sv_status_def intro!: prod_eqI)
  have sp: "(if e_running (k_eng x e) \<and> e_status (k_eng x e) AND XDMA_STAT_BUSY = 0 \<or>
         \<not> e_eop_flush (k_eng x e) \<and> wb AND WB_COUNT_MASK \<noteq> 0
      then engine_service_shutdown ev e x else (0, x)) = (0, sv_stop ev e wb x)" for x
    using assms(1) by (auto simp: sv_stop_def intro!: prod_eqI)
  show ?thesis
    unfolding engine_service_def Let_def st sp split_conv sv_count_def
    using assms q by (simp add: split_beta)
qed

lemma service_idle:
  assumes "e \<noteq> NULL" and "\<not> e_running (k_eng s e)"
  shows "engine_service ev e wb s = (0, snd (engine_status_read ev e True False s))"
  using assms by (simp add: engine_service_def Let_def split_beta)

lemma qinv_service: 
  assumes "qinv e s"
  shows "qinv e (snd (engine_service ev e wb s))"
proof (cases "e_running (k_eng s e)")
  case True
  have e: "e \<noteq> NULL" using assms by (simp add: qinv_def)
  have "qinv e (sv_status ev e wb s)" using assms qinv_status_read by (simp add: sv_status_def)
  then have "qinv e (sv_stop ev e wb (sv_status ev e wb s))" using qinv_shutdown by (simp add: sv_stop_def)
  then have "qinv e (snd (sv_count ev e wb (sv_stop ev e wb (sv_status ev e wb s))))"
    using qinv_read by (simp add: sv_count_def)
  then show ?thesis
    using qinv_queue_part by (simp add: service_parts [OF e True] Let_def)
next
  case False
  then show ?thesis
    using assms qinv_status_read [OF assms, of ev True] service_idle [of e s] by (simp add: qinv_def)
qed

lemma qinv_xfer_other:
  assumes "qinv e s" and "t \<notin> set (e_transfer_list (k_eng s e))"
  shows "qinv e (upd_xfer t f s)"
  using assms by (auto simp: qinv_def run_consistent_def queue_ok_def)

lemma qinv_queue:
  assumes "qinv e s" and "t \<notin> set (e_transfer_list (k_eng s e))"
  shows "qinv e (snd (transfer_queue ev e t s))"
proof (cases "t = NULL \<or> t_desc_num (k_xfer s t) = 0 \<or> e_xdev (k_eng s e) = NULL")
  case True
  then show ?thesis using assms(1) by (auto simp: transfer_queue_def)
next
  case False
  define s1 where "s1 = emit (Acquire (LkEngine e)) (snd (xdma_device_flag_check (e_xdev (k_eng s e)) XDEV_FLAG_OFFLINE s))"
  define s2 where "s2 = upd_eng e (\<lambda>g. g\<lparr>e_transfer_list := e_transfer_list g @ [t]\<rparr>)
    (upd_xfer t (\<lambda>x. x\<lparr>t_state := TRANSFER_STATE_SUBMITTED\<rparr>) s1)"
  have s1: "qinv e s1" using assms(1) by (simp add: qinv_def run_consistent_def s1_def)
  have "queue_ok (e_transfer_list (k_eng s e) @ [t])
      ((k_xfer s)(t := (k_xfer s t)\<lparr>t_state := TRANSFER_STATE_SUBMITTED\<rparr>))"
    using assms False by (auto simp: qinv_def queue_ok_def)
  then have s2: "qinv e s2"
    using s1 by (simp add: qinv_def run_consistent_def s2_def s1_def)
  have "snd (transfer_queue ev e t s) \<in>
      {s, snd (xdma_device_flag_check (e_xdev (k_eng s e)) XDEV_FLAG_OFFLINE s),
       emit (Release (LkEngine e)) s1, emit (Release (LkEngine e)) s2,
       emit (Release (LkEngine e)) (snd (engine_start ev e s2))}"
    using False unfolding transfer_queue_def Let_def split_beta s2_def s1_def by simp
  moreover have "qinv e (snd (xdma_device_flag_check (e_xdev (k_eng s e)) XDEV_FLAG_OFFLINE s))"
    using assms(1) by (simp add: qinv_def run_consistent_def)
  ultimately show ?thesis
    using assms(1) s1 s2 qinv_start [OF s2, of ev] by (auto simp: qinv_emit)
qed

lemma int_enable_apart:
  assumes "in_bar D g"
  shows "ireg (D (e_xdev g)) ''channel_int_enable_w1s'' \<noteq> ereg g ''control''"
  using assms by (simp add: in_bar_def ireg_def ereg_def reg_offsets XDMA_OFS_INT_CTRL_def Let_def)

lemma qinv_work:
  assumes "qinv e s"
  shows "qinv e (engine_service_work ev e s)"
proof -
  define s1 where "s1 = snd (engine_service ev e 0 (emit (Acquire (LkEngine e)) s))"
  have s1: "qinv e s1" using assms by (simp add: s1_def qinv_service qinv_emit)
  then have a: "in_bar (k_dev s1) (k_eng s1 e)" "regs_placed (k_eng s1 e)" by (simp_all add: qinv_def)
  have "qinv e (channel_interrupts_enable (e_xdev (k_eng s1 e)) m s1)" for m
    using qinv_write [OF s1] int_enable_apart [OF a(1)] by (simp add: channel_interrupts_enable_def)
  moreover have "qinv e (write_register m (ereg (k_eng s1 e) ''interrupt_enable_mask_w1s'') s1)" for m
    using qinv_write [OF s1] regs_apart(6) [OF a(2)] by simp
  ultimately show ?thesis
    using assms s1 by (simp add: engine_service_work_def Let_def split_beta qinv_emit flip: s1_def)
qed

definition polled :: "ptr \<Rightarrow> kst \<Rightarrow> kst \<Rightarrow> bool" where
  "polled wb s s' \<longleftrightarrow> k_eng s' = k_eng s \<and> k_xfer s' = k_xfer s \<and> k_desc s' = k_desc s \<and> k_dev s' = k_dev s \<and>
     (\<forall>l. held l (trace s') = held l (trace s)) \<and> (\<exists>j. writes (trace s') = replicate j (wb, 0) @ writes (trace s))"

lemma polled_trans: "polled wb s s1 \<Longrightarrow> polled wb s1 s2 \<Longrightarrow> polled wb s s2"
  unfolding polled_def by (metis append_assoc replicate_add)

lemma polled_read: "polled wb s (snd (read_register ev wb s))"
  unfolding polled_def by (simp add: exI [of _ 0])

lemma polled_write: "polled wb s (write_register 0 wb s)"
  unfolding polled_def by (simp add: exI [of _ 1])

lemma polled_sched: "polled wb s (emit (Kernel f p r) s)"
  unfolding polled_def by (simp add: exI [of _ 0])

lemma wb_poll_polled:
  assumes "wb_poll ev wb n to l s = Some y"
  shows "polled wb s (snd y)"
proof (rule wb_poll.raw_induct [OF _ assms, where P = "\<lambda>_ wb _ _ _ s y. polled wb s (snd y)"])
  fix f ev wb n to l s y
  assume IH: "\<And>ev wb n to l s y. f ev wb n to l s = Some y \<Longrightarrow> polled wb s (snd y)"
    and body: "(let (desc_wb, s) = read_register ev wb s;
          s = if desc_wb \<noteq> 0 then write_register 0 wb s else s
      in if desc_wb AND WB_ERR_MASK \<noteq> 0 then Some (desc_wb, s)
         else if n \<le> desc_wb then Some (desc_wb, s)
         else if time_after (jiffies ev (trace s)) to
              then Some (if n < desc_wb AND WB_COUNT_MASK then n OR WB_ERR_MASK else desc_wb, s)
         else let s = if l \<noteq> 0 \<and> l mod NUM_POLLS_PER_SCHED = 0 then emit (Kernel ''schedule'' 0 0) s else s
              in f ev wb n to (l + 1) s) = Some y"
  define s1 where "s1 = (if fst (read_register ev wb s) \<noteq> 0
    then write_register 0 wb (snd (read_register ev wb s)) else snd (read_register ev wb s))"
  define s2 where "s2 = (if l \<noteq> 0 \<and> l mod NUM_POLLS_PER_SCHED = 0 then emit (Kernel ''schedule'' 0 0) s1 else s1)"
  have s1: "polled wb s s1"
    using polled_trans [OF polled_read polled_write] polled_read by (simp add: s1_def)
  have s2: "polled wb s s2" using polled_trans [OF s1 polled_sched] s1 by (simp add: s2_def)
  have "snd y = s1 \<or> f ev wb n to (l + 1) s2 = Some y"
    using body unfolding Let_def split_beta s2_def s1_def by (auto split: if_splits)
  then show "polled wb s (snd y)" using s1 polled_trans [OF s2 IH] by blast
qed

lemma qinv_polled:
  assumes "qinv e s" and "polled wb s s'" and "wb \<noteq> ereg (k_eng s e) ''control''"
  shows "qinv e s'"
proof -
  obtain j where w: "writes (trace s') = replicate j (wb, 0) @ writes (trace s)"
    using assms(2) by (auto simp: polled_def)
  have "run_written g (replicate j (wb, 0) @ ws) = run_written g ws" if "wb \<noteq> ereg g ''control''" for g ws
    using that by (induction j) simp_all
  with assms w show ?thesis by (simp add: qinv_def run_consistent_def polled_def)
qed

lemma qinv_poll:
  assumes "qinv e s" and "engine_service_poll ev e n s = Some (rv, s')"
  shows "qinv e s'"
proof (cases "e_magic (k_eng s e) = MAGIC_ENGINE \<and> n \<noteq> 0")
  case True
  have e: "e \<noteq> NULL" using assms(1) by (simp add: qinv_def)
  obtain w s1 where m: "engine_service_wb_monitor ev e n s = Some (w, s1)"
    using assms(2) True e by (auto simp: engine_service_poll_def split: option.splits)
  have "e_poll_mode_addr_virt (k_eng s e) \<noteq> ereg (k_eng s e) ''control''"
    using assms(1) by (simp add: qinv_def in_bar_def Let_def)
  then have "qinv e s1"
    using m wb_poll_polled qinv_polled [OF assms(1)] True e
    by (fastforce simp: engine_service_wb_monitor_def Let_def)
  then show ?thesis
    using assms(2) m True e by (auto simp: engine_service_poll_def Let_def split_beta qinv_emit qinv_service split: if_splits)
next
  case False
  then show ?thesis
    using assms by (auto simp: engine_service_poll_def engine_service_wb_monitor_def Let_def qinv_def split: if_splits)
qed

lemma qinv_abort:
  assumes "qinv e s" and "t = head_transfer e s"
  shows "qinv e (snd (transfer_abort e t s))"
proof (cases "t = NULL \<or> t_desc_num (k_xfer s t) = 0")
  case False
  then have "qinv_head t e s" using assms by (simp add: qinv_headI)
  then have d: "qinv e (transfer_list_del e s)" by (rule qinv_head_del)
  have "t \<notin> set (e_transfer_list (k_eng (transfer_list_del e s) e))"
    using assms False by (cases "e_transfer_list (k_eng s e)") (auto simp: qinv_def queue_ok_def head_transfer_eq)
  from qinv_xfer_other [OF d this] d show ?thesis
    using assms False by (auto simp: transfer_abort_def Let_def)
qed (use assms in \<open>auto simp: transfer_abort_def\<close>)

subsection \<open>The step relation\<close>

text \<open>One step of the life of engine \<open>e\<close>: a transfer that is not on the queue is queued, the bottom
  half runs, a poller returns, the transfer at the head is aborted and the engine stopped (what a
  waiter does that gives up), a transfer that is not queued is prepared or reused, or something
  happens that writes no register.\<close>

inductive engine_step :: "env \<Rightarrow> ptr \<Rightarrow> kst \<Rightarrow> kst \<Rightarrow> bool" for ev e where
  queue: "t \<notin> set (e_transfer_list (k_eng s e)) \<Longrightarrow> engine_step ev e s (snd (transfer_queue ev e t s))"
| work: "engine_step ev e s (engine_service_work ev e s)"
| poll: "engine_service_poll ev e n s = Some (rv, s') \<Longrightarrow> engine_step ev e s s'"
| abort: "t = head_transfer e s \<Longrightarrow> engine_step ev e s (snd (transfer_abort e t s))"
| stop: "engine_step ev e s (snd (xdma_engine_stop ev e s))"
| prepare: "t \<notin> set (e_transfer_list (k_eng s e)) \<Longrightarrow> engine_step ev e s (upd_xfer t f s)"
| other: "writes (x # trace s) = writes (trace s) \<Longrightarrow> engine_step ev e s (emit x s)"

inductive_cases engine_stepE: "engine_step ev e s s'"

lemma engine_step_qinv: "engine_step ev e s s' \<Longrightarrow> qinv e s \<Longrightarrow> qinv e s'"
  by (elim engine_stepE)
    (simp_all add: qinv_queue qinv_work qinv_poll qinv_abort qinv_stop qinv_xfer_other qinv_emit)

interpretation engine_sys: invariant_system "engine_step ev e" "qinv e" for ev e
  by unfold_locales (rule engine_step_qinv)

text \<open>The state \<open>engine_init\<close> leaves: nothing queued, not running, the run bit not set.\<close>

definition engine_idle :: "ptr \<Rightarrow> kst \<Rightarrow> bool" where
  "engine_idle e s \<longleftrightarrow> e \<noteq> NULL \<and> regs_placed (k_eng s e) \<and> in_bar (k_dev s) (k_eng s e) \<and>
     e_transfer_list (k_eng s e) = [] \<and> \<not> e_running (k_eng s e) \<and> \<not> run_written (k_eng s e) (writes (trace s))"

lemma engine_idle_qinv: "engine_idle e s \<Longrightarrow> qinv e s"
  by (simp add: engine_idle_def qinv_def run_consistent_def)

subsection \<open>Locks\<close>

lemma held_start [simp]: "held l (trace (snd (engine_start ev e s))) = held l (trace s)"
proof -
  have "held l (trace (snd (engine_start_mode_config ev e x))) = held l (trace x)" for x
    by (simp add: engine_start_mode_config_def Let_def split_beta)
  moreover have "held l (trace (snd (engine_status_read ev e c False x))) = held l (trace x)" for x c
    by (simp add: engine_status_read_def Let_def split_beta)
  ultimately show ?thesis
    by (simp add: engine_start_def Let_def split_beta split: list.splits)
qed

lemma held_list_loop [simp]: "held l (trace (snd (service_list_loop e t n s))) = held l (trace s)"
proof (induction e t n s rule: service_list_loop.induct)
  case (1 e t n s)
  then show ?case by (subst service_list_loop.simps) (simp add: Let_def)
qed

lemma held_stop [simp]: "held l (trace (snd (xdma_engine_stop ev e s))) = held l (trace s)"
  by (simp add: xdma_engine_stop_def Let_def)

lemma held_shutdown [simp]: "held l (trace (snd (engine_service_shutdown ev e s))) = held l (trace s)"
  by (simp add: engine_service_shutdown_def Let_def split_beta)

lemma held_final [simp]: "held l (trace (snd (engine_service_final_transfer ev e t n s))) = held l (trace s)"
  by (simp add: engine_service_final_transfer_def engine_err_handle_def Let_def split_beta)

lemma held_service [simp]:
  assumes "e \<noteq> NULL"
  shows "held l (trace (snd (engine_service ev e wb s))) = held l (trace s)"
proof -
  have list: "held l (trace (snd (sv_list e n x))) = held l (trace x)" for n x
    by (simp add: sv_list_def engine_service_transfer_list_def)
  have perf: "held l (trace (sv_perf e n x)) = held l (trace x)" for n x
    by (simp add: sv_perf_def engine_service_perf_def Let_def)
  have res: "held l (trace (snd (engine_service_resume ev e x))) = held l (trace x)" for x
    by (simp add: engine_service_resume_def Let_def split_beta)
  have q: "held l (trace (snd (engine_service_queue ev e n x))) = held l (trace x)" for n x
    using assms by (simp add: service_queue_parts Let_def sv_final_def list perf res)
  have st: "held l (trace (snd (engine_status_read ev e c False x))) = held l (trace x)" for x c
    by (simp add: engine_status_read_def Let_def split_beta)
  show ?thesis
    using assms q st by (cases "e_running (k_eng s e)")
      (simp_all add: service_parts service_idle sv_count_def sv_stop_def sv_status_def Let_def)
qed

end
