(* ===== verification/Xdma_Setup.thy ===== *)
theory Xdma_Setup
  imports Xdma_Thread Xdma_Transfer Xdma_Queue "HOL-Library.Multiset"
begin

text \<open>
  Setting up and tearing down an engine (\<^verbatim>\<open>libxdma.c\<close>): its alignment parameters, its DMA buffers,
  the registers written once, and stopping a cyclic transfer.

  An allocation of DMA memory is a kernel service on the size that returns the virtual address, 0 for
  failure; its bus address is the service \<open>dma_handle\<close> on the virtual address.
\<close>

subsection \<open>Operations\<close>

definition engine_alignments :: "env \<Rightarrow> ptr \<Rightarrow> kst \<Rightarrow> kst" where
  "engine_alignments ev e s =
     (let (w, s) = read_register ev (ereg (k_eng s e) ''alignments'') s;
          align_bytes = drop_bit 16 (w AND 0x00ff0000);
          granularity_bytes = drop_bit 8 (w AND 0x0000ff00);
          address_bits = w AND 0x000000ff
      in if w \<noteq> 0
         then upd_eng e (\<lambda>g. g\<lparr>e_addr_align := ucast align_bytes, e_len_granularity := ucast granularity_bytes,
                e_addr_bits := ucast address_bits\<rparr>) s
         else upd_eng e (\<lambda>g. g\<lparr>e_addr_align := 1, e_len_granularity := 1, e_addr_bits := 64\<rparr>) s)"

definition sizeof_xdma_poll_wb :: nat where "sizeof_xdma_poll_wb = 32"

definition dma_free :: "ptr \<Rightarrow> nat \<Rightarrow> kst \<Rightarrow> kst" where
  "dma_free p n = emit (Kernel ''dma_free_coherent'' p (int n))"

definition engine_free_resource :: "ptr \<Rightarrow> kst \<Rightarrow> kst" where
  "engine_free_resource e s =
     (let eng = k_eng s e;
          s = (if e_poll_mode_addr_virt eng \<noteq> NULL
               then upd_eng e (\<lambda>g. g\<lparr>e_poll_mode_addr_virt := NULL\<rparr>)
                      (dma_free (e_poll_mode_addr_virt eng) sizeof_xdma_poll_wb s) else s);
          s = (if e_desc eng \<noteq> NULL
               then upd_eng e (\<lambda>g. g\<lparr>e_desc := NULL\<rparr>)
                      (dma_free (e_desc eng) (unat (e_desc_max eng) * sizeof_xdma_desc) s) else s)
      in if e_cyclic_result eng \<noteq> NULL
         then upd_eng e (\<lambda>g. g\<lparr>e_cyclic_result := NULL\<rparr>)
                (dma_free (e_cyclic_result eng) (unat (e_desc_max eng) * sizeof_xdma_result) s)
         else s)"

text \<open>The address of a register of the block shared by the SG DMA engines.\<close>

definition sgdma_common :: "xdma_dev \<Rightarrow> string \<Rightarrow> ptr" where
  "sgdma_common d r = d_bar d (d_config_bar_idx d) + 0x6 * TARGET_SPACING + field_ofs sgdma_common_regs r"

definition engine_destroy :: "env \<Rightarrow> ptr \<Rightarrow> ptr \<Rightarrow> kst \<Rightarrow> int \<times> kst" where
  "engine_destroy ev xdev e s =
     (if xdev = NULL then (- EINVAL, s)
      else if e = NULL then (- EINVAL, s)
      else
        let s = write_register 0 (ereg (k_eng s e) ''interrupt_enable_mask'') s;
            s = (if credit_mode ev (k_eng s e)
                 then write_register (push_bit 16 (push_bit (unat (e_channel (k_eng s e))) 1))
                        (sgdma_common (k_dev s xdev) ''credit_mode_enable_w1c'') s
                 else s);
            s = (if poll_mode ev \<noteq> 0 then xdma_thread_remove_work e s else s);
            s = engine_free_resource e s;
            s = upd_eng e (\<lambda>_. zero_engine) s
        in (0, upd_dev xdev (\<lambda>d. d\<lparr>d_engines_num := d_engines_num d - 1\<rparr>) s))"

text \<open>The size is read from the performance block before anything else, so without one the routine
  faults (\<open>None\<close>).\<close>

definition engine_cyclic_stop :: "env \<Rightarrow> ptr \<Rightarrow> kst \<Rightarrow> (ptr \<times> kst) option" where
  "engine_cyclic_stop ev e s =
     (case e_xdma_perf (k_eng s e) of
        None \<Rightarrow> None
      | Some perf \<Rightarrow>
          (case e_transfer_list (k_eng s e) of
             [] \<Rightarrow> Some (NULL, s)
           | transfer # _ \<Rightarrow>
               if transfer = NULL then Some (NULL, s)
               else
                 let (rv, s) = xdma_engine_stop ev e s
                 in if rv < 0 then Some (NULL, s)
                    else if t_cyclic (k_xfer s transfer) then
                      let s = (if e_perf_buf_virt (k_eng s e) \<noteq> NULL
                               then dma_free (e_perf_buf_virt (k_eng s e)) (unat (pf_transfer_size perf)) s else s);
                          s = upd_eng e (\<lambda>g. g\<lparr>e_perf_buf_virt := NULL\<rparr>) s
                      in Some (transfer, transfer_list_del e s)
                    else Some (transfer, s)))"

definition engine_writeback_setup :: "ptr \<Rightarrow> kst \<Rightarrow> int \<times> kst" where
  "engine_writeback_setup e s =
     (if e = NULL then (- EINVAL, s)
      else if e_xdev (k_eng s e) = NULL then (- EINVAL, s)
      else
        let eng = k_eng s e;
            s = write_register 0 (e_poll_mode_addr_virt eng) s;
            s = write_register (PCI_DMA_L (e_poll_mode_bus eng)) (ereg eng ''poll_mode_wb_lo'') s;
            s = write_register (PCI_DMA_H (e_poll_mode_bus eng)) (ereg eng ''poll_mode_wb_hi'') s
        in (0, s))"

definition engine_init_regs :: "env \<Rightarrow> ptr \<Rightarrow> kst \<Rightarrow> int \<times> kst" where
  "engine_init_regs ev e s =
     (let s = write_register XDMA_CTRL_NON_INCR_ADDR (ereg (k_eng s e) ''control_w1c'') s;
          s = engine_alignments ev e s;
          reg_value = XDMA_CTRL_IE_DESC_ALIGN_MISMATCH OR XDMA_CTRL_IE_MAGIC_STOPPED OR XDMA_CTRL_IE_READ_ERROR
            OR XDMA_CTRL_IE_DESC_ERROR;
          (rv, s) = (if poll_mode ev \<noteq> 0 then engine_writeback_setup e s else (0, s));
          reg_value = (if poll_mode ev \<noteq> 0 then reg_value
                       else reg_value OR XDMA_CTRL_IE_DESC_STOPPED OR XDMA_CTRL_IE_DESC_COMPLETED)
      in if rv \<noteq> 0 then (rv, s)
         else
           let s = write_register reg_value (ereg (k_eng s e) ''interrupt_enable_mask'') s;
               s = upd_eng e (\<lambda>g. g\<lparr>e_interrupt_enable_mask_value := reg_value\<rparr>) s;
               s = (if credit_mode ev (k_eng s e)
                    then write_register (push_bit 16 (push_bit (unat (e_channel (k_eng s e))) 1))
                           (sgdma_common (k_dev s (e_xdev (k_eng s e))) ''credit_mode_enable_w1s'') s
                    else s)
           in (0, s))"

definition dma_alloc :: "env \<Rightarrow> nat \<Rightarrow> kst \<Rightarrow> (ptr \<times> u64) \<times> kst" where
  "dma_alloc ev n s =
     (let (p, s) = kcall ev ''dma_alloc_coherent'' n s
      in ((nat p, of_int (ksvc ev (trace s) ''dma_handle'' (nat p))), s))"

definition engine_alloc_resource :: "env \<Rightarrow> ptr \<Rightarrow> kst \<Rightarrow> int \<times> kst" where
  "engine_alloc_resource ev e s =
     (let ((p, bus), s) = dma_alloc ev (unat (e_desc_max (k_eng s e)) * sizeof_xdma_desc) s;
          s = upd_eng e (\<lambda>g. g\<lparr>e_desc := p, e_desc_bus := bus\<rparr>) s
      in if p = NULL then (- ENOMEM, engine_free_resource e s)
         else
           let ((p, bus), s) = (if poll_mode ev \<noteq> 0 then dma_alloc ev sizeof_xdma_poll_wb s
                                else ((e_poll_mode_addr_virt (k_eng s e), e_poll_mode_bus (k_eng s e)), s));
               s = upd_eng e (\<lambda>g. g\<lparr>e_poll_mode_addr_virt := p, e_poll_mode_bus := bus\<rparr>) s
           in if poll_mode ev \<noteq> 0 \<and> p = NULL then (- ENOMEM, engine_free_resource e s)
              else if e_streaming (k_eng s e) \<and> e_dir (k_eng s e) = DMA_FROM_DEVICE then
                let ((p, bus), s) = dma_alloc ev (unat (e_desc_max (k_eng s e)) * sizeof_xdma_result) s;
                    s = upd_eng e (\<lambda>g. g\<lparr>e_cyclic_result := p, e_cyclic_result_bus := bus\<rparr>) s
                in if p = NULL then (- ENOMEM, engine_free_resource e s) else (0, s)
              else (0, s))"

text \<open>The part of \<open>engine_init\<close> that fills in the engine, and \<open>engine_init\<close>.\<close>

definition engine_fill :: "env \<Rightarrow> ptr \<Rightarrow> ptr \<Rightarrow> nat \<Rightarrow> dma_data_direction \<Rightarrow> nat \<Rightarrow> kst \<Rightarrow> kst" where
  "engine_fill ev e xdev offset dir channel s =
     (let d = k_dev s xdev; base = d_bar d (d_config_bar_idx d);
          s = upd_eng e (\<lambda>g. g\<lparr>e_magic := MAGIC_ENGINE, e_channel := of_nat channel,
                e_irq_bitmask := push_bit (nat (d_engines_num d) * XDMA_ENG_IRQ_NUM) (push_bit XDMA_ENG_IRQ_NUM 1 - 1),
                e_bypass_offset := of_int (d_engines_num d) * BYPASS_MODE_SPACING,
                e_xdev := xdev, e_regs := base + offset,
                e_sgdma_regs := base + offset + SGDMA_OFFSET_FROM_CHANNEL\<rparr>) s;
          (val, s) = read_register ev (ereg (k_eng s e) ''identifier'') s;
          s = (if val AND 0x8000 \<noteq> 0 then upd_eng e (\<lambda>g. g\<lparr>e_streaming := True\<rparr>) s else s);
          s = upd_eng e (\<lambda>g. g\<lparr>e_dir := dir\<rparr>) s;
          s = upd_eng e (\<lambda>g. g\<lparr>e_name := take 15 (dec (nat (d_idx d)) @ ''-'' @
                  (if dir = DMA_TO_DEVICE then ''H2C'' else ''C2H'') @ dec channel @ ''-'' @
                  (if e_streaming g then ''ST'' else ''MM'')),
                e_desc_max := (if credit_mode ev g then XDMA_ENGINE_CREDIT_XFER_MAX_DESC
                               else XDMA_ENGINE_XFER_MAX_DESC)\<rparr>) s
      in upd_dev xdev (\<lambda>d. if dir = DMA_TO_DEVICE
              then d\<lparr>d_mask_irq_h2c := d_mask_irq_h2c d OR e_irq_bitmask (k_eng s e), d_engines_num := d_engines_num d + 1\<rparr>
              else d\<lparr>d_mask_irq_c2h := d_mask_irq_c2h d OR e_irq_bitmask (k_eng s e), d_engines_num := d_engines_num d + 1\<rparr>) s)"

definition engine_init ::
    "env \<Rightarrow> ptr \<Rightarrow> ptr \<Rightarrow> nat \<Rightarrow> dma_data_direction \<Rightarrow> nat \<Rightarrow> kst \<Rightarrow> int \<times> kst" where
  "engine_init ev e xdev offset dir channel s =
     (let s = engine_fill ev e xdev offset dir channel s;
          (rv, s) = engine_alloc_resource ev e s
      in if rv \<noteq> 0 then (rv, s)
         else
           let (rv, s) = engine_init_regs ev e s
           in if rv \<noteq> 0 then (rv, s)
              else (0, if poll_mode ev \<noteq> 0 then xdma_thread_add_work ev e s else s))"

subsection \<open>DMA memory in use\<close>

text \<open>The blocks of DMA memory allocated and not yet freed after a trace.\<close>

fun live :: "event list \<Rightarrow> ptr multiset" where
  "live [] = {#}"
| "live (Kernel f x r # es) =
     (if f = ''dma_alloc_coherent'' \<and> 0 < r then add_mset (nat r) (live es)
      else if f = ''dma_free_coherent'' then live es - {#x#} else live es)"
| "live (_ # es) = live es"

text \<open>The DMA blocks an engine holds.\<close>

definition blocks :: "xdma_engine \<Rightarrow> ptr multiset" where
  "blocks g = filter_mset (\<lambda>p. p \<noteq> NULL) {#e_poll_mode_addr_virt g, e_desc g, e_cyclic_result g#}"

lemma dma_free_sel [simp]:
  "live (trace (dma_free p n s)) = live (trace s) - {#p#}" "k_eng (dma_free p n s) = k_eng s"
  "k_xfer (dma_free p n s) = k_xfer s" "k_desc (dma_free p n s) = k_desc s" "k_dev (dma_free p n s) = k_dev s"
  "writes (trace (dma_free p n s)) = writes (trace s)" "held l (trace (dma_free p n s)) = held l (trace s)"
  by (simp_all add: dma_free_def)

lemma dma_alloc_sel [simp]:
  "live (trace (snd (dma_alloc ev n s))) =
     (if fst (fst (dma_alloc ev n s)) = NULL then live (trace s) else add_mset (fst (fst (dma_alloc ev n s))) (live (trace s)))"
  "k_eng (snd (dma_alloc ev n s)) = k_eng s" "k_dev (snd (dma_alloc ev n s)) = k_dev s"
  "writes (trace (snd (dma_alloc ev n s))) = writes (trace s)"
  "held l (trace (snd (dma_alloc ev n s))) = held l (trace s)"
  by (auto simp: dma_alloc_def kcall_def Let_def)

lemma live_pick [simp]: "live (trace (snd (pick_thread ev c i k x v s))) = live (trace s)"
  by (induction ev c i k x v s rule: pick_thread.induct) (simp_all add: Let_def)

lemma live_work [simp]:
  "live (trace (xdma_thread_add_work ev e s)) = live (trace s)"
  "live (trace (xdma_thread_remove_work e s)) = live (trace s)"
  by (simp_all add: xdma_thread_add_work_def xdma_thread_remove_work_def Let_def split_beta)

lemma free_resource_sel [simp]:
  "live (trace (engine_free_resource e s)) = live (trace s) - blocks (k_eng s e)"
  "k_eng (engine_free_resource e s) = (k_eng s)(e := (k_eng s e)\<lparr>e_poll_mode_addr_virt := NULL, e_desc := NULL, e_cyclic_result := NULL\<rparr>)"
  "k_dev (engine_free_resource e s) = k_dev s" "writes (trace (engine_free_resource e s)) = writes (trace s)"
  "held l (trace (engine_free_resource e s)) = held l (trace s)"
  by (auto simp: engine_free_resource_def Let_def blocks_def fun_eq_iff add_mset_commute)

text \<open>An engine without what allocation, register setup and attachment to a thread change in it.\<close>

definition strip :: "xdma_engine \<Rightarrow> xdma_engine" where
  "strip g = g\<lparr>e_poll_mode_addr_virt := NULL, e_poll_mode_bus := 0, e_desc := NULL,
     e_desc_bus := 0, e_cyclic_result := NULL, e_cyclic_result_bus := 0, e_addr_align := 0, e_len_granularity := 0,
     e_addr_bits := 0, e_interrupt_enable_mask_value := 0, e_cmplthp := NULL, e_intr_work_cpu := 0\<rparr>"

lemma strip_sel:
  "e_regs (strip g) = e_regs g" "e_sgdma_regs (strip g) = e_sgdma_regs g" "e_xdev (strip g) = e_xdev g"
  "e_dir (strip g) = e_dir g" "e_streaming (strip g) = e_streaming g" "e_desc_max (strip g) = e_desc_max g"
  "e_desc_idx (strip g) = e_desc_idx g" "e_desc_used (strip g) = e_desc_used g"
  "e_transfer_list (strip g) = e_transfer_list g" "e_running (strip g) = e_running g" "e_magic (strip g) = e_magic g"
  "e_channel (strip g) = e_channel g" "e_shutdown (strip g) = e_shutdown g" "e_irq_bitmask (strip g) = e_irq_bitmask g"
  by (simp_all add: strip_def)

lemma strip_eqD:
  assumes "strip g' = strip g"
  shows "e_regs g' = e_regs g" "e_sgdma_regs g' = e_sgdma_regs g" "e_xdev g' = e_xdev g" "e_dir g' = e_dir g"
    "e_streaming g' = e_streaming g" "e_desc_max g' = e_desc_max g" "e_desc_idx g' = e_desc_idx g"
    "e_desc_used g' = e_desc_used g" "e_transfer_list g' = e_transfer_list g" "e_running g' = e_running g"
    "e_magic g' = e_magic g" "e_channel g' = e_channel g" "e_shutdown g' = e_shutdown g"
    "e_irq_bitmask g' = e_irq_bitmask g"
  by (metis assms strip_sel)+

lemma blocks_upd:
  "blocks (g\<lparr>e_desc := p, e_desc_bus := b\<rparr>) = filter_mset (\<lambda>p. p \<noteq> NULL) {#e_poll_mode_addr_virt g, p, e_cyclic_result g#}"
  "blocks (g\<lparr>e_poll_mode_addr_virt := p, e_poll_mode_bus := b\<rparr>) = filter_mset (\<lambda>p. p \<noteq> NULL) {#p, e_desc g, e_cyclic_result g#}"
  "blocks (g\<lparr>e_cyclic_result := p, e_cyclic_result_bus := b\<rparr>) = filter_mset (\<lambda>p. p \<noteq> NULL) {#e_poll_mode_addr_virt g, e_desc g, p#}"
  by (simp_all add: blocks_def)

lemma alloc_resource:
  fixes ev e s
  defines "r \<equiv> engine_alloc_resource ev e s"
  assumes b: "blocks (k_eng s e) = {#}"
  shows "fst r = 0 \<or> fst r = - ENOMEM"
    and "fst r = 0 \<longrightarrow> live (trace (snd r)) = live (trace s) + blocks (k_eng (snd r) e) \<and> e_desc (k_eng (snd r) e) \<noteq> NULL
      \<and> (poll_mode ev \<noteq> 0 \<longrightarrow> e_poll_mode_addr_virt (k_eng (snd r) e) \<noteq> NULL)
      \<and> (e_streaming (k_eng s e) \<and> e_dir (k_eng s e) = DMA_FROM_DEVICE \<longrightarrow> e_cyclic_result (k_eng (snd r) e) \<noteq> NULL)"
    and "fst r \<noteq> 0 \<longrightarrow> live (trace (snd r)) = live (trace s) \<and> blocks (k_eng (snd r) e) = {#}"
    and "k_dev (snd r) = k_dev s" and "writes (trace (snd r)) = writes (trace s)"
    and "held l (trace (snd r)) = held l (trace s)"
    and "strip (k_eng (snd r) e) = strip (k_eng s e)" and "e' \<noteq> e \<longrightarrow> k_eng (snd r) e' = k_eng s e'"
    and "e_poll_mode_addr_virt (k_eng (snd r) e) = NULL \<or> (\<exists>tr n. e_poll_mode_addr_virt (k_eng (snd r) e) = nat (ksvc ev tr ''dma_alloc_coherent'' n))"
proof -
  have z: "e_poll_mode_addr_virt (k_eng s e) = NULL" "e_desc (k_eng s e) = NULL" "e_cyclic_result (k_eng s e) = NULL"
    using b by (auto simp: blocks_def split: if_splits)
  have nz: "ENOMEM \<noteq> 0" by (simp add: ENOMEM_def)
  have al: "live (trace s') = (if p = NULL then live (trace x) else add_mset p (live (trace x))) \<and> k_eng s' = k_eng x \<and> k_dev s' = k_dev x
      \<and> writes (trace s') = writes (trace x) \<and> held l (trace s') = held l (trace x)
      \<and> (\<exists>tr n. p = nat (ksvc ev tr ''dma_alloc_coherent'' n))" if "dma_alloc ev m x = ((p, b), s')" for m x p b s'
    using that dma_alloc_sel [where ev = ev and n = m and s = x] by (auto simp: dma_alloc_def kcall_def Let_def split_beta) blast
  let ?g = "k_eng s e"
  obtain p1 b1 s1 where a1: "dma_alloc ev (unat (e_desc_max ?g) * sizeof_xdma_desc) s = ((p1, b1), s1)"
    by (metis surj_pair)
  define t1 where "t1 = upd_eng e (\<lambda>g. g\<lparr>e_desc := p1, e_desc_bus := b1\<rparr>) s1"
  have t1: "k_eng t1 = (k_eng s)(e := ?g\<lparr>e_desc := p1, e_desc_bus := b1\<rparr>)" "k_dev t1 = k_dev s" "writes (trace t1) = writes (trace s)"
    "live (trace t1) = (if p1 = NULL then live (trace s) else add_mset p1 (live (trace s)))" "held l (trace t1) = held l (trace s)"
    using al [OF a1] by (simp_all add: t1_def)
  obtain p2 b2 s2 where a2: "(if poll_mode ev \<noteq> 0 then dma_alloc ev sizeof_xdma_poll_wb t1
      else ((e_poll_mode_addr_virt (k_eng t1 e), e_poll_mode_bus (k_eng t1 e)), t1)) = ((p2, b2), s2)"
    by (metis surj_pair)
  define t2 where "t2 = upd_eng e (\<lambda>g. g\<lparr>e_poll_mode_addr_virt := p2, e_poll_mode_bus := b2\<rparr>) s2"
  have t2: "k_eng t2 = (k_eng t1)(e := (k_eng t1 e)\<lparr>e_poll_mode_addr_virt := p2, e_poll_mode_bus := b2\<rparr>)" "k_dev t2 = k_dev s"
    "writes (trace t2) = writes (trace s)" "held l (trace t2) = held l (trace s)"
    "live (trace t2) = (if p2 = NULL then live (trace t1) else add_mset p2 (live (trace t1)))"
    "p2 = NULL \<or> (\<exists>tr n. p2 = nat (ksvc ev tr ''dma_alloc_coherent'' n))"
    using al [of sizeof_xdma_poll_wb t1 p2 b2 s2] a2 t1 z by (auto simp: t2_def split: if_splits)
  obtain p3 b3 s3 where a3: "dma_alloc ev (unat (e_desc_max (k_eng t2 e)) * sizeof_xdma_result) t2 = ((p3, b3), s3)"
    by (metis surj_pair)
  define t3 where "t3 = upd_eng e (\<lambda>g. g\<lparr>e_cyclic_result := p3, e_cyclic_result_bus := b3\<rparr>) s3"
  have t3: "k_eng t3 = (k_eng t2)(e := (k_eng t2 e)\<lparr>e_cyclic_result := p3, e_cyclic_result_bus := b3\<rparr>)" "k_dev t3 = k_dev s"
    "writes (trace t3) = writes (trace s)" "held l (trace t3) = held l (trace s)"
    "live (trace t3) = (if p3 = NULL then live (trace t2) else add_mset p3 (live (trace t2)))"
    using al [OF a3] t2 by (simp_all add: t3_def)
  define st where "st \<longleftrightarrow> e_streaming ?g \<and> e_dir ?g = DMA_FROM_DEVICE"
  have "st \<longleftrightarrow> e_streaming (k_eng t2 e) \<and> e_dir (k_eng t2 e) = DMA_FROM_DEVICE" by (simp add: st_def t1 t2)
  then have r: "r = (if p1 = NULL then (- ENOMEM, engine_free_resource e t1)
      else if poll_mode ev \<noteq> 0 \<and> p2 = NULL then (- ENOMEM, engine_free_resource e t2)
      else if st then if p3 = NULL then (- ENOMEM, engine_free_resource e t3) else (0, t3) else (0, t2))"
    unfolding r_def engine_alloc_resource_def Let_def a1 prod.case t1_def [symmetric] a2 t2_def [symmetric] a3 t3_def [symmetric]
    by simp
  have bl: "blocks (k_eng t1 e) = (if p1 = NULL then {#} else {#p1#})" "blocks (k_eng t2 e) = (if p2 = NULL then {#} else {#p2#}) + blocks (k_eng t1 e)"
    "blocks (k_eng t3 e) = blocks (k_eng t2 e) + (if p3 = NULL then {#} else {#p3#})"
    by (simp_all add: blocks_def z t1(1) t2(1) t3(1))
  have lv: "live (trace t1) = live (trace s) + blocks (k_eng t1 e)" "live (trace t2) = live (trace s) + blocks (k_eng t2 e)"
    "live (trace t3) = live (trace s) + blocks (k_eng t3 e)"
    by (simp_all add: bl t1(4) t2(5) t3(5))
  show "fst r = 0 \<or> fst r = - ENOMEM" by (simp add: r)
  show "fst r = 0 \<longrightarrow> live (trace (snd r)) = live (trace s) + blocks (k_eng (snd r) e) \<and> e_desc (k_eng (snd r) e) \<noteq> NULL
      \<and> (poll_mode ev \<noteq> 0 \<longrightarrow> e_poll_mode_addr_virt (k_eng (snd r) e) \<noteq> NULL)
      \<and> (e_streaming (k_eng s e) \<and> e_dir (k_eng s e) = DMA_FROM_DEVICE \<longrightarrow> e_cyclic_result (k_eng (snd r) e) \<noteq> NULL)"
    using nz lv unfolding st_def [symmetric] by (simp add: r t1(1) t2(1) t3(1))
  have fr: "live (trace (engine_free_resource e t)) = live (trace s) \<and> blocks (k_eng (engine_free_resource e t) e) = {#}"
    if "live (trace t) = live (trace s) + blocks (k_eng t e)" for t
    using that by (simp add: blocks_def)
  show "fst r \<noteq> 0 \<longrightarrow> live (trace (snd r)) = live (trace s) \<and> blocks (k_eng (snd r) e) = {#}"
    using nz fr [OF lv(1)] fr [OF lv(2)] fr [OF lv(3)] by (simp add: r)
  show "k_dev (snd r) = k_dev s" "writes (trace (snd r)) = writes (trace s)"
    "held l (trace (snd r)) = held l (trace s)" by (simp_all add: r t1 t2 t3)
  show "e' \<noteq> e \<longrightarrow> k_eng (snd r) e' = k_eng s e'" by (simp add: r t1 t2 t3)
  show "strip (k_eng (snd r) e) = strip (k_eng s e)" by (simp add: r t1(1) t2(1) t3(1) strip_def)
  show "e_poll_mode_addr_virt (k_eng (snd r) e) = NULL \<or> (\<exists>tr n. e_poll_mode_addr_virt (k_eng (snd r) e) = nat (ksvc ev tr ''dma_alloc_coherent'' n))"
    using t2(6) by (simp add: r t1(1) t2(1) t3(1)) blast
qed

lemma alignments_sel [simp]:
  "trace (engine_alignments ev e s) =
     Rd (ereg (k_eng s e) ''alignments'') (hw ev (trace s) (ereg (k_eng s e) ''alignments'')) # trace s"
  "k_dev (engine_alignments ev e s) = k_dev s"
  "e' \<noteq> e \<Longrightarrow> k_eng (engine_alignments ev e s) e' = k_eng s e'"
  by (simp_all add: engine_alignments_def Let_def split_beta)

lemma strip_alignments [simp]: "strip (k_eng (engine_alignments ev e s) e) = strip (k_eng s e)"
  by (simp add: engine_alignments_def Let_def split_beta strip_def)

lemma blocks_alignments [simp]:
  "blocks (k_eng (engine_alignments ev e s) e) = blocks (k_eng s e)"
  "e_poll_mode_addr_virt (k_eng (engine_alignments ev e s) e) = e_poll_mode_addr_virt (k_eng s e)"
  "e_poll_mode_bus (k_eng (engine_alignments ev e s) e) = e_poll_mode_bus (k_eng s e)"
  "e_desc (k_eng (engine_alignments ev e s) e) = e_desc (k_eng s e)"
  by (simp_all add: engine_alignments_def Let_def split_beta blocks_def)

text \<open>The interrupts an engine enables.\<close>

definition engine_irqs :: "env \<Rightarrow> u32" where
  "engine_irqs ev = (let w = XDMA_CTRL_IE_DESC_ALIGN_MISMATCH OR XDMA_CTRL_IE_MAGIC_STOPPED OR XDMA_CTRL_IE_READ_ERROR
     OR XDMA_CTRL_IE_DESC_ERROR
     in if poll_mode ev \<noteq> 0 then w else w OR XDMA_CTRL_IE_DESC_STOPPED OR XDMA_CTRL_IE_DESC_COMPLETED)"

lemma blocks_mask: "blocks (g\<lparr>e_interrupt_enable_mask_value := v\<rparr>) = blocks g"
  by (simp add: blocks_def)

lemma init_regs:
  fixes ev e s
  defines "r \<equiv> engine_init_regs ev e s" and "g \<equiv> k_eng s e"
  assumes "e \<noteq> NULL" and "e_xdev g \<noteq> NULL"
  shows "fst r = 0" and "k_dev (snd r) = k_dev s" and "strip (k_eng (snd r) e) = strip g"
    and "blocks (k_eng (snd r) e) = blocks g" and "e' \<noteq> e \<longrightarrow> k_eng (snd r) e' = k_eng s e'"
    and "live (trace (snd r)) = live (trace s)" and "held l (trace (snd r)) = held l (trace s)"
    and "e_interrupt_enable_mask_value (k_eng (snd r) e) = engine_irqs ev"
    and "e_desc (k_eng (snd r) e) = e_desc g" and "e_poll_mode_addr_virt (k_eng (snd r) e) = e_poll_mode_addr_virt g"
    and "writes (trace (snd r)) =
      (if credit_mode ev g then [(sgdma_common (k_dev s (e_xdev g)) ''credit_mode_enable_w1s'', push_bit 16 (push_bit (unat (e_channel g)) 1))] else [])
      @ [(ereg g ''interrupt_enable_mask'', engine_irqs ev)]
      @ (if poll_mode ev \<noteq> 0 then [(ereg g ''poll_mode_wb_hi'', PCI_DMA_H (e_poll_mode_bus g)),
           (ereg g ''poll_mode_wb_lo'', PCI_DMA_L (e_poll_mode_bus g)), (e_poll_mode_addr_virt g, 0)] else [])
      @ (ereg g ''control_w1c'', XDMA_CTRL_NON_INCR_ADDR) # writes (trace s)"
proof -
  define s1 where "s1 = engine_alignments ev e (write_register XDMA_CTRL_NON_INCR_ADDR (ereg (k_eng s e) ''control_w1c'') s)"
  have st: "strip (k_eng s1 e) = strip g" by (simp add: s1_def g_def)
  note f = strip_eqD [OF st]
  have cr: "credit_mode ev (k_eng s1 e) = credit_mode ev g" "ereg (k_eng s1 e) x = ereg g x" for x
    using f by (simp_all add: credit_mode_def ereg_def)
  have e: "e_xdev (k_eng s1 e) \<noteq> NULL" using f assms by simp
  have k: "k_dev s1 = k_dev s" "blocks (k_eng s1 e) = blocks g"
    "e_poll_mode_addr_virt (k_eng s1 e) = e_poll_mode_addr_virt g"
    "e_poll_mode_bus (k_eng s1 e) = e_poll_mode_bus g" "e' \<noteq> e \<longrightarrow> k_eng s1 e' = k_eng s e'"
    "e_desc (k_eng s1 e) = e_desc g"
    by (simp_all add: s1_def g_def)
  have t: "trace s1 = Rd (ereg (k_eng s e) ''alignments'') (hw ev (Wr (ereg g ''control_w1c'') XDMA_CTRL_NON_INCR_ADDR # trace s) (ereg (k_eng s e) ''alignments''))
      # Wr (ereg g ''control_w1c'') XDMA_CTRL_NON_INCR_ADDR # trace s"
    by (simp add: s1_def g_def)
  have cm: "credit_mode ev (x\<lparr>e_interrupt_enable_mask_value := v\<rparr>) = credit_mode ev x" for x v
    by (simp add: credit_mode_def)
  note d = r_def engine_init_regs_def s1_def [symmetric] Let_def split_beta engine_writeback_setup_def e assms(3) cm cr
  show "fst r = 0" "k_dev (snd r) = k_dev s" "held l (trace (snd r)) = held l (trace s)" "live (trace (snd r)) = live (trace s)"
    "e_interrupt_enable_mask_value (k_eng (snd r) e) = engine_irqs ev"
    by (simp_all add: d t k engine_irqs_def)
  show "strip (k_eng (snd r) e) = strip g"
    using st by (simp add: d t k strip_def)
  show "blocks (k_eng (snd r) e) = blocks g"
    using k(2) by (simp add: d blocks_mask)
  show "e_desc (k_eng (snd r) e) = e_desc g" "e_poll_mode_addr_virt (k_eng (snd r) e) = e_poll_mode_addr_virt g"
    using k(3) by (simp_all add: d k(6))
  show "e' \<noteq> e \<longrightarrow> k_eng (snd r) e' = k_eng s e'"
    using k(5) by (simp add: d)
  show "writes (trace (snd r)) =
      (if credit_mode ev g then [(sgdma_common (k_dev s (e_xdev g)) ''credit_mode_enable_w1s'', push_bit 16 (push_bit (unat (e_channel g)) 1))] else [])
      @ [(ereg g ''interrupt_enable_mask'', engine_irqs ev)]
      @ (if poll_mode ev \<noteq> 0 then [(ereg g ''poll_mode_wb_hi'', PCI_DMA_H (e_poll_mode_bus g)),
           (ereg g ''poll_mode_wb_lo'', PCI_DMA_L (e_poll_mode_bus g)), (e_poll_mode_addr_virt g, 0)] else [])
      @ (ereg g ''control_w1c'', XDMA_CTRL_NON_INCR_ADDR) # writes (trace s)"
    using assms(4) by (simp add: d t k engine_irqs_def f(3,12))
qed

text \<open>The engine that \<open>engine_init\<close> fills in.\<close>

lemma engine_fill_sel:
  fixes ev e xdev ofs dir ch s
  defines "s' \<equiv> engine_fill ev e xdev ofs dir ch s" and "base \<equiv> d_bar (k_dev s xdev) (d_config_bar_idx (k_dev s xdev))"
    and "g \<equiv> k_eng (engine_fill ev e xdev ofs dir ch s) e"
  shows "writes (trace s') = writes (trace s)" and "live (trace s') = live (trace s)" and "held l (trace s') = held l (trace s)"
    and "e_regs g = base + ofs" and "regs_placed g" and "e_xdev g = xdev" and "e_magic g = MAGIC_ENGINE" and "e_dir g = dir"
    and "e_transfer_list g = e_transfer_list (k_eng s e)" and "e_running g = e_running (k_eng s e)"
    and "e_desc_idx g = e_desc_idx (k_eng s e)" and "e_desc_used g = e_desc_used (k_eng s e)"
    and "e_desc_max g = (if credit_mode ev g then XDMA_ENGINE_CREDIT_XFER_MAX_DESC else XDMA_ENGINE_XFER_MAX_DESC)"
    and "blocks g = blocks (k_eng s e)" and "d_bar (k_dev s' xdev) = d_bar (k_dev s xdev)"
    and "d_config_bar_idx (k_dev s' xdev) = d_config_bar_idx (k_dev s xdev)"
    and "e_irq_bitmask g = push_bit (nat (d_engines_num (k_dev s xdev))) 1"
    and "d_engines_num (k_dev s' xdev) = d_engines_num (k_dev s xdev) + 1"
    and "e' \<noteq> e \<longrightarrow> k_eng s' e' = k_eng s e'" and "e_shutdown g = e_shutdown (k_eng s e)"
  by (simp_all add: s'_def g_def base_def engine_fill_def Let_def split_beta regs_placed_def blocks_def credit_mode_def
      XDMA_ENG_IRQ_NUM_def add.assoc)

lemma strip_work: "strip (g\<lparr>e_intr_work_cpu := c, e_cmplthp := t\<rparr>) = strip g"
  by (simp add: strip_def)

lemma blocks_work: "blocks (g\<lparr>e_intr_work_cpu := c, e_cmplthp := t\<rparr>) = blocks g"
  by (simp add: blocks_def)

lemma writes_pick [simp]: "writes (trace (snd (pick_thread ev c i k x v s))) = writes (trace s)"
  by (induction ev c i k x v s rule: pick_thread.induct) (simp_all add: Let_def)

lemma add_work_writes [simp]: "writes (trace (xdma_thread_add_work ev e s)) = writes (trace s)"
  by (simp add: xdma_thread_add_work_def Let_def split_beta)

lemma add_work_dev [simp]: "k_dev (xdma_thread_add_work ev e s) = k_dev s"
proof -
  obtain es where "snd (pick_thread ev (unat (k_thread_cnt s)) 0 (unat (k_thread_cnt s)) (unat (k_thread_cnt s)) 0 s) = s\<lparr>trace := es @ trace s\<rparr>"
    using pick_thread_frame by blast
  then show ?thesis by (simp add: xdma_thread_add_work_def Let_def split_beta)
qed

text \<open>An engine set up, step by step.\<close>

lemma engine_init_cases:
  fixes ev e xdev ofs dir ch s
  defines "r \<equiv> engine_init ev e xdev ofs dir ch s" and "s1 \<equiv> engine_fill ev e xdev ofs dir ch s"
  assumes nn: "e \<noteq> NULL" "xdev \<noteq> NULL" and b: "blocks (k_eng s e) = {#}"
  shows "fst r = 0 \<or> fst r = - ENOMEM"
    and "fst r = - ENOMEM \<longrightarrow> live (trace (snd r)) = live (trace s) \<and> blocks (k_eng (snd r) e) = {#}"
    and "fst r = 0 \<longrightarrow> live (trace (snd r)) = live (trace s) + blocks (k_eng (snd r) e)
      \<and> e_desc (k_eng (snd r) e) \<noteq> NULL \<and> (poll_mode ev \<noteq> 0 \<longrightarrow> e_poll_mode_addr_virt (k_eng (snd r) e) \<noteq> NULL)"
    and "strip (k_eng (snd r) e) = strip (k_eng s1 e)" and "k_dev (snd r) = k_dev s1"
    and "held l (trace (snd r)) = held l (trace s)"
    and "fst r = 0 \<longrightarrow> e_interrupt_enable_mask_value (k_eng (snd r) e) = engine_irqs ev"
    and "e_poll_mode_addr_virt (k_eng (snd r) e) = NULL \<or> (\<exists>tr n. e_poll_mode_addr_virt (k_eng (snd r) e) = nat (ksvc ev tr ''dma_alloc_coherent'' n))"
    and "fst r = 0 \<longrightarrow> (\<exists>ws. writes (trace (snd r)) = ws @ writes (trace s) \<and> fst ` set ws \<subseteq>
      {sgdma_common (k_dev s1 xdev) ''credit_mode_enable_w1s'', ereg (k_eng s1 e) ''interrupt_enable_mask'',
       ereg (k_eng s1 e) ''poll_mode_wb_hi'', ereg (k_eng s1 e) ''poll_mode_wb_lo'', ereg (k_eng s1 e) ''control_w1c''}
       \<union> (if poll_mode ev \<noteq> 0 then {e_poll_mode_addr_virt (k_eng (snd r) e)} else {}))"
proof -
  have b1: "blocks (k_eng s1 e) = {#}" using b by (simp add: s1_def engine_fill_sel)
  have f1: "e_xdev (k_eng s1 e) = xdev" "live (trace s1) = live (trace s)" "held l (trace s1) = held l (trace s)"
    "writes (trace s1) = writes (trace s)"
    by (simp_all add: s1_def engine_fill_sel)
  obtain rv s2 where a: "engine_alloc_resource ev e s1 = (rv, s2)" by fastforce
  note al = alloc_resource [OF b1, where ev = ev, unfolded a fst_conv snd_conv]
  have x2: "e_xdev (k_eng s2 e) \<noteq> NULL" using strip_eqD(3) [OF al(7)] f1 nn by simp
  obtain s3 where i: "engine_init_regs ev e s2 = (0, s3)"
    using init_regs(1) [OF nn(1) x2, of ev] by (metis prod.collapse)
  note ir = init_regs [OF nn(1) x2, where ev = ev, unfolded i snd_conv]
  define s4 where "s4 = (if poll_mode ev \<noteq> 0 then xdma_thread_add_work ev e s3 else s3)"
  have s4: "strip (k_eng s4 e) = strip (k_eng s3 e)" "blocks (k_eng s4 e) = blocks (k_eng s3 e)"
    "live (trace s4) = live (trace s3)" "held l (trace s4) = held l (trace s3)" "k_dev s4 = k_dev s3"
    by (simp_all add: s4_def add_work_sel strip_work blocks_work)
  have r: "r = (if rv \<noteq> 0 then (rv, s2) else (0, s4))"
    by (simp add: r_def engine_init_def s1_def [symmetric] a i s4_def)
  have p: "e_desc (k_eng s4 e) = e_desc (k_eng s3 e)" "e_poll_mode_addr_virt (k_eng s4 e) = e_poll_mode_addr_virt (k_eng s3 e)"
    by (simp_all add: s4_def add_work_sel)
  show "fst r = 0 \<or> fst r = - ENOMEM" using al(1) by (auto simp: r)
  show "strip (k_eng (snd r) e) = strip (k_eng s1 e)" using al(7) ir(3) s4 by (simp add: r)
  show "k_dev (snd r) = k_dev s1" using al(4) ir(2) s4 by (simp add: r)
  show "held l (trace (snd r)) = held l (trace s)" using al(6) ir(7) s4 f1 by (simp add: r)
  show "fst r = - ENOMEM \<longrightarrow> live (trace (snd r)) = live (trace s) \<and> blocks (k_eng (snd r) e) = {#}"
    using al(3) f1 by (simp add: r ENOMEM_def)
  show "fst r = 0 \<longrightarrow> live (trace (snd r)) = live (trace s) + blocks (k_eng (snd r) e)
      \<and> e_desc (k_eng (snd r) e) \<noteq> NULL \<and> (poll_mode ev \<noteq> 0 \<longrightarrow> e_poll_mode_addr_virt (k_eng (snd r) e) \<noteq> NULL)"
    using al(2) ir(4,6,9,10) s4 p f1 by (auto simp: r)
  have m: "e_interrupt_enable_mask_value (k_eng s4 e) = e_interrupt_enable_mask_value (k_eng s3 e)" "writes (trace s4) = writes (trace s3)"
    by (simp_all add: s4_def add_work_sel)
  show "fst r = 0 \<longrightarrow> e_interrupt_enable_mask_value (k_eng (snd r) e) = engine_irqs ev"
    using ir(8) m by (simp add: r)
  show "e_poll_mode_addr_virt (k_eng (snd r) e) = NULL \<or> (\<exists>tr n. e_poll_mode_addr_virt (k_eng (snd r) e) = nat (ksvc ev tr ''dma_alloc_coherent'' n))"
    using al(9) ir(10) p by (simp add: r)
  have g: "ereg (k_eng s2 e) x = ereg (k_eng s1 e) x" "e_xdev (k_eng s2 e) = xdev" for x
    using strip_eqD(1,3) [OF al(7)] f1 by (simp_all add: ereg_def)
  show "fst r = 0 \<longrightarrow> (\<exists>ws. writes (trace (snd r)) = ws @ writes (trace s) \<and> fst ` set ws \<subseteq>
      {sgdma_common (k_dev s1 xdev) ''credit_mode_enable_w1s'', ereg (k_eng s1 e) ''interrupt_enable_mask'',
       ereg (k_eng s1 e) ''poll_mode_wb_hi'', ereg (k_eng s1 e) ''poll_mode_wb_lo'', ereg (k_eng s1 e) ''control_w1c''}
       \<union> (if poll_mode ev \<noteq> 0 then {e_poll_mode_addr_virt (k_eng (snd r) e)} else {}))"
    using ir(11) al(4,5) p ir(10) m(2) f1(4) by (auto simp: r g)
qed

subsection \<open>Properties\<close>

text \<open>C33: setting up an engine and tearing it down again leaks no DMA memory: a failed setup has freed
  whatever it allocated and reports that it is out of memory; after a successful one the engine holds
  every block that was allocated, with a descriptor ring and, in polled mode, a write-back word; and
  destroying it frees exactly these blocks, zeroes the engine and restores the engine count.\<close>

theorem engine_init_destroy_no_leak:
  fixes ev e xdev ofs dir ch s
  defines "r \<equiv> engine_init ev e xdev ofs dir ch s"
  assumes nn: "e \<noteq> NULL" "xdev \<noteq> NULL" and b: "blocks (k_eng s e) = {#}"
  shows "(fst r = 0 \<or> fst r = - ENOMEM) \<and>
    (fst r = - ENOMEM \<longrightarrow> live (trace (snd r)) = live (trace s)) \<and>
    (fst r = 0 \<longrightarrow> live (trace (snd r)) = live (trace s) + blocks (k_eng (snd r) e)
      \<and> e_desc (k_eng (snd r) e) \<noteq> NULL \<and> (poll_mode ev \<noteq> 0 \<longrightarrow> e_poll_mode_addr_virt (k_eng (snd r) e) \<noteq> NULL)) \<and>
    fst (engine_destroy ev xdev e (snd r)) = 0 \<and>
    live (trace (snd (engine_destroy ev xdev e (snd r)))) = live (trace s) \<and>
    k_eng (snd (engine_destroy ev xdev e (snd r))) e = zero_engine \<and>
    d_engines_num (k_dev (snd (engine_destroy ev xdev e (snd r))) xdev) = d_engines_num (k_dev s xdev)"
proof (intro conjI)
  note c = engine_init_cases [OF nn b, where ev = ev and ofs = ofs and dir = dir and ch = ch, folded r_def]
  show "fst r = 0 \<or> fst r = - ENOMEM" "fst r = - ENOMEM \<longrightarrow> live (trace (snd r)) = live (trace s)"
    "fst r = 0 \<longrightarrow> live (trace (snd r)) = live (trace s) + blocks (k_eng (snd r) e)
      \<and> e_desc (k_eng (snd r) e) \<noteq> NULL \<and> (poll_mode ev \<noteq> 0 \<longrightarrow> e_poll_mode_addr_virt (k_eng (snd r) e) \<noteq> NULL)"
    using c(1-3) by blast+
  let ?t = "snd r"
  have rm: "blocks (k_eng (xdma_thread_remove_work e x) e) = blocks (k_eng x e)"
    "k_dev (xdma_thread_remove_work e x) = k_dev x" for x
    by (simp_all add: remove_work_sel blocks_def xdma_thread_remove_work_def Let_def)
  note d = engine_destroy_def Let_def nn
  show "fst (engine_destroy ev xdev e ?t) = 0" "k_eng (snd (engine_destroy ev xdev e ?t)) e = zero_engine"
    by (simp_all add: d)
  have "live (trace (snd (engine_destroy ev xdev e ?t))) = live (trace ?t) - blocks (k_eng ?t e)"
    by (simp add: d rm)
  with c(1-3) show "live (trace (snd (engine_destroy ev xdev e ?t))) = live (trace s)" by auto
  show "d_engines_num (k_dev (snd (engine_destroy ev xdev e ?t)) xdev) = d_engines_num (k_dev s xdev)"
    by (simp add: d rm c(5) engine_fill_sel)
qed

text \<open>A device with its registers at 65536, memory from 1048576 on.\<close>

definition fresh_engine :: kst where
  "fresh_engine = kst0\<lparr>k_dev := (\<lambda>_. zero_dev\<lparr>d_bar := (\<lambda>_. 0x10000)\<rparr>)\<rparr>"

definition env_mem :: env where
  "env_mem = env0\<lparr>ksvc := (\<lambda>tr f x. if f = ''dma_alloc_coherent'' then 0x100000 else 0)\<rparr>"

theorem engine_init_destroy_no_leak_witness:
  "fst (engine_init env_mem 1 2 0x1000 DMA_FROM_DEVICE 0 fresh_engine) = 0 \<and>
   live (trace (snd (engine_init env_mem 1 2 0x1000 DMA_FROM_DEVICE 0 fresh_engine))) = {#0x100000#} \<and>
   live (trace (snd (engine_destroy env_mem 2 1 (snd (engine_init env_mem 1 2 0x1000 DMA_FROM_DEVICE 0 fresh_engine))))) = {#}"
proof -
  have b: "blocks (k_eng fresh_engine 1) = {#}" by (simp add: fresh_engine_def kst0_def zero_engine_def blocks_def)
  note t = engine_init_destroy_no_leak [OF _ _ b, of 2 env_mem "0x1000" DMA_FROM_DEVICE 0]
  have "fst (engine_init env_mem 1 2 0x1000 DMA_FROM_DEVICE 0 fresh_engine) = 0 \<and>
   live (trace (snd (engine_init env_mem 1 2 0x1000 DMA_FROM_DEVICE 0 fresh_engine))) = {#0x100000#}"
    by (simp add: engine_init_def engine_fill_def engine_alloc_resource_def engine_init_regs_def dma_alloc_def kcall_def
        read_register_def env_mem_def env0_def fresh_engine_def kst0_def zero_engine_def Let_def credit_mode_def engine_alignments_def)
  with t show ?thesis by (simp add: fresh_engine_def kst0_def)
qed



end
