(* ===== verification/Xdma_Devlist.thy ===== *)
theory Xdma_Devlist
  imports Xdma_Thread
begin

text \<open>
  The list of devices of the driver (\<^verbatim>\<open>libxdma.c\<close>): adding and removing a device, finding the device
  of a PCI function and validating a handle.  The second, RCU-protected copy of the list is only ever
  written; its updates are events.
\<close>

subsection \<open>Operations\<close>

text \<open>\<open>cpus\<close> are the online CPUs, used when the completion threads are created.\<close>

definition xdev_list_add :: "env \<Rightarrow> nat list \<Rightarrow> ptr \<Rightarrow> kst \<Rightarrow> int \<times> kst" where
  "xdev_list_add ev cpus xdev s =
     (let s = emit (Acquire LkXdevList) s;
          (rv, s) =
            (if k_xdev_list s = [] then
               let s = upd_dev xdev (\<lambda>d. d\<lparr>d_idx := 0\<rparr>) s
               in if poll_mode ev \<noteq> 0
                  then xdma_threads_create ev cpus
                         (of_nat (d_h2c_channel_max (k_dev s xdev) + d_c2h_channel_max (k_dev s xdev))) s
                  else (0, s)
             else (0, upd_dev xdev (\<lambda>d. d\<lparr>d_idx := d_idx (k_dev s (last (k_xdev_list s))) + 1\<rparr>) s))
      in if rv < 0 then (rv, emit (Release LkXdevList) s)
         else
           let s = s\<lparr>k_xdev_list := k_xdev_list s @ [xdev]\<rparr>;
               s = emit (Release LkXdevList) s;
               s = emit (Acquire LkRcu) s;
               s = emit (Kernel ''list_add_tail_rcu'' xdev 0) s
           in (0, emit (Release LkRcu) s))"

definition xdev_list_remove :: "env \<Rightarrow> ptr \<Rightarrow> kst \<Rightarrow> kst" where
  "xdev_list_remove ev xdev s =
     (let s = emit (Acquire LkXdevList) s;
          s = s\<lparr>k_xdev_list := remove1 xdev (k_xdev_list s)\<rparr>;
          s = (if poll_mode ev \<noteq> 0 \<and> k_xdev_list s = [] then xdma_threads_destroy ev s else s);
          s = emit (Release LkXdevList) s;
          s = emit (Acquire LkRcu) s;
          s = emit (Kernel ''list_del_rcu'' xdev 0) s;
          s = emit (Release LkRcu) s
      in emit (Kernel ''synchronize_rcu'' 0 0) s)"

fun find_pdev :: "(ptr \<Rightarrow> xdma_dev) \<Rightarrow> ptr \<Rightarrow> ptr list \<Rightarrow> ptr" where
  "find_pdev D pdev [] = NULL"
| "find_pdev D pdev (x # xs) = (if d_pdev (D x) = pdev then x else find_pdev D pdev xs)"

definition xdev_find_by_pdev :: "ptr \<Rightarrow> kst \<Rightarrow> ptr \<times> kst" where
  "xdev_find_by_pdev pdev s =
     (let s = emit (Acquire LkXdevList) s;
          xdev = find_pdev (k_dev s) pdev (k_xdev_list s)
      in (xdev, emit (Release LkXdevList) s))"

definition debug_check_dev_hndl :: "ptr \<Rightarrow> ptr \<Rightarrow> kst \<Rightarrow> int \<times> kst" where
  "debug_check_dev_hndl pdev hndl s =
     (if pdev = NULL then (- EINVAL, s)
      else
        let (xdev, s) = xdev_find_by_pdev pdev s
        in if xdev = NULL then (- EINVAL, s)
           else if xdev \<noteq> hndl then (- EINVAL, s)
           else (0, s))"

subsection \<open>Frame facts of the thread array\<close>

lemma kthread_start_frame [simp, frame]:
  "k_dev (snd (xdma_kthread_start ev p n i s)) = k_dev s"
  "k_xdev_list (snd (xdma_kthread_start ev p n i s)) = k_xdev_list s"
  "held l (trace (snd (xdma_kthread_start ev p n i s))) = held l (trace s)"
  by (simp_all add: xdma_kthread_start_def Let_def split_beta)

lemma threads_create_loop_frame [simp, frame]:
  "k_dev (snd (threads_create_loop ev cpus n i s)) = k_dev s"
  "k_xdev_list (snd (threads_create_loop ev cpus n i s)) = k_xdev_list s"
  "held l (trace (snd (threads_create_loop ev cpus n i s))) = held l (trace s)"
  by (induction cpus arbitrary: i s) (simp_all add: Let_def split_beta)

lemma fold_frame: "(\<And>x s. x \<in> set xs \<Longrightarrow> f (g x s) = f s) \<Longrightarrow> f (fold g xs s) = f s"
  by (induction xs arbitrary: s) simp_all

lemma threads_create_frame [simp, frame]:
  "k_dev (snd (xdma_threads_create ev cpus n s)) = k_dev s"
  "k_xdev_list (snd (xdma_threads_create ev cpus n s)) = k_xdev_list s"
  "held l (trace (snd (xdma_threads_create ev cpus n s))) = held l (trace s)"
  by (simp_all add: xdma_threads_create_def Let_def split_beta fold_frame [where f = k_dev]
      fold_frame [where f = k_xdev_list] fold_frame [where f = "\<lambda>s. held l (trace s)"])

lemma kthread_stop_frame [simp, frame]:
  "k_dev (snd (xdma_kthread_stop ev p s)) = k_dev s"
  "k_xdev_list (snd (xdma_kthread_stop ev p s)) = k_xdev_list s"
  "held l (trace (snd (xdma_kthread_stop ev p s))) = held l (trace s)"
  by (simp_all add: xdma_kthread_stop_def Let_def split_beta)

lemma threads_destroy_frame [simp, frame]:
  "k_dev (xdma_threads_destroy ev s) = k_dev s"
  "k_xdev_list (xdma_threads_destroy ev s) = k_xdev_list s"
  "held l (trace (xdma_threads_destroy ev s)) = held l (trace s)"
  by (simp_all add: xdma_threads_destroy_def Let_def fold_frame [where f = k_dev]
      fold_frame [where f = k_xdev_list] fold_frame [where f = "\<lambda>s. held l (trace s)"])

subsection \<open>The list\<close>

text \<open>The devices on the list are distinct, belong to distinct PCI functions, and carry strictly
  increasing indices.\<close>

definition devlist_ok :: "kst \<Rightarrow> bool" where
  "devlist_ok s \<longleftrightarrow> NULL \<notin> set (k_xdev_list s)
     \<and> sorted_wrt (<) (map (\<lambda>x. d_idx (k_dev s x)) (k_xdev_list s))
     \<and> distinct (map (\<lambda>x. d_pdev (k_dev s x)) (k_xdev_list s))"

lemma devlist_distinct: "devlist_ok s \<Longrightarrow> distinct (k_xdev_list s)"
  by (auto simp: devlist_ok_def distinct_map)

text \<open>Adding in closed form: the index given, and the effect on list and devices.\<close>

definition next_idx :: "kst \<Rightarrow> int" where
  "next_idx s = (if k_xdev_list s = [] then 0 else d_idx (k_dev s (last (k_xdev_list s))) + 1)"

lemma list_add_sel:
  fixes ev cpus x s
  defines "r \<equiv> xdev_list_add ev cpus x s"
  shows "fst r \<le> 0"
    and "k_dev (snd r) = (k_dev s)(x := (k_dev s x)\<lparr>d_idx := next_idx s\<rparr>)"
    and "k_xdev_list (snd r) = (if fst r = 0 then k_xdev_list s @ [x] else k_xdev_list s)"
    and "held l (trace (snd r)) = held l (trace s)"
    and "poll_mode ev = 0 \<or> k_xdev_list s \<noteq> [] \<longrightarrow> fst r = 0"
  by (auto simp: r_def xdev_list_add_def Let_def split_beta next_idx_def)

lemma list_remove_sel:
  "k_dev (xdev_list_remove ev x s) = k_dev s"
  "k_xdev_list (xdev_list_remove ev x s) = remove1 x (k_xdev_list s)"
  "held l (trace (xdev_list_remove ev x s)) = held l (trace s)"
  by (simp_all add: xdev_list_remove_def Let_def)

lemma find_pdev_unique:
  assumes "x \<in> set xs" and "distinct (map (\<lambda>x. d_pdev (D x)) xs)"
  shows "find_pdev D (d_pdev (D x)) xs = x"
  using assms by (induction xs) (auto simp: image_iff)

lemma find_pdev_none: "(\<forall>x \<in> set xs. d_pdev (D x) \<noteq> p) \<Longrightarrow> find_pdev D p xs = NULL"
  by (induction xs) auto

lemma find_pdev_some: "find_pdev D p xs \<noteq> NULL \<Longrightarrow> find_pdev D p xs \<in> set xs \<and> d_pdev (D (find_pdev D p xs)) = p"
  by (induction xs) (auto split: if_splits)

lemma sorted_wrt_last: "sorted_wrt (<) (xs :: int list) \<Longrightarrow> x \<in> set xs \<Longrightarrow> x \<le> last xs"
  by (induction xs) (auto simp: less_imp_le)

lemma sorted_map_remove1: "sorted_wrt R (map f xs) \<Longrightarrow> sorted_wrt R (map f (remove1 x xs))"
  by (induction xs) (auto dest: notin_set_remove1)

lemma distinct_map_remove1: "distinct (map f xs) \<Longrightarrow> distinct (map f (remove1 x xs))"
  by (induction xs) (auto dest!: subsetD [OF set_remove1_subset])

lemma list_add_ok:
  assumes ok: "devlist_ok s" and x: "x \<noteq> NULL" "x \<notin> set (k_xdev_list s)"
    and p: "\<forall>y \<in> set (k_xdev_list s). d_pdev (k_dev s y) \<noteq> d_pdev (k_dev s x)"
  shows "devlist_ok (snd (xdev_list_add ev cpus x s))"
proof -
  let ?xs = "k_xdev_list s" and ?f = "\<lambda>y. d_idx (k_dev s y)"
  have m: "map (\<lambda>y. d_idx (if y = x then (k_dev s x)\<lparr>d_idx := next_idx s\<rparr> else k_dev s y)) ?xs = map ?f ?xs"
    "map (\<lambda>y. d_pdev (if y = x then (k_dev s x)\<lparr>d_idx := next_idx s\<rparr> else k_dev s y)) ?xs = map (\<lambda>y. d_pdev (k_dev s y)) ?xs"
    using x by (auto simp: map_eq_conv)
  have "?f y < next_idx s" if "y \<in> set ?xs" for y
  proof -
    have "?f y \<le> last (map ?f ?xs)"
      using ok that by (intro sorted_wrt_last) (auto simp: devlist_ok_def)
    then show ?thesis using that by (auto simp: next_idx_def last_map)
  qed
  with ok x p show ?thesis
    unfolding devlist_ok_def list_add_sel fun_upd_apply
    by (cases "fst (xdev_list_add ev cpus x s) = 0") (auto simp: m sorted_wrt_append)
qed

lemma list_remove_ok: "devlist_ok s \<Longrightarrow> devlist_ok (xdev_list_remove ev x s)"
  unfolding devlist_ok_def list_remove_sel
  by (auto simp: sorted_map_remove1 distinct_map_remove1 dest: notin_set_remove1)

lemma find_by_pdev_sel [simp]:
  "fst (xdev_find_by_pdev p s) = find_pdev (k_dev s) p (k_xdev_list s)"
  "k_dev (snd (xdev_find_by_pdev p s)) = k_dev s" "k_eng (snd (xdev_find_by_pdev p s)) = k_eng s"
  "k_xfer (snd (xdev_find_by_pdev p s)) = k_xfer s" "k_desc (snd (xdev_find_by_pdev p s)) = k_desc s"
  "k_xdev_list (snd (xdev_find_by_pdev p s)) = k_xdev_list s"
  "k_sgt (snd (xdev_find_by_pdev p s)) = k_sgt s" "k_cb (snd (xdev_find_by_pdev p s)) = k_cb s"
  "k_thr (snd (xdev_find_by_pdev p s)) = k_thr s"
  "writes (trace (snd (xdev_find_by_pdev p s))) = writes (trace s)"
  "held l (trace (snd (xdev_find_by_pdev p s))) = held l (trace s)"
  by (simp_all add: xdev_find_by_pdev_def Let_def)

lemma check_hndl_sel [simp]:
  "k_dev (snd (debug_check_dev_hndl p h s)) = k_dev s" "k_eng (snd (debug_check_dev_hndl p h s)) = k_eng s"
  "k_xfer (snd (debug_check_dev_hndl p h s)) = k_xfer s" "k_desc (snd (debug_check_dev_hndl p h s)) = k_desc s"
  "k_xdev_list (snd (debug_check_dev_hndl p h s)) = k_xdev_list s"
  "k_sgt (snd (debug_check_dev_hndl p h s)) = k_sgt s" "k_cb (snd (debug_check_dev_hndl p h s)) = k_cb s"
  "k_thr (snd (debug_check_dev_hndl p h s)) = k_thr s"
  "writes (trace (snd (debug_check_dev_hndl p h s))) = writes (trace s)"
  "held l (trace (snd (debug_check_dev_hndl p h s))) = held l (trace s)"
  by (simp_all add: debug_check_dev_hndl_def Let_def split_beta)

lemma check_hndl_fst:
  assumes ok: "devlist_ok s"
  shows "fst (debug_check_dev_hndl p h s) =
    (if p \<noteq> NULL \<and> h \<in> set (k_xdev_list s) \<and> d_pdev (k_dev s h) = p then 0 else - EINVAL)"
proof (cases "h \<in> set (k_xdev_list s) \<and> d_pdev (k_dev s h) = p")
  case True
  then have "find_pdev (k_dev s) p (k_xdev_list s) = h"
    using ok find_pdev_unique [of h "k_xdev_list s" "k_dev s"] by (simp add: devlist_ok_def)
  with True ok show ?thesis
    by (auto simp: debug_check_dev_hndl_def Let_def split_beta devlist_ok_def)
next
  case False
  then have "find_pdev (k_dev s) p (k_xdev_list s) \<noteq> h \<or> h = NULL"
    using find_pdev_some [of "k_dev s" p "k_xdev_list s"] by auto
  with False show ?thesis
    by (auto simp: debug_check_dev_hndl_def Let_def split_beta)
qed

subsection \<open>Properties\<close>

text \<open>Adding a device of a PCI function that has none keeps the list well-formed (distinct devices
  of distinct functions, strictly increasing indices); when it succeeds its function finds it and its
  handle is valid, and no other handle is for that function; removing it restores the list.  Locks
  are given back in both.\<close>

theorem devlist_add_find_remove:
  fixes ev cpus x s
  defines "r \<equiv> xdev_list_add ev cpus x s" and "p \<equiv> d_pdev (k_dev s x)"
  assumes ok: "devlist_ok s" and x: "x \<noteq> NULL" "x \<notin> set (k_xdev_list s)" "p \<noteq> NULL"
    and new: "\<forall>y \<in> set (k_xdev_list s). d_pdev (k_dev s y) \<noteq> p"
  shows "devlist_ok (snd r) \<and>
    (fst r = 0 \<longrightarrow> fst (xdev_find_by_pdev p (snd r)) = x \<and>
      (\<forall>h. fst (debug_check_dev_hndl p h (snd r)) = (if h = x then 0 else - EINVAL))) \<and>
    (fst r = 0 \<longrightarrow> k_xdev_list (xdev_list_remove ev x (snd r)) = k_xdev_list s \<and>
      fst (xdev_find_by_pdev p (xdev_list_remove ev x (snd r))) = NULL) \<and>
    held l (trace (xdev_list_remove ev x (snd r))) = held l (trace s)"
proof (intro conjI)
  let ?D = "k_dev (snd r)"
  show ok': "devlist_ok (snd r)"
    unfolding r_def using list_add_ok [OF ok x(1,2)] new p_def by blast
  have p: "d_pdev (?D y) = d_pdev (k_dev s y)" for y
    by (simp add: r_def list_add_sel)
  have l: "k_xdev_list (snd r) = k_xdev_list s @ [x]" if "fst r = 0"
    using that by (simp add: r_def list_add_sel)
  show "fst r = 0 \<longrightarrow> fst (xdev_find_by_pdev p (snd r)) = x \<and>
      (\<forall>h. fst (debug_check_dev_hndl p h (snd r)) = (if h = x then 0 else - EINVAL))"
  proof (intro impI conjI allI)
    assume a: "fst r = 0"
    show "fst (xdev_find_by_pdev p (snd r)) = x"
      using find_pdev_unique [of x "k_xdev_list (snd r)" ?D] ok' l [OF a] p p_def by (simp add: devlist_ok_def)
    show "fst (debug_check_dev_hndl p h (snd r)) = (if h = x then 0 else - EINVAL)" for h
      using new x(3) p_def by (auto simp: check_hndl_fst [OF ok'] l [OF a] p)
  qed
  show "fst r = 0 \<longrightarrow> k_xdev_list (xdev_list_remove ev x (snd r)) = k_xdev_list s \<and>
      fst (xdev_find_by_pdev p (xdev_list_remove ev x (snd r))) = NULL"
    using x new by (auto simp: list_remove_sel l remove1_append p find_pdev_none)
  show "held l (trace (xdev_list_remove ev x (snd r))) = held l (trace s)"
    by (simp add: list_remove_sel r_def list_add_sel)
qed

text \<open>One device on the list, another to be added.\<close>

definition two_devices :: kst where
  "two_devices = kst0\<lparr>k_xdev_list := [1], k_dev := (\<lambda>x. zero_dev\<lparr>d_pdev := 100 + x\<rparr>)\<rparr>"

theorem devlist_add_find_remove_witness:
  "k_xdev_list (snd (xdev_list_add env0 [] 2 two_devices)) = [1, 2] \<and>
   d_idx (k_dev (snd (xdev_list_add env0 [] 2 two_devices)) 2) = 1 \<and>
   fst (debug_check_dev_hndl 102 2 (snd (xdev_list_add env0 [] 2 two_devices))) = 0"
proof -
  note d = two_devices_def kst0_def zero_dev_def
  have h: "devlist_ok two_devices" "(2 :: ptr) \<noteq> NULL" "2 \<notin> set (k_xdev_list two_devices)"
    "d_pdev (k_dev two_devices 2) \<noteq> NULL"
    "\<forall>y \<in> set (k_xdev_list two_devices). d_pdev (k_dev two_devices y) \<noteq> d_pdev (k_dev two_devices 2)"
    by (simp_all add: d devlist_ok_def)
  have z: "fst (xdev_list_add env0 [] 2 two_devices) = 0"
    using list_add_sel(5) [of env0 two_devices "[]" 2] by (simp add: env0_def)
  then show ?thesis
    using devlist_add_find_remove [OF h, of env0 "[]"]
    by (simp add: list_add_sel) (simp add: d next_idx_def)
qed

end
