(* ===== verification/Xdma_Fifo.thy ===== *)
theory Xdma_Fifo
  imports Xdma_Queue
begin

text \<open>
  What servicing an engine promises its clients: transfers complete in the order they were queued,
  exactly those the device has finished; the engine is restarted when transfers are left; the run
  flag and the locks are right in every reachable state; a transfer is queued or refused.
\<close>

subsection \<open>The device has finished a whole number of transfers\<close>

lemma dequeued_exact:
  assumes "unat n = (\<Sum>x \<leftarrow> take m xs. unat (t_desc_num x))" and "0 < m" and "m \<le> length xs"
    and "\<And>x. x \<in> set xs \<Longrightarrow> t_desc_num x \<noteq> 0 \<and> \<not> t_cyclic x"
  shows "dequeued n xs = m - 1 \<and> n - (\<Sum>x \<leftarrow> take (m - 1) xs. t_desc_num x) = t_desc_num (xs ! (m - 1))"
  using assms
proof (induction xs arbitrary: n m)
  case (Cons x xs)
  obtain k where m: "m = Suc k" using Cons.prems(2) by (cases m) auto
  show ?case
  proof (cases k)
    case 0
    with m Cons.prems(1) have "n = t_desc_num x" by (simp add: word_unat_eq_iff)
    then show ?thesis using m 0 by simp
  next
    case (Suc j)
    then obtain y ys where xs: "xs = y # ys" using Cons.prems(3) m by (cases xs) auto
    have n: "unat n = unat (t_desc_num x) + (\<Sum>z \<leftarrow> take k xs. unat (t_desc_num z))"
      using Cons.prems(1) m by simp
    have "0 < unat (t_desc_num y)" using Cons.prems(4) [of y] xs by (simp add: unat_gt_0)
    then have lt: "t_desc_num x < n" using n xs Suc by (simp add: word_less_nat_alt)
    then have "unat (n - t_desc_num x) = (\<Sum>z \<leftarrow> take k xs. unat (t_desc_num z))"
      using n by (simp add: unat_sub_le word_le_nat_alt word_less_nat_alt)
    from Cons.IH [OF this] Cons.prems(3,4) m Suc
    have "dequeued (n - t_desc_num x) xs = j"
      "n - t_desc_num x - (\<Sum>z \<leftarrow> take j xs. t_desc_num z) = t_desc_num (xs ! j)" by auto
    moreover have "\<not> t_cyclic x" using Cons.prems(4) [of x] by simp
    ultimately show ?thesis using lt m Suc by (simp add: diff_diff_eq)
  qed
qed simp

text \<open>The last of the finished transfers is at the head of the queue and completes as a whole.\<close>

lemma final_transfer_completes:
  fixes ev :: env
  assumes "e \<noteq> NULL" and "t \<noteq> NULL" and "\<not> status_error (k_eng s e)" and "\<not> n < t_desc_num (k_xfer s t)"
    and "\<not> e_running (k_eng s e)"
  defines "s' \<equiv> snd (engine_service_final_transfer ev e t n s)"
  shows "\<exists>d. k_eng s' e = (k_eng s e)\<lparr>e_running := False, e_desc_dequeued := d, e_transfer_list := tl (e_transfer_list (k_eng s e))\<rparr>"
    and "k_xfer s' = (k_xfer s)(t := (k_xfer s t)\<lparr>t_state := TRANSFER_STATE_COMPLETED, t_desc_cmpl := t_desc_num (k_xfer s t)\<rparr>)"
    and "woken [t] s s'"
proof -
  let ?x = "upd_xfer t (\<lambda>x. x\<lparr>t_state := TRANSFER_STATE_COMPLETED, t_desc_cmpl := t_desc_num x\<rparr>) s"
  let ?d = "transfer_list_del e (upd_eng e (\<lambda>g. g\<lparr>e_desc_dequeued := e_desc_dequeued g + t_desc_num (k_xfer ?x t)\<rparr>) ?x)"
  have s': "s' = snd (engine_transfer_completion e t ?d)"
    using assms by (simp add: engine_service_final_transfer_def Let_def)
  have g: "(k_eng s e)\<lparr>e_running := False\<rparr> = k_eng s e" using assms(5) by (cases "k_eng s e") simp
  show "\<exists>d. k_eng s' e = (k_eng s e)\<lparr>e_running := False, e_desc_dequeued := d, e_transfer_list := tl (e_transfer_list (k_eng s e))\<rparr>"
    unfolding g by (auto simp: s')
  show "k_xfer s' = (k_xfer s)(t := (k_xfer s t)\<lparr>t_state := TRANSFER_STATE_COMPLETED, t_desc_cmpl := t_desc_num (k_xfer s t)\<rparr>)"
    by (simp add: s')
  show "woken [t] s s'"
    using woken_completion [OF assms(1,2), of ?d] by (simp add: s' woken_def)
qed

text \<open>On an error status it fails, and the engine is stopped.\<close>

lemma final_transfer_fails:
  fixes ev :: env and n :: u32
  assumes "e \<noteq> NULL" and "t \<noteq> NULL" and "status_error (k_eng s e)"
  defines "s' \<equiv> snd (engine_service_final_transfer ev e t n s)"
  shows "\<exists>d. k_eng s' e = (k_eng s e)\<lparr>e_running := False, e_desc_dequeued := d, e_transfer_list := tl (e_transfer_list (k_eng s e))\<rparr>"
    and "k_xfer s' = (k_xfer s)(t := (k_xfer s t)\<lparr>t_state := TRANSFER_STATE_FAILED\<rparr>)"
    and "woken [t] s s'"
proof -
  let ?d = "transfer_list_del e (snd (engine_err_handle ev e t n s))"
  have s': "s' = snd (engine_transfer_completion e t ?d)"
    using assms by (simp add: engine_service_final_transfer_def Let_def)
  show "\<exists>d. k_eng s' e = (k_eng s e)\<lparr>e_running := False, e_desc_dequeued := d, e_transfer_list := tl (e_transfer_list (k_eng s e))\<rparr>"
    using assms(1) by (auto simp: s' engine_err_handle_def Let_def intro: exI [of _ "e_desc_dequeued (k_eng s e)"])
  show "k_xfer s' = (k_xfer s)(t := (k_xfer s t)\<lparr>t_state := TRANSFER_STATE_FAILED\<rparr>)"
    using assms(1) by (simp add: s' engine_err_handle_def Let_def)
  have "woken [] s ?d"
    using assms(1) by (simp add: woken_def engine_err_handle_def Let_def)
  from woken_trans [OF this woken_completion [OF assms(1,2), of ?d]] show "woken [t] s s'" by (simp add: s')
qed

lemma start_extends: "woken [] s (snd (engine_start ev e s))"
proof (cases "e = NULL \<or> e_running (k_eng s e) \<or> e_transfer_list (k_eng s e) = [] \<or> hd (e_transfer_list (k_eng s e)) = NULL")
  case False
  have "\<exists>new. trace (snd (engine_start_mode_config ev e x)) = new @ trace x" for x
    by (simp add: engine_start_mode_config_def Let_def split_beta)
  then obtain f where m: "\<And>x. trace (snd (engine_start_mode_config ev e x)) = f x @ trace x" by metis
  from False show ?thesis
    unfolding woken_def engine_start_def Let_def split_beta
    by (cases "credit_mode ev (k_eng s e)") (auto simp: m Let_def split: list.splits)
qed (simp add: engine_start_idle)

text \<open>A stopped engine is restarted exactly when transfers are left.\<close>

lemma resume_stopped:
  assumes "qinv e s" and "\<not> e_running (k_eng s e)"
  shows "e_running (k_eng (snd (engine_service_resume ev e s)) e) = (e_transfer_list (k_eng s e) \<noteq> [])"
    and "e_transfer_list (k_eng (snd (engine_service_resume ev e s)) e) = e_transfer_list (k_eng s e)"
    and "k_xfer (snd (engine_service_resume ev e s)) = k_xfer s"
    and "woken [] s (snd (engine_service_resume ev e s))"
proof -
  have e: "e \<noteq> NULL" using assms(1) by (simp add: qinv_def)
  have *: "e_running (k_eng (snd (engine_service_resume ev e s)) e) = (e_transfer_list (k_eng s e) \<noteq> []) \<and>
    e_transfer_list (k_eng (snd (engine_service_resume ev e s)) e) = e_transfer_list (k_eng s e) \<and>
    k_xfer (snd (engine_service_resume ev e s)) = k_xfer s \<and> woken [] s (snd (engine_service_resume ev e s))"
  proof (cases "e_transfer_list (k_eng s e)")
    case Nil
    then show ?thesis using e assms(2) by (simp add: engine_service_resume_def Let_def woken_def)
  next
    case (Cons t ts)
    then have "t \<noteq> NULL" using assms(1) by (auto simp: qinv_def queue_ok_def)
    note st = engine_start_ok [OF e assms(2) Cons this, of ev]
    have "snd (engine_service_resume ev e s) = snd (engine_start ev e s)"
      using e assms(2) Cons by (simp add: engine_service_resume_def Let_def split_beta)
    then show ?thesis using st(2,3) start_extends Cons by auto
  qed
  then show "e_running (k_eng (snd (engine_service_resume ev e s)) e) = (e_transfer_list (k_eng s e) \<noteq> [])"
    and "e_transfer_list (k_eng (snd (engine_service_resume ev e s)) e) = e_transfer_list (k_eng s e)"
    and "k_xfer (snd (engine_service_resume ev e s)) = k_xfer s"
    and "woken [] s (snd (engine_service_resume ev e s))" by auto
qed

lemma head_of_drop: "k < length ts \<Longrightarrow> head_of (drop k ts) = ts ! k"
  by (simp add: Cons_nth_drop_Suc [symmetric])

lemma distinct_take_nth: "distinct ts \<Longrightarrow> k < length ts \<Longrightarrow> ts ! k \<notin> set (take k ts)"
  by (metis distinct_append distinct_take not_distinct_conv_prefix take_Suc_conv_app_nth)

text \<open>The state after the loop over the finished transfers, before the final one is looked at.\<close>

lemma list_part:
  assumes inv: "qinv e s" and ts: "e_transfer_list (k_eng s e) = ts" "ts \<noteq> []"
    and c: "c = n - e_desc_dequeued (k_eng s e)" and k: "k = dequeued c (map (k_xfer s) ts)"
  defines "r \<equiv> sv_list e n (sv_perf e n s)"
  shows "fst r = (head_of (drop k ts), c - (\<Sum>t \<leftarrow> take k ts. t_desc_num (k_xfer s t)))"
    and "\<exists>p d. k_eng (snd r) e = (k_eng s e)\<lparr>e_xdma_perf := p, e_transfer_list := drop k ts, e_desc_dequeued := d\<rparr>"
    and "\<And>t. t \<in> set (take k ts) \<Longrightarrow> k_xfer (snd r) t = (k_xfer s t)\<lparr>t_state := TRANSFER_STATE_COMPLETED\<rparr>"
    and "\<And>t. t \<notin> set (take k ts) \<Longrightarrow> k_xfer (snd r) t = k_xfer s t"
    and "woken (take k ts) s (snd r)"
proof -
  have e: "e \<noteq> NULL" and q: "distinct ts" "NULL \<notin> set ts" using inv ts by (auto simp: qinv_def queue_ok_def)
  define s1 where "s1 = sv_perf e n s"
  obtain p where s1: "k_xfer s1 = k_xfer s" "k_eng s1 e = (k_eng s e)\<lparr>e_xdma_perf := p\<rparr>" "woken [] s s1"
  proof -
    have "\<exists>p. k_eng s1 e = (k_eng s e)\<lparr>e_xdma_perf := p\<rparr>"
      by (auto simp: s1_def sv_perf_def engine_service_perf_def Let_def intro: exI [of _ "e_xdma_perf (k_eng s e)"])
    moreover have "k_xfer s1 = k_xfer s" "woken [] s s1"
      by (auto simp: s1_def sv_perf_def engine_service_perf_def Let_def woken_def)
    ultimately show ?thesis using that by blast
  qed
  have l: "e_transfer_list (k_eng s1 e) = ts" using ts s1(2) by simp
  have r: "r = service_list_loop e (head_of ts) c s1"
    using e ts(2) q l s1(2) c by (cases ts) (auto simp: r_def sv_list_def engine_service_transfer_list_def head_transfer_eq s1_def [symmetric])
  note loop = service_list_loop_done [OF l q e, of c, folded r]
  have d: "list_done e (take k ts) (drop k ts) s1 (snd r)" using loop k s1(1) by simp
  show "fst r = (head_of (drop k ts), c - (\<Sum>t \<leftarrow> take k ts. t_desc_num (k_xfer s t)))" using loop k s1(1) by simp
  show "\<exists>p d. k_eng (snd r) e = (k_eng s e)\<lparr>e_xdma_perf := p, e_transfer_list := drop k ts, e_desc_dequeued := d\<rparr>"
    using list_doneD(3) [OF d] s1(2) by auto
  show "woken (take k ts) s (snd r)" using woken_trans [OF s1(3) list_doneD(8) [OF d]] by simp
  show "t \<in> set (take k ts) \<Longrightarrow> k_xfer (snd r) t = (k_xfer s t)\<lparr>t_state := TRANSFER_STATE_COMPLETED\<rparr>" for t
    using list_doneD(2) [OF d, of t] s1(1) by simp
  show "t \<notin> set (take k ts) \<Longrightarrow> k_xfer (snd r) t = k_xfer s t" for t
    using list_doneD(1) [OF d, of t] s1(1) by simp
qed

text \<open>A service of the queue that ends the transfer at position \<open>k\<close> in state \<open>st\<close>: the ones before it
  are completed, the ones after it stay, and the engine runs again if there are any.\<close>

definition queue_served :: "ptr \<Rightarrow> ptr list \<Rightarrow> nat \<Rightarrow> transfer_state \<Rightarrow> kst \<Rightarrow> kst \<Rightarrow> bool" where
  "queue_served e ts k st s s' \<longleftrightarrow>
     e_transfer_list (k_eng s' e) = drop (Suc k) ts \<and> t_state (k_xfer s' (ts ! k)) = st \<and>
     (\<forall>t. t \<in> set (take k ts) \<longrightarrow> t_state (k_xfer s' t) = TRANSFER_STATE_COMPLETED) \<and>
     (\<forall>t. t \<notin> set (take (Suc k) ts) \<longrightarrow> k_xfer s' t = k_xfer s t) \<and>
     (e_running (k_eng s' e) \<longleftrightarrow> drop (Suc k) ts \<noteq> []) \<and> woken (take (Suc k) ts) s s'"

text \<open>What the final transfer must do for that.\<close>

lemma queue_servedI:
  fixes ev :: env
  assumes inv: "qinv e s" and flush: "\<not> e_eop_flush (k_eng s e)" and ts: "e_transfer_list (k_eng s e) = ts"
    and c: "c = n - e_desc_dequeued (k_eng s e)" and k: "k = dequeued c (map (k_xfer s) ts)" "k < length ts"
  defines "r \<equiv> sv_list e n (sv_perf e n s)"
  assumes f: "\<exists>d. k_eng (sv_final ev e r) e = (k_eng (snd r) e)\<lparr>e_running := False, e_desc_dequeued := d,
      e_transfer_list := tl (e_transfer_list (k_eng (snd r) e))\<rparr>"
    "k_xfer (sv_final ev e r) = (k_xfer (snd r))(ts ! k := x)" "t_state x = st" "woken [ts ! k] (snd r) (sv_final ev e r)"
  shows "queue_served e ts k st s (snd (engine_service_queue ev e n s))"
proof -
  have e: "e \<noteq> NULL" and q: "distinct ts" using inv ts by (auto simp: qinv_def queue_ok_def)
  have "ts \<noteq> []" using k(2) by auto
  note l = list_part [OF inv ts this c k(1), folded r_def]
  define s3 where "s3 = sv_final ev e r"
  have inv3: "qinv e s3" unfolding s3_def r_def by (rule qinv_sv_final [OF inv])
  have s3: "e_transfer_list (k_eng s3 e) = drop (Suc k) ts" "\<not> e_running (k_eng s3 e)" "\<not> e_eop_flush (k_eng s3 e)"
    using f(1) l(2) flush by (auto simp: s3_def tl_drop drop_Suc)
  have res: "snd (engine_service_queue ev e n s) = snd (engine_service_resume ev e s3)"
    using s3(3) by (simp add: service_queue_parts [OF e] Let_def s3_def r_def)
  note rs = resume_stopped [OF inv3 s3(2), of ev, unfolded s3(1)]
  have tk: "take (Suc k) ts = take k ts @ [ts ! k]" using k(2) by (rule take_Suc_nth_snoc)
  have "woken (take (Suc k) ts) s (snd (engine_service_resume ev e s3))"
    using woken_trans [OF woken_trans [OF l(5) f(4)[folded s3_def]] rs(4), of "take (Suc k) ts" "take (Suc k) ts"]
    by (simp add: tk)
  moreover have "ts ! k \<notin> set (take k ts)" using distinct_take_nth [OF q k(2)] .
  ultimately show ?thesis
    using l(3,4) f(2,3) rs unfolding queue_served_def res
    by (auto simp: s3_def tk)
qed

lemma queue_completes:
  assumes inv: "qinv e s" and idle: "\<not> e_running (k_eng s e)" and ok: "\<not> status_error (k_eng s e)"
    and flush: "\<not> e_eop_flush (k_eng s e)" and ts: "e_transfer_list (k_eng s e) = ts" and k: "k < length ts"
    and cyc: "\<And>t. t \<in> set ts \<Longrightarrow> \<not> t_cyclic (k_xfer s t)"
    and cnt: "unat (n - e_desc_dequeued (k_eng s e)) = (\<Sum>t \<leftarrow> take (Suc k) ts. unat (t_desc_num (k_xfer s t)))"
  shows "queue_served e ts k TRANSFER_STATE_COMPLETED s (snd (engine_service_queue ev e n s))"
proof -
  let ?c = "n - e_desc_dequeued (k_eng s e)" and ?t = "ts ! k" and ?r = "sv_list e n (sv_perf e n s)"
  have e: "e \<noteq> NULL" and q: "queue_ok ts (k_xfer s)" and ne: "ts \<noteq> []" using inv ts k by (auto simp: qinv_def)
  have deq: "k = dequeued ?c (map (k_xfer s) ts)"
    "?c - (\<Sum>t \<leftarrow> take k ts. t_desc_num (k_xfer s t)) = t_desc_num (k_xfer s ?t)"
    using dequeued_exact [of ?c "Suc k" "map (k_xfer s) ts"] k cnt cyc q
    by (auto simp: take_map comp_def queue_ok_def)
  note l = list_part [OF inv ts ne refl deq(1)]
  have t: "?t \<noteq> NULL" "?t \<notin> set (take k ts)"
    using q nth_mem [OF k] distinct_take_nth [of ts k] k unfolding queue_ok_def by metis+
  have fst: "fst ?r = (?t, t_desc_num (k_xfer s ?t))" using l(1) deq(2) k by (simp add: head_of_drop)
  have "\<not> status_error (k_eng (snd ?r) e)" "\<not> t_desc_num (k_xfer s ?t) < t_desc_num (k_xfer (snd ?r) ?t)"
    "\<not> e_running (k_eng (snd ?r) e)"
    using l(2) l(4) [OF t(2)] ok idle by (auto simp: status_error_def)
  note f = final_transfer_completes [OF e t(1) this, of ev]
  show ?thesis
    by (rule queue_servedI [OF inv flush ts refl deq(1) k]) (use f fst in \<open>auto simp: sv_final_def\<close>)
qed

lemma queue_fails:
  assumes inv: "qinv e s" and err: "status_error (k_eng s e)"
    and flush: "\<not> e_eop_flush (k_eng s e)" and ts: "e_transfer_list (k_eng s e) = ts"
    and k: "k = dequeued (n - e_desc_dequeued (k_eng s e)) (map (k_xfer s) ts)" "k < length ts"
  shows "queue_served e ts k TRANSFER_STATE_FAILED s (snd (engine_service_queue ev e n s))"
proof -
  let ?t = "ts ! k" and ?r = "sv_list e n (sv_perf e n s)"
  have e: "e \<noteq> NULL" and q: "queue_ok ts (k_xfer s)" and ne: "ts \<noteq> []" using inv ts k by (auto simp: qinv_def)
  note l = list_part [OF inv ts ne refl k(1)]
  have t: "?t \<noteq> NULL" using q nth_mem [OF k(2)] unfolding queue_ok_def by metis
  have fst: "fst (fst ?r) = ?t" using l(1) k by (simp add: head_of_drop)
  have "status_error (k_eng (snd ?r) e)" using l(2) err by (auto simp: status_error_def)
  note f = final_transfer_fails [OF e t this, of ev "snd (fst ?r)"]
  show ?thesis
    by (rule queue_servedI [OF inv flush ts refl k]) (use f fst in \<open>auto simp: sv_final_def\<close>)
qed

text \<open>The way of an interrupt to the queue, when the device has stopped.\<close>

lemma service_to_queue:
  fixes ev :: env
  assumes inv: "qinv e s" and run: "e_running (k_eng s e)"
    and status: "\<And>tr. hw ev tr (ereg (k_eng s e) ''status_rc'') = st" and idle: "st AND XDMA_STAT_BUSY = 0"
    and count: "\<And>tr. hw ev tr (ereg (k_eng s e) ''completed_desc_count'') = c" "c \<noteq> 0"
  obtains s3 where "engine_service ev e 0 s = (0, snd (engine_service_queue ev e c s3))" and "qinv e s3"
    and "k_eng s3 e = (k_eng s e)\<lparr>e_status := st, e_running := False\<rparr>" and "k_xfer s3 = k_xfer s" and "woken [] s s3"
proof
  have e: "e \<noteq> NULL" using inv by (simp add: qinv_def)
  define s1 where "s1 = sv_status ev e 0 s"
  define s2 where "s2 = sv_stop ev e 0 s1"
  define s3 where "s3 = snd (sv_count ev e 0 s2)"
  have "qinv e s1" using inv qinv_status_read by (simp add: s1_def sv_status_def)
  then have "qinv e s2" using qinv_shutdown by (simp add: s2_def sv_stop_def)
  then show "qinv e s3" using qinv_read by (simp add: s3_def sv_count_def)
  have k1: "k_eng s1 = (k_eng s)(e := (k_eng s e)\<lparr>e_status := st\<rparr>)" "k_xfer s1 = k_xfer s" "woken [] s s1"
    using e status by (simp_all add: s1_def sv_status_def woken_def Let_def)
  then have k2: "k_eng s2 = (k_eng s)(e := (k_eng s e)\<lparr>e_status := st, e_running := False\<rparr>)" "k_xfer s2 = k_xfer s"
    "woken [] s1 s2"
    using e run idle by (simp_all add: s2_def sv_stop_def woken_def engine_service_shutdown_def split_beta Let_def)
  then have k3: "k_eng s3 = k_eng s2" "k_xfer s3 = k_xfer s" "woken [] s2 s3" "fst (sv_count ev e 0 s2) = c"
    using count by (simp_all add: s3_def sv_count_def woken_def)
  show "woken [] s s3"
    using woken_trans [OF woken_trans [OF k1(3) k2(3)] k3(3), of "[]" "[]"] by simp
  show "k_eng s3 e = (k_eng s e)\<lparr>e_status := st, e_running := False\<rparr>" "k_xfer s3 = k_xfer s" using k2 k3 by simp_all
  show "engine_service ev e 0 s = (0, snd (engine_service_queue ev e c s3))"
    using k3(4) count(2) by (simp add: service_parts [OF e run] Let_def s3_def s2_def s1_def)
qed

lemma queue_served_from:
  assumes "queue_served e ts k st s3 s'" and "k_xfer s3 = k_xfer s" and "woken [] s s3"
  shows "queue_served e ts k st s s'"
  using assms woken_trans [of "[]" s s3 "take (Suc k) ts" s' "take (Suc k) ts"] by (simp add: queue_served_def)

subsection \<open>Properties\<close>

text \<open>C2: Interrupt service completes transfers first in, first out, and exactly those the device has
  finished.  When the device stopped without an error after completing the descriptors of the
  queued transfers up to position \<open>k\<close>, one service call marks these completed, wakes their waiters and
  takes them off the queue; every other transfer is left as it was, and the engine is running again
  exactly when transfers are left.\<close>

theorem service_completes_fifo:
  assumes "qinv e s" and "e_running (k_eng s e)" and "e_transfer_list (k_eng s e) = ts" and "k < length ts"
    and "\<not> e_eop_flush (k_eng s e)" and "\<And>t. t \<in> set ts \<Longrightarrow> \<not> t_cyclic (k_xfer s t)"
    and "\<And>tr. hw ev tr (ereg (k_eng s e) ''status_rc'') = st"
    and idle: "st AND (XDMA_STAT_BUSY OR XDMA_STAT_C2H_ERR_MASK OR XDMA_STAT_H2C_ERR_MASK) = 0"
    and "\<And>tr. hw ev tr (ereg (k_eng s e) ''completed_desc_count'') = c" and "c \<noteq> 0"
    and "unat (c - e_desc_dequeued (k_eng s e)) = (\<Sum>t \<leftarrow> take (Suc k) ts. unat (t_desc_num (k_xfer s t)))"
  shows "fst (engine_service ev e 0 s) = 0 \<and>
    queue_served e ts k TRANSFER_STATE_COMPLETED s (snd (engine_service ev e 0 s))"
proof -
  have st: "st AND XDMA_STAT_BUSY = 0" "st AND XDMA_STAT_C2H_ERR_MASK = 0" "st AND XDMA_STAT_H2C_ERR_MASK = 0"
    using idle by (simp_all add: bit.conj_disj_distrib word_or_eq_0)
  obtain s3 where s3: "engine_service ev e 0 s = (0, snd (engine_service_queue ev e c s3))" "qinv e s3"
    "k_eng s3 e = (k_eng s e)\<lparr>e_status := st, e_running := False\<rparr>" "k_xfer s3 = k_xfer s" "woken [] s s3"
    using service_to_queue [OF assms(1,2,7) st(1) assms(9,10)] by metis
  have "\<not> status_error (k_eng s3 e)" using st by (simp add: s3(3) status_error_def)
  then have "queue_served e ts k TRANSFER_STATE_COMPLETED s3 (snd (engine_service_queue ev e c s3))"
    by (intro queue_completes [OF s3(2)]) (use assms in \<open>simp_all add: s3(3,4)\<close>)
  with s3(1,4,5) show ?thesis by (simp add: queue_served_from)
qed


text \<open>A concrete instance: three transfers of 3, 2 and 4 descriptors, of which the device has finished
  the first two.\<close>

definition three_transfers :: kst where
  "three_transfers = kst0\<lparr>
     trace := [Wr 0x10004 1],
     k_eng := (\<lambda>_. zero_engine)(1 := zero_engine\<lparr>e_magic := MAGIC_ENGINE, e_xdev := 9, e_regs := 0x10000,
       e_sgdma_regs := 0x14000, e_dir := DMA_TO_DEVICE, e_running := True, e_transfer_list := [2, 3, 4]\<rparr>),
     k_xfer := (\<lambda>_. zero_transfer\<lparr>t_state := TRANSFER_STATE_SUBMITTED\<rparr>)
       (2 := zero_transfer\<lparr>t_state := TRANSFER_STATE_SUBMITTED, t_desc_num := 3\<rparr>,
        3 := zero_transfer\<lparr>t_state := TRANSFER_STATE_SUBMITTED, t_desc_num := 2\<rparr>,
        4 := zero_transfer\<lparr>t_state := TRANSFER_STATE_SUBMITTED, t_desc_num := 4\<rparr>),
     k_dev := (\<lambda>_. zero_dev\<lparr>d_bar := (\<lambda>_. 0x10000)\<rparr>)\<rparr>"

lemma three_transfers_qinv: "qinv 1 three_transfers"
  by (simp add: qinv_def three_transfers_def regs_placed_def in_bar_def run_consistent_def run_written_def
      queue_ok_def ereg_def reg_offsets zero_engine_def zero_transfer_def zero_dev_def SGDMA_OFFSET_FROM_CHANNEL_def
      XDMA_OFS_INT_CTRL_def XDMA_CTRL_RUN_STOP_def)

definition env_done5 :: env where
  "env_done5 = env0\<lparr>hw := (\<lambda>_ a. if a = 0x10048 then 5 else 0)\<rparr>"

theorem service_completes_fifo_witness:
  "e_transfer_list (k_eng (snd (engine_service env_done5 1 0 three_transfers)) 1) = [4] \<and>
   t_state (k_xfer (snd (engine_service env_done5 1 0 three_transfers)) 3) = TRANSFER_STATE_COMPLETED \<and>
   e_running (k_eng (snd (engine_service env_done5 1 0 three_transfers)) 1)"
proof -
  have eng: "e_transfer_list (k_eng three_transfers 1) = [2, 3, 4]" "e_running (k_eng three_transfers 1)"
    "\<not> e_eop_flush (k_eng three_transfers 1)" "e_desc_dequeued (k_eng three_transfers 1) = 0"
    "e_regs (k_eng three_transfers 1) = 0x10000"
    by (simp_all add: three_transfers_def zero_engine_def)
  have x: "\<not> t_cyclic (k_xfer three_transfers t)" for t
    by (simp add: three_transfers_def zero_transfer_def)
  have sum: "(\<Sum>t \<leftarrow> take 2 [2, 3, 4]. unat (t_desc_num (k_xfer three_transfers t))) = 5"
    by (simp add: three_transfers_def zero_transfer_def)
  have "queue_served 1 [2, 3, 4] 1 TRANSFER_STATE_COMPLETED three_transfers (snd (engine_service env_done5 1 0 three_transfers))"
    using service_completes_fifo [OF three_transfers_qinv eng(2,1), of 1 env_done5 0 5] x sum eng(3-)
    by (simp add: env_done5_def ereg_def reg_offsets)
  then show ?thesis by (simp add: queue_served_def)
qed

definition env_err :: env where
  "env_err = env0\<lparr>hw := (\<lambda>_ a. if a = 0x10048 then 4 else if a = 0x10044 then XDMA_STAT_MAGIC_STOPPED else 0)\<rparr>"



text \<open>A concrete run: the transfer of \<open>one_engine\<close> is queued on its idle engine, which starts it.\<close>

definition one_engine :: kst where
  "one_engine = one_transfer\<lparr>
     k_eng := (k_eng one_transfer)(1 := (k_eng one_transfer 1)\<lparr>e_transfer_list := []\<rparr>),
     k_dev := (\<lambda>_. zero_dev\<lparr>d_bar := (\<lambda>_. 0x10000)\<rparr>)\<rparr>"


text \<open>C36: Every entry point that takes the lock of an engine gives it back: the bottom half, the
  polled service and the queueing of a transfer leave the number of times any lock is held
  unchanged, on every path.\<close>

theorem engine_locks_balanced:
  assumes "e \<noteq> NULL"
  shows "held l (trace (engine_service_work ev e s)) = held l (trace s) \<and>
    held l (trace (snd (transfer_queue ev e t s))) = held l (trace s) \<and>
    (\<forall>n rv s'. engine_service_poll ev e n s = Some (rv, s') \<longrightarrow> held l (trace s') = held l (trace s))"
proof (intro conjI allI impI)
  show "held l (trace (engine_service_work ev e s)) = held l (trace s)"
    using assms by (simp add: engine_service_work_def Let_def split_beta)
  show "held l (trace (snd (transfer_queue ev e t s))) = held l (trace s)"
    by (simp add: transfer_queue_def Let_def split_beta)
  fix n rv s'
  assume p: "engine_service_poll ev e n s = Some (rv, s')"
  have "held l (trace s1) = held l (trace s)" if "engine_service_wb_monitor ev e n s = Some (w, s1)" for w s1
    using that wb_poll_polled [of ev _ n _ 0 s "(w, s1)"] assms
    by (auto simp: engine_service_wb_monitor_def polled_def Let_def split: if_splits)
  with p show "held l (trace s') = held l (trace s)"
    using assms by (auto simp: engine_service_poll_def Let_def split_beta split: if_splits option.splits)
qed

theorem engine_locks_balanced_witness:
  "held (LkEngine 1) (trace (engine_service_work env0 1 one_engine)) = 0"
  using engine_locks_balanced [of 1 "LkEngine 1" env0 one_engine 2]
  by (simp add: one_engine_def one_transfer_def kst0_def)

text \<open>The answer of \<open>transfer_queue\<close>: decided by the arguments, the offline flag of the device and a
  pending shutdown.\<close>

definition queue_answer :: "ptr \<Rightarrow> ptr \<Rightarrow> kst \<Rightarrow> int" where
  "queue_answer e t s =
     (if e = NULL \<or> e_xdev (k_eng s e) = NULL \<or> t = NULL \<or> t_desc_num (k_xfer s t) = 0 then - EINVAL
      else if d_flags (k_dev s (e_xdev (k_eng s e))) AND XDEV_FLAG_OFFLINE \<noteq> 0 \<or>
              e_shutdown (k_eng s e) AND ENGINE_SHUTDOWN_REQUEST \<noteq> 0 then - EBUSY
      else 0)"

lemma transfer_queue_refused:
  assumes "queue_answer e t s \<noteq> 0"
  shows "fst (transfer_queue ev e t s) = queue_answer e t s" and "k_eng (snd (transfer_queue ev e t s)) = k_eng s"
    and "k_xfer (snd (transfer_queue ev e t s)) = k_xfer s"
  using assms by (auto simp: queue_answer_def transfer_queue_def Let_def split_beta errno_defs split: if_splits)

lemma transfer_queue_accepted:
  assumes "queue_answer e t s = 0" and "NULL \<notin> set (e_transfer_list (k_eng s e))"
  shows "fst (transfer_queue ev e t s) = 0"
    and "e_transfer_list (k_eng (snd (transfer_queue ev e t s)) e) = e_transfer_list (k_eng s e) @ [t]"
    and "t_state (k_xfer (snd (transfer_queue ev e t s)) t) = TRANSFER_STATE_SUBMITTED"
    and "e_running (k_eng (snd (transfer_queue ev e t s)) e)"
proof -
  have a: "e \<noteq> NULL" "e_xdev (k_eng s e) \<noteq> NULL" "t \<noteq> NULL" "t_desc_num (k_xfer s t) \<noteq> 0"
    "d_flags (k_dev s (e_xdev (k_eng s e))) AND XDEV_FLAG_OFFLINE = 0"
    "e_shutdown (k_eng s e) AND ENGINE_SHUTDOWN_REQUEST = 0"
    using assms(1) by (auto simp: queue_answer_def errno_defs split: if_splits)
  define s1 where "s1 = upd_eng e (\<lambda>g. g\<lparr>e_transfer_list := e_transfer_list g @ [t]\<rparr>)
    (upd_xfer t (\<lambda>x. x\<lparr>t_state := TRANSFER_STATE_SUBMITTED\<rparr>) (emit (Acquire (LkEngine e))
      (snd (xdma_device_flag_check (e_xdev (k_eng s e)) XDEV_FLAG_OFFLINE s))))"
  have eq: "transfer_queue ev e t s = (0, emit (Release (LkEngine e))
      (if e_running (k_eng s e) then s1 else snd (engine_start ev e s1)))"
    using a by (simp add: transfer_queue_def Let_def split_beta s1_def)
  show "fst (transfer_queue ev e t s) = 0" by (simp add: eq)
  obtain u us where u: "e_transfer_list (k_eng s1 e) = u # us" "u \<noteq> NULL"
    using assms(2) a(3) by (cases "e_transfer_list (k_eng s e)") (auto simp: s1_def)
  have s1: "e_transfer_list (k_eng s1 e) = e_transfer_list (k_eng s e) @ [t]"
    "t_state (k_xfer s1 t) = TRANSFER_STATE_SUBMITTED" "e_running (k_eng s1 e) = e_running (k_eng s e)"
    by (simp_all add: s1_def)
  consider "e_running (k_eng s e)" | "\<not> e_running (k_eng s1 e)" using s1(3) by blast
  then have "e_transfer_list (k_eng (snd (transfer_queue ev e t s)) e) = e_transfer_list (k_eng s e) @ [t] \<and>
    t_state (k_xfer (snd (transfer_queue ev e t s)) t) = TRANSFER_STATE_SUBMITTED \<and>
    e_running (k_eng (snd (transfer_queue ev e t s)) e)"
  proof cases
    case 2
    note st = engine_start_ok [OF a(1) 2 u, of ev]
    from 2 st(2,3) s1 show ?thesis by (auto simp: eq)
  qed (simp add: eq s1)
  then show "e_transfer_list (k_eng (snd (transfer_queue ev e t s)) e) = e_transfer_list (k_eng s e) @ [t]"
    and "t_state (k_xfer (snd (transfer_queue ev e t s)) t) = TRANSFER_STATE_SUBMITTED"
    and "e_running (k_eng (snd (transfer_queue ev e t s)) e)" by auto
qed

text \<open>C34: Queueing a transfer either refuses it and changes no structure, or puts it at the end of the
  queue as submitted and leaves the engine running; the answer is decided by the arguments, the offline
  flag of the device and a pending shutdown.\<close>

theorem transfer_queue_contract:
  assumes "NULL \<notin> set (e_transfer_list (k_eng s e))"
  shows "fst (transfer_queue ev e t s) = queue_answer e t s \<and>
    (let s' = snd (transfer_queue ev e t s)
     in if queue_answer e t s = 0
        then e_transfer_list (k_eng s' e) = e_transfer_list (k_eng s e) @ [t] \<and>
             t_state (k_xfer s' t) = TRANSFER_STATE_SUBMITTED \<and> e_running (k_eng s' e)
        else k_eng s' = k_eng s \<and> k_xfer s' = k_xfer s)"
  using transfer_queue_refused [of e t s ev] transfer_queue_accepted [OF _ assms, of t ev]
  by (cases "queue_answer e t s = 0") (simp_all add: Let_def)

theorem transfer_queue_contract_witness:
  "fst (transfer_queue env0 1 2 one_engine) = 0 \<and>
   fst (transfer_queue env0 1 2 (xdma_device_flag_set 9 XDEV_FLAG_OFFLINE one_engine)) = - EBUSY"
proof -
  have "queue_answer 1 2 one_engine = 0"
    "queue_answer 1 2 (xdma_device_flag_set 9 XDEV_FLAG_OFFLINE one_engine) = - EBUSY"
    by (simp_all add: queue_answer_def one_engine_def one_transfer_def zero_engine_def zero_dev_def
        xdma_device_flag_set_def XDEV_FLAG_OFFLINE_def errno_defs)
  then show ?thesis
    using transfer_queue_contract [of one_engine 1 env0 2]
      transfer_queue_contract [of "xdma_device_flag_set 9 XDEV_FLAG_OFFLINE one_engine" 1 env0 2]
    by (simp add: one_engine_def xdma_device_flag_set_def)
qed

subsection \<open>Polling\<close>

lemma wb_poll_unfold:
  "wb_poll ev wb n to l s =
     (let s1 = snd (read_register ev wb s); w = hw ev (trace s) wb;
          s2 = (if w \<noteq> 0 then write_register 0 wb s1 else s1);
          s3 = (if l \<noteq> 0 \<and> l mod NUM_POLLS_PER_SCHED = 0 then emit (Kernel ''schedule'' 0 0) s2 else s2)
      in if w AND WB_ERR_MASK \<noteq> 0 \<or> n \<le> w then Some (w, s2)
         else if time_after (jiffies ev (trace s2)) to then Some (w, s2)
         else wb_poll ev wb n to (l + 1) s3)"
proof -
  have "\<not> n < w AND WB_COUNT_MASK" if "\<not> n \<le> w" for w
    using that word_and_le2 [of w WB_COUNT_MASK] by (meson leD le_less_trans less_imp_le linorder_not_less order.trans)
  then show ?thesis
    by (subst wb_poll.simps) (auto simp: Let_def split_beta)
qed

text \<open>C35: Polling for a write-back returns: if the clock has passed the deadline once the driver has
  polled often enough, the loop ends, whatever the device writes.  What it returns has the error bit, or
  counts at least the expected descriptors, or came after the deadline; a late count is returned as
  it is, since it is smaller than the expected one.\<close>

theorem wb_poll_returns:
  assumes "\<And>tr. N \<le> length tr \<Longrightarrow> time_after (jiffies ev tr) deadline"
  shows "\<exists>w s'. wb_poll ev wb n deadline l s = Some (w, s') \<and>
    (w AND WB_ERR_MASK \<noteq> 0 \<or> n \<le> w \<or> (w < n \<and> time_after (jiffies ev (trace s')) deadline))"
proof (induction "N - length (trace s)" arbitrary: l s rule: less_induct)
  case less
  define s1 where "s1 = snd (read_register ev wb s)"
  define s2 where "s2 = (if hw ev (trace s) wb \<noteq> 0 then write_register 0 wb s1 else s1)"
  define s3 where "s3 = (if l \<noteq> 0 \<and> l mod NUM_POLLS_PER_SCHED = 0 then emit (Kernel ''schedule'' 0 0) s2 else s2)"
  have u: "wb_poll ev wb n deadline l s =
      (if hw ev (trace s) wb AND WB_ERR_MASK \<noteq> 0 \<or> n \<le> hw ev (trace s) wb then Some (hw ev (trace s) wb, s2)
       else if time_after (jiffies ev (trace s2)) deadline then Some (hw ev (trace s) wb, s2)
       else wb_poll ev wb n deadline (l + 1) s3)"
    by (subst wb_poll_unfold) (simp only: Let_def s1_def s2_def s3_def)
  have len: "length (trace s) < length (trace s2)" "length (trace s2) \<le> length (trace s3)"
    by (simp_all add: s1_def s2_def s3_def)
  show ?case
  proof (cases "hw ev (trace s) wb AND WB_ERR_MASK \<noteq> 0 \<or> n \<le> hw ev (trace s) wb \<or> time_after (jiffies ev (trace s2)) deadline")
    case True
    then show ?thesis by (auto simp: u)
  next
    case False
    then have "\<not> N \<le> length (trace s2)" using assms by blast
    then have "N - length (trace s3) < N - length (trace s)" using len by simp
    from less.hyps [OF this, of "l + 1"] False show ?thesis by (simp add: u)
  qed
qed

theorem wb_poll_returns_witness:
  "\<exists>w s'. wb_poll (env0\<lparr>jiffies := (\<lambda>tr. of_nat (min (length tr) 2501))\<rparr>) 0x5000 3 2500 0 kst0 = Some (w, s')"
  using wb_poll_returns [of 2501 "env0\<lparr>jiffies := (\<lambda>tr. of_nat (min (length tr) 2501))\<rparr>" 2500]
  by (fastforce simp: time_after_def)

end
