(* ===== verification/Xdma_Submit.thy ===== *)
theory Xdma_Submit
  imports Xdma_Setup Xdma_Devlist Xdma_Fifo
begin

text \<open>
  Submitting requests (\<^verbatim>\<open>libxdma.c\<close>): the synchronous \<open>xdma_xfer_submit\<close>, with the checks
  and helpers the other entry points share.

  A synchronous submission sleeps until its transfer leaves the submitted state, a signal arrives or
  the time is over.  What other threads and interrupts do meanwhile is the function \<open>others\<close>, a
  parameter; the state it returns is the one the sleeper wakes up in.
\<close>

subsection \<open>Mapping and unmapping\<close>

text \<open>\<open>pci_map_sg\<close> fills in the bus addresses of the entries and returns their number; a table that
  is mapped already must not be empty.  The result is 0 or an error.\<close>

definition map_sgt :: "env \<Rightarrow> bool \<Rightarrow> ptr \<Rightarrow> kst \<Rightarrow> int \<times> kst" where
  "map_sgt ev dma_mapped sgt s =
     (if \<not> dma_mapped then
        let es = dma_map ev (trace s) (take (orig_nents (k_sgt s sgt)) (sgl (k_sgt s sgt)));
            s = emit (Kernel ''pci_map_sg'' sgt (int (length es))) s
        in if es = [] then (- EIO, s)
           else (0, upd_sgt sgt (\<lambda>g. g\<lparr>sgl := es, nents := length es\<rparr>) s)
      else if nents (k_sgt s sgt) = 0 then (- EIO, s)
      else (0, s))"

definition unmap_sgt :: "bool \<Rightarrow> ptr \<Rightarrow> kst \<Rightarrow> kst" where
  "unmap_sgt dma_mapped sgt s =
     (if \<not> dma_mapped \<and> nents (k_sgt s sgt) \<noteq> 0
      then upd_sgt sgt (\<lambda>g. g\<lparr>nents := 0\<rparr>) (emit (Kernel ''pci_unmap_sg'' sgt (int (nents (k_sgt s sgt)))) s)
      else s)"

subsection \<open>Checks shared by the entry points\<close>

text \<open>The engine of a channel, if the device has that channel.\<close>

definition channel_engine :: "ptr \<Rightarrow> nat \<Rightarrow> bool \<Rightarrow> kst \<Rightarrow> ptr option" where
  "channel_engine xdev channel write s =
     (if write then if channel \<ge> d_h2c_channel_max (k_dev s xdev) then None else Some (d_engine_h2c (k_dev s xdev) channel)
      else if channel \<ge> d_c2h_channel_max (k_dev s xdev) then None else Some (d_engine_c2h (k_dev s xdev) channel))"

definition xfer_dir :: "bool \<Rightarrow> dma_data_direction" where
  "xfer_dir write = (if write then DMA_TO_DEVICE else DMA_FROM_DEVICE)"

text \<open>The checks at the start of \<open>xdma_xfer_submit\<close> and \<open>xdma_xfer_submit_nowait\<close>: an error, or the engine.\<close>

definition submit_checks :: "ptr \<Rightarrow> nat \<Rightarrow> bool \<Rightarrow> kst \<Rightarrow> (int + ptr) \<times> kst" where
  "submit_checks dev_hndl channel write s =
     (if dev_hndl = NULL then (Inl (- EINVAL), s)
      else
        let (rv, s) = debug_check_dev_hndl (d_pdev (k_dev s dev_hndl)) dev_hndl s
        in if rv < 0 then (Inl (- EINVAL), s)
           else case channel_engine dev_hndl channel write s of
                  None \<Rightarrow> (Inl (- EINVAL), s)
                | Some engine \<Rightarrow>
                    if engine = NULL then (Inl (- EINVAL), s)
                    else if e_magic (k_eng s engine) \<noteq> MAGIC_ENGINE then (Inl (- EINVAL), s)
                    else
                      let (offline, s) = xdma_device_flag_check (e_xdev (k_eng s engine)) XDEV_FLAG_OFFLINE s
                      in if offline \<noteq> 0 then (Inl (- EBUSY), s)
                         else if e_dir (k_eng s engine) \<noteq> xfer_dir write then (Inl (- EINVAL), s)
                         else (Inr engine, s))"

text \<open>The address of transfer \<open>i\<close> embedded in a request.\<close>

definition tfer :: "env \<Rightarrow> xdma_request_cb \<Rightarrow> nat \<Rightarrow> ptr" where
  "tfer ev req i = r_addr req + offsetof_tfer ev + i * sizeof_transfer ev"

subsection \<open>Synchronous submission\<close>

text \<open>The lengths the device wrote into \<open>k\<close> result blocks from block \<open>i\<close> on.\<close>

fun result_lengths :: "env \<Rightarrow> ptr \<Rightarrow> nat \<Rightarrow> nat \<Rightarrow> kst \<Rightarrow> int \<times> kst" where
  "result_lengths ev result i 0 s = (0, s)"
| "result_lengths ev result i (Suc k) s =
     (let (len, s) = read_register ev (result + sizeof_xdma_result * i + 4) s;
          (rest, s) = result_lengths ev result (Suc i) k s
      in (uint len + rest, s))"

text \<open>Marking a transfer that has just been built, as the loops of submission do.\<close>

definition mark_last :: "bool \<Rightarrow> bool \<Rightarrow> ptr \<Rightarrow> ptr \<Rightarrow> kst \<Rightarrow> kst" where
  "mark_last dma_mapped is_last sgt xfer s =
     (let s = (if \<not> dma_mapped then upd_xfer xfer (\<lambda>x. x\<lparr>t_flags := XFER_FLAG_NEED_UNMAP\<rparr>) s else s)
      in if is_last then upd_xfer xfer (\<lambda>x. x\<lparr>t_last_in_request := True, t_sgt := sgt\<rparr>) s else s)"

definition wake_thread :: "ptr \<Rightarrow> kst \<Rightarrow> kst" where
  "wake_thread e s = (if e_cmplthp (k_eng s e) \<noteq> NULL then xdma_kthread_wakeup (e_cmplthp (k_eng s e)) s else s)"

text \<open>A transfer that timed out: its engine is dumped, the transfer aborted, the engine stopped.\<close>

definition give_up :: "env \<Rightarrow> ptr \<Rightarrow> ptr \<Rightarrow> kst \<Rightarrow> kst" where
  "give_up ev e xfer s =
     (let (rv, s) = engine_status_read ev e False True s
      in if rv < 0 then s
         else if rv = 0 then
           let (rv, s) = transfer_abort e xfer s
           in if rv < 0 then s else if rv = 0 then snd (xdma_engine_stop ev e s) else s
         else s)"

text \<open>What the sleeper does when it wakes up: the result, the bytes moved and whether the rest of the
  request is dropped because the packet has ended.\<close>

definition submit_outcome :: "env \<Rightarrow> ptr \<Rightarrow> ptr \<Rightarrow> kst \<Rightarrow> (int \<times> int \<times> bool) \<times> kst" where
  "submit_outcome ev e xfer s =
     (let s = emit (Acquire (LkEngine e)) s
      in case t_state (k_xfer s xfer) of
           TRANSFER_STATE_COMPLETED \<Rightarrow>
             (let s = emit (Release (LkEngine e)) s
              in if e_streaming (k_eng s e) \<and> e_dir (k_eng s e) = DMA_FROM_DEVICE then
                   let (n, s) = result_lengths ev (t_res_virt (k_xfer s xfer)) 0 (nat (sint (t_desc_cmpl (k_xfer s xfer)))) s
                   in ((0, n, e_eop_flush (k_eng s e)), s)
                 else ((0, uint (t_len (k_xfer s xfer)), False), s))
         | TRANSFER_STATE_FAILED \<Rightarrow> ((- EIO, 0, False), emit (Release (LkEngine e)) s)
         | _ \<Rightarrow> ((- ERESTARTSYS, 0, False), emit (Release (LkEngine e)) (give_up ev e xfer s)))"

text \<open>Handing a built transfer to the device and waiting for it: queue it, wake the completion thread,
  sleep, look at the outcome, give the descriptors back.  On an error of \<open>transfer_queue\<close> nothing is
  given back (\<open>Inl\<close>).\<close>

definition run_transfer :: "env \<Rightarrow> (kst \<Rightarrow> kst) \<Rightarrow> ptr \<Rightarrow> ptr \<Rightarrow> kst \<Rightarrow> (int + (int \<times> int \<times> bool)) \<times> kst" where
  "run_transfer ev others e xfer s =
     (let (rv, s) = transfer_queue ev e xfer s
      in if rv < 0 then (Inl rv, s)
         else
           let s = others (wake_thread e s);
               (out, s) = submit_outcome ev e xfer s;
               s = upd_eng e (\<lambda>g. g\<lparr>e_desc_used := e_desc_used g - t_desc_num (k_xfer s xfer)\<rparr>) s
           in (Inr out, transfer_destroy (e_xdev (k_eng s e)) xfer s))"

text \<open>The loop of \<open>xdma_xfer_submit\<close>, with \<open>n\<close> software descriptors to go and \<open>done\<close> bytes moved; it
  returns the last result and the bytes moved.  \<open>None\<close> is a loop that does not end.\<close>

partial_function (option) submit_loop ::
    "env \<Rightarrow> (kst \<Rightarrow> kst) \<Rightarrow> ptr \<Rightarrow> bool \<Rightarrow> ptr \<Rightarrow> xdma_request_cb \<Rightarrow> u32 \<Rightarrow> int \<Rightarrow> kst \<Rightarrow> ((int \<times> int) \<times> kst) option" where
  "submit_loop ev others e dma_mapped sgt req n dn s =
     (if n = 0 then Some ((0, dn), s)
      else
        let xfer = tfer ev req 0;
            ((rv, req), s) = transfer_init e req xfer s
        in if rv < 0 then Some ((rv, dn), s)
           else
             let n = n - t_desc_num (k_xfer s xfer);
                 s = mark_last dma_mapped (n = 0) sgt xfer s
             in case run_transfer ev others e xfer s of
                  (Inl rv, s) \<Rightarrow> Some ((rv, dn), s)
                | (Inr (rv, len, flush), s) \<Rightarrow>
                    if rv < 0 then Some ((rv, dn + len), s)
                    else submit_loop ev others e dma_mapped sgt req (if flush then 0 else n) (dn + len) s)"

text \<open>\<open>xdma_xfer_submit\<close>: the number of bytes moved, or the error when none was.  \<open>None\<close> stands for a
  write outside the request (see \<open>ReqOverflow\<close>) or a loop without end.\<close>

definition xdma_xfer_submit ::
    "env \<Rightarrow> (kst \<Rightarrow> kst) \<Rightarrow> ptr \<Rightarrow> nat \<Rightarrow> bool \<Rightarrow> u64 \<Rightarrow> ptr \<Rightarrow> bool \<Rightarrow> kst \<Rightarrow> (int \<times> kst) option" where
  "xdma_xfer_submit ev others dev_hndl channel write ep_addr sgt dma_mapped s =
     (case submit_checks dev_hndl channel write s of
        (Inl rv, s) \<Rightarrow> Some (rv, s)
      | (Inr e, s) \<Rightarrow>
          let (rv, s) = map_sgt ev dma_mapped sgt s
          in if rv < 0 then Some (rv, s)
             else case xdma_init_request ev sgt ep_addr s of
                    (ReqOverflow, s) \<Rightarrow> None
                  | (ReqNull, s) \<Rightarrow> Some (- ENOMEM, unmap_sgt dma_mapped sgt s)
                  | (Req req, s) \<Rightarrow>
                      let s = emit (Acquire (LkDesc e)) s
                      in case submit_loop ev others e dma_mapped sgt req (r_sw_desc_cnt req) 0 s of
                           None \<Rightarrow> None
                         | Some ((rv, dn), s) \<Rightarrow>
                             let s = emit (Release (LkDesc e)) s;
                                 s = unmap_sgt dma_mapped sgt s;
                                 s = xdma_request_free (r_addr req) s
                             in Some (if dn \<noteq> 0 then dn else rv, s))"

subsection \<open>Queueing on an idle engine\<close>

lemma mode_config_regs [simp]: "e \<noteq> NULL \<Longrightarrow> e_regs (k_eng (snd (engine_start_mode_config ev e s)) e) = e_regs (k_eng s e)"
  by (simp add: engine_start_mode_config_def Let_def split_beta)

lemma engine_start_status:
  assumes "e \<noteq> NULL" and "\<not> e_running (k_eng s e)" and "e_transfer_list (k_eng s e) = t # ts" and "t \<noteq> NULL"
  shows "\<exists>tr. e_status (k_eng (snd (engine_start ev e s)) e) = hw ev tr (ereg (k_eng s e) ''status'')"
  using assms by (simp add: engine_start_def Let_def split_beta ereg_def) blast

lemma queue_idle:
  fixes ev e t s
  defines "s' \<equiv> snd (transfer_queue ev e t s)"
  assumes ans: "queue_answer e t s = 0" and idle: "e_transfer_list (k_eng s e) = []" "\<not> e_running (k_eng s e)"
  shows "fst (transfer_queue ev e t s) = 0"
    and "\<exists>w. k_eng s' = (k_eng s)(e := (k_eng s e)\<lparr>e_transfer_list := [t], e_shutdown := ENGINE_SHUTDOWN_NONE, e_desc_dequeued := 0,
       e_status := w, e_running := True\<rparr>)"
    and "k_xfer s' = (k_xfer s)(t := (k_xfer s t)\<lparr>t_state := TRANSFER_STATE_SUBMITTED\<rparr>)" and "k_dev s' = k_dev s"
    and "\<exists>tr. e_status (k_eng s' e) = hw ev tr (ereg (k_eng s e) ''status'')"
proof -
  have a: "e \<noteq> NULL" "e_xdev (k_eng s e) \<noteq> NULL" "t \<noteq> NULL" "t_desc_num (k_xfer s t) \<noteq> 0"
    "d_flags (k_dev s (e_xdev (k_eng s e))) AND XDEV_FLAG_OFFLINE = 0"
    "e_shutdown (k_eng s e) AND ENGINE_SHUTDOWN_REQUEST = 0"
    using ans by (auto simp: queue_answer_def errno_defs split: if_splits)
  define s1 where "s1 = upd_eng e (\<lambda>g. g\<lparr>e_transfer_list := e_transfer_list g @ [t]\<rparr>)
    (upd_xfer t (\<lambda>x. x\<lparr>t_state := TRANSFER_STATE_SUBMITTED\<rparr>) (emit (Acquire (LkEngine e))
      (snd (xdma_device_flag_check (e_xdev (k_eng s e)) XDEV_FLAG_OFFLINE s))))"
  have eq: "transfer_queue ev e t s = (0, emit (Release (LkEngine e)) (snd (engine_start ev e s1)))"
    using a idle by (simp add: transfer_queue_def Let_def split_beta s1_def)
  have s1: "\<not> e_running (k_eng s1 e)" "e_transfer_list (k_eng s1 e) = [t]"
    using idle by (simp_all add: s1_def)
  note st = engine_start_ok [OF a(1) s1 a(3), of ev]
  show "fst (transfer_queue ev e t s) = 0" by (simp add: eq)
  show "k_xfer s' = (k_xfer s)(t := (k_xfer s t)\<lparr>t_state := TRANSFER_STATE_SUBMITTED\<rparr>)" "k_dev s' = k_dev s"
    by (simp_all add: s'_def eq st(3,5)) (simp_all add: s1_def)
  have "\<exists>tr. e_status (k_eng (snd (engine_start ev e s1)) e) = hw ev tr (ereg (k_eng s1 e) ''status'')"
    by (rule engine_start_status [OF a(1) s1 a(3)])
  then show "\<exists>tr. e_status (k_eng s' e) = hw ev tr (ereg (k_eng s e) ''status'')"
    by (simp add: s'_def eq) (simp add: s1_def ereg_def)
  show "\<exists>w. k_eng s' = (k_eng s)(e := (k_eng s e)\<lparr>e_transfer_list := [t], e_shutdown := ENGINE_SHUTDOWN_NONE, e_desc_dequeued := 0,
       e_status := w, e_running := True\<rparr>)"
  proof -
    obtain w where "k_eng (snd (engine_start ev e s1)) = (k_eng s1)(e := (k_eng s1 e)
          \<lparr>e_shutdown := ENGINE_SHUTDOWN_NONE, e_desc_dequeued := 0, e_status := w, e_running := True\<rparr>)"
      using st(2) by blast
    then have "k_eng s' = (k_eng s)(e := (k_eng s e)\<lparr>e_transfer_list := [t], e_shutdown := ENGINE_SHUTDOWN_NONE, e_desc_dequeued := 0,
       e_status := w, e_running := True\<rparr>)"
      by (simp add: s'_def eq) (simp add: s1_def idle)
    then show ?thesis ..
  qed
qed

subsection \<open>What a submission relies on while it sleeps\<close>

text \<open>The descriptor ring and the configuration of an engine are unchanged.\<close>

definition same_ring :: "xdma_engine \<Rightarrow> xdma_engine \<Rightarrow> bool" where
  "same_ring g g' \<longleftrightarrow> e_desc_max g' = e_desc_max g \<and> e_desc_idx g' = e_desc_idx g \<and> e_desc_used g' = e_desc_used g \<and>
     e_desc g' = e_desc g \<and> e_desc_bus g' = e_desc_bus g \<and>
     e_dir g' = e_dir g \<and> e_streaming g' = e_streaming g \<and> e_eop_flush g' = e_eop_flush g \<and> e_xdev g' = e_xdev g \<and>
     e_non_incr_addr g' = e_non_incr_addr g \<and> e_regs g' = e_regs g \<and> e_magic g' = e_magic g"

text \<open>The state the sleeper leaves behind: its transfer is alone on the queue of the running engine.\<close>

definition waiting :: "ptr \<Rightarrow> ptr \<Rightarrow> kst \<Rightarrow> bool" where
  "waiting e x s \<longleftrightarrow> e \<noteq> NULL \<and> x \<noteq> NULL \<and> e_transfer_list (k_eng s e) = [x] \<and> e_running (k_eng s e) \<and> \<not> t_cyclic (k_xfer s x) \<and>
     t_state (k_xfer s x) = TRANSFER_STATE_SUBMITTED \<and> t_desc_num (k_xfer s x) \<noteq> 0 \<and> e_desc_dequeued (k_eng s e) = 0 \<and>
     e_shutdown (k_eng s e) AND ENGINE_SHUTDOWN_REQUEST = 0 \<and> \<not> e_eop_flush (k_eng s e) \<and> \<not> status_error (k_eng s e) \<and>
     unat (t_desc_num (k_xfer s x)) < 2 ^ 24"

text \<open>The contract of whoever completes transfers: it takes the transfer off the queue in the state
  \<open>st\<close> and touches nothing else of it, of the ring or of the device.\<close>

definition woke :: "transfer_state \<Rightarrow> ptr \<Rightarrow> ptr \<Rightarrow> kst \<Rightarrow> kst \<Rightarrow> bool" where
  "woke st e x s s' \<longleftrightarrow> (\<exists>c. k_xfer s' x = (k_xfer s x)\<lparr>t_state := st, t_desc_cmpl := c\<rparr>) \<and>
     e_transfer_list (k_eng s' e) = [] \<and> \<not> e_running (k_eng s' e) \<and> same_ring (k_eng s e) (k_eng s' e) \<and>
     e_shutdown (k_eng s' e) AND ENGINE_SHUTDOWN_REQUEST = 0 \<and> k_dev s' = k_dev s \<and> k_cb s' = k_cb s"

locale transfer_service =
  fixes others :: "kst \<Rightarrow> kst" and st :: transfer_state and e x :: ptr
  assumes serves: "waiting e x s \<Longrightarrow> woke st e x s (others s)"
begin

lemma serves_xfer:
  assumes "waiting e x s"
  shows "t_state (k_xfer (others s) x) = st" "t_len (k_xfer (others s) x) = t_len (k_xfer s x)"
    "t_desc_num (k_xfer (others s) x) = t_desc_num (k_xfer s x)"
  using serves [OF assms] by (auto simp: woke_def)

lemma serves_eng:
  assumes "waiting e x s"
  shows "e_transfer_list (k_eng (others s) e) = []" "\<not> e_running (k_eng (others s) e)"
    "same_ring (k_eng s e) (k_eng (others s) e)" "e_shutdown (k_eng (others s) e) AND ENGINE_SHUTDOWN_REQUEST = 0"
    "k_dev (others s) = k_dev s" "k_cb (others s) = k_cb s"
  using serves [OF assms] by (auto simp: woke_def)

end

subsection \<open>One transfer\<close>

text \<open>An engine that can take a transfer: nothing queued, not running, on line.\<close>

definition can_submit :: "ptr \<Rightarrow> kst \<Rightarrow> bool" where
  "can_submit e s \<longleftrightarrow> e \<noteq> NULL \<and> e_xdev (k_eng s e) \<noteq> NULL \<and> e_transfer_list (k_eng s e) = [] \<and> \<not> e_running (k_eng s e) \<and>
     e_shutdown (k_eng s e) AND ENGINE_SHUTDOWN_REQUEST = 0 \<and>
     d_flags (k_dev s (e_xdev (k_eng s e))) AND XDEV_FLAG_OFFLINE = 0"

text \<open>A memory-mapped engine without end-of-packet mode whose ring is small enough for the completion
  counter, on a device that reports no error.\<close>

definition plain_engine :: "env \<Rightarrow> xdma_engine \<Rightarrow> bool" where
  "plain_engine ev g \<longleftrightarrow> \<not> e_streaming g \<and> \<not> e_eop_flush g \<and> unat (e_desc_max g) < 2 ^ 24 \<and>
     (\<forall>tr. hw ev tr (ereg g ''status'') AND (XDMA_STAT_C2H_ERR_MASK OR XDMA_STAT_H2C_ERR_MASK) = 0)"

lemma plain_engine_cong: "same_ring g g' \<Longrightarrow> plain_engine ev g' = plain_engine ev g"
  by (simp add: same_ring_def plain_engine_def ereg_def)

lemma plain_engine_upd [simp]: "plain_engine ev (g\<lparr>e_desc_idx := i, e_desc_used := u\<rparr>) = plain_engine ev g"
  "plain_engine ev (g\<lparr>e_desc_used := u\<rparr>) = plain_engine ev g" "plain_engine ev (g\<lparr>e_desc_idx := i\<rparr>) = plain_engine ev g"
  by (simp_all add: plain_engine_def ereg_def)

lemma plain_no_error: "plain_engine ev g \<Longrightarrow> e_status g' = hw ev tr (ereg g ''status'') \<Longrightarrow> \<not> status_error g'"
  by (simp add: plain_engine_def status_error_def bit.conj_disj_distrib word_or_eq_0)

lemma wakeup_sel [simp]:
  "k_eng (wake_thread e s) = k_eng s" "k_xfer (wake_thread e s) = k_xfer s" "k_dev (wake_thread e s) = k_dev s"
  "k_desc (wake_thread e s) = k_desc s" "k_sgt (wake_thread e s) = k_sgt s" "held l (trace (wake_thread e s)) = held l (trace s)"
  by (simp_all add: wake_thread_def xdma_kthread_wakeup_def)

lemma mark_last_sel [simp]:
  "k_eng (mark_last m b sgt x s) = k_eng s" "k_dev (mark_last m b sgt x s) = k_dev s" "trace (mark_last m b sgt x s) = trace s"
  "t_len (k_xfer (mark_last m b sgt x s) x) = t_len (k_xfer s x)"
  "t_desc_num (k_xfer (mark_last m b sgt x s) x) = t_desc_num (k_xfer s x)"
  "t_cyclic (k_xfer (mark_last m b sgt x s) x) = t_cyclic (k_xfer s x)"
  "y \<noteq> x \<Longrightarrow> k_xfer (mark_last m b sgt x s) y = k_xfer s y"
  by (simp_all add: mark_last_def Let_def)

lemma desc_done_sgt [simp]: "k_sgt (xdma_desc_done dv n s) = k_sgt s"
  by (induction dv n s rule: xdma_desc_done.induct) simp_all

lemma transfer_destroy_sel [simp]:
  "k_eng (transfer_destroy d x s) = k_eng s" "k_xfer (transfer_destroy d x s) = k_xfer s" "k_dev (transfer_destroy d x s) = k_dev s"
  "held l (trace (transfer_destroy d x s)) = held l (trace s)" "writes (trace (transfer_destroy d x s)) = writes (trace s)"
  by (simp_all add: transfer_destroy_def Let_def)

context transfer_service
begin

lemma run_transfer_serves:
  assumes can: "can_submit e s" and x: "x \<noteq> NULL" "t_desc_num (k_xfer s x) \<noteq> 0" "\<not> t_cyclic (k_xfer s x)"
    and st: "st = TRANSFER_STATE_COMPLETED" and plain: "plain_engine ev (k_eng s e)"
    and num: "unat (t_desc_num (k_xfer s x)) \<le> unat (e_desc_max (k_eng s e))"
  shows "\<exists>s'. run_transfer ev others e x s = (Inr (0, uint (t_len (k_xfer s x)), False), s') \<and> can_submit e s' \<and>
    same_ring ((k_eng s e)\<lparr>e_desc_used := e_desc_used (k_eng s e) - t_desc_num (k_xfer s x)\<rparr>) (k_eng s' e) \<and> k_dev s' = k_dev s"
proof -
  have ans: "queue_answer e x s = 0" using can x by (simp add: queue_answer_def can_submit_def)
  have idle: "e_transfer_list (k_eng s e) = []" "\<not> e_running (k_eng s e)" using can by (simp_all add: can_submit_def)
  obtain s1 where q: "transfer_queue ev e x s = (0, s1)" using queue_idle(1) [OF ans idle, of ev] by (metis prod.collapse)
  note qi = queue_idle [OF ans idle, of ev, unfolded q snd_conv]
  define s2 where "s2 = wake_thread e s1"
  obtain w where g: "k_eng s2 = (k_eng s)(e := (k_eng s e)\<lparr>e_transfer_list := [x], e_shutdown := ENGINE_SHUTDOWN_NONE, e_desc_dequeued := 0,
       e_status := w, e_running := True\<rparr>)"
    using qi(2) by (auto simp: s2_def)
  have x2: "k_xfer s2 = (k_xfer s)(x := (k_xfer s x)\<lparr>t_state := TRANSFER_STATE_SUBMITTED\<rparr>)" "k_dev s2 = k_dev s"
    using qi(3,4) by (simp_all add: s2_def)
  have "\<not> status_error (k_eng s2 e)" using qi(5) plain_no_error [OF plain] by (auto simp: s2_def)
  moreover have "e_eop_flush (k_eng s2 e) = e_eop_flush (k_eng s e)" by (simp add: g)
  ultimately have wt: "waiting e x s2"
    using can x plain num by (simp add: waiting_def g x2 can_submit_def ENGINE_SHUTDOWN_NONE_def plain_engine_def)
  note sx = serves_xfer [OF wt] and sg = serves_eng [OF wt]
  have r: "same_ring (k_eng s e) (k_eng (others s2) e)" using sg(3) by (simp add: g same_ring_def)
  have len: "t_len (k_xfer (others s2) x) = t_len (k_xfer s x)" "t_desc_num (k_xfer (others s2) x) = t_desc_num (k_xfer s x)"
    using sx by (simp_all add: x2)
  define s3 where "s3 = emit (Release (LkEngine e)) (emit (Acquire (LkEngine e)) (others s2))"
  have nst: "\<not> e_streaming (k_eng (others s2) e)" using r plain by (simp add: same_ring_def plain_engine_def)
  have out: "submit_outcome ev e x (others s2) = ((0, uint (t_len (k_xfer s x)), False), s3)"
    using sx(1) st nst by (simp add: submit_outcome_def Let_def s3_def len)
  define s4 where "s4 = transfer_destroy (e_xdev (k_eng s3 e)) x
      (upd_eng e (\<lambda>g. g\<lparr>e_desc_used := e_desc_used g - t_desc_num (k_xfer s3 x)\<rparr>) s3)"
  have "run_transfer ev others e x s = (Inr (0, uint (t_len (k_xfer s x)), False), s4)"
    by (simp add: run_transfer_def q s2_def [symmetric] out s4_def)
  moreover have "can_submit e s4"
    using can sg r by (simp add: s4_def s3_def can_submit_def same_ring_def x2)
  moreover have "same_ring ((k_eng s e)\<lparr>e_desc_used := e_desc_used (k_eng s e) - t_desc_num (k_xfer s x)\<rparr>) (k_eng s4 e)"
    using r len by (simp add: s4_def s3_def same_ring_def)
  moreover have "k_dev s4 = k_dev s" using sg(5) by (simp add: s4_def s3_def x2)
  ultimately show ?thesis by blast
qed

end

subsection \<open>The loop\<close>

text \<open>The bytes of the software descriptors a request has left.\<close>

definition bytes_left :: "xdma_request_cb \<Rightarrow> nat" where
  "bytes_left req = (\<Sum>p \<leftarrow> drop (unat (r_sw_desc_idx req)) (r_sdesc req). unat (sd_len p))"

lemma unat_sum_list: "(\<Sum>p \<leftarrow> ps. unat (f p)) < 2 ^ 32 \<Longrightarrow> unat (\<Sum>p \<leftarrow> ps. f p :: u32) = (\<Sum>p \<leftarrow> ps. unat (f p))"
  by (induction ps) (simp_all add: unat_word_add_lt)

text \<open>One turn: a transfer takes the next pieces of the request.\<close>

lemma transfer_init_turn:
  fixes e req xf s
  defines "s' \<equiv> snd (transfer_init e req xf s)" and "req' \<equiv> snd (fst (transfer_init e req xf s))"
  assumes ring: "ring_ok (k_eng s e)" and req: "req_ok req" and more: "r_sw_desc_idx req < r_sw_desc_cnt req"
  shows "fst (fst (transfer_init e req xf s)) = 0" and "ring_ok (k_eng s' e)" and "req_ok req'"
    and "t_desc_num (k_xfer s' xf) \<noteq> 0" and "\<not> t_cyclic (k_xfer s' xf)" and "r_addr req' = r_addr req" and "r_sw_desc_cnt req' = r_sw_desc_cnt req"
    and "r_sw_desc_idx req' = r_sw_desc_idx req + t_desc_num (k_xfer s' xf)"
    and "unat (r_sw_desc_idx req') = unat (r_sw_desc_idx req) + unat (t_desc_num (k_xfer s' xf))"
    and "bytes_left req < 2 ^ 32 \<longrightarrow> unat (t_len (k_xfer s' xf)) + bytes_left req' = bytes_left req"
    and "same_ring ((k_eng s e)\<lparr>e_desc_idx := e_desc_idx (k_eng s' e), e_desc_used := e_desc_used (k_eng s e) + t_desc_num (k_xfer s' xf)\<rparr>) (k_eng s' e)"
    and "e_transfer_list (k_eng s' e) = e_transfer_list (k_eng s e)" and "e_running (k_eng s' e) = e_running (k_eng s e)"
    and "e_shutdown (k_eng s' e) = e_shutdown (k_eng s e)" and "k_dev s' = k_dev s" and "held l (trace s') = held l (trace s)"
    and "unat (t_desc_num (k_xfer s' xf)) \<le> unat (e_desc_max (k_eng s' e))"
proof -
  let ?n = "ring_take (k_eng s e) req"
  note sel = transfer_init_sel [OF ring req]
  have x: "t_desc_num (k_xfer s' xf) = ?n" "t_len (k_xfer s' xf) = (\<Sum>p \<leftarrow> xfer_sds (k_eng s e) req. sd_len p)" "\<not> t_cyclic (k_xfer s' xf)"
    by (simp_all add: s'_def sel new_xfer_def zero_transfer_def Let_def)
  show "fst (fst (transfer_init e req xf s)) = 0" "r_addr req' = r_addr req" "r_sw_desc_cnt req' = r_sw_desc_cnt req"
    "e_transfer_list (k_eng s' e) = e_transfer_list (k_eng s e)" "e_running (k_eng s' e) = e_running (k_eng s e)"
    "e_shutdown (k_eng s' e) = e_shutdown (k_eng s e)" "k_dev s' = k_dev s" "held l (trace s') = held l (trace s)"
    by (simp_all add: s'_def req'_def sel)
  show "\<not> t_cyclic (k_xfer s' xf)" by (rule x)
  show idx: "r_sw_desc_idx req' = r_sw_desc_idx req + t_desc_num (k_xfer s' xf)" by (simp add: req'_def sel x)
  show "ring_ok (k_eng s' e)"
    using ring ring_bounds(3) [OF ring req] by (simp add: s'_def sel ring_ok_def)
  have pos: "0 < unat ?n" by (rule ring_take_pos [OF ring req more])
  then show "t_desc_num (k_xfer s' xf) \<noteq> 0" by (auto simp: x)
  show "unat (t_desc_num (k_xfer s' xf)) \<le> unat (e_desc_max (k_eng s' e))"
    using ring_bounds(1) [OF ring req] by (simp add: x) (simp add: s'_def sel)
  have n: "unat ?n \<le> unat (r_sw_desc_cnt req) - unat (r_sw_desc_idx req)" by (simp add: ring_take_unat [OF ring req])
  have i: "unat (r_sw_desc_idx req) < unat (r_sw_desc_cnt req)" using more by (simp add: word_less_nat_alt)
  moreover have "unat (r_sw_desc_cnt req) < 2 ^ LENGTH(32)" by (rule unsigned_less)
  ultimately have u: "unat (r_sw_desc_idx req + ?n) = unat (r_sw_desc_idx req) + unat ?n"
    using n by (intro unat_word_add_lt) linarith
  then show u': "unat (r_sw_desc_idx req') = unat (r_sw_desc_idx req) + unat (t_desc_num (k_xfer s' xf))"
    by (simp add: idx x)
  show "req_ok req'" using req n i u by (simp add: req'_def sel req_ok_def word_le_nat_alt)
  show "same_ring ((k_eng s e)\<lparr>e_desc_idx := e_desc_idx (k_eng s' e), e_desc_used := e_desc_used (k_eng s e) + t_desc_num (k_xfer s' xf)\<rparr>) (k_eng s' e)"
    by (simp add: same_ring_def x(1)) (simp add: s'_def sel)
  show "bytes_left req < 2 ^ 32 \<longrightarrow> unat (t_len (k_xfer s' xf)) + bytes_left req' = bytes_left req"
  proof
    assume b: "bytes_left req < 2 ^ 32"
    let ?r = "drop (unat (r_sw_desc_idx req)) (r_sdesc req)"
    have sds: "xfer_sds (k_eng s e) req = take (unat ?n) ?r" by (simp add: xfer_sds_def)
    have split: "bytes_left req = (\<Sum>p \<leftarrow> take (unat ?n) ?r. unat (sd_len p)) + (\<Sum>p \<leftarrow> drop (unat ?n) ?r. unat (sd_len p))"
      unfolding bytes_left_def by (subst append_take_drop_id [of "unat ?n", symmetric]) (simp only: map_append sum_list_append)
    have rest: "bytes_left req' = (\<Sum>p \<leftarrow> drop (unat ?n) ?r. unat (sd_len p))"
      using u' by (simp add: bytes_left_def x(1) add.commute) (simp add: req'_def sel)
    have "unat (t_len (k_xfer s' xf)) = (\<Sum>p \<leftarrow> take (unat ?n) ?r. unat (sd_len p))"
      unfolding x(2) sds using b split by (intro unat_sum_list) linarith
    with split rest show "unat (t_len (k_xfer s' xf)) + bytes_left req' = bytes_left req" by simp
  qed
qed

lemma turn_decreases:
  assumes req: "req_ok req" and n: "n = r_sw_desc_cnt req - r_sw_desc_idx req" and more: "r_sw_desc_idx req < r_sw_desc_cnt req"
    and t: "req_ok req1" "k \<noteq> 0" "r_sw_desc_cnt req1 = r_sw_desc_cnt req" "r_sw_desc_idx req1 = r_sw_desc_idx req + k"
      "unat (r_sw_desc_idx req1) = unat (r_sw_desc_idx req) + unat k"
  shows "unat (n - k) < unat n" and "n - k = r_sw_desc_cnt req1 - r_sw_desc_idx req1"
proof -
  have idx: "unat (r_sw_desc_idx req1) \<le> unat (r_sw_desc_cnt req)"
    using t(1,3) by (simp add: req_ok_def word_le_nat_alt)
  have "unat n = unat (r_sw_desc_cnt req) - unat (r_sw_desc_idx req)"
    using more by (simp add: n unat_sub)
  moreover show n1: "n - k = r_sw_desc_cnt req1 - r_sw_desc_idx req1" by (simp add: t n)
  moreover have "unat (n - k) = unat (r_sw_desc_cnt req) - unat (r_sw_desc_idx req1)"
    using idx unfolding n1 t(3) by (intro unat_sub_le) (simp add: word_le_nat_alt)
  moreover have "0 < unat k" using t(2) by (simp add: unat_gt_0)
  ultimately show "unat (n - k) < unat n"
    using t(5) idx by linarith
qed

lemma can_submit_cong:
  "can_submit e s \<Longrightarrow> same_ring (g\<lparr>e_desc_idx := i, e_desc_used := u\<rparr>) (k_eng s' e) \<Longrightarrow> e_xdev g = e_xdev (k_eng s e) \<Longrightarrow>
   e_transfer_list (k_eng s' e) = e_transfer_list (k_eng s e) \<Longrightarrow>
   e_running (k_eng s' e) = e_running (k_eng s e) \<Longrightarrow> e_shutdown (k_eng s' e) = e_shutdown (k_eng s e) \<Longrightarrow> k_dev s' = k_dev s \<Longrightarrow> can_submit e s'"
  by (simp add: can_submit_def same_ring_def)

context transfer_service
begin

lemma submit_loop_serves:
  assumes st: "st = TRANSFER_STATE_COMPLETED" and x: "x \<noteq> NULL" "tfer ev req 0 = x"
    and can: "can_submit e s" and ring: "ring_ok (k_eng s e)" and mm: "plain_engine ev (k_eng s e)"
    and req: "req_ok req" and n: "n = r_sw_desc_cnt req - r_sw_desc_idx req" and b: "bytes_left req < 2 ^ 32"
  shows "\<exists>s'. submit_loop ev others e m sgt req n dn s = Some ((0, dn + int (bytes_left req)), s') \<and> can_submit e s' \<and>
    ring_ok (k_eng s' e) \<and> e_desc_used (k_eng s' e) = e_desc_used (k_eng s e) \<and> k_dev s' = k_dev s"
  using x(2) can ring mm req n b
proof (induction "unat n" arbitrary: n req dn s rule: less_induct)
  case less
  show ?case
  proof (cases "n = 0")
    case True
    then have "r_sw_desc_idx req = r_sw_desc_cnt req" using less.prems(6) by simp
    then have "bytes_left req = 0" using less.prems(5) by (simp add: bytes_left_def req_ok_def)
    then show ?thesis using True less.prems by (subst submit_loop.simps) simp
  next
    case False
    then have more: "r_sw_desc_idx req < r_sw_desc_cnt req"
      using less.prems(5,6) by (auto simp: req_ok_def)
    obtain req1 s1 where ti: "transfer_init e req x s = ((0, req1), s1)"
      using transfer_init_turn(1) [OF less.prems(3,5) more] by (metis prod.collapse)
    note t = transfer_init_turn [OF less.prems(3,5) more, where xf = x, unfolded ti fst_conv snd_conv]
    let ?k = "t_desc_num (k_xfer s1 x)"
    define s2 where "s2 = mark_last m (n = ?k) sgt x s1"
    have c2: "can_submit e s2"
      by (rule can_submit_cong [OF less.prems(2)]) (use t(11-15) in \<open>simp_all add: s2_def\<close>)
    have "plain_engine ev (k_eng s2 e)" using plain_engine_cong [OF t(11)] less.prems(4) by (simp add: s2_def)
    moreover have "unat ?k \<le> unat (e_desc_max (k_eng s2 e))" using t(17) by (simp add: s2_def)
    ultimately obtain s3
      where r: "run_transfer ev others e x s2 = (Inr (0, uint (t_len (k_xfer s1 x)), False), s3)" and c3: "can_submit e s3"
        and g3: "same_ring ((k_eng s1 e)\<lparr>e_desc_used := e_desc_used (k_eng s1 e) - ?k\<rparr>) (k_eng s3 e)" and d3: "k_dev s3 = k_dev s2"
      using run_transfer_serves [OF c2 x(1) _ _ st, of ev] t(4,5) by (auto simp: s2_def)
    have step: "submit_loop ev others e m sgt req n dn s =
        submit_loop ev others e m sgt req1 (n - ?k) (dn + uint (t_len (k_xfer s1 x))) s3"
      using False less.prems(1) by (subst submit_loop.simps) (simp add: ti s2_def [symmetric] r)
    have lt: "unat (n - ?k) < unat n" and n1: "n - ?k = r_sw_desc_cnt req1 - r_sw_desc_idx req1"
      using turn_decreases [OF less.prems(5,6) more t(3,4,7,8,9)] by simp_all
    have b1: "unat (t_len (k_xfer s1 x)) + bytes_left req1 = bytes_left req" using t(10) less.prems(7) by simp
    have "ring_ok (k_eng s3 e)" using g3 t(2) by (simp add: same_ring_def ring_ok_def)
    moreover have "plain_engine ev (k_eng s3 e)"
      using plain_engine_cong [OF g3] plain_engine_cong [OF t(11)] less.prems(4) by simp
    moreover have "tfer ev req1 0 = x" using less.prems(1) t(6) by (simp add: tfer_def)
    moreover have "bytes_left req1 < 2 ^ 32" using b1 less.prems(7) by simp
    ultimately obtain s' where "submit_loop ev others e m sgt req1 (n - ?k) (dn + uint (t_len (k_xfer s1 x))) s3 =
        Some ((0, dn + uint (t_len (k_xfer s1 x)) + int (bytes_left req1)), s')" "can_submit e s'" "ring_ok (k_eng s' e)"
        "e_desc_used (k_eng s' e) = e_desc_used (k_eng s3 e)" "k_dev s' = k_dev s3"
      using less.hyps [OF lt _ c3 _ _ t(3) n1] by blast
    moreover have "e_desc_used (k_eng s3 e) = e_desc_used (k_eng s e)" using g3 t(11) by (simp add: same_ring_def)
    moreover have "k_dev s3 = k_dev s" using d3 t(15) by (simp add: s2_def)
    moreover have "uint (t_len (k_xfer s1 x)) + int (bytes_left req1) = int (bytes_left req)"
      using b1 by (metis of_nat_add uint_nat)
    ultimately show ?thesis unfolding step by (metis add.assoc)
  qed
qed

end

subsection \<open>The driver's own service routine keeps the contract\<close>

text \<open>The device has written back that it finished the transfer, and the service routine runs, as a
  polling completion thread calls it.\<close>

definition served_by_poll :: "env \<Rightarrow> ptr \<Rightarrow> kst \<Rightarrow> kst" where
  "served_by_poll ev e s = snd (engine_service ev e (t_desc_num (k_xfer s (head_transfer e s))) s)"

lemma small_mask:
  fixes n :: u32
  assumes "unat n < 2 ^ 24"
  shows "n AND WB_COUNT_MASK = n" and "n AND WB_ERR_MASK = 0"
proof -
  have "n AND mask 24 = n" using assms by (simp add: word_and_eq_mod word_unat_eq_iff unat_mod_distrib)
  moreover have "WB_COUNT_MASK = mask 24" by (simp add: WB_COUNT_MASK_def mask_eq_exp_minus_1)
  ultimately show m: "n AND WB_COUNT_MASK = n" by simp
  have "WB_COUNT_MASK AND WB_ERR_MASK = 0" by (simp add: WB_COUNT_MASK_def WB_ERR_MASK_def)
  then show "n AND WB_ERR_MASK = 0" by (subst m [symmetric]) (simp add: and.assoc)
qed

lemma served_by_poll_woke:
  assumes "waiting e x s"
  shows "woke TRANSFER_STATE_COMPLETED e x s (served_by_poll ev e s)"
proof -
  have e: "e \<noteq> NULL" "x \<noteq> NULL" "e_running (k_eng s e)" and l: "e_transfer_list (k_eng s e) = [x]"
    and n: "t_desc_num (k_xfer s x) \<noteq> 0" "e_desc_dequeued (k_eng s e) = 0" "\<not> status_error (k_eng s e)"
    and f: "\<not> e_eop_flush (k_eng s e)" "e_shutdown (k_eng s e) AND ENGINE_SHUTDOWN_REQUEST = 0" "\<not> t_cyclic (k_xfer s x)"
    using assms by (simp_all add: waiting_def)
  note m = small_mask [of "t_desc_num (k_xfer s x)"]
  have mm: "t_desc_num (k_xfer s x) AND WB_COUNT_MASK = t_desc_num (k_xfer s x)" "t_desc_num (k_xfer s x) AND WB_ERR_MASK = 0"
    using assms m by (simp_all add: waiting_def)
  let ?n = "t_desc_num (k_xfer s x)"
  define s1 where "s1 = snd (engine_service_shutdown ev e s)"
  have s1: "k_eng s1 = (k_eng s)(e := (k_eng s e)\<lparr>e_running := False\<rparr>)" "k_xfer s1 = k_xfer s" "k_dev s1 = k_dev s" "k_cb s1 = k_cb s"
    using e by (simp_all add: s1_def) (simp add: engine_service_shutdown_def xdma_engine_stop_def Let_def)
  have sv: "served_by_poll ev e s = snd (engine_service_queue ev e ?n s1)"
    using f n l by (simp add: served_by_poll_def head_transfer_def service_parts [OF e(1,3)] Let_def sv_status_def sv_stop_def sv_count_def mm s1_def)
  define s2 where "s2 = sv_perf e ?n s1"
  obtain q where q: "k_eng s2 = (k_eng s1)(e := (k_eng s1 e)\<lparr>e_xdma_perf := q\<rparr>)" and s2: "k_xfer s2 = k_xfer s" "k_dev s2 = k_dev s" "k_cb s2 = k_cb s"
  proof -
    have "k_xfer s2 = k_xfer s" "k_dev s2 = k_dev s" "k_cb s2 = k_cb s"
      using e l by (simp_all add: s2_def sv_perf_def s1 engine_service_perf_def set_perf_def Let_def)
    moreover have "\<exists>q. k_eng s2 = (k_eng s1)(e := (k_eng s1 e)\<lparr>e_xdma_perf := q\<rparr>)"
    proof -
      have g: "k_eng s1 = (k_eng s1)(e := (k_eng s1 e)\<lparr>e_xdma_perf := e_xdma_perf (k_eng s1 e)\<rparr>)"
        by (rule ext) simp
      then have "\<exists>q. k_eng s1 = (k_eng s1)(e := (k_eng s1 e)\<lparr>e_xdma_perf := q\<rparr>)" by blast
      then show ?thesis
        by (auto simp: s2_def sv_perf_def engine_service_perf_def Let_def fun_upd_upd)
    qed
    ultimately show thesis using that by blast
  qed
  have l2: "e_transfer_list (k_eng s2 e) = [x]" "\<not> e_running (k_eng s2 e)" "\<not> status_error (k_eng s2 e)" "e_desc_dequeued (k_eng s2 e) = 0"
    "\<not> e_eop_flush (k_eng s2 e)" "e_shutdown (k_eng s2 e) AND ENGINE_SHUTDOWN_REQUEST = 0"
    using l n f by (simp_all add: q s1 status_error_def)
  have list: "sv_list e ?n s2 = ((x, ?n), s2)"
    using e l2 by (simp add: sv_list_def engine_service_transfer_list_def head_transfer_def) (subst service_list_loop.simps, simp add: s2)
  define s3 where "s3 = snd (engine_service_final_transfer ev e x ?n s2)"
  have "\<not> ?n < t_desc_num (k_xfer s2 x)" by (simp add: s2)
  note ft = final_transfer_completes [OF e(1,2) l2(3) this l2(2), of ev, folded s3_def]
  obtain d where g3: "k_eng s3 e = (k_eng s2 e)\<lparr>e_running := False, e_desc_dequeued := d, e_transfer_list := []\<rparr>"
    using ft(1) l2(1) by auto
  have d3: "k_dev s3 = k_dev s" "k_cb s3 = k_cb s"
    using e n l2 by (simp_all add: s3_def engine_service_final_transfer_def engine_transfer_completion_def transfer_list_del_def Let_def s2)
  have "engine_service_resume ev e s3 = (0, s3)"
    using e g3 l2 by (simp add: engine_service_resume_def)
  then have "served_by_poll ev e s = s3"
    using g3 l2(5) by (simp add: sv service_queue_parts [OF e(1)] s2_def [symmetric] list sv_final_def s3_def [symmetric] Let_def)
  moreover have "woke TRANSFER_STATE_COMPLETED e x s s3"
    using l2 d3 by (auto simp: woke_def ft(2) s2 g3 same_ring_def q s1)
  ultimately show ?thesis by simp
qed

interpretation poll_service: transfer_service "served_by_poll ev e" TRANSFER_STATE_COMPLETED e x for ev e x
  by unfold_locales (rule served_by_poll_woke)

subsection \<open>Entering a submission\<close>

lemma submit_checks_frame [simp]:
  "k_eng (snd (submit_checks d ch w s)) = k_eng s" "k_dev (snd (submit_checks d ch w s)) = k_dev s"
  "k_xfer (snd (submit_checks d ch w s)) = k_xfer s" "k_sgt (snd (submit_checks d ch w s)) = k_sgt s"
  "held l (trace (snd (submit_checks d ch w s))) = held l (trace s)"
  by (simp_all add: submit_checks_def Let_def split_beta xdma_device_flag_check_def split: option.splits)

lemma map_sgt_frame [simp]:
  "k_eng (snd (map_sgt ev m g s)) = k_eng s" "k_dev (snd (map_sgt ev m g s)) = k_dev s"
  "k_xfer (snd (map_sgt ev m g s)) = k_xfer s" "held l (trace (snd (map_sgt ev m g s))) = held l (trace s)"
  by (simp_all add: map_sgt_def Let_def)

lemma unmap_sgt_frame [simp]:
  "k_eng (unmap_sgt m g s) = k_eng s" "k_dev (unmap_sgt m g s) = k_dev s" "k_xfer (unmap_sgt m g s) = k_xfer s"
  "held l (trace (unmap_sgt m g s)) = held l (trace s)"
  by (simp_all add: unmap_sgt_def)

lemma can_submit_frame: "can_submit e s \<Longrightarrow> k_eng s' = k_eng s \<Longrightarrow> k_dev s' = k_dev s \<Longrightarrow> can_submit e s'"
  by (simp add: can_submit_def)

text \<open>A handle, channel and direction that the checks accept.\<close>

definition submit_target :: "ptr \<Rightarrow> nat \<Rightarrow> bool \<Rightarrow> ptr \<Rightarrow> kst \<Rightarrow> bool" where
  "submit_target d ch w e s \<longleftrightarrow> devlist_ok s \<and> d \<in> set (k_xdev_list s) \<and> d_pdev (k_dev s d) \<noteq> NULL \<and>
     channel_engine d ch w s = Some e \<and> e_magic (k_eng s e) = MAGIC_ENGINE \<and> e_dir (k_eng s e) = xfer_dir w"

lemma channel_engine_cong: "k_dev s' = k_dev s \<Longrightarrow> channel_engine d ch w s' = channel_engine d ch w s"
  by (simp add: channel_engine_def)

lemma submit_checks_accept:
  assumes t: "submit_target d ch w e s" and c: "can_submit e s"
  shows "fst (submit_checks d ch w s) = Inr e"
proof -
  have "NULL \<notin> set (k_xdev_list s)" "d \<in> set (k_xdev_list s)" using t by (simp_all add: submit_target_def devlist_ok_def)
  then have "d \<noteq> NULL" by metis
  moreover have "fst (debug_check_dev_hndl (d_pdev (k_dev s d)) d s) = 0"
    using t check_hndl_fst [of s "d_pdev (k_dev s d)" d] by (simp add: submit_target_def)
  moreover have "channel_engine d ch w (snd (debug_check_dev_hndl (d_pdev (k_dev s d)) d s)) = Some e"
    using t channel_engine_cong [of "snd (debug_check_dev_hndl (d_pdev (k_dev s d)) d s)" s d ch w] by (simp add: submit_target_def)
  ultimately show ?thesis
    using t c by (simp add: submit_checks_def Let_def split_beta submit_target_def can_submit_def xdma_device_flag_check_def)
qed

lemma sum_pieces:
  assumes "0 < blen"
  shows "(\<Sum>p \<leftarrow> concat (map (pieces blen) sgs). unat (sd_len p)) = (\<Sum>sg \<leftarrow> sgs. unat (sg_dma_len sg))"
proof (induction sgs)
  case (Cons sg sgs)
  obtain addr len where sg: "sg = \<lparr>sg_dma_address = addr, sg_dma_len = len\<rparr>" by (cases sg) auto
  have "(\<Sum>p \<leftarrow> pieces blen sg. unat (sd_len p)) = unat (sg_dma_len sg)"
    using pieces_ok_pieces [OF assms, of addr len] unfolding sg pieces_ok_def scatterlist.simps by blast
  with Cons show ?case by simp
qed simp

subsection \<open>Properties\<close>

text \<open>The operations a submission calls leave the ring alone and give back their locks.\<close>

definition ring_of :: "xdma_engine \<Rightarrow> u32 \<times> u32" where
  "ring_of g = (e_desc_idx g, e_desc_max g)"

lemma ring_ok_ring_of: "ring_of g' = ring_of g \<Longrightarrow> ring_ok g' = ring_ok g"
  by (simp add: ring_of_def ring_ok_def)

lemma ring_of_start [simp]: "e \<noteq> NULL \<Longrightarrow> ring_of (k_eng (snd (engine_start ev e s)) e) = ring_of (k_eng s e)"
  by (simp add: ring_of_def engine_start_def engine_start_mode_config_def Let_def split_beta split: list.splits)

lemma ring_of_queue [simp]: "e \<noteq> NULL \<Longrightarrow> ring_of (k_eng (snd (transfer_queue ev e t s)) e) = ring_of (k_eng s e)"
  by (simp add: transfer_queue_def Let_def split_beta) (simp add: ring_of_def)

lemma ring_of_abort [simp]: "ring_of (k_eng (snd (transfer_abort e t s)) e) = ring_of (k_eng s e)"
  by (simp add: transfer_abort_def Let_def ring_of_def)

lemma result_lengths_sel [simp]:
  "k_eng (snd (result_lengths ev r i k s)) = k_eng s" "k_xfer (snd (result_lengths ev r i k s)) = k_xfer s"
  "held l (trace (snd (result_lengths ev r i k s))) = held l (trace s)"
  by (induction k arbitrary: i s) (simp_all add: Let_def split_beta)

lemma read_all_sel [simp]:
  "k_eng (read_all ev as s) = k_eng s" "k_xfer (read_all ev as s) = k_xfer s" "k_dev (read_all ev as s) = k_dev s"
  "held l (trace (read_all ev as s)) = held l (trace s)"
  by (induction as arbitrary: s) (simp_all add: Let_def split_beta)

lemma reg_dump_sel [simp]:
  "k_eng (snd (engine_reg_dump ev e s)) = k_eng s" "k_xfer (snd (engine_reg_dump ev e s)) = k_xfer s"
  "k_dev (snd (engine_reg_dump ev e s)) = k_dev s" "held l (trace (snd (engine_reg_dump ev e s))) = held l (trace s)"
  by (simp_all add: engine_reg_dump_def Let_def split_beta)

lemma status_read_keeps [simp]:
  "k_xfer (snd (engine_status_read ev e c d s)) = k_xfer s" "k_dev (snd (engine_status_read ev e c d s)) = k_dev s"
  "held l (trace (snd (engine_status_read ev e c d s))) = held l (trace s)"
  "e_transfer_list (k_eng (snd (engine_status_read ev e c d s)) e) = e_transfer_list (k_eng s e)"
  "e_running (k_eng (snd (engine_status_read ev e c d s)) e) = e_running (k_eng s e)"
  "ring_of (k_eng (snd (engine_status_read ev e c d s)) e) = ring_of (k_eng s e)"
  by (simp_all add: engine_status_read_def Let_def split_beta ring_of_def)

lemma abort_held [simp]: "held l (trace (snd (transfer_abort e x s))) = held l (trace s)"
  by (simp add: transfer_abort_def Let_def)

lemma stop_keeps [simp]:
  "held l (trace (snd (xdma_engine_stop ev e s))) = held l (trace s)"
  "ring_of (k_eng (snd (xdma_engine_stop ev e s)) e) = ring_of (k_eng s e)"
  by (simp_all add: xdma_engine_stop_def Let_def ring_of_def)

lemma give_up_sel [simp]:
  "ring_of (k_eng (give_up ev e x s) e) = ring_of (k_eng s e)"
  "held l (trace (give_up ev e x s)) = held l (trace s)"
  by (simp_all add: give_up_def Let_def split_beta)

lemma submit_outcome_sel [simp]:
  "ring_of (k_eng (snd (submit_outcome ev e x s)) e) = ring_of (k_eng s e)"
  "held l (trace (snd (submit_outcome ev e x s))) = held l (trace s)"
  by (simp_all add: submit_outcome_def Let_def split_beta split: transfer_state.splits)

lemma submit_outcome_rv: "fst (fst (submit_outcome ev e x s)) \<le> 0"
  by (simp add: submit_outcome_def Let_def split_beta errno_defs split: transfer_state.splits)

lemma run_transfer_keeps:
  assumes "e \<noteq> NULL" and others: "\<And>s. ring_of (k_eng (others s) e) = ring_of (k_eng s e)" "\<And>s. held l (trace (others s)) = held l (trace s)"
  shows "ring_of (k_eng (snd (run_transfer ev others e x s)) e) = ring_of (k_eng s e)"
    and "held l (trace (snd (run_transfer ev others e x s))) = held l (trace s)"
proof -
  have u: "ring_of (k_eng (upd_eng e (\<lambda>g. g\<lparr>e_desc_used := f g\<rparr>) t) e) = ring_of (k_eng t e)" for f t
    by (simp add: ring_of_def)
  have q: "held l (trace (snd (transfer_queue ev e x s))) = held l (trace s)"
    by (simp add: transfer_queue_def Let_def split_beta)
  show "ring_of (k_eng (snd (run_transfer ev others e x s)) e) = ring_of (k_eng s e)"
    using assms(1) by (simp add: run_transfer_def Let_def split_beta u others(1) del: upd_eng_sel)
  show "held l (trace (snd (run_transfer ev others e x s))) = held l (trace s)"
    by (simp add: run_transfer_def Let_def split_beta others(2) q)
qed


text \<open>The submission as a whole.\<close>

lemma xfer_submit_moves:
  fixes ev :: env and s :: kst and d :: ptr and ch :: nat and w m :: bool and sgt :: ptr
  defines "s1 \<equiv> snd (submit_checks d ch w s)"
  defines "s2 \<equiv> snd (map_sgt ev m sgt s1)"
  defines "sgs \<equiv> take (nents (k_sgt s2 sgt)) (sgl (k_sgt s2 sgt))"
  assumes target: "submit_target d ch w e s" and can: "can_submit e s"
    and ring: "ring_ok (k_eng s e)" and plain: "plain_engine ev (k_eng s e)"
    and serve: "\<forall>x. transfer_service others TRANSFER_STATE_COMPLETED e x"
    and mapped: "fst (map_sgt ev m sgt s1) = 0" "nents (k_sgt s2 sgt) \<le> length (sgl (k_sgt s2 sgt))"
    and fits: "request_fits ev sgs" "(\<Sum>sg \<leftarrow> sgs. unat (sg_dma_len sg)) < 2 ^ 32" "0 < offsetof_tfer ev"
    and mem: "fst (xdma_request_alloc ev (of_nat (length sgs) + request_extra (desc_blen_max ev) sgs 0) s2) \<noteq> None"
  shows "\<exists>s'. xdma_xfer_submit ev others d ch w ep sgt m s = Some (int (\<Sum>sg \<leftarrow> sgs. unat (sg_dma_len sg)), s') \<and>
    can_submit e s' \<and> ring_ok (k_eng s' e) \<and> e_desc_used (k_eng s' e) = e_desc_used (k_eng s e)"
proof -
  have chk: "submit_checks d ch w s = (Inr e, s1)"
    using submit_checks_accept [OF target can] by (simp add: s1_def prod_eq_iff)
  have mp: "map_sgt ev m sgt s1 = (0, s2)" using mapped by (simp add: s2_def prod_eq_iff)
  obtain req where req: "fst (xdma_init_request ev sgt ep s2) = Req req" and sd: "r_sdesc req = concat (map (pieces (desc_blen_max ev)) sgs)"
    and cnt: "unat (r_sw_desc_cnt req) = length (r_sdesc req)" "r_sw_desc_idx req = 0"
    using init_request_ok [OF sgs_def [THEN meta_eq_to_obj_eq] mapped(2) fits(1) mem] by blast
  define s3 where "s3 = snd (xdma_init_request ev sgt ep s2)"
  have ir: "xdma_init_request ev sgt ep s2 = (Req req, s3)" using req by (simp add: s3_def prod_eq_iff)
  define s4 where "s4 = emit (Acquire (LkDesc e)) s3"
  have k4: "k_eng s4 = k_eng s" "k_dev s4 = k_dev s"
    by (simp_all add: s4_def s3_def s2_def s1_def)
  have "0 < desc_blen_max ev" using fits(1) by (simp add: request_fits_def word_less_nat_alt)
  then have b: "bytes_left req = (\<Sum>sg \<leftarrow> sgs. unat (sg_dma_len sg))"
    by (simp add: bytes_left_def cnt sd sum_pieces)
  have x: "tfer ev req 0 \<noteq> NULL" using fits(3) by (simp add: tfer_def)
  have "can_submit e s4" by (rule can_submit_frame [OF can k4])
  from transfer_service.submit_loop_serves [OF spec [OF serve] refl x refl this, of "r_sw_desc_cnt req" m sgt 0]
  obtain s5 where loop: "submit_loop ev others e m sgt req (r_sw_desc_cnt req) 0 s4 = Some ((0, int (bytes_left req)), s5)"
    and s5: "can_submit e s5" "ring_ok (k_eng s5 e)" "e_desc_used (k_eng s5 e) = e_desc_used (k_eng s e)"
    using ring plain cnt fits(2) by (auto simp: k4 b req_ok_def)
  define s6 where "s6 = xdma_request_free (r_addr req) (unmap_sgt m sgt (emit (Release (LkDesc e)) s5))"
  have k6: "k_eng s6 = k_eng s5" "k_dev s6 = k_dev s5" by (simp_all add: s6_def xdma_request_free_def)
  have "xdma_xfer_submit ev others d ch w ep sgt m s = Some (int (bytes_left req), s6)"
    by (simp add: xdma_xfer_submit_def chk mp ir s4_def [symmetric] loop s6_def Let_def)
  then show ?thesis
    using s5 can_submit_frame [OF s5(1) k6] by (simp add: b k6)
qed

text \<open>C1: a synchronous submission moves the whole buffer.  For a valid handle, channel and direction,
  an idle engine, a table that maps, memory for the request, and whoever completes transfers keeping
  its contract, \<open>xdma_xfer_submit\<close> returns the total length of the mapped entries, however many
  descriptor chains that takes, and leaves the engine idle with its descriptors given back.\<close>

theorem submit_moves_everything:
  fixes ev :: env and s :: kst and d :: ptr and ch :: nat and w m :: bool and sgt :: ptr
  defines "s1 \<equiv> snd (submit_checks d ch w s)"
  defines "s2 \<equiv> snd (map_sgt ev m sgt s1)"
  defines "sgs \<equiv> take (nents (k_sgt s2 sgt)) (sgl (k_sgt s2 sgt))"
  assumes target: "submit_target d ch w e s" and can: "can_submit e s"
    and ring: "ring_ok (k_eng s e)" and plain: "plain_engine ev (k_eng s e)"
    and serve: "\<forall>x. transfer_service others TRANSFER_STATE_COMPLETED e x"
    and mapped: "fst (map_sgt ev m sgt s1) = 0" "nents (k_sgt s2 sgt) \<le> length (sgl (k_sgt s2 sgt))"
    and fits: "request_fits ev sgs" "(\<Sum>sg \<leftarrow> sgs. unat (sg_dma_len sg)) < 2 ^ 32" "0 < offsetof_tfer ev"
    and mem: "fst (xdma_request_alloc ev (of_nat (length sgs) + request_extra (desc_blen_max ev) sgs 0) s2) \<noteq> None"
  shows "\<exists>s'. xdma_xfer_submit ev others d ch w ep sgt m s = Some (int (\<Sum>sg \<leftarrow> sgs. unat (sg_dma_len sg)), s') \<and>
    can_submit e s' \<and> ring_ok (k_eng s' e) \<and> e_desc_used (k_eng s' e) = e_desc_used (k_eng s e)"
  unfolding sgs_def s2_def s1_def
  by (rule xfer_submit_moves [OF target can ring plain serve mapped [unfolded s2_def s1_def] fits [unfolded sgs_def s2_def s1_def]
        mem [unfolded sgs_def s2_def s1_def]])

text \<open>Three entries of 10, 3 and 5 bytes and a ring of two descriptors: the request needs two chains.\<close>

definition submit_state :: kst where
  "submit_state = kst0\<lparr>k_xdev_list := [1],
     k_dev := (\<lambda>_. zero_dev\<lparr>d_pdev := 7, d_h2c_channel_max := 1, d_engine_h2c := (\<lambda>_. 2)\<rparr>),
     k_eng := (\<lambda>_. zero_engine\<lparr>e_magic := MAGIC_ENGINE, e_xdev := 1, e_dir := DMA_TO_DEVICE, e_desc_max := 2, e_desc := 0x8000\<rparr>),
     k_sgt := (\<lambda>_. \<lparr>sgl = [\<lparr>sg_dma_address = 100, sg_dma_len = 10\<rparr>, \<lparr>sg_dma_address = 200, sg_dma_len = 3\<rparr>,
       \<lparr>sg_dma_address = 300, sg_dma_len = 5\<rparr>], nents = 3, orig_nents = 3\<rparr>)\<rparr>"

definition env_submit :: env where
  "env_submit = env0\<lparr>ksvc := (\<lambda>_ _ _. 0x100000)\<rparr>"

lemma submit_state_ok:
  "submit_target 1 0 True 2 submit_state" "can_submit 2 submit_state" "ring_ok (k_eng submit_state 2)"
  "plain_engine env_submit (k_eng submit_state 2)"
  by (simp_all add: submit_target_def devlist_ok_def channel_engine_def xfer_dir_def can_submit_def ring_ok_def plain_engine_def
      submit_state_def zero_dev_def zero_engine_def env_submit_def env0_def)

theorem submit_moves_everything_witness:
  "\<exists>s'. xdma_xfer_submit env_submit (served_by_poll env_submit 2) 1 0 True 0 5 True submit_state = Some (18, s') \<and> can_submit 2 s'"
proof -
  let ?s1 = "snd (submit_checks 1 0 True submit_state)"
  have s2: "map_sgt env_submit True 5 ?s1 = (0, ?s1)" by (simp add: map_sgt_def submit_state_def)
  have sg: "k_sgt ?s1 5 = \<lparr>sgl = [\<lparr>sg_dma_address = 100, sg_dma_len = 10\<rparr>, \<lparr>sg_dma_address = 200, sg_dma_len = 3\<rparr>,
       \<lparr>sg_dma_address = 300, sg_dma_len = 5\<rparr>], nents = 3, orig_nents = 3\<rparr>"
    by (simp add: submit_state_def)
  have "\<forall>x. transfer_service (served_by_poll env_submit 2) TRANSFER_STATE_COMPLETED 2 x"
    using poll_service.transfer_service_axioms by blast
  from submit_moves_everything [OF submit_state_ok this, of True 5 0] show ?thesis
    unfolding s2 snd_conv fst_conv sg
    by (simp add: request_fits_def pieces_nr_def env_submit_def env0_def XDMA_DESC_BLEN_MAX_def xdma_request_alloc_def
        kcall_def Let_def) blast
qed


text \<open>A transfer that is still queued when its waiter gives up is taken off the queue, marked aborted
  and its engine stopped, provided the engine still identifies itself; otherwise (a device that has
  left the bus reads as all ones) the waiter returns with the same error, but the transfer stays on the
  queue of an engine marked running.  The caller then frees the request that holds the transfer.\<close>

theorem give_up_outcome:
  fixes ev :: env and s :: kst
  assumes w: "waiting e x s"
  defines "s' \<equiv> snd (submit_outcome ev e x s)"
    and "idw \<equiv> hw ev (Acquire (LkEngine e) # trace s) (ereg (k_eng s e) ''identifier'')"
  shows "fst (submit_outcome ev e x s) = (- ERESTARTSYS, 0, False) \<and>
    (if idw AND BLOCK_ID_MASK = BLOCK_ID_HEAD
      then e_transfer_list (k_eng s' e) = [] \<and> t_state (k_xfer s' x) = TRANSFER_STATE_ABORTED \<and> \<not> e_running (k_eng s' e)
      else e_transfer_list (k_eng s' e) = [x] \<and> t_state (k_xfer s' x) = TRANSFER_STATE_SUBMITTED \<and> e_running (k_eng s' e))"
proof (intro conjI)
  have st: "t_state (k_xfer s x) = TRANSFER_STATE_SUBMITTED" and e: "e \<noteq> NULL" "x \<noteq> NULL"
    and l: "e_transfer_list (k_eng s e) = [x]" "e_running (k_eng s e)" and n: "t_desc_num (k_xfer s x) \<noteq> 0"
    using w by (simp_all add: waiting_def)
  define s1 where "s1 = emit (Acquire (LkEngine e)) s"
  have out: "submit_outcome ev e x s = ((- ERESTARTSYS, 0, False), emit (Release (LkEngine e)) (give_up ev e x s1))"
    by (simp add: submit_outcome_def Let_def st s1_def)
  show "fst (submit_outcome ev e x s) = (- ERESTARTSYS, 0, False)" by (simp add: out)
  define r where "r = engine_status_read ev e False True s1"
  have rv: "fst r = (if idw AND BLOCK_ID_MASK = BLOCK_ID_HEAD then 0 else - EINVAL)"
    using e by (simp add: r_def engine_status_read_def engine_reg_dump_def Let_def split_beta s1_def idw_def EINVAL_def)
  have k: "k_xfer (snd r) = k_xfer s" "e_transfer_list (k_eng (snd r) e) = [x]" "e_running (k_eng (snd r) e)"
    using l by (simp_all add: r_def s1_def)
  have "give_up ev e x s1 = (if idw AND BLOCK_ID_MASK = BLOCK_ID_HEAD
      then snd (xdma_engine_stop ev e (snd (transfer_abort e x (snd r)))) else snd r)"
    using e n k by (simp add: give_up_def Let_def split_beta r_def [symmetric] rv transfer_abort_def EINVAL_def)
  then show "if idw AND BLOCK_ID_MASK = BLOCK_ID_HEAD
      then e_transfer_list (k_eng s' e) = [] \<and> t_state (k_xfer s' x) = TRANSFER_STATE_ABORTED \<and> \<not> e_running (k_eng s' e)
      else e_transfer_list (k_eng s' e) = [x] \<and> t_state (k_xfer s' x) = TRANSFER_STATE_SUBMITTED \<and> e_running (k_eng s' e)"
    using e n k st by (simp add: s'_def out transfer_abort_def head_transfer_def Let_def)
qed

text \<open>The engine of \<open>one_transfer\<close> with its transfer queued, on a device that answers and on one that does not.\<close>

definition waiting_state :: kst where
  "waiting_state = kst0\<lparr>k_eng := (\<lambda>_. zero_engine\<lparr>e_transfer_list := [2], e_running := True\<rparr>),
     k_xfer := (\<lambda>_. zero_transfer\<lparr>t_state := TRANSFER_STATE_SUBMITTED, t_desc_num := 1\<rparr>)\<rparr>"

theorem give_up_outcome_witness:
  "e_transfer_list (k_eng (snd (submit_outcome (env0\<lparr>hw := (\<lambda>_ _. 0x1FC00000)\<rparr>) 1 2 waiting_state)) 1) = [] \<and>
   e_transfer_list (k_eng (snd (submit_outcome (env0\<lparr>hw := (\<lambda>_ _. 0xFFFFFFFF)\<rparr>) 1 2 waiting_state)) 1) = [2]"
proof -
  have w: "waiting 1 2 waiting_state"
    by (simp add: waiting_def waiting_state_def zero_engine_def zero_transfer_def status_error_def)
  show ?thesis
    using give_up_outcome [OF w, of "env0\<lparr>hw := (\<lambda>_ _. 0x1FC00000)\<rparr>"] give_up_outcome [OF w, of "env0\<lparr>hw := (\<lambda>_ _. 0xFFFFFFFF)\<rparr>"]
    by (simp add: BLOCK_ID_MASK_def BLOCK_ID_HEAD_def)
qed

end
