(* ===== verification/Xdma_Async.thy ===== *)
theory Xdma_Async
  imports Xdma_Submit
begin

text \<open>
  Asynchronous requests (\<^verbatim>\<open>libxdma.c\<close>): queueing all transfers of a request without waiting, collecting
  the result when the last one has completed, and the endless cyclic transfer of a performance
  measurement.

  A request has room for two transfers.  An access to a third one, and the dereference of a null
  pointer, are the result \<open>None\<close>.
\<close>

subsection \<open>Submitting without waiting\<close>

definition TFER_MAX :: nat where "TFER_MAX = 2"

text \<open>The request is reached through the handle of the I/O call, so the handle follows its changes.\<close>

definition set_cb_req :: "ptr \<Rightarrow> xdma_request_cb \<Rightarrow> kst \<Rightarrow> kst" where
  "set_cb_req cb req = upd_cb cb (\<lambda>c. c\<lparr>c_req := Some req\<rparr>)"

text \<open>The loop: \<open>n\<close> software descriptors to go, transfer \<open>i\<close> is next.  The result is an error or, when
  everything has been queued, \<open>-EIOCBQUEUED\<close>; the flag tells that the request has to be unmapped and
  freed.\<close>

function nowait_loop ::
    "env \<Rightarrow> ptr \<Rightarrow> bool \<Rightarrow> ptr \<Rightarrow> ptr \<Rightarrow> xdma_request_cb \<Rightarrow> u32 \<Rightarrow> nat \<Rightarrow> kst \<Rightarrow> ((int \<times> bool) \<times> kst) option" where
  "nowait_loop ev e dma_mapped sgt cb req n i s =
     (if n = 0 then Some ((- EIOCBQUEUED, False), s)
      else if TFER_MAX \<le> i then None
      else
        let xfer = tfer ev req i;
            ((rv, req), s) = transfer_init e req xfer s;
            s = set_cb_req cb req s
        in if rv < 0 then
             let s = unmap_sgt dma_mapped sgt s;
                 s = (if c_io_done (k_cb s cb) then emit (IoDone cb (- EBUSY)) s else s)
             in Some ((rv, True), s)
           else
             let s = upd_xfer xfer (\<lambda>x. x\<lparr>t_cb := cb\<rparr>) s;
                 n = n - t_desc_num (k_xfer s xfer);
                 s = mark_last dma_mapped (n = 0) sgt xfer s;
                 (rv, s) = transfer_queue ev e xfer s
             in if rv < 0 then Some ((rv, True), unmap_sgt dma_mapped sgt s)
                else nowait_loop ev e dma_mapped sgt cb req n (Suc i) s)"
  by pat_completeness auto
termination
  by (relation "measure (\<lambda>(ev, e, m, sgt, cb, req, n, i, s). TFER_MAX - i)") (auto simp: TFER_MAX_def)

declare nowait_loop.simps [simp del]

definition xdma_xfer_submit_nowait ::
    "env \<Rightarrow> ptr \<Rightarrow> ptr \<Rightarrow> nat \<Rightarrow> bool \<Rightarrow> u64 \<Rightarrow> ptr \<Rightarrow> bool \<Rightarrow> kst \<Rightarrow> (int \<times> kst) option" where
  "xdma_xfer_submit_nowait ev cb dev_hndl channel write ep_addr sgt dma_mapped s =
     (case submit_checks dev_hndl channel write s of
        (Inl rv, s) \<Rightarrow> Some (rv, s)
      | (Inr e, s) \<Rightarrow>
          let (rv, s) = map_sgt ev dma_mapped sgt s
          in if rv < 0 then Some (rv, s)
             else case xdma_init_request ev sgt ep_addr s of
                    (ReqOverflow, s) \<Rightarrow> None
                  | (ReqNull, s) \<Rightarrow> Some (- ENOMEM, unmap_sgt dma_mapped sgt s)
                  | (Req req, s) \<Rightarrow>
                      let req = req\<lparr>r_cb := cb\<rparr>;
                          s = set_cb_req cb req s
                      in case nowait_loop ev e dma_mapped sgt cb req (r_sw_desc_cnt req) 0 s of
                           None \<Rightarrow> None
                         | Some ((rv, release), s) \<Rightarrow>
                             Some (rv, if release then xdma_request_free (r_addr req) s else s))"

subsection \<open>Collecting the result\<close>

text \<open>What is made of one transfer: an error and the bytes moved.  A transfer that is still in flight is
  given up, after a dump of the engine's status into a buffer that may be too small (\<open>None\<close>).\<close>

definition completion_outcome :: "env \<Rightarrow> ptr \<Rightarrow> ptr \<Rightarrow> kst \<Rightarrow> ((int \<times> int) \<times> kst) option" where
  "completion_outcome ev e xfer s =
     (case t_state (k_xfer s xfer) of
        TRANSFER_STATE_COMPLETED \<Rightarrow>
          (if e_streaming (k_eng s e) \<and> e_dir (k_eng s e) = DMA_FROM_DEVICE then
             let (len, s) = result_lengths ev (t_res_virt (k_xfer s xfer)) 0 (nat (sint (t_desc_num (k_xfer s xfer)))) s
             in Some ((0, len), s)
           else Some ((0, uint (t_len (k_xfer s xfer))), s))
      | TRANSFER_STATE_FAILED \<Rightarrow> Some ((- EIO, 0), s)
      | _ \<Rightarrow>
          (let s = snd (engine_status_read ev e False True s)
           in case engine_status_dump e s of
                None \<Rightarrow> None
              | Some _ \<Rightarrow> Some ((- ERESTARTSYS, 0), snd (xdma_engine_stop ev e (snd (transfer_abort e xfer s))))))"

text \<open>The loop over the transfers of a finished request, transfer \<open>i\<close> next: the bytes moved.\<close>

function completion_loop ::
    "env \<Rightarrow> ptr \<Rightarrow> xdma_request_cb \<Rightarrow> u32 \<Rightarrow> nat \<Rightarrow> int \<Rightarrow> kst \<Rightarrow> (int \<times> kst) option" where
  "completion_loop ev e req n i dn s =
     (if n = 0 then Some (dn, s)
      else if TFER_MAX \<le> i then None
      else
        let xfer = tfer ev req i;
            n = n - t_desc_num (k_xfer s xfer)
        in case completion_outcome ev e xfer s of
             None \<Rightarrow> None
           | Some ((rv, len), s) \<Rightarrow>
               let s = transfer_destroy (e_xdev (k_eng s e)) xfer s;
                   s = upd_eng e (\<lambda>g. g\<lparr>e_desc_used := e_desc_used g - t_desc_num (k_xfer s xfer)\<rparr>) s
               in if rv < 0 then Some (dn + len, s)
                  else completion_loop ev e req n (Suc i) (dn + len) s)"
  by pat_completeness auto
termination
  by (relation "measure (\<lambda>(ev, e, req, n, i, dn, s). TFER_MAX - i)") (auto simp: TFER_MAX_def)

declare completion_loop.simps [simp del]

text \<open>A handle without a request is a null pointer dereference.\<close>

definition xdma_xfer_completion ::
    "env \<Rightarrow> ptr \<Rightarrow> ptr \<Rightarrow> nat \<Rightarrow> bool \<Rightarrow> ptr \<Rightarrow> bool \<Rightarrow> kst \<Rightarrow> (int \<times> kst) option" where
  "xdma_xfer_completion ev cb xdev channel write sgt dma_mapped s =
     (case channel_engine xdev channel write s of
        None \<Rightarrow> Some (- EINVAL, s)
      | Some e \<Rightarrow>
          if e = NULL then Some (- EINVAL, s)
          else if e_magic (k_eng s e) \<noteq> MAGIC_ENGINE then Some (- EINVAL, s)
          else case c_req (k_cb s cb) of
                 None \<Rightarrow> None
               | Some req \<Rightarrow>
                   (case completion_loop ev e req (r_sw_desc_cnt req) 0 0 s of
                      None \<Rightarrow> None
                    | Some (dn, s) \<Rightarrow> Some (dn, xdma_request_free (r_addr req) (unmap_sgt dma_mapped sgt s))))"

subsection \<open>Performance measurement\<close>

definition XDMA_PERF_NUM_DESC :: u32 where "XDMA_PERF_NUM_DESC = 128"

text \<open>How many descriptors of \<open>w\<close> bytes the loop has.\<close>

definition perf_descs :: "u32 \<Rightarrow> u32" where
  "perf_descs w = (if w * XDMA_PERF_NUM_DESC > XDMA_PERF_NUM_DESC * 32 * 1024
                   then (XDMA_PERF_NUM_DESC * 32 * 1024) div w else XDMA_PERF_NUM_DESC)"

text \<open>Filling the descriptors and closing the loop.\<close>

definition perf_fill :: "ptr \<Rightarrow> ptr \<Rightarrow> u32 \<Rightarrow> u32 \<Rightarrow> kst \<Rightarrow> int \<times> kst" where
  "perf_fill e t num w s =
     (let eng = k_eng s e; dv = t_desc_virt (k_xfer s t);
          s = upd_descs dv (\<lambda>_ d. xdma_desc_set d (e_perf_buf_bus eng) 0 w (e_dir eng)) (unat num) s;
          (rv, d) = xdma_desc_control_set (k_desc s dv) 0;
          s = upd_desc dv (\<lambda>_. d) s
      in if rv < 0 then (rv, s)
         else (0, upd_desc (desc_at dv (unat (num - 1))) (\<lambda>d. xdma_desc_link d dv (t_desc_bus (k_xfer s t))) s))"

text \<open>After an error with a transfer allocated, \<open>list_del\<close> is called on its list entry, which is still
  zero: a null pointer dereference, as is a missing performance block.\<close>

definition xdma_performance_submit :: "env \<Rightarrow> ptr \<Rightarrow> ptr \<Rightarrow> kst \<Rightarrow> (int \<times> kst) option" where
  "xdma_performance_submit ev xdev e s =
     (case e_xdma_perf (k_eng s e) of
        None \<Rightarrow> None
      | Some perf \<Rightarrow>
          let w = pf_transfer_size perf; num = perf_descs w
          in if w > XDMA_PERF_NUM_DESC * 32 * 1024 then Some (- EINVAL, s)
             else
               let ((p, bus), s) = dma_alloc ev (unat w) s;
                   s = upd_eng e (\<lambda>g. g\<lparr>e_perf_buf_virt := p, e_perf_buf_bus := bus\<rparr>) s
               in if p = NULL then Some (- ENOMEM, s)
                  else
                    let (t, s) = kcall ev ''kzalloc'' (sizeof_transfer ev) s
                    in if t = 0 then
                         Some (- ENOMEM, upd_eng e (\<lambda>g. g\<lparr>e_perf_buf_virt := NULL\<rparr>) (dma_free p (unat w) s))
                       else
                         let t = nat t;
                             s = upd_xfer t (\<lambda>_. zero_transfer\<lparr>t_dir := e_dir (k_eng s e), t_desc_num := num\<rparr>) s;
                             ((dv, dbus), s) =
                               (if e_desc (k_eng s e) = NULL then dma_alloc ev (unat num * sizeof_xdma_desc) s
                                else ((e_desc (k_eng s e), e_desc_bus (k_eng s e)), s));
                             s = upd_eng e (\<lambda>g. g\<lparr>e_desc := dv, e_desc_bus := dbus\<rparr>) s
                         in if dv = NULL then None
                            else
                              let s = upd_xfer t (\<lambda>x. x\<lparr>t_desc_virt := dv, t_desc_bus := dbus\<rparr>) s;
                                  (rv, s) = transfer_desc_init t num s
                              in if rv < 0 then None
                                 else
                                   let (rv, s) = perf_fill e t num w s
                                   in if rv < 0 then None
                                      else
                                        let s = upd_xfer t (\<lambda>x. x\<lparr>t_cyclic := True\<rparr>) s;
                                            (rv, s) = transfer_queue ev e t s
                                        in if rv < 0 then None else Some (0, s))"

subsection \<open>Queueing behind other transfers\<close>

lemma queue_cb [simp]: "k_cb (snd (transfer_queue ev e t s)) = k_cb s"
  by (simp add: transfer_queue_def engine_start_def engine_start_mode_config_def engine_status_read_def xdma_device_flag_check_def
      Let_def split_beta split: list.splits)

lemma queue_running:
  fixes ev e t s
  defines "s' \<equiv> snd (transfer_queue ev e t s)"
  assumes ans: "queue_answer e t s = 0" and run: "e_running (k_eng s e)"
  shows "fst (transfer_queue ev e t s) = 0"
    and "k_eng s' = (k_eng s)(e := (k_eng s e)\<lparr>e_transfer_list := e_transfer_list (k_eng s e) @ [t]\<rparr>)"
    and "k_xfer s' = (k_xfer s)(t := (k_xfer s t)\<lparr>t_state := TRANSFER_STATE_SUBMITTED\<rparr>)" and "k_dev s' = k_dev s"
  using assms by (auto simp: s'_def queue_answer_def transfer_queue_def Let_def split_beta errno_defs split: if_splits)

text \<open>What the loop does to the state between building a transfer and queueing it.\<close>

definition nowait_mark :: "bool \<Rightarrow> bool \<Rightarrow> ptr \<Rightarrow> ptr \<Rightarrow> ptr \<Rightarrow> xdma_request_cb \<Rightarrow> kst \<Rightarrow> kst" where
  "nowait_mark m b sgt cb x req s = mark_last m b sgt x (upd_xfer x (\<lambda>y. y\<lparr>t_cb := cb\<rparr>) (set_cb_req cb req s))"

lemma nowait_mark_sel [simp]:
  "k_eng (nowait_mark m b sgt cb x req s) = k_eng s" "k_dev (nowait_mark m b sgt cb x req s) = k_dev s"
  "trace (nowait_mark m b sgt cb x req s) = trace s"
  "t_desc_num (k_xfer (nowait_mark m b sgt cb x req s) x) = t_desc_num (k_xfer s x)"
  "t_len (k_xfer (nowait_mark m b sgt cb x req s) x) = t_len (k_xfer s x)"
  "t_cyclic (k_xfer (nowait_mark m b sgt cb x req s) x) = t_cyclic (k_xfer s x)"
  "t_cb (k_xfer (nowait_mark m b sgt cb x req s) x) = cb"
  "t_last_in_request (k_xfer (nowait_mark m True sgt cb x req s) x)"
  "c_req (k_cb (nowait_mark m b sgt cb x req s) cb) = Some req"
  by (simp_all add: nowait_mark_def set_cb_req_def) (simp_all add: mark_last_def Let_def)

lemma nowait_turn:
  assumes "n \<noteq> 0" and "i < TFER_MAX" and ti: "transfer_init e req (tfer ev req i) s = ((0, req1), s1)"
    and q: "fst (transfer_queue ev e (tfer ev req i) s2) = 0"
    and s2: "s2 = nowait_mark m (n = t_desc_num (k_xfer s1 (tfer ev req i))) sgt cb (tfer ev req i) req1 s1"
  shows "nowait_loop ev e m sgt cb req n i s =
    nowait_loop ev e m sgt cb req1 (n - t_desc_num (k_xfer s1 (tfer ev req i))) (Suc i) (snd (transfer_queue ev e (tfer ev req i) s2))"
  using assms(1,2) q
  by (subst nowait_loop.simps) (simp add: ti Let_def split_beta nowait_mark_def s2 set_cb_req_def)

text \<open>An engine that takes transfers, running or not.\<close>

definition accepts :: "ptr \<Rightarrow> kst \<Rightarrow> bool" where
  "accepts e s \<longleftrightarrow> e \<noteq> NULL \<and> e_xdev (k_eng s e) \<noteq> NULL \<and> e_shutdown (k_eng s e) AND ENGINE_SHUTDOWN_REQUEST = 0 \<and>
     d_flags (k_dev s (e_xdev (k_eng s e))) AND XDEV_FLAG_OFFLINE = 0 \<and> (e_running (k_eng s e) \<or> e_transfer_list (k_eng s e) = [])"

lemma can_submit_accepts: "can_submit e s \<Longrightarrow> accepts e s"
  by (simp add: can_submit_def accepts_def)

lemma accepts_queue:
  assumes a: "accepts e s" and t: "t \<noteq> NULL" "t_desc_num (k_xfer s t) \<noteq> 0"
  shows "fst (transfer_queue ev e t s) = 0" and "accepts e (snd (transfer_queue ev e t s))"
    and "e_running (k_eng (snd (transfer_queue ev e t s)) e)"
    and "e_transfer_list (k_eng (snd (transfer_queue ev e t s)) e) = e_transfer_list (k_eng s e) @ [t]"
    and "ring_of (k_eng (snd (transfer_queue ev e t s)) e) = ring_of (k_eng s e)"
proof -
  have ans: "queue_answer e t s = 0" and e: "e \<noteq> NULL" using a t by (simp_all add: queue_answer_def accepts_def)
  show "ring_of (k_eng (snd (transfer_queue ev e t s)) e) = ring_of (k_eng s e)" using e by simp
  have "fst (transfer_queue ev e t s) = 0 \<and> accepts e (snd (transfer_queue ev e t s)) \<and>
    e_running (k_eng (snd (transfer_queue ev e t s)) e) \<and>
    e_transfer_list (k_eng (snd (transfer_queue ev e t s)) e) = e_transfer_list (k_eng s e) @ [t]"
  proof (cases "e_running (k_eng s e)")
    case True
    then show ?thesis using a queue_running [OF ans True, of ev] by (simp add: accepts_def)
  next
    case False
    then have l: "e_transfer_list (k_eng s e) = []" using a by (simp add: accepts_def)
    then show ?thesis using a queue_idle [OF ans l False, of ev] by (auto simp: accepts_def ENGINE_SHUTDOWN_NONE_def)
  qed
  then show "fst (transfer_queue ev e t s) = 0" "accepts e (snd (transfer_queue ev e t s))"
    "e_running (k_eng (snd (transfer_queue ev e t s)) e)"
    "e_transfer_list (k_eng (snd (transfer_queue ev e t s)) e) = e_transfer_list (k_eng s e) @ [t]" by simp_all
qed

text \<open>One turn of the loop on an engine that takes transfers.\<close>

lemma nowait_accepts:
  assumes a: "accepts e s" and ring: "ring_ok (k_eng s e)" and req: "req_ok req" and n: "n = r_sw_desc_cnt req - r_sw_desc_idx req"
    and nz: "n \<noteq> 0" and i: "i < TFER_MAX" and x: "tfer ev req i \<noteq> NULL"
  shows "\<exists>req1 k s1. nowait_loop ev e m sgt cb req n i s = nowait_loop ev e m sgt cb req1 (n - k) (Suc i) s1 \<and>
    accepts e s1 \<and> ring_ok (k_eng s1 e) \<and> req_ok req1 \<and> n - k = r_sw_desc_cnt req1 - r_sw_desc_idx req1 \<and>
    unat (n - k) = unat n - unat k \<and> r_addr req1 = r_addr req \<and> unat k = min (unat n) (unat (e_desc_max (k_eng s e)) - unat (e_desc_idx (k_eng s e))) \<and>
    e_desc_max (k_eng s1 e) = e_desc_max (k_eng s e) \<and>
    e_desc_idx (k_eng s1 e) = (e_desc_idx (k_eng s e) + k) mod e_desc_max (k_eng s e)"
proof -
  let ?x = "tfer ev req i"
  have more: "r_sw_desc_idx req < r_sw_desc_cnt req" using nz n req by (auto simp: req_ok_def)
  obtain req1 s1 where ti: "transfer_init e req ?x s = ((0, req1), s1)"
    using transfer_init_turn(1) [OF ring req more] by (metis prod.collapse)
  note t = transfer_init_turn [OF ring req more, where xf = ?x, unfolded ti fst_conv snd_conv]
  let ?k = "t_desc_num (k_xfer s1 ?x)"
  define s2 where "s2 = nowait_mark m (n = ?k) sgt cb ?x req1 s1"
  have k: "?k = ring_take (k_eng s e) req" and g1: "k_eng s1 = (k_eng s)(e := (k_eng s e)\<lparr>
      e_desc_idx := (e_desc_idx (k_eng s e) + ring_take (k_eng s e) req) mod e_desc_max (k_eng s e),
      e_desc_used := e_desc_used (k_eng s e) + ring_take (k_eng s e) req\<rparr>)"
    using transfer_init_sel(2,3) [OF ring req, of ?x, unfolded ti snd_conv] by (simp_all add: new_xfer_def Let_def)
  have "accepts e s2" using a by (simp add: s2_def accepts_def g1 t(15))
  note q = accepts_queue [OF this x, of ev]
  have num: "t_desc_num (k_xfer s2 ?x) \<noteq> 0" using t(4) by (simp add: s2_def)
  have step: "nowait_loop ev e m sgt cb req n i s =
      nowait_loop ev e m sgt cb req1 (n - ?k) (Suc i) (snd (transfer_queue ev e ?x s2))"
    by (rule nowait_turn [OF nz i ti q(1) [OF num] s2_def])
  have r: "ring_of (k_eng (snd (transfer_queue ev e ?x s2)) e) = ring_of (k_eng s1 e)" using q(5) [OF num] by (simp add: s2_def)
  have nn: "unat n = unat (r_sw_desc_cnt req) - unat (r_sw_desc_idx req)" using more by (simp add: n unat_sub)
  have "unat ?k \<le> unat n" using ring_take_unat [OF ring req] by (simp add: k nn)
  then have "unat (n - ?k) = unat n - unat ?k" by (intro unat_sub_le) (simp add: word_le_nat_alt)
  moreover have "unat ?k = min (unat n) (unat (e_desc_max (k_eng s e)) - unat (e_desc_idx (k_eng s e)))"
    using ring_take_unat [OF ring req] by (simp add: k nn)
  moreover have "ring_ok (k_eng (snd (transfer_queue ev e ?x s2)) e)" using ring_ok_ring_of [OF r] t(2) by simp
  moreover have "e_desc_max (k_eng (snd (transfer_queue ev e ?x s2)) e) = e_desc_max (k_eng s e)"
    "e_desc_idx (k_eng (snd (transfer_queue ev e ?x s2)) e) = (e_desc_idx (k_eng s e) + ?k) mod e_desc_max (k_eng s e)"
    using r by (simp_all add: ring_of_def g1 k)
  moreover have "n - ?k = r_sw_desc_cnt req1 - r_sw_desc_idx req1" by (simp add: n t(7,8))
  ultimately show ?thesis using step q(2) [OF num] t(3,6) by blast
qed

text \<open>A request that fits into the rest of the ring: the state in which its only transfer waits.\<close>

lemma nowait_one_chain:
  assumes can: "can_submit e s" and plain: "plain_engine ev (k_eng s e)" and ring: "ring_ok (k_eng s e)" and req: "req_ok req" "r_sw_desc_idx req = 0"
    and one: "0 < unat (r_sw_desc_cnt req)" "unat (r_sw_desc_cnt req) \<le> unat (e_desc_max (k_eng s e)) - unat (e_desc_idx (k_eng s e))"
    and x: "tfer ev req 0 \<noteq> NULL" and b: "bytes_left req < 2 ^ 32"
  defines "n \<equiv> r_sw_desc_cnt req" and "y \<equiv> tfer ev req 0"
  shows "\<exists>req1 s1. nowait_loop ev e m sgt cb req n 0 s = Some ((- EIOCBQUEUED, False), s1) \<and> waiting e y s1 \<and>
    same_ring ((k_eng s e)\<lparr>e_desc_idx := e_desc_idx (k_eng s1 e), e_desc_used := e_desc_used (k_eng s e) + n\<rparr>) (k_eng s1 e) \<and> k_dev s1 = k_dev s \<and>
    c_req (k_cb s1 cb) = Some req1 \<and> r_sw_desc_cnt req1 = n \<and> r_addr req1 = r_addr req \<and>
    t_desc_num (k_xfer s1 y) = n \<and> unat (t_len (k_xfer s1 y)) = bytes_left req \<and> t_cb (k_xfer s1 y) = cb \<and> t_last_in_request (k_xfer s1 y)"
proof -
  have nz: "n \<noteq> 0" using one by (auto simp: n_def)
  have more: "r_sw_desc_idx req < r_sw_desc_cnt req" using one req(2) by (simp add: word_less_nat_alt)
  obtain req1 s1 where ti: "transfer_init e req y s = ((0, req1), s1)"
    using transfer_init_turn(1) [OF ring req(1) more] by (metis prod.collapse)
  note t = transfer_init_turn [OF ring req(1) more, where xf = y, unfolded ti fst_conv snd_conv]
  have num: "t_desc_num (k_xfer s1 y) = n"
    using ring_take_unat [OF ring req(1)] one req(2) transfer_init_sel(2) [OF ring req(1), of y, unfolded ti snd_conv]
    by (simp add: new_xfer_def Let_def n_def word_unat_eq_iff)
  define s2 where "s2 = nowait_mark m (n = n) sgt cb y req1 s1"
  have c2: "can_submit e s2"
    by (rule can_submit_cong [OF can]) (use t(11-15) in \<open>simp_all add: s2_def\<close>)
  have yn: "y \<noteq> NULL" using x by (simp add: y_def)
  have ans: "queue_answer e y s2 = 0" using c2 yn t(4) by (simp add: queue_answer_def can_submit_def s2_def)
  have idle: "e_transfer_list (k_eng s2 e) = []" "\<not> e_running (k_eng s2 e)" using c2 by (simp_all add: can_submit_def)
  define s3 where "s3 = snd (transfer_queue ev e y s2)"
  note q = queue_idle [OF ans idle, of ev, folded s3_def]
  obtain w where g: "k_eng s3 = (k_eng s2)(e := (k_eng s2 e)\<lparr>e_transfer_list := [y], e_shutdown := ENGINE_SHUTDOWN_NONE,
      e_desc_dequeued := 0, e_status := w, e_running := True\<rparr>)" using q(2) by auto
  have z: "n - t_desc_num (k_xfer s1 y) = 0" by (simp add: num)
  have "nowait_loop ev e m sgt cb req n 0 s = nowait_loop ev e m sgt cb req1 0 (Suc 0) s3"
    using nowait_turn [of n 0 e req ev s req1 s1 s2 m sgt cb] nz ti q(1) by (simp add: y_def [symmetric] num s2_def s3_def TFER_MAX_def)
  then have loop: "nowait_loop ev e m sgt cb req n 0 s = Some ((- EIOCBQUEUED, False), s3)"
    by (simp add: nowait_loop.simps [of ev e m sgt cb req1 0])
  have p2: "plain_engine ev (k_eng s2 e)" using plain_engine_cong [OF t(11)] plain by (simp add: s2_def)
  have "\<not> status_error (k_eng s3 e)" using q(5) plain_no_error [OF p2] by auto
  moreover have "unat n < 2 ^ 24" using t(17) p2 num by (simp add: plain_engine_def s2_def)
  moreover have x2: "t_desc_num (k_xfer s2 y) = n" "\<not> t_cyclic (k_xfer s2 y)" using t(5) num by (simp_all add: s2_def)
  ultimately have "waiting e y s3"
    using c2 yn nz p2 by (simp add: waiting_def q(3)) (simp add: g can_submit_def plain_engine_def ENGINE_SHUTDOWN_NONE_def)
  moreover have "same_ring ((k_eng s e)\<lparr>e_desc_idx := e_desc_idx (k_eng s3 e), e_desc_used := e_desc_used (k_eng s e) + n\<rparr>) (k_eng s3 e)"
    using t(11) num by (simp add: g s2_def same_ring_def)
  moreover have "k_dev s3 = k_dev s" using q(4) t(15) by (simp add: s2_def)
  moreover have "c_req (k_cb s3 cb) = Some req1" by (simp add: s3_def queue_cb s2_def)
  moreover have "bytes_left req1 = 0" using t(9) num req(2) t(3,7) by (simp add: bytes_left_def req_ok_def n_def)
  ultimately show ?thesis
    using loop t(6,7,10) b num x2
    by (intro exI [of _ req1] exI [of _ s3]) (simp add: q(3) n_def s2_def)
qed

subsection \<open>Properties\<close>

text \<open>An asynchronous request that needs more than two descriptor chains, that is more descriptors
  than the ring has to its end plus a whole ring, makes the driver write a third transfer structure
  outside the two its request has.\<close>

theorem nowait_third_transfer:
  assumes a: "accepts e s" and ring: "ring_ok (k_eng s e)" and req: "req_ok req" and n: "n = r_sw_desc_cnt req - r_sw_desc_idx req"
    and big: "unat n > (unat (e_desc_max (k_eng s e)) - unat (e_desc_idx (k_eng s e))) + unat (e_desc_max (k_eng s e))"
    and x: "0 < offsetof_tfer ev"
  shows "nowait_loop ev e m sgt cb req n 0 s = None"
proof -
  let ?max = "e_desc_max (k_eng s e)" and ?idx = "e_desc_idx (k_eng s e)"
  have pos: "tfer ev r i \<noteq> NULL" for r i using x by (simp add: tfer_def)
  have nz: "n \<noteq> 0" using big by auto
  have lt: "0 < TFER_MAX" "Suc 0 < TFER_MAX" by (simp_all add: TFER_MAX_def)
  obtain req1 k s1 where 1: "nowait_loop ev e m sgt cb req n 0 s = nowait_loop ev e m sgt cb req1 (n - k) (Suc 0) s1"
    "accepts e s1" "ring_ok (k_eng s1 e)" "req_ok req1" "n - k = r_sw_desc_cnt req1 - r_sw_desc_idx req1"
    "unat (n - k) = unat n - unat k" "unat k = min (unat n) (unat ?max - unat ?idx)" "e_desc_max (k_eng s1 e) = ?max"
    using nowait_accepts [OF a ring req n nz lt(1) pos] by blast
  have k: "unat (n - k) > unat ?max" using 1(6,7) big by simp
  then have nz1: "n - k \<noteq> 0" by auto
  obtain req2 k2 s2 where 2: "nowait_loop ev e m sgt cb req1 (n - k) (Suc 0) s1 = nowait_loop ev e m sgt cb req2 (n - k - k2) (Suc (Suc 0)) s2"
    "unat (n - k - k2) = unat (n - k) - unat k2" "unat k2 = min (unat (n - k)) (unat ?max - unat (e_desc_idx (k_eng s1 e)))"
    using nowait_accepts [OF 1(2-5) nz1 lt(2) pos] 1(8) by metis
  have "n - k - k2 \<noteq> 0" using 2(2,3) k by auto
  then have "nowait_loop ev e m sgt cb req2 (n - k - k2) (Suc (Suc 0)) s2 = None"
    by (subst nowait_loop.simps) (simp add: TFER_MAX_def)
  with 1(1) 2(1) show ?thesis by simp
qed

text \<open>A ring of one descriptor and the request of three pieces.\<close>

theorem nowait_third_transfer_witness:
  "nowait_loop env0 2 False 5 9 req3 3 0
     (submit_state\<lparr>k_eng := (k_eng submit_state)(2 := (k_eng submit_state 2)\<lparr>e_desc_max := 1\<rparr>)\<rparr>) = None"
proof -
  let ?s = "submit_state\<lparr>k_eng := (k_eng submit_state)(2 := (k_eng submit_state 2)\<lparr>e_desc_max := 1\<rparr>)\<rparr>"
  have "accepts 2 ?s" "ring_ok (k_eng ?s 2)" "req_ok req3" "(3 :: u32) = r_sw_desc_cnt req3 - r_sw_desc_idx req3"
    by (simp_all add: accepts_def ring_ok_def req_ok_def req3_def zero_request_def submit_state_def zero_engine_def zero_dev_def)
  from nowait_third_transfer [OF this, of env0 False 5 9] show ?thesis
    by (simp add: env0_def submit_state_def zero_engine_def)
qed

text \<open>Collecting a request of one transfer.\<close>

lemma completion_one:
  assumes "n = t_desc_num (k_xfer s (tfer ev req 0))" and "n \<noteq> 0"
    and "completion_outcome ev e (tfer ev req 0) s = Some ((rv, len), s1)"
  shows "completion_loop ev e req n 0 dn s = Some (dn + len,
    upd_eng e (\<lambda>g. g\<lparr>e_desc_used := e_desc_used g - t_desc_num (k_xfer (transfer_destroy (e_xdev (k_eng s1 e)) (tfer ev req 0) s1) (tfer ev req 0))\<rparr>)
      (transfer_destroy (e_xdev (k_eng s1 e)) (tfer ev req 0) s1))"
  using assms
  by (subst completion_loop.simps) (simp add: TFER_MAX_def completion_loop.simps [of ev e req 0] Let_def)



end
