(* ===== verification/Xdma_Aperture.thy ===== *)
theory Xdma_Aperture
  imports Xdma_Submit
begin

text \<open>
  Transfers through an aperture (\<^verbatim>\<open>libxdma.c\<close>, \<open>xdma_xfer_aperture\<close>): a buffer of any length is moved
  through a window of \<open>aperture\<close> bytes on the card, starting again at the beginning of the window
  whenever its end is reached.  No software descriptors are prepared; the entries of the
  scatter-gather table are cut into hardware descriptors directly.

  The specification is by bytes: byte \<open>k\<close> of the request belongs to the card address \<open>k mod aperture\<close>
  into the window and to byte \<open>k\<close> of the scatter-gather list.  The first descriptor chain of a request
  has this property; the later ones do not, because the loop keeps starting at the first entry.
\<close>

subsection \<open>Cutting the entries into descriptors\<close>

text \<open>The local variables of the building loop and the offset of the request.\<close>

record ap_state =
  a_ep :: u64
  a_sg_offset :: u32
  a_offset :: u32
  a_desc_idx :: u32
  a_desc_cnt :: u32

text \<open>The loop over one entry of the table, of which \<open>tlen\<close> bytes from \<open>addr\<close> on are left; it stops at
  the end of the ring.\<close>

function ap_entry ::
    "dma_data_direction \<Rightarrow> ptr \<Rightarrow> ptr \<Rightarrow> u32 \<Rightarrow> u32 \<Rightarrow> u64 \<Rightarrow> u64 \<Rightarrow> u64 \<Rightarrow> u32 \<Rightarrow> ap_state \<Rightarrow> kst \<Rightarrow> (u32 \<times> ap_state) \<times> kst" where
  "ap_entry dir e xfer desc_max maxlen ep0 ep_max addr tlen a s =
     (if tlen = 0 then ((0, a), s)
      else
        let len = min tlen maxlen;
            ep = (if a_ep a > ep_max then ep0 else a_ep a);
            len = (if ep + ucast len > ep_max then ucast (ep_max - ep + 1) else len);
            s = upd_desc (desc_at (e_desc (k_eng s e)) (unat (a_desc_idx a))) (\<lambda>d. xdma_desc_set d addr ep len dir) s;
            s = upd_xfer xfer (\<lambda>x. x\<lparr>t_len := t_len x + len\<rparr>) s;
            a = \<lparr>a_ep = ep + ucast len, a_sg_offset = a_sg_offset a + len, a_offset = a_offset a + len,
                 a_desc_idx = a_desc_idx a + 1, a_desc_cnt = a_desc_cnt a + 1\<rparr>
        in if a_desc_idx a = desc_max then ((tlen - len, a), s)
           else ap_entry dir e xfer desc_max maxlen ep0 ep_max (addr + ucast len) (tlen - len) a s)"
  by pat_completeness auto
termination
proof (relation "measure (\<lambda>(dir, e, xfer, desc_max, maxlen, ep0, ep_max, addr, tlen, a, s). unat (desc_max - a_desc_idx a - 1))", goal_cases)
  case (2 dir e xfer desc_max maxlen ep0 ep_max addr tlen a s len ep len' s' s'' a')
  then have nz: "desc_max - a_desc_idx a - 1 \<noteq> 0" by (auto simp: algebra_simps)
  have "unat (w - 1) < unat w" if "w \<noteq> 0" for w :: u32
    using that by (simp add: unat_minus_one unat_gt_0)
  from this [OF nz] have "unat (desc_max - (a_desc_idx a + 1) - 1) < unat (desc_max - a_desc_idx a - 1)"
    by (simp only: diff_diff_eq [symmetric])
  with 2 show ?case by simp
qed simp

declare ap_entry.simps [simp del]

text \<open>The loop over the entries, \<open>i\<close> their number; \<open>None\<close> is a step past the end of the list.\<close>

fun ap_build ::
    "dma_data_direction \<Rightarrow> ptr \<Rightarrow> ptr \<Rightarrow> u32 \<Rightarrow> u32 \<Rightarrow> u64 \<Rightarrow> u64 \<Rightarrow> u32 \<Rightarrow> scatterlist list \<Rightarrow> u32 \<Rightarrow> ap_state \<Rightarrow> kst
     \<Rightarrow> ((u32 \<times> ap_state) \<times> kst) option" where
  "ap_build dir e xfer desc_max maxlen ep0 ep_max sg_max [] i a s =
     (if i < sg_max \<and> a_desc_idx a < desc_max then None else Some ((i, a), s))"
| "ap_build dir e xfer desc_max maxlen ep0 ep_max sg_max (sg # sgs) i a s =
     (if i < sg_max \<and> a_desc_idx a < desc_max then
        let tlen = sg_dma_len sg - a_sg_offset a; addr = sg_dma_address sg + ucast (a_sg_offset a);
            ((tlen, a), s) = ap_entry dir e xfer desc_max maxlen ep0 ep_max addr tlen a s
        in if tlen = 0 then ap_build dir e xfer desc_max maxlen ep0 ep_max sg_max sgs (i + 1) (a\<lparr>a_sg_offset := 0\<rparr>) s
           else Some ((i, a), s)
      else Some ((i, a), s))"

text \<open>Chaining the descriptors, \<open>k\<close> of them before the last one.\<close>

fun ap_link :: "ptr \<Rightarrow> u64 \<Rightarrow> nat \<Rightarrow> kst \<Rightarrow> kst" where
  "ap_link dv bus 0 s =
     upd_desc dv (\<lambda>d. d\<lparr>ds_next_lo := 0, ds_next_hi := 0,
       ds_control := DESC_MAGIC OR XDMA_DESC_STOPPED OR XDMA_DESC_EOP OR XDMA_DESC_COMPLETED\<rparr>) s"
| "ap_link dv bus (Suc k) s =
     (let bus = bus + of_nat sizeof_xdma_desc;
          s = upd_desc dv (\<lambda>d. d\<lparr>ds_next_lo := PCI_DMA_L bus, ds_next_hi := PCI_DMA_H bus, ds_control := DESC_MAGIC\<rparr>) s
      in ap_link (dv + sizeof_xdma_desc) bus k s)"

subsection \<open>One descriptor chain\<close>

text \<open>Building one transfer.  Without a descriptor the count of descriptors to chain, 0 - 1, wraps and the
  loop runs far past the ring: \<open>None\<close>.\<close>

definition ap_turn ::
    "env \<Rightarrow> ptr \<Rightarrow> bool \<Rightarrow> dma_data_direction \<Rightarrow> ptr \<Rightarrow> u32 \<Rightarrow> u64 \<Rightarrow> u32 \<Rightarrow> xdma_request_cb \<Rightarrow> kst \<Rightarrow> (xdma_request_cb \<times> kst) option" where
  "ap_turn ev e dma_mapped dir sgt maxlen ep_max sg_max req s =
     (let xfer = tfer ev req 0;
          s = upd_xfer xfer (\<lambda>_. zero_transfer\<lparr>t_dir := e_dir (k_eng s e), t_flags := (if dma_mapped then 0 else XFER_FLAG_NEED_UNMAP)\<rparr>) s;
          s = emit (Acquire (LkEngine e)) s;
          eng = k_eng s e;
          s = transfer_place eng xfer s;
          dv = t_desc_virt (k_xfer s xfer);
          a = \<lparr>a_ep = r_ep_addr req + ucast (r_offset req AND (r_aperture req - 1)), a_sg_offset = r_sg_offset req,
               a_offset = r_offset req, a_desc_idx = e_desc_idx eng, a_desc_cnt = 0\<rparr>
      in case ap_build dir e xfer (e_desc_max eng) maxlen (r_ep_addr req) ep_max sg_max
                (drop (r_sg req) (sgl (k_sgt s sgt))) (r_sg_idx req) a s of
           None \<Rightarrow> None
         | Some ((i, a), s) \<Rightarrow>
             let req = req\<lparr>r_offset := a_offset a, r_sg_offset := a_sg_offset a, r_sg_idx := i\<rparr>; cnt = a_desc_cnt a
             in if cnt = 0 then None
                else
                  let s = upd_xfer xfer (\<lambda>x. x\<lparr>t_desc_adjacent := cnt, t_desc_num := cnt\<rparr>) s;
                      s = upd_eng e (\<lambda>g. g\<lparr>e_desc_used := e_desc_used g + cnt\<rparr>) s;
                      s = ap_link dv (t_desc_bus (k_xfer s xfer)) (unat (cnt - 1)) s;
                      s = upd_xfer xfer (\<lambda>x. x\<lparr>t_desc_cmpl_th := cnt\<rparr>) s;
                      s = transfer_adjacent dv cnt s;
                      s = upd_eng e (\<lambda>g. g\<lparr>e_desc_idx := (e_desc_idx g + cnt) mod e_desc_max eng\<rparr>) s;
                      s = emit (Release (LkEngine e)) s
                  in Some (req, if r_offset req = r_total_len req
                                then upd_xfer xfer (\<lambda>x. x\<lparr>t_last_in_request := True, t_sgt := sgt\<rparr>) s else s))"

subsection \<open>The whole request\<close>

text \<open>What the sleeper does when it wakes up: the result and the bytes moved.\<close>

definition ap_outcome :: "env \<Rightarrow> ptr \<Rightarrow> ptr \<Rightarrow> kst \<Rightarrow> (int \<times> int) \<times> kst" where
  "ap_outcome ev e xfer s =
     (let s = emit (Acquire (LkEngine e)) s
      in case t_state (k_xfer s xfer) of
           TRANSFER_STATE_COMPLETED \<Rightarrow> ((0, uint (t_len (k_xfer s xfer))), emit (Release (LkEngine e)) s)
         | TRANSFER_STATE_FAILED \<Rightarrow> ((- EIO, 0), emit (Release (LkEngine e)) s)
         | _ \<Rightarrow> ((- ERESTARTSYS, 0), emit (Release (LkEngine e)) (give_up ev e xfer s)))"

definition ap_run :: "env \<Rightarrow> (kst \<Rightarrow> kst) \<Rightarrow> ptr \<Rightarrow> ptr \<Rightarrow> ptr \<Rightarrow> kst \<Rightarrow> (int + (int \<times> int)) \<times> kst" where
  "ap_run ev others xdev e xfer s =
     (let (rv, s) = transfer_queue ev e xfer s
      in if rv < 0 then (Inl rv, s)
         else
           let s = others (wake_thread e s);
               (out, s) = ap_outcome ev e xfer s;
               s = upd_eng e (\<lambda>g. g\<lparr>e_desc_used := e_desc_used g - t_desc_num (k_xfer s xfer)\<rparr>) s
           in (Inr out, transfer_destroy xdev xfer s))"

text \<open>The loop of \<open>xdma_xfer_aperture\<close>; it returns the last result and the bytes moved.\<close>

partial_function (option) ap_loop ::
    "env \<Rightarrow> (kst \<Rightarrow> kst) \<Rightarrow> ptr \<Rightarrow> ptr \<Rightarrow> bool \<Rightarrow> dma_data_direction \<Rightarrow> ptr \<Rightarrow> u32 \<Rightarrow> u64 \<Rightarrow> u32 \<Rightarrow> xdma_request_cb \<Rightarrow> int \<Rightarrow> kst
     \<Rightarrow> ((int \<times> int) \<times> kst) option" where
  "ap_loop ev others xdev e dma_mapped dir sgt maxlen ep_max sg_max req dn s =
     (if r_offset req < r_total_len req then
        case ap_turn ev e dma_mapped dir sgt maxlen ep_max sg_max req s of
          None \<Rightarrow> None
        | Some (req, s) \<Rightarrow>
            (case ap_run ev others xdev e (tfer ev req 0) s of
               (Inl rv, s) \<Rightarrow> Some ((rv, dn), s)
             | (Inr (rv, len), s) \<Rightarrow>
                 if rv < 0 then Some ((rv, dn + len), s)
                 else ap_loop ev others xdev e dma_mapped dir sgt maxlen ep_max sg_max req (dn + len) s)
      else Some ((0, dn), s))"

definition ap_request :: "ptr \<Rightarrow> ptr \<Rightarrow> u64 \<Rightarrow> u32 \<Rightarrow> sg_table \<Rightarrow> xdma_request_cb" where
  "ap_request p sgt ep_addr aperture g =
     zero_request\<lparr>r_addr := p, r_sgt := sgt, r_ep_addr := ep_addr, r_aperture := aperture, r_sg := 0,
       r_total_len := (\<Sum>sg \<leftarrow> take (nents g) (sgl g). sg_dma_len sg)\<rparr>"

definition xdma_xfer_aperture ::
    "env \<Rightarrow> (kst \<Rightarrow> kst) \<Rightarrow> ptr \<Rightarrow> bool \<Rightarrow> u64 \<Rightarrow> u32 \<Rightarrow> ptr \<Rightarrow> bool \<Rightarrow> kst \<Rightarrow> (int \<times> kst) option" where
  "xdma_xfer_aperture ev others e write ep_addr aperture sgt dma_mapped s =
     (if e = NULL then Some (- EINVAL, s)
      else if e_magic (k_eng s e) \<noteq> MAGIC_ENGINE then Some (- EINVAL, s)
      else
        let xdev = e_xdev (k_eng s e); dir = xfer_dir write;
            maxlen = min aperture (desc_blen_max ev); ep_max = ep_addr + ucast aperture - 1;
            (offline, s) = xdma_device_flag_check xdev XDEV_FLAG_OFFLINE s
        in if offline \<noteq> 0 then Some (- EBUSY, s)
           else if e_dir (k_eng s e) \<noteq> dir then Some (- EINVAL, s)
           else if e_streaming (k_eng s e) then Some (- EINVAL, s)
           else
             let (rv, s) = map_sgt ev dma_mapped sgt s
             in if rv < 0 then Some (rv, upd_sgt sgt (\<lambda>g. g\<lparr>nents := 0\<rparr>) s)
                else
                  let sg_max = of_nat (nents (k_sgt s sgt));
                      (p, s) = kcall ev ''kzalloc'' (unat (sizeof_request_cb ev)) s
                  in if p = 0 then Some (- ENOMEM, unmap_sgt dma_mapped sgt s)
                     else
                       let req = ap_request (nat p) sgt ep_addr aperture (k_sgt s sgt);
                           s = emit (Acquire (LkDesc e)) s
                       in case ap_loop ev others xdev e dma_mapped dir sgt maxlen ep_max sg_max req 0 s of
                            None \<Rightarrow> None
                          | Some ((rv, dn), s) \<Rightarrow>
                              let s = emit (Release (LkDesc e)) s;
                                  s = unmap_sgt dma_mapped sgt s;
                                  s = xdma_request_free (r_addr req) s
                              in Some (if dn \<noteq> 0 then dn else rv, s))"

subsection \<open>The window, byte by byte\<close>

text \<open>A piece is a bus address, a card address and a length.  \<open>moved A E mem off ps\<close>: the pieces \<open>ps\<close>
  move the bytes from byte \<open>off\<close> on, each within the window of \<open>A\<close> bytes at \<open>E\<close>, at the place its
  number has there, and between consecutive addresses of the memory \<open>mem\<close>.\<close>

type_synonym piece3 = "u64 \<times> u64 \<times> u32"

fun moved :: "nat \<Rightarrow> nat \<Rightarrow> (nat \<Rightarrow> u64) \<Rightarrow> nat \<Rightarrow> piece3 list \<Rightarrow> bool" where
  "moved A E mem off [] \<longleftrightarrow> True"
| "moved A E mem off ((addr, ep, len) # ps) \<longleftrightarrow>
     0 < len \<and> unat ep = E + off mod A \<and> off mod A + unat len \<le> A \<and>
     (\<forall>j < unat len. mem (off + j) = addr + of_nat j) \<and> moved A E mem (off + unat len) ps"

definition piece_bytes :: "piece3 list \<Rightarrow> nat" where
  "piece_bytes ps = (\<Sum>(addr, ep, len) \<leftarrow> ps. unat len)"

lemma piece_bytes_simps [simp]:
  "piece_bytes [] = 0" "piece_bytes ((addr, ep, len) # ps) = unat len + piece_bytes ps"
  "piece_bytes (ps @ qs) = piece_bytes ps + piece_bytes qs"
  by (simp_all add: piece_bytes_def)

lemma moved_append: "moved A E mem off (ps @ qs) \<longleftrightarrow> moved A E mem off ps \<and> moved A E mem (off + piece_bytes ps) qs"
  by (induction A E mem off ps rule: moved.induct) (auto simp: add.assoc)

text \<open>Writing pieces into descriptors \<open>i\<close>, \<open>i + 1\<close> and so on of the ring, for the transfer \<open>x\<close>.\<close>

fun put_pieces :: "dma_data_direction \<Rightarrow> ptr \<Rightarrow> ptr \<Rightarrow> nat \<Rightarrow> piece3 list \<Rightarrow> kst \<Rightarrow> kst" where
  "put_pieces dir D x i [] s = s"
| "put_pieces dir D x i ((addr, ep, len) # ps) s = put_pieces dir D x (Suc i) ps
     (upd_xfer x (\<lambda>y. y\<lparr>t_len := t_len y + len\<rparr>) (upd_desc (desc_at D i) (\<lambda>d. xdma_desc_set d addr ep len dir) s))"

lemma put_pieces_append: "put_pieces dir D x i (ps @ qs) s = put_pieces dir D x (i + length ps) qs (put_pieces dir D x i ps s)"
  by (induction dir D x i ps s rule: put_pieces.induct) simp_all

lemma put_pieces_frame [simp, frame]:
  "k_eng (put_pieces dir D x i ps s) = k_eng s" "k_dev (put_pieces dir D x i ps s) = k_dev s"
  "k_sgt (put_pieces dir D x i ps s) = k_sgt s" "trace (put_pieces dir D x i ps s) = trace s"
  by (induction dir D x i ps s rule: put_pieces.induct) simp_all

lemma put_pieces_len: "k_xfer (put_pieces dir D x i ps s) x = (k_xfer s x)\<lparr>t_len := t_len (k_xfer s x) + of_nat (piece_bytes ps)\<rparr>"
  by (induction dir D x i ps s rule: put_pieces.induct) (simp_all add: add.assoc)

lemma put_pieces_outside: "(\<And>j. i \<le> j \<Longrightarrow> j < i + length ps \<Longrightarrow> p \<noteq> desc_at D j) \<Longrightarrow> k_desc (put_pieces dir D x i ps s) p = k_desc s p"
proof (induction dir D x i ps s rule: put_pieces.induct)
  case (2 dir D x i addr ep len ps s)
  have "p \<noteq> desc_at D i" using "2.prems" [of i] by simp
  with 2 show ?case by simp
qed simp

lemma put_pieces_entry:
  "j < length ps \<Longrightarrow> ps ! j = (addr, ep, len) \<Longrightarrow>
   k_desc (put_pieces dir D x i ps s) (desc_at D (i + j)) = xdma_desc_set (k_desc s (desc_at D (i + j))) addr ep len dir"
proof (induction dir D x i ps s arbitrary: j rule: put_pieces.induct)
  case (2 dir D x i a1 e1 l1 ps s)
  show ?case
  proof (cases j)
    case 0
    with 2 show ?thesis by (simp add: put_pieces_outside)
  next
    case (Suc k)
    with 2 show ?thesis by simp
  qed
qed simp

text \<open>The card address while the loop is at byte \<open>off\<close>: at its place in the window, or just behind the
  window when it has to start again.\<close>

definition ep_pos :: "nat \<Rightarrow> nat \<Rightarrow> nat \<Rightarrow> u64 \<Rightarrow> bool" where
  "ep_pos A E off ep \<longleftrightarrow> unat ep = E + off mod A \<or> off mod A = 0 \<and> unat ep = E + A"

text \<open>A window of \<open>A\<close> bytes at \<open>E\<close>, with its first and last address and the longest piece.\<close>

definition window :: "nat \<Rightarrow> nat \<Rightarrow> u64 \<Rightarrow> u64 \<Rightarrow> u32 \<Rightarrow> bool" where
  "window A E ep0 ep_max maxlen \<longleftrightarrow>
     0 < unat maxlen \<and> unat maxlen \<le> A \<and> E + 2 * A \<le> 2 ^ 64 \<and> unat ep0 = E \<and> unat ep_max = E + A - 1"

lemma unat_ucast_u64 [simp]: "unat (ucast (w :: u32) :: u64) = unat w"
proof -
  have "unat w < 2 ^ 32" using unsigned_less [of w, where 'a = nat] by simp
  then show ?thesis by (simp add: unsigned_ucast_eq take_bit_nat_eq_self)
qed

lemma unat_of_nat_len: "n < 2 ^ LENGTH('a) \<Longrightarrow> unat (of_nat n :: 'a :: len word) = n"
  by (simp add: unsigned_of_nat take_bit_nat_eq_self)

lemma next_piece:
  fixes ep0 ep_max ep :: u64 and tlen maxlen :: u32
  assumes w: "window A E ep0 ep_max maxlen" and pos: "ep_pos A E off ep" and tlen: "tlen \<noteq> 0"
  defines "ep' \<equiv> if ep > ep_max then ep0 else ep"
  defines "len \<equiv> if ep' + ucast (min tlen maxlen) > ep_max then ucast (ep_max - ep' + 1) else min tlen maxlen"
  shows "unat ep' = E + off mod A" "unat len = min (min (unat tlen) (unat maxlen)) (A - off mod A)"
    "0 < unat len" "off mod A + unat len \<le> A" "ep_pos A E (off + unat len) (ep' + ucast len)"
proof -
  have A: "0 < A" and m: "off mod A < A" and E: "E + 2 * A \<le> 2 ^ 64" and E': "E + A < 2 ^ 64"
    using w by (auto simp: window_def)
  have mx: "unat ep_max = E + A - 1" "unat ep0 = E" using w by (simp_all add: window_def)
  show ep': "unat ep' = E + off mod A"
  proof (cases "unat ep = E + off mod A")
    case True
    then have "unat ep \<le> unat ep_max" using m mx by linarith
    with True show ?thesis by (simp add: ep'_def word_less_nat_alt)
  next
    case False
    then have "off mod A = 0" "unat ep = E + A" using pos by (simp_all add: ep_pos_def)
    with A mx show ?thesis by (simp add: ep'_def word_less_nat_alt)
  qed
  let ?l = "min tlen maxlen"
  have l: "unat ?l = min (unat tlen) (unat maxlen)" "0 < unat ?l"
    using tlen w by (auto simp: min_def word_le_nat_alt window_def unat_gt_0)
  have lA: "unat ?l \<le> A" using l w by (auto simp: window_def)
  have sum: "unat (ep' + ucast ?l) = E + off mod A + unat ?l"
    using ep' m lA E by (subst unat_word_add_lt) simp_all
  have rest: "unat (ep_max - ep' + 1) = A - off mod A"
  proof -
    have "ep' \<le> ep_max" using ep' mx m by (simp add: word_le_nat_alt)
    then have "unat (ep_max - ep') = A - 1 - off mod A" using ep' mx m by (simp add: unat_sub)
    then show ?thesis using m E' by (subst unat_word_add_lt) simp_all
  qed
  show len: "unat len = min (min (unat tlen) (unat maxlen)) (A - off mod A)"
  proof (cases "ep' + ucast ?l > ep_max")
    case True
    then have "A - off mod A \<le> unat ?l" using sum mx m by (simp add: word_less_nat_alt)
    moreover have "unat (ucast (ep_max - ep' + 1) :: u32) = A - off mod A"
      using rest calculation unsigned_less [of ?l, where 'a = nat] by (simp add: unsigned_ucast_eq take_bit_nat_eq_self)
    ultimately show ?thesis using True l by (simp add: len_def)
  next
    case False
    then have "unat ?l \<le> A - off mod A" using sum mx m by (simp add: word_less_nat_alt)
    with False l show ?thesis by (simp add: len_def)
  qed
  show "0 < unat len" "off mod A + unat len \<le> A" using len l m by auto
  have "unat (ep' + ucast len) = E + off mod A + unat len"
    using ep' len m E by (subst unat_word_add_lt) simp_all
  moreover have "(off + unat len) mod A = (if off mod A + unat len = A then 0 else off mod A + unat len)"
  proof -
    have "(off + unat len) mod A = (off mod A + unat len) mod A" by (rule mod_add_left_eq [symmetric])
    moreover have "off mod A + unat len \<le> A" using len m by auto
    ultimately show ?thesis by simp
  qed
  ultimately show "ep_pos A E (off + unat len) (ep' + ucast len)"
    by (simp add: ep_pos_def)
qed

text \<open>The loop over one entry writes pieces that move the bytes of the entry, all of them or as many as
  there is room for.\<close>

definition ap_advance :: "ap_state \<Rightarrow> u64 \<Rightarrow> piece3 list \<Rightarrow> ap_state" where
  "ap_advance a ep ps = \<lparr>a_ep = ep, a_sg_offset = a_sg_offset a + of_nat (piece_bytes ps), a_offset = a_offset a + of_nat (piece_bytes ps),
     a_desc_idx = a_desc_idx a + of_nat (length ps), a_desc_cnt = a_desc_cnt a + of_nat (length ps)\<rparr>"

lemma ap_advance_Nil [simp]: "ap_advance a (a_ep a) [] = a"
  by (simp add: ap_advance_def)

lemma ap_advance_Cons:
  "ap_advance \<lparr>a_ep = ep1, a_sg_offset = a_sg_offset a + len, a_offset = a_offset a + len, a_desc_idx = a_desc_idx a + 1,
     a_desc_cnt = a_desc_cnt a + 1\<rparr> ep ps = ap_advance a ep ((addr, ep0, len) # ps)"
  by (simp add: ap_advance_def add.assoc)

lemma ap_entry_pieces:
  assumes w: "window A E ep0 ep_max maxlen" and "ep_pos A E off (a_ep a)" and "a_desc_idx a < desc_max"
    and "\<And>j. j < unat tlen \<Longrightarrow> mem (off + j) = addr + of_nat j"
  shows "\<exists>ps ep. ap_entry dir e x desc_max maxlen ep0 ep_max addr tlen a s =
        ((tlen - of_nat (piece_bytes ps), ap_advance a ep ps), put_pieces dir (e_desc (k_eng s e)) x (unat (a_desc_idx a)) ps s) \<and>
      moved A E mem off ps \<and> piece_bytes ps \<le> unat tlen \<and> unat (a_desc_idx a) + length ps \<le> unat desc_max \<and>
      ep_pos A E (off + piece_bytes ps) ep \<and> (tlen \<noteq> 0 \<longrightarrow> ps \<noteq> []) \<and>
      (piece_bytes ps = unat tlen \<or> unat (a_desc_idx a) + length ps = unat desc_max)"
  using assms(2-)
proof (induction "unat tlen" arbitrary: tlen addr a s off rule: less_induct)
  case less
  show ?case
  proof (cases "tlen = 0")
    case True
    have "ap_entry dir e x desc_max maxlen ep0 ep_max addr tlen a s = ((tlen - of_nat (piece_bytes []), ap_advance a (a_ep a) []),
        put_pieces dir (e_desc (k_eng s e)) x (unat (a_desc_idx a)) [] s)"
      using True by (subst ap_entry.simps) simp
    then show ?thesis using less.prems True by (intro exI [of _ "[]"] exI [of _ "a_ep a"]) (simp add: word_le_nat_alt word_less_nat_alt)
  next
    case False
    define ep' where "ep' = (if a_ep a > ep_max then ep0 else a_ep a)"
    define len where "len = (if ep' + ucast (min tlen maxlen) > ep_max then ucast (ep_max - ep' + 1) else min tlen maxlen)"
    define a1 where "a1 = \<lparr>a_ep = ep' + ucast len, a_sg_offset = a_sg_offset a + len, a_offset = a_offset a + len,
                 a_desc_idx = a_desc_idx a + 1, a_desc_cnt = a_desc_cnt a + 1\<rparr>"
    define s1 where "s1 = upd_xfer x (\<lambda>y. y\<lparr>t_len := t_len y + len\<rparr>) (upd_desc (desc_at (e_desc (k_eng s e)) (unat (a_desc_idx a))) (\<lambda>d. xdma_desc_set d addr ep' len dir) s)"
    note np = next_piece [OF w less.prems(1) False, folded ep'_def, folded len_def]
    have eq: "ap_entry dir e x desc_max maxlen ep0 ep_max addr tlen a s =
        (if a_desc_idx a1 = desc_max then ((tlen - len, a1), s1)
         else ap_entry dir e x desc_max maxlen ep0 ep_max (addr + ucast len) (tlen - len) a1 s1)"
      using False by (subst ap_entry.simps) (simp add: Let_def ep'_def [symmetric] len_def [symmetric] a1_def s1_def)
    have lt: "unat len \<le> unat tlen" using np(2) by simp
    have sub: "unat (tlen - len) = unat tlen - unat len" using lt by (simp add: unat_sub word_le_nat_alt)
    have idx: "unat (a_desc_idx a1) = Suc (unat (a_desc_idx a))"
      using less.prems(2) unsigned_less [of desc_max, where 'a = nat] by (simp add: a1_def word_less_nat_alt unat_word_add_lt)
    have mem1: "mem (off + unat len + j) = addr + ucast len + of_nat j" if "j < unat (tlen - len)" for j
      using less.prems(3) [of "unat len + j"] that sub by (simp add: algebra_simps)
    have hd: "moved A E mem off ((addr, ep', len) # ps) \<longleftrightarrow> moved A E mem (off + unat len) ps" for ps
      using np less.prems(3) lt by (simp add: word_less_nat_alt)
    show ?thesis
    proof (cases "a_desc_idx a1 = desc_max")
      case True
      let ?ps = "[(addr, ep', len)]"
      have "ap_entry dir e x desc_max maxlen ep0 ep_max addr tlen a s = ((tlen - of_nat (piece_bytes ?ps), ap_advance a (ep' + ucast len) ?ps),
          put_pieces dir (e_desc (k_eng s e)) x (unat (a_desc_idx a)) ?ps s)"
        using True by (simp add: eq a1_def s1_def ap_advance_def)
      then show ?thesis
        using True np(5) lt idx hd [of "[]"] by (intro exI [of _ ?ps] exI [of _ "ep' + ucast len"]) auto
    next
      case False
      then have i1: "a_desc_idx a1 < desc_max"
        using less.prems(2) idx unsigned_word_eqI [of "a_desc_idx a1" desc_max, where 'a = nat] by (simp add: word_less_nat_alt) (metis Suc_lessI)
      have "unat (tlen - len) < unat tlen" using sub np(3) lt by simp
      from less.hyps [OF this, of "off + unat len" a1 "addr + ucast len" s1] np(5) i1 mem1
      obtain ps ep where ps: "ap_entry dir e x desc_max maxlen ep0 ep_max (addr + ucast len) (tlen - len) a1 s1 =
          ((tlen - len - of_nat (piece_bytes ps), ap_advance a1 ep ps), put_pieces dir (e_desc (k_eng s1 e)) x (unat (a_desc_idx a1)) ps s1)"
        "moved A E mem (off + unat len) ps" "piece_bytes ps \<le> unat (tlen - len)" "unat (a_desc_idx a1) + length ps \<le> unat desc_max"
        "ep_pos A E (off + unat len + piece_bytes ps) ep"
        "piece_bytes ps = unat (tlen - len) \<or> unat (a_desc_idx a1) + length ps = unat desc_max"
        by (auto simp: a1_def)
      let ?ps = "(addr, ep', len) # ps"
      have "ap_entry dir e x desc_max maxlen ep0 ep_max addr tlen a s = ((tlen - of_nat (piece_bytes ?ps), ap_advance a ep ?ps),
          put_pieces dir (e_desc (k_eng s e)) x (unat (a_desc_idx a)) ?ps s)"
        using False ps(1) idx by (simp add: eq s1_def ap_advance_def a1_def algebra_simps)
      then show ?thesis
        using ps(2-) hd idx sub lt by (intro exI [of _ ?ps] exI [of _ ep]) (auto simp: add.assoc)
    qed
  qed
qed

text \<open>The bus address of byte \<open>k\<close> of a scatter-gather list, and its length.\<close>

fun sg_byte :: "scatterlist list \<Rightarrow> nat \<Rightarrow> u64" where
  "sg_byte [] k = 0"
| "sg_byte (sg # sgs) k =
     (if k < unat (sg_dma_len sg) then sg_dma_address sg + of_nat k else sg_byte sgs (k - unat (sg_dma_len sg)))"

definition sg_total :: "scatterlist list \<Rightarrow> nat" where
  "sg_total sgs = (\<Sum>sg \<leftarrow> sgs. unat (sg_dma_len sg))"

lemma sg_total_simps [simp]: "sg_total [] = 0" "sg_total (sg # sgs) = unat (sg_dma_len sg) + sg_total sgs"
  by (simp_all add: sg_total_def)

lemma ap_advance_twice:
  "ap_advance ((ap_advance a ep ps)\<lparr>a_sg_offset := 0\<rparr>) ep' qs = (ap_advance a ep' (ps @ qs))\<lparr>a_sg_offset := of_nat (piece_bytes qs)\<rparr>"
  by (simp add: ap_advance_def add.assoc)

lemma ap_build_pieces:
  assumes w: "window A E ep0 ep_max maxlen" and "ep_pos A E off (a_ep a)" and "a_desc_idx a \<le> desc_max" and "a_sg_offset a = 0"
    and "unat i \<le> unat sg_max" and "unat sg_max - unat i \<le> length sgs"
    and "\<And>k. k < sg_total (take (unat sg_max - unat i) sgs) \<Longrightarrow> mem (off + k) = sg_byte (take (unat sg_max - unat i) sgs) k"
  shows "\<exists>ps ep so i'. ap_build dir e x desc_max maxlen ep0 ep_max sg_max sgs i a s =
        Some ((i', (ap_advance a ep ps)\<lparr>a_sg_offset := so\<rparr>), put_pieces dir (e_desc (k_eng s e)) x (unat (a_desc_idx a)) ps s) \<and>
      moved A E mem off ps \<and> unat (a_desc_idx a) + length ps \<le> unat desc_max \<and>
      (piece_bytes ps = sg_total (take (unat sg_max - unat i) sgs) \<or>
       unat (a_desc_idx a) + length ps = unat desc_max \<and> piece_bytes ps \<le> sg_total (take (unat sg_max - unat i) sgs))"
  using assms(2-)
proof (induction sgs arbitrary: i a s off)
  case Nil
  then have "unat i = unat sg_max" by simp
  then have "i = sg_max" by (rule unsigned_word_eqI)
  with Nil show ?case
    by (intro exI [of _ "[]"] exI [of _ "a_ep a"] exI [of _ 0] exI [of _ i]) (auto simp: ap_advance_def word_le_nat_alt)
next
  case (Cons sg sgs)
  show ?case
  proof (cases "i < sg_max \<and> a_desc_idx a < desc_max")
    case False
    then have "i = sg_max \<or> a_desc_idx a = desc_max"
      using Cons.prems(2,4) by (auto simp: word_le_nat_alt word_less_nat_alt intro: unsigned_word_eqI)
    with False Cons.prems show ?thesis
      by (intro exI [of _ "[]"] exI [of _ "a_ep a"] exI [of _ 0] exI [of _ i]) (auto simp: ap_advance_def word_le_nat_alt)
  next
    case True
    define n where "n = unat sg_max - unat i"
    define m where "m = unat sg_max - unat (i + 1)"
    have i1: "unat (i + 1) = Suc (unat i)"
      using True unsigned_less [of sg_max, where 'a = nat] by (simp add: word_less_nat_alt unat_word_add_lt)
    have n: "n = Suc m" using True i1 by (auto simp: n_def m_def word_less_nat_alt)
    have tk: "take n (sg # sgs) = sg # take m sgs" by (simp add: n)
    note mem = Cons.prems(6) [folded n_def, unfolded tk]
    have mem1: "mem (off + j) = sg_dma_address sg + of_nat j" if "j < unat (sg_dma_len sg)" for j
      using mem [of j] that by simp
    obtain ps ep where ps: "ap_entry dir e x desc_max maxlen ep0 ep_max (sg_dma_address sg) (sg_dma_len sg) a s =
        ((sg_dma_len sg - of_nat (piece_bytes ps), ap_advance a ep ps), put_pieces dir (e_desc (k_eng s e)) x (unat (a_desc_idx a)) ps s)"
      "moved A E mem off ps" "piece_bytes ps \<le> unat (sg_dma_len sg)" "unat (a_desc_idx a) + length ps \<le> unat desc_max"
      "ep_pos A E (off + piece_bytes ps) ep"
      "piece_bytes ps = unat (sg_dma_len sg) \<or> unat (a_desc_idx a) + length ps = unat desc_max"
      using ap_entry_pieces [OF w Cons.prems(1), of desc_max "sg_dma_len sg" mem "sg_dma_address sg" dir e x s] True mem1 by blast
    let ?a1 = "(ap_advance a ep ps)\<lparr>a_sg_offset := 0\<rparr>"
    let ?s1 = "put_pieces dir (e_desc (k_eng s e)) x (unat (a_desc_idx a)) ps s"
    have eq: "ap_build dir e x desc_max maxlen ep0 ep_max sg_max (sg # sgs) i a s =
        (if sg_dma_len sg - of_nat (piece_bytes ps) = 0
         then ap_build dir e x desc_max maxlen ep0 ep_max sg_max sgs (i + 1) ?a1 ?s1
         else Some ((i, ap_advance a ep ps), ?s1))"
      using True Cons.prems(3) ps(1) by (simp add: Let_def)
    show ?thesis
    proof (cases "piece_bytes ps = unat (sg_dma_len sg)")
      case False
      then have "sg_dma_len sg - of_nat (piece_bytes ps) \<noteq> 0"
        using ps(3) unsigned_less [of "sg_dma_len sg", where 'a = nat]
        by (metis eq_iff_diff_eq_0 le_less_trans unat_of_nat_len)
      with False ps show ?thesis
        unfolding eq by (intro exI [of _ ps] exI [of _ ep] exI [of _ "a_sg_offset (ap_advance a ep ps)"] exI [of _ i])
          (simp add: n_def [symmetric] n)
    next
      case full: True
      have idx: "unat (a_desc_idx ?a1) = unat (a_desc_idx a) + length ps"
        using ps(4) unsigned_less [of desc_max, where 'a = nat] by (simp add: ap_advance_def unat_word_add_lt unat_of_nat_len)
      have mem2: "mem (off + piece_bytes ps + k) = sg_byte (take m sgs) k" if "k < sg_total (take m sgs)" for k
        using mem [of "piece_bytes ps + k"] that full by (simp add: add.assoc)
      have "\<exists>qs ep' so i'. ap_build dir e x desc_max maxlen ep0 ep_max sg_max sgs (i + 1) ?a1 ?s1 =
          Some ((i', (ap_advance ?a1 ep' qs)\<lparr>a_sg_offset := so\<rparr>), put_pieces dir (e_desc (k_eng ?s1 e)) x (unat (a_desc_idx ?a1)) qs ?s1) \<and>
        moved A E mem (off + piece_bytes ps) qs \<and> unat (a_desc_idx ?a1) + length qs \<le> unat desc_max \<and>
        (piece_bytes qs = sg_total (take m sgs) \<or> unat (a_desc_idx ?a1) + length qs = unat desc_max \<and> piece_bytes qs \<le> sg_total (take m sgs))"
        using Cons.IH [of "off + piece_bytes ps" ?a1 "i + 1" ?s1, folded m_def] ps(4,5) idx Cons.prems(5) n i1 mem2 True
        by (auto simp: ap_advance_def word_le_nat_alt n_def word_less_nat_alt)
      then obtain qs ep' so i' where qs: "ap_build dir e x desc_max maxlen ep0 ep_max sg_max sgs (i + 1) ?a1 ?s1 =
          Some ((i', (ap_advance ?a1 ep' qs)\<lparr>a_sg_offset := so\<rparr>), put_pieces dir (e_desc (k_eng ?s1 e)) x (unat (a_desc_idx ?a1)) qs ?s1)"
        "moved A E mem (off + piece_bytes ps) qs" "unat (a_desc_idx ?a1) + length qs \<le> unat desc_max"
        "piece_bytes qs = sg_total (take m sgs) \<or> unat (a_desc_idx ?a1) + length qs = unat desc_max \<and> piece_bytes qs \<le> sg_total (take m sgs)"
        by blast
      show ?thesis
        unfolding eq using full qs ps(2) idx
        by (intro exI [of _ "ps @ qs"] exI [of _ ep'] exI [of _ so] exI [of _ i'])
          (auto simp: put_pieces_append moved_append ap_advance_twice n_def [symmetric] n)
    qed
  qed
qed

subsection \<open>The descriptor chain\<close>

lemma desc_at_add: "desc_at (desc_at p i) j = desc_at p (i + j)"
  by (simp add: desc_at_def algebra_simps)

lemma ap_link_frame [simp, frame]:
  "trace (ap_link dv b k s) = trace s" "k_eng (ap_link dv b k s) = k_eng s" "k_xfer (ap_link dv b k s) = k_xfer s"
  "k_dev (ap_link dv b k s) = k_dev s" "k_sgt (ap_link dv b k s) = k_sgt s"
  by (induction dv b k s rule: ap_link.induct) (simp_all add: Let_def)

lemma ap_link_outside: "(\<And>i. i \<le> k \<Longrightarrow> p \<noteq> desc_at dv i) \<Longrightarrow> k_desc (ap_link dv b k s) p = k_desc s p"
proof (induction dv b k s rule: ap_link.induct)
  case (1 dv b s)
  then show ?case using "1" [of 0] by simp
next
  case (2 dv b k s)
  from "2.prems" [of 0] have "p \<noteq> dv" by simp
  moreover have "\<And>i. i \<le> k \<Longrightarrow> p \<noteq> desc_at (dv + sizeof_xdma_desc) i"
    using "2.prems" by (simp add: desc_at_Suc)
  ultimately show ?case using "2.IH" by (simp add: Let_def)
qed

lemma ap_link_cong: "k_desc s = k_desc t \<Longrightarrow> k_desc (ap_link dv b k s) = k_desc (ap_link dv b k t)"
  by (induction dv b k s arbitrary: t rule: ap_link.induct) (simp_all add: Let_def)

lemma adjacent_cong: "k_desc s = k_desc t \<Longrightarrow> k_desc (transfer_adjacent dv n s) = k_desc (transfer_adjacent dv n t)"
  by (rule ext) (auto simp: transfer_adjacent_def upd_descs_at)

definition link_control :: "bool \<Rightarrow> u32" where
  "link_control b = (if b then DESC_MAGIC else DESC_MAGIC OR XDMA_DESC_STOPPED OR XDMA_DESC_EOP OR XDMA_DESC_COMPLETED)"

lemma ap_link_entry:
  "i \<le> k \<Longrightarrow> k_desc (ap_link dv b k s) (desc_at dv i) =
     (k_desc s (desc_at dv i))
       \<lparr>ds_control := link_control (i < k),
        ds_next_lo := (if i < k then PCI_DMA_L (b + of_nat (sizeof_xdma_desc * Suc i)) else 0),
        ds_next_hi := (if i < k then PCI_DMA_H (b + of_nat (sizeof_xdma_desc * Suc i)) else 0)\<rparr>"
proof (induction dv b k s arbitrary: i rule: ap_link.induct)
  case (1 dv b s)
  then show ?case by (simp add: link_control_def)
next
  case (2 dv b k s)
  have ne: "desc_at (dv + sizeof_xdma_desc) j \<noteq> dv" "dv \<noteq> desc_at (dv + sizeof_xdma_desc) j" for j
    by (simp_all add: desc_at_def sizeof_xdma_desc_def)
  show ?case
  proof (cases i)
    case 0
    with ne(2) show ?thesis by (simp add: Let_def ap_link_outside [where p = dv] link_control_def del: of_nat_mult)
  next
    case (Suc j)
    have at: "desc_at dv (Suc j) = desc_at (dv + sizeof_xdma_desc) j" by (simp add: desc_at_Suc)
    have bus: "b + of_nat (sizeof_xdma_desc * Suc (Suc j)) = b + of_nat sizeof_xdma_desc + of_nat (sizeof_xdma_desc * Suc j)"
      by (simp add: algebra_simps)
    show ?thesis
      using "2.IH" [OF refl refl, of j] "2.prems" Suc ne(1)
      by (simp add: Let_def at bus add.assoc del: of_nat_mult of_nat_add mult_Suc_right)
  qed
qed

lemma ap_link_chained: "desc_chained (k_desc (ap_link dv b k s)) dv b (Suc k)"
  unfolding desc_chained_def
proof (intro allI impI)
  fix i assume "i < Suc k"
  then show "desc_next (k_desc (ap_link dv b k s) (desc_at dv i)) = (if Suc i < Suc k then b + of_nat (sizeof_xdma_desc * Suc i) else 0)"
    by (subst ap_link_entry) (auto intro: desc_next_split desc_next_zero)
qed

text \<open>What the device makes of a descriptor: memory address, card address and length.\<close>

definition desc_piece :: "dma_data_direction \<Rightarrow> xdma_desc \<Rightarrow> piece3" where
  "desc_piece dir d = (if dir = DMA_TO_DEVICE then (desc_src d, desc_dst d, ds_bytes d) else (desc_dst d, desc_src d, ds_bytes d))"

definition chain_pieces :: "dma_data_direction \<Rightarrow> ptr \<Rightarrow> nat \<Rightarrow> kst \<Rightarrow> piece3 list" where
  "chain_pieces dir dv n s = map (\<lambda>i. desc_piece dir (k_desc s (desc_at dv i))) [0..<n]"

lemma desc_piece_set [simp]: "desc_piece dir (xdma_desc_set d addr ep len dir) = (addr, ep, len)"
  by (simp add: desc_piece_def desc_src_def desc_dst_def xdma_desc_set_def Let_def PCI_DMA_join)

lemma desc_piece_adjacent [simp]: "desc_piece dir (xdma_desc_adjacent d k) = desc_piece dir d"
  by (simp add: desc_piece_def desc_src_def desc_dst_def)

lemma desc_piece_link [simp]: "desc_piece dir (d\<lparr>ds_control := c, ds_next_lo := l, ds_next_hi := h\<rparr>) = desc_piece dir d"
  by (simp add: desc_piece_def desc_src_def desc_dst_def)

text \<open>Chaining and adjacency counts do not disturb the pieces written before.\<close>

lemma chain_pieces_put:
  assumes "length ps = Suc k" and "unat n = Suc k"
  shows "chain_pieces dir (desc_at D i) (Suc k) (transfer_adjacent (desc_at D i) n (ap_link (desc_at D i) b k (put_pieces dir D x i ps s))) = ps"
proof (rule nth_equalityI)
  fix j assume "j < length (chain_pieces dir (desc_at D i) (Suc k) (transfer_adjacent (desc_at D i) n (ap_link (desc_at D i) b k (put_pieces dir D x i ps s))))"
  then have j: "j < Suc k" by (simp add: chain_pieces_def)
  obtain a ep len where p: "ps ! j = (a, ep, len)" by (metis prod_cases3)
  have "desc_piece dir (k_desc (put_pieces dir D x i ps s) (desc_at (desc_at D i) j)) = ps ! j"
    unfolding desc_at_add using j assms(1) p by (subst put_pieces_entry [OF _ p]) simp_all
  with j assms show "chain_pieces dir (desc_at D i) (Suc k) (transfer_adjacent (desc_at D i) n (ap_link (desc_at D i) b k (put_pieces dir D x i ps s))) ! j = ps ! j"
    by (simp add: chain_pieces_def transfer_adjacent_def upd_descs_entry ap_link_entry del: upt_Suc)
qed (use assms in \<open>simp add: chain_pieces_def\<close>)

text \<open>The request and the bounds \<open>xdma_xfer_aperture\<close> starts with make a window.\<close>

lemma ap_window:
  fixes ep :: u64 and aperture :: u32
  assumes "aperture \<noteq> 0" and "blen \<noteq> 0" and "unat ep + 2 * unat aperture \<le> 2 ^ 64"
  shows "window (unat aperture) (unat ep) ep (ep + ucast aperture - 1) (min aperture blen)"
proof -
  have pos: "0 < unat aperture" using assms(1) by (simp add: unat_gt_0)
  have "unat (ep + ucast aperture) = unat ep + unat aperture"
    using assms(3) pos by (subst unat_word_add_lt) simp_all
  moreover from this have "ep + ucast aperture \<noteq> 0" using pos by auto
  ultimately have "unat (ep + ucast aperture - 1) = unat ep + unat aperture - 1" by (simp add: unat_minus_one)
  with assms pos show ?thesis
    by (auto simp: window_def min_def word_le_nat_alt unat_gt_0)
qed

lemma total_len_unat: "sg_total sgs < 2 ^ 32 \<Longrightarrow> unat (\<Sum>sg \<leftarrow> sgs. sg_dma_len sg) = sg_total sgs"
proof (induction sgs)
  case (Cons sg sgs)
  then show ?case by (simp add: unat_word_add_lt)
qed simp

text \<open>The state a chain is built in, and what the rest of the turn makes of the built pieces \<open>ps\<close>.\<close>

definition ap_start :: "ptr \<Rightarrow> ptr \<Rightarrow> bool \<Rightarrow> kst \<Rightarrow> kst" where
  "ap_start e x m s = transfer_place (k_eng s e) x (emit (Acquire (LkEngine e))
     (upd_xfer x (\<lambda>_. zero_transfer\<lparr>t_dir := e_dir (k_eng s e), t_flags := (if m then 0 else XFER_FLAG_NEED_UNMAP)\<rparr>) s))"

lemma ap_start_sel [simp]:
  "k_eng (ap_start e x m s) = k_eng s" "k_sgt (ap_start e x m s) = k_sgt s" "t_len (k_xfer (ap_start e x m s) x) = 0"
  "t_desc_virt (k_xfer (ap_start e x m s) x) = desc_at (e_desc (k_eng s e)) (unat (e_desc_idx (k_eng s e)))"
  "t_desc_bus (k_xfer (ap_start e x m s) x) = e_desc_bus (k_eng s e) + of_nat (sizeof_xdma_desc * unat (e_desc_idx (k_eng s e)))"
  by (simp_all add: ap_start_def transfer_place_def Let_def zero_transfer_def)

lemma ap_turn_built:
  fixes ev :: env and e :: ptr and s :: kst and req :: xdma_request_cb
  defines "eng \<equiv> k_eng s e" and "x \<equiv> tfer ev req 0"
  defines "dv \<equiv> desc_at (e_desc eng) (unat (e_desc_idx eng))" and "db \<equiv> e_desc_bus eng + of_nat (sizeof_xdma_desc * unat (e_desc_idx eng))"
  assumes bld: "ap_build dir e x (e_desc_max eng) maxlen (r_ep_addr req) ep_max mx (drop (r_sg req) (sgl (k_sgt s sgt))) (r_sg_idx req)
        \<lparr>a_ep = r_ep_addr req + ucast (r_offset req AND (r_aperture req - 1)), a_sg_offset = r_sg_offset req,
         a_offset = r_offset req, a_desc_idx = e_desc_idx eng, a_desc_cnt = 0\<rparr> (ap_start e x m s) =
      Some ((i', a), put_pieces dir (e_desc eng) x (unat (e_desc_idx eng)) ps (ap_start e x m s))"
    and cnt: "unat (a_desc_cnt a) = length ps" "ps \<noteq> []"
  shows "\<exists>req' s'. ap_turn ev e m dir sgt maxlen ep_max mx req s = Some (req', s') \<and>
     r_offset req' = a_offset a \<and> t_desc_num (k_xfer s' x) = a_desc_cnt a \<and> t_len (k_xfer s' x) = of_nat (piece_bytes ps) \<and>
     t_desc_virt (k_xfer s' x) = dv \<and> t_desc_bus (k_xfer s' x) = db \<and>
     chain_pieces dir dv (length ps) s' = ps \<and> desc_chained (k_desc s') dv db (length ps)"
proof -
  obtain k where k: "length ps = Suc k" using cnt(2) by (cases ps) auto
  let ?n = "a_desc_cnt a"
  have nz: "?n \<noteq> 0" and pred: "unat (?n - 1) = k"
  proof -
    show nz: "?n \<noteq> 0" using cnt k by auto
    then show "unat (?n - 1) = k" using cnt k by (simp add: unat_minus_one)
  qed
  define s2 where "s2 = put_pieces dir (e_desc eng) x (unat (e_desc_idx eng)) ps (ap_start e x m s)"
  have x2: "k_xfer s2 x = (k_xfer (ap_start e x m s) x)\<lparr>t_len := of_nat (piece_bytes ps)\<rparr>" by (simp add: s2_def put_pieces_len)
  define s3 where "s3 = transfer_adjacent dv ?n (ap_link dv db k s2)"
  define s4 where "s4 = upd_eng e (\<lambda>g. g\<lparr>e_desc_used := e_desc_used g + ?n\<rparr>) (upd_xfer x (\<lambda>x. x\<lparr>t_desc_adjacent := ?n, t_desc_num := ?n\<rparr>) s2)"
  define s5 where "s5 = transfer_adjacent dv ?n (upd_xfer x (\<lambda>x. x\<lparr>t_desc_cmpl_th := ?n\<rparr>) (ap_link dv db k s4))"
  have d5: "k_desc s5 = k_desc s3"
    unfolding s5_def s3_def upd_xfer_sel by (intro adjacent_cong) (simp, intro ap_link_cong, simp add: s4_def)
  define req' where "req' = req\<lparr>r_offset := a_offset a, r_sg_offset := a_sg_offset a, r_sg_idx := i'\<rparr>"
  define s6 where "s6 = emit (Release (LkEngine e)) (upd_eng e (\<lambda>g. g\<lparr>e_desc_idx := (e_desc_idx g + ?n) mod e_desc_max eng\<rparr>) s5)"
  define s' where "s' = (if r_offset req' = r_total_len req' then upd_xfer x (\<lambda>x. x\<lparr>t_last_in_request := True, t_sgt := sgt\<rparr>) s6 else s6)"
  have eq: "ap_turn ev e m dir sgt maxlen ep_max mx req s = Some (req', s')"
    unfolding ap_turn_def Let_def x_def [symmetric] using bld nz
    by (simp add: eng_def [symmetric] ap_start_def [of e x m s, folded eng_def, symmetric] s2_def [symmetric])
      (simp add: s'_def s6_def s5_def s4_def req'_def pred x2 eng_def [symmetric] dv_def [symmetric] db_def)
  have d': "k_desc s' = k_desc s3" by (simp add: s'_def s6_def d5)
  have "desc_next (k_desc s3 (desc_at dv i)) = desc_next (k_desc (ap_link dv db k s2) (desc_at dv i))" if "i < Suc k" for i
    using that cnt(1) k by (simp add: s3_def transfer_adjacent_def upd_descs_entry desc_next_def)
  with ap_link_chained [of dv db k s2] have ch: "desc_chained (k_desc s') dv db (length ps)" by (simp add: desc_chained_def k d')
  have "chain_pieces dir dv (Suc k) s3 = ps"
    unfolding s3_def s2_def dv_def using cnt(1) k by (intro chain_pieces_put) simp_all
  then have pc: "chain_pieces dir dv (length ps) s' = ps" by (simp add: chain_pieces_def d' k del: upt_Suc)
  show ?thesis
    by (rule exI [of _ req'], rule exI [of _ s'], intro conjI pc ch eq)
      (simp_all add: req'_def s'_def s6_def, simp_all add: s5_def s4_def x2 dv_def db_def eng_def)
qed

text \<open>C31: the first descriptor chain of a request through an aperture.  The chain the device follows moves
  the bytes of the scatter-gather list from byte 0 on, in order and without gaps; byte \<open>k\<close> goes to (or
  comes from) byte \<open>k mod aperture\<close> of the window and no descriptor leaves the window; the chain
  takes at least one descriptor, stays inside the ring, and either moves the whole list or fills the
  ring to its end.\<close>

theorem aperture_first_chain:
  fixes ev :: env and s :: kst and ep :: u64 and aperture :: u32 and sgt p :: ptr
  assumes ring: "ring_ok (k_eng s e)"
    and ents: "nents (k_sgt s sgt) \<le> length (sgl (k_sgt s sgt))" "nents (k_sgt s sgt) < 2 ^ 32"
    and ap: "aperture \<noteq> 0" "desc_blen_max ev \<noteq> 0" "unat ep + 2 * unat aperture \<le> 2 ^ 64"
  defines "sgs \<equiv> take (nents (k_sgt s sgt)) (sgl (k_sgt s sgt))" and "req \<equiv> ap_request p sgt ep aperture (k_sgt s sgt)"
  assumes total: "0 < sg_total sgs" "sg_total sgs < 2 ^ 32"
  shows "\<exists>req' s'. ap_turn ev e m dir sgt (min aperture (desc_blen_max ev)) (ep + ucast aperture - 1) (of_nat (nents (k_sgt s sgt))) req s
      = Some (req', s') \<and>
    (let x = k_xfer s' (tfer ev req 0); n = unat (t_desc_num x); ps = chain_pieces dir (t_desc_virt x) n s' in
       moved (unat aperture) (unat ep) (sg_byte sgs) 0 ps \<and> unat (t_len x) = piece_bytes ps \<and> r_offset req' = t_len x \<and>
       desc_chained (k_desc s') (t_desc_virt x) (t_desc_bus x) n \<and> 0 < n \<and>
       unat (e_desc_idx (k_eng s e)) + n \<le> unat (e_desc_max (k_eng s e)) \<and>
       (piece_bytes ps = sg_total sgs \<or>
        unat (e_desc_idx (k_eng s e)) + n = unat (e_desc_max (k_eng s e)) \<and> piece_bytes ps \<le> sg_total sgs))"
proof -
  let ?eng = "k_eng s e" and ?x = "tfer ev req 0" and ?mx = "of_nat (nents (k_sgt s sgt)) :: u32"
  define a where "a = \<lparr>a_ep = ep, a_sg_offset = 0, a_offset = 0, a_desc_idx = e_desc_idx ?eng, a_desc_cnt = 0\<rparr>"
  have mx: "unat ?mx = nents (k_sgt s sgt)" using ents(2) by (simp add: unat_of_nat_len)
  have idx: "unat (e_desc_idx ?eng) < unat (e_desc_max ?eng)" "unat (e_desc_max ?eng) < 2 ^ 31"
    using ring by (simp_all add: ring_ok_def word_less_nat_alt)
  obtain ps ep' so i' where b: "ap_build dir e ?x (e_desc_max ?eng) (min aperture (desc_blen_max ev)) ep (ep + ucast aperture - 1) ?mx
        (sgl (k_sgt s sgt)) 0 a (ap_start e ?x m s) = Some ((i', (ap_advance a ep' ps)\<lparr>a_sg_offset := so\<rparr>),
        put_pieces dir (e_desc ?eng) ?x (unat (a_desc_idx a)) ps (ap_start e ?x m s))"
    and mv: "moved (unat aperture) (unat ep) (sg_byte sgs) 0 ps"
    and le: "unat (e_desc_idx ?eng) + length ps \<le> unat (e_desc_max ?eng)"
    and fin: "piece_bytes ps = sg_total sgs \<or> unat (e_desc_idx ?eng) + length ps = unat (e_desc_max ?eng) \<and> piece_bytes ps \<le> sg_total sgs"
    using ap_build_pieces [OF ap_window [OF ap], where off = 0 and a = a and desc_max = "e_desc_max ?eng" and i = 0 and sg_max = ?mx
        and sgs = "sgl (k_sgt s sgt)" and mem = "sg_byte sgs" and dir = dir and e = e and x = ?x and s = "ap_start e ?x m s"] ents idx
    by (auto simp: mx a_def ep_pos_def word_le_nat_alt sgs_def)
  let ?a = "(ap_advance a ep' ps)\<lparr>a_sg_offset := so\<rparr>"
  have ne: "ps \<noteq> []" using fin total idx by auto
  have cnt: "unat (a_desc_cnt ?a) = length ps"
    using le idx by (simp add: ap_advance_def a_def unat_of_nat_len)
  have total32: "unat (of_nat (piece_bytes ps) :: u32) = piece_bytes ps" using fin total by (subst unat_of_nat_len) auto
  have req: "r_ep_addr req = ep" "r_offset req = 0" "r_sg_offset req = 0" "r_sg req = 0" "r_sg_idx req = 0"
    by (simp_all add: req_def ap_request_def zero_request_def)
  obtain req' s' where "ap_turn ev e m dir sgt (min aperture (desc_blen_max ev)) (ep + ucast aperture - 1) ?mx req s = Some (req', s')"
    and "r_offset req' = of_nat (piece_bytes ps)" "t_desc_num (k_xfer s' ?x) = a_desc_cnt ?a" "t_len (k_xfer s' ?x) = of_nat (piece_bytes ps)"
      "chain_pieces dir (t_desc_virt (k_xfer s' ?x)) (length ps) s' = ps"
      "desc_chained (k_desc s') (t_desc_virt (k_xfer s' ?x)) (t_desc_bus (k_xfer s' ?x)) (length ps)"
    using ap_turn_built [of dir e ev req s "min aperture (desc_blen_max ev)" "ep + ucast aperture - 1" ?mx sgt m i' ?a ps] b cnt ne
    by (auto simp: req a_def ap_advance_def)
  with mv le fin cnt total32 ne show ?thesis
    by (intro exI [of _ req'] exI [of _ s']) (simp add: Let_def)
qed

text \<open>A ring of one descriptor, and two entries of eight bytes.\<close>

definition ap_small :: kst where
  "ap_small = kst0\<lparr>k_eng := (\<lambda>_. zero_engine\<lparr>e_magic := MAGIC_ENGINE, e_dir := DMA_TO_DEVICE, e_desc := 0x8000, e_desc_bus := 0x100, e_desc_max := 1\<rparr>),
     k_sgt := (\<lambda>_. \<lparr>sgl = [\<lparr>sg_dma_address = 0x1000, sg_dma_len = 8\<rparr>, \<lparr>sg_dma_address = 0x9000, sg_dma_len = 8\<rparr>], nents = 2, orig_nents = 2\<rparr>)\<rparr>"

theorem aperture_first_chain_witness:
  "\<exists>req' s'. ap_turn env0 1 True DMA_TO_DEVICE 3 8 7 2 (ap_request 5 3 0 8 (k_sgt ap_small 3)) ap_small = Some (req', s') \<and>
     unat (t_desc_num (k_xfer s' (tfer env0 (ap_request 5 3 0 8 (k_sgt ap_small 3)) 0))) = 1"
  using aperture_first_chain [of ap_small 1 3 8 env0 0 True DMA_TO_DEVICE 5]
  by (fastforce simp: Let_def ap_small_def ring_ok_def zero_engine_def env0_def XDMA_DESC_BLEN_MAX_def min_def)

text \<open>The second descriptor chain of a request goes wrong.  With a ring of one descriptor and two
  entries of eight bytes, the second chain should move the bytes from number 8 on, at bus address
  0x9000, but moves those of the first entry again, because the position in the list is not advanced.\<close>

theorem aperture_second_chain_rereads:
  "\<exists>req1 s1 req2 s2.
     ap_turn env0 1 True DMA_TO_DEVICE 3 8 7 2 (ap_request 5 3 0 8 (k_sgt ap_small 3)) ap_small = Some (req1, s1) \<and>
     r_offset req1 = 8 \<and> sg_byte (sgl (k_sgt ap_small 3)) 8 = 0x9000 \<and>
     ap_turn env0 1 True DMA_TO_DEVICE 3 8 7 2 req1 s1 = Some (req2, s2) \<and>
     chain_pieces DMA_TO_DEVICE (t_desc_virt (k_xfer s2 (tfer env0 req1 0))) 1 s2 = [(0x1000, 0, 8)]"
  by (simp add: ap_turn_def ap_small_def ap_request_def zero_request_def Let_def ap_entry.simps transfer_place_def zero_engine_def)
    (simp add: chain_pieces_def transfer_adjacent_def upd_descs_def, simp add: desc_piece_def desc_src_def desc_dst_def xdma_desc_set_def
      PCI_DMA_L_def PCI_DMA_H_def)

end
