(* ===== verification/Xdma_Irq.thy ===== *)
theory Xdma_Irq
  imports Xdma_IntRegs "HOL-Library.Multiset"
begin

text \<open>
  Interrupts (\<^verbatim>\<open>libxdma.c\<close>): the handlers, which acknowledge the device and hand the work to the bottom
  halves and to the readers of user events, and the setup of the interrupt lines: message signalled
  interrupts, the vector tables of the device, requesting and releasing the lines.

  A handler registered for a user interrupt is code outside this driver; its call is an event.  The
  lines in use are what the trace of requests and releases leaves.
\<close>

subsection \<open>User interrupts\<close>

definition IRQ_NONE :: int where "IRQ_NONE = 0"
definition IRQ_HANDLED :: int where "IRQ_HANDLED = 1"

definition upd_user_irq :: "ptr \<Rightarrow> nat \<Rightarrow> (xdma_user_irq \<Rightarrow> xdma_user_irq) \<Rightarrow> kst \<Rightarrow> kst" where
  "upd_user_irq xdev i f = upd_dev xdev (\<lambda>d. d\<lparr>d_user_irq := (d_user_irq d)(i := f (d_user_irq d i))\<rparr>)"

text \<open>\<open>None\<close> is a null pointer.\<close>

definition user_irq_service :: "env \<Rightarrow> (ptr \<times> nat) option \<Rightarrow> kst \<Rightarrow> int \<times> kst" where
  "user_irq_service ev user_irq s =
     (case user_irq of
        None \<Rightarrow> (IRQ_NONE, s)
      | Some (xdev, i) \<Rightarrow>
          let ui = d_user_irq (k_dev s xdev) i
          in if ui_handler ui \<noteq> NULL
             then (ksvc ev (trace s) ''user_irq_handler'' (ui_handler ui), emit (UserHandler (ui_handler ui) (ui_user_idx ui) (ui_dev ui)) s)
             else
               let s = emit (Acquire (LkEvents xdev i)) s;
                   s = (if ui_events_irq ui = 0
                        then emit (Wake (WqEvents xdev i)) (upd_user_irq xdev i (\<lambda>u. u\<lparr>ui_events_irq := 1\<rparr>) s) else s)
               in (IRQ_HANDLED, emit (Release (LkEvents xdev i)) s))"

subsection \<open>The handlers\<close>

definition REGS_USER_OFS_INT_V2 :: nat where "REGS_USER_OFS_INT_V2 = 0x30000"

text \<open>The loop over the user interrupts, \<open>k\<close> of them to go, \<open>w\<close> the requests left.\<close>

fun isr_users :: "env \<Rightarrow> ptr \<Rightarrow> nat \<Rightarrow> nat \<Rightarrow> u32 \<Rightarrow> kst \<Rightarrow> kst" where
  "isr_users ev xdev 0 user w s = s"
| "isr_users ev xdev (Suc k) user w s =
     (if w = 0 then s
      else if w AND push_bit user 1 \<noteq> 0
      then isr_users ev xdev k (Suc user) (w AND NOT (push_bit user 1)) (snd (user_irq_service ev (Some (xdev, user)) s))
      else isr_users ev xdev k (Suc user) w s)"

text \<open>The loop over the engines of a direction.\<close>

fun isr_channels :: "ptr list \<Rightarrow> u32 \<Rightarrow> kst \<Rightarrow> kst" where
  "isr_channels [] m s = s"
| "isr_channels (e # es) m s =
     (if m = 0 then s
      else if e_irq_bitmask (k_eng s e) AND m \<noteq> 0 \<and> e_magic (k_eng s e) = MAGIC_ENGINE
      then isr_channels es (m AND NOT (e_irq_bitmask (k_eng s e))) (emit (SchedWork e) s)
      else isr_channels es m s)"

definition h2c_engines :: "xdma_dev \<Rightarrow> ptr list" where
  "h2c_engines d = map (d_engine_h2c d) [0..<d_h2c_channel_max d]"

definition c2h_engines :: "xdma_dev \<Rightarrow> ptr list" where
  "c2h_engines d = map (d_engine_c2h d) [0..<d_c2h_channel_max d]"

definition xdma_isr :: "env \<Rightarrow> ptr \<Rightarrow> kst \<Rightarrow> int \<times> kst" where
  "xdma_isr ev xdev s =
     (if xdev = NULL then (- IRQ_NONE, s)
      else
        let d = k_dev s xdev;
            user_intc_reg = d_bar d (d_user_bar_idx d) + REGS_USER_OFS_INT_V2;
            (ch_irq, s) = read_register ev (ireg d ''channel_int_request'') s;
            s = (if ch_irq \<noteq> 0 then channel_interrupts_disable xdev ch_irq s else s);
            (user_irq, s) = read_register ev (ireg d ''user_int_request'') s;
            user_irq = user_irq AND 0xff;
            s = write_register user_irq (user_intc_reg + 0xb0) s;
            s = (if user_irq \<noteq> 0 then isr_users ev xdev (d_user_max d) 0 user_irq s else s);
            s = isr_channels (h2c_engines d) (ch_irq AND d_mask_irq_h2c d) s;
            s = isr_channels (c2h_engines d) (ch_irq AND d_mask_irq_c2h d) s
        in (IRQ_HANDLED, upd_dev xdev (\<lambda>d. d\<lparr>d_irq_count := d_irq_count d + 1\<rparr>) s))"

definition xdma_user_irq :: "env \<Rightarrow> (ptr \<times> nat) option \<Rightarrow> kst \<Rightarrow> int \<times> kst" where
  "xdma_user_irq ev dev_id s = (case dev_id of None \<Rightarrow> (IRQ_NONE, s) | Some _ \<Rightarrow> user_irq_service ev dev_id s)"

definition xdma_channel_irq :: "env \<Rightarrow> ptr \<Rightarrow> kst \<Rightarrow> int \<times> kst" where
  "xdma_channel_irq ev e s =
     (if e = NULL then (IRQ_NONE, s)
      else
        let xdev = e_xdev (k_eng s e)
        in if xdev = NULL then (IRQ_NONE, s)
           else
             let s = write_register (e_interrupt_enable_mask_value (k_eng s e)) (ereg (k_eng s e) ''interrupt_enable_mask_w1c'') s;
                 (_, s) = read_register ev (ireg (k_dev s xdev) ''channel_int_pending'') s;
                 s = emit (SchedWork e) s
             in (IRQ_HANDLED, upd_dev xdev (\<lambda>d. d\<lparr>d_irq_count := d_irq_count d + 1\<rparr>) s))"

subsection \<open>Message signalled interrupts\<close>

definition arch_msi_check_device :: "ptr \<Rightarrow> int \<Rightarrow> string \<Rightarrow> int" where
  "arch_msi_check_device dev nvec type = 0"

text \<open>The flag \<open>PCI_BUS_FLAGS_NO_MSI\<close> is bit 0.  The capability asked for, MSI or MSI-X, is part of the
  name of the service.\<close>

definition msi_msix_capable :: "env \<Rightarrow> ptr \<Rightarrow> string \<Rightarrow> kst \<Rightarrow> bool \<times> kst" where
  "msi_msix_capable ev dev type s =
     (if dev = NULL \<or> pdev_no_msi ev dev then (False, s)
      else if list_ex (\<lambda>f. f AND 1 \<noteq> 0) (pdev_bus_flags ev dev) then (False, s)
      else if arch_msi_check_device dev 1 type \<noteq> 0 then (False, s)
      else
        let (pos, s) = kcall ev (''pci_find_capability '' @ type) dev s
        in (pos \<noteq> 0, s))"

definition disable_msi_msix :: "env \<Rightarrow> ptr \<Rightarrow> ptr \<Rightarrow> kst \<Rightarrow> kst" where
  "disable_msi_msix ev xdev pdev s =
     (if d_msix_enabled (k_dev s xdev)
      then upd_dev xdev (\<lambda>d. d\<lparr>d_msix_enabled := False\<rparr>) (snd (kcall ev ''pci_disable_msix'' pdev s))
      else if d_msi_enabled (k_dev s xdev)
      then upd_dev xdev (\<lambda>d. d\<lparr>d_msi_enabled := False\<rparr>) (snd (kcall ev ''pci_disable_msi'' pdev s))
      else s)"

definition enable_msi_msix :: "env \<Rightarrow> ptr \<Rightarrow> ptr \<Rightarrow> kst \<Rightarrow> int \<times> kst" where
  "enable_msi_msix ev xdev pdev s =
     (if xdev = NULL then (- EINVAL, s)
      else if pdev = NULL then (- EINVAL, s)
      else
        let (msix, s) = (if interrupt_mode ev = 3 \<or> interrupt_mode ev = 0 then msi_msix_capable ev pdev ''MSIX'' s else (False, s))
        in if msix then
             let req_nvec = d_c2h_channel_max (k_dev s xdev) + d_h2c_channel_max (k_dev s xdev) + d_user_max (k_dev s xdev);
                 (rv, s) = kcall ev (''pci_alloc_irq_vectors MSIX '' @ dec req_nvec) pdev s
             in (rv, upd_dev xdev (\<lambda>d. d\<lparr>d_msix_enabled := True\<rparr>) s)
           else
             let (msi, s) = (if interrupt_mode ev = 1 \<or> interrupt_mode ev = 0 then msi_msix_capable ev pdev ''MSI'' s else (False, s))
             in if msi then
                  let (rv, s) = kcall ev ''pci_enable_msi'' pdev s
                  in (rv, upd_dev xdev (\<lambda>d. d\<lparr>d_msi_enabled := True\<rparr>) s)
                else (0, s))"

text \<open>The status and command registers of the PCI configuration space: \<open>PCI_STATUS_INTERRUPT\<close> is 0x8,
  \<open>PCI_COMMAND_INTX_DISABLE\<close> is 0x400; the value written is part of the name.\<close>

definition pci_check_intr_pend :: "env \<Rightarrow> ptr \<Rightarrow> kst \<Rightarrow> kst" where
  "pci_check_intr_pend ev pdev s =
     (let (v, s) = kcall ev ''pci_read_config_word PCI_STATUS'' pdev s
      in if (word_of_int v :: u16) AND 0x08 \<noteq> 0
         then snd (kcall ev ''pci_write_config_word PCI_STATUS PCI_STATUS_INTERRUPT'' pdev s) else s)"

definition pci_keep_intx_enabled :: "env \<Rightarrow> ptr \<Rightarrow> kst \<Rightarrow> kst" where
  "pci_keep_intx_enabled ev pdev s =
     (let (v, s) = kcall ev ''pci_read_config_word PCI_COMMAND'' pdev s;
          pcmd = (word_of_int v :: u16);
          pcmd_new = pcmd AND NOT 0x400
      in if pcmd_new \<noteq> pcmd
         then snd (kcall ev (''pci_write_config_word PCI_COMMAND '' @ dec (unat pcmd_new)) pdev s) else s)"

subsection \<open>The vector tables of the device\<close>

text \<open>The inner loop packs up to four vector numbers into a word, \<open>k\<close> of them left; the numbers are small
  and the additions do not wrap.\<close>

fun pack_vectors :: "nat \<Rightarrow> nat \<Rightarrow> nat \<Rightarrow> nat \<Rightarrow> u32 \<Rightarrow> u32 \<times> nat" where
  "pack_vectors 0 i mx shift val = (val, i)"
| "pack_vectors (Suc k) i mx shift val =
     (if i < mx then pack_vectors k (Suc i) mx (shift + 8) (val OR push_bit shift (of_nat i AND 0x1f)) else (val, i))"

lemma pack_vectors_snd: "snd (pack_vectors k i mx shift val) = (if i < mx then min (i + k) mx else i)"
  by (induction k i mx shift val rule: pack_vectors.induct) auto

function prog_vectors :: "bool \<Rightarrow> ptr \<Rightarrow> nat \<Rightarrow> nat \<Rightarrow> nat \<Rightarrow> kst \<Rightarrow> kst" where
  "prog_vectors clear base j i mx s =
     (if i < mx then
        let (val, i) = (if clear then (0, i + 4) else pack_vectors 4 i mx 0 0)
        in prog_vectors clear base (Suc j) i mx (write_register val (base + 4 * j) s)
      else s)"
  by pat_completeness auto
termination
proof (relation "measure (\<lambda>(clear, base, j, i, mx, s). mx - i)", goal_cases)
  case (2 clear base j i mx s x val i')
  then have "i' = snd (if clear then (0 :: u32, i + 4) else pack_vectors 4 i mx 0 0)" by (metis snd_conv)
  then have "i' = (if clear then i + 4 else min (i + 4) mx)"
    using 2 pack_vectors_snd [of 4 i mx 0 0] by simp
  with 2 show ?case by auto
qed simp

declare prog_vectors.simps [simp del]

definition prog_irq_msix_user :: "ptr \<Rightarrow> bool \<Rightarrow> kst \<Rightarrow> kst" where
  "prog_irq_msix_user xdev clear s =
     (let d = k_dev s xdev; i = d_c2h_channel_max d + d_h2c_channel_max d
      in prog_vectors clear (ireg d ''user_msi_vector'') 0 i (i + d_user_max d) s)"

definition prog_irq_msix_channel :: "ptr \<Rightarrow> bool \<Rightarrow> kst \<Rightarrow> kst" where
  "prog_irq_msix_channel xdev clear s =
     (let d = k_dev s xdev
      in prog_vectors clear (ireg d ''channel_msi_vector'') 0 0 (d_c2h_channel_max d + d_h2c_channel_max d) s)"

subsection \<open>Requesting and releasing the lines\<close>

definition request_irq :: "env \<Rightarrow> u32 \<Rightarrow> irq_cookie \<Rightarrow> kst \<Rightarrow> int \<times> kst" where
  "request_irq ev vector c s =
     (let rv = ksvc ev (trace s) ''request_irq'' (unat vector) in (rv, emit (ReqIrq (uint vector) c rv) s))"

definition vector_of :: "env \<Rightarrow> ptr \<Rightarrow> nat \<Rightarrow> u32" where
  "vector_of ev pdev j = word_of_int (irq_vector ev pdev j)"

fun request_engines :: "env \<Rightarrow> ptr \<Rightarrow> nat \<Rightarrow> ptr list \<Rightarrow> kst \<Rightarrow> int \<times> kst" where
  "request_engines ev pdev j [] s = (0, s)"
| "request_engines ev pdev j (e # es) s =
     (let vector = vector_of ev pdev j;
          (rv, s) = request_irq ev vector (CookieEngine e) s
      in if rv \<noteq> 0 then (rv, s)
         else request_engines ev pdev (Suc j) es (upd_eng e (\<lambda>g. g\<lparr>e_msix_irq_line := vector\<rparr>) s))"

definition irq_msix_channel_setup :: "env \<Rightarrow> ptr \<Rightarrow> kst \<Rightarrow> int \<times> kst" where
  "irq_msix_channel_setup ev xdev s =
     (if xdev = NULL then (- EINVAL, s)
      else if \<not> d_msix_enabled (k_dev s xdev) then (0, s)
      else
        let d = k_dev s xdev;
            (rv, s) = request_engines ev (d_pdev d) 0 (h2c_engines d) s
        in if rv \<noteq> 0 then (rv, s) else request_engines ev (d_pdev d) (d_h2c_channel_max d) (c2h_engines d) s)"

text \<open>Releasing stops at the first engine without a line.\<close>

fun free_engines :: "ptr list \<Rightarrow> kst \<Rightarrow> kst" where
  "free_engines [] s = s"
| "free_engines (e # es) s =
     (if e_msix_irq_line (k_eng s e) = 0 then s
      else free_engines es (emit (FreeIrq (uint (e_msix_irq_line (k_eng s e))) (CookieEngine e)) s))"

definition irq_msix_channel_teardown :: "ptr \<Rightarrow> kst \<Rightarrow> kst" where
  "irq_msix_channel_teardown xdev s =
     (if \<not> d_msix_enabled (k_dev s xdev) then s
      else
        let s = prog_irq_msix_channel xdev True s;
            s = free_engines (h2c_engines (k_dev s xdev)) s
        in free_engines (c2h_engines (k_dev s xdev)) s)"

definition free_users :: "env \<Rightarrow> ptr \<Rightarrow> ptr \<Rightarrow> nat \<Rightarrow> nat list \<Rightarrow> kst \<Rightarrow> kst" where
  "free_users ev pdev xdev base is s =
     fold (\<lambda>i. emit (FreeIrq (uint (vector_of ev pdev (base + i))) (CookieUser xdev i))) is s"

definition irq_msix_user_teardown :: "env \<Rightarrow> ptr \<Rightarrow> kst \<Rightarrow> kst" where
  "irq_msix_user_teardown ev xdev s =
     (if xdev = NULL then s
      else if \<not> d_msix_enabled (k_dev s xdev) then s
      else
        let d = k_dev s xdev;
            s = prog_irq_msix_user xdev True s
        in free_users ev (d_pdev d) xdev (d_h2c_channel_max d + d_c2h_channel_max d) [0..<d_user_max d] s)"

text \<open>Requesting the lines of the user interrupts \<open>i\<close>, \<open>i + 1\<close> and so on, \<open>k\<close> of them; after an error
  those requested before are released, the last one first.\<close>

fun request_users :: "env \<Rightarrow> ptr \<Rightarrow> ptr \<Rightarrow> nat \<Rightarrow> nat \<Rightarrow> nat \<Rightarrow> kst \<Rightarrow> int \<times> kst" where
  "request_users ev pdev xdev base i 0 s = (0, s)"
| "request_users ev pdev xdev base i (Suc k) s =
     (let (rv, s) = request_irq ev (vector_of ev pdev (base + i)) (CookieUser xdev i) s
      in if rv \<noteq> 0 then (rv, free_users ev pdev xdev base (rev [0..<i]) s)
         else request_users ev pdev xdev base (Suc i) k s)"

definition irq_msix_user_setup :: "env \<Rightarrow> ptr \<Rightarrow> kst \<Rightarrow> int \<times> kst" where
  "irq_msix_user_setup ev xdev s =
     (let d = k_dev s xdev
      in request_users ev (d_pdev d) xdev (d_h2c_channel_max d + d_c2h_channel_max d) 0 (d_user_max d) s)"

definition irq_msi_setup :: "env \<Rightarrow> ptr \<Rightarrow> ptr \<Rightarrow> kst \<Rightarrow> int \<times> kst" where
  "irq_msi_setup ev xdev pdev s =
     (let (irq, s) = kcall ev ''pdev->irq'' pdev s;
          s = upd_dev xdev (\<lambda>d. d\<lparr>d_irq_line := sint (word_of_int irq :: u32)\<rparr>) s
      in request_irq ev (word_of_int irq) (CookieDev xdev) s)"

definition irq_legacy_setup :: "env \<Rightarrow> ptr \<Rightarrow> ptr \<Rightarrow> kst \<Rightarrow> int \<times> kst" where
  "irq_legacy_setup ev xdev pdev s =
     (let (v, s) = kcall ev ''pci_read_config_byte PCI_INTERRUPT_PIN'' pdev s;
          val = (word_of_int v :: u8)
      in if val = 0 then (- EINVAL, s)
         else
           let b = (ucast (val - 1) :: u32);
               w = push_bit 24 b OR push_bit 16 b OR push_bit 8 b OR b;
               bar = d_bar (k_dev s xdev) (d_config_bar_idx (k_dev s xdev));
               s = (if val > 1 then
                      fold (\<lambda>ofs. write_register w (bar + ofs)) [0x2080, 0x2084, 0x2088, 0x208C, 0x20A0, 0x20A4] s
                    else s);
               (irq, s) = kcall ev ''pdev->irq'' pdev s;
               s = upd_dev xdev (\<lambda>d. d\<lparr>d_irq_line := sint (word_of_int irq :: u32)\<rparr>) s
           in request_irq ev (word_of_int irq) (CookieDev xdev) s)"

definition irq_teardown :: "env \<Rightarrow> ptr \<Rightarrow> kst \<Rightarrow> kst" where
  "irq_teardown ev xdev s =
     (if d_msix_enabled (k_dev s xdev) then irq_msix_user_teardown ev xdev (irq_msix_channel_teardown xdev s)
      else if d_irq_line (k_dev s xdev) \<noteq> - 1
      then emit (FreeIrq (uint (word_of_int (d_irq_line (k_dev s xdev)) :: u32)) (CookieDev xdev)) s
      else s)"

definition irq_setup :: "env \<Rightarrow> ptr \<Rightarrow> ptr \<Rightarrow> kst \<Rightarrow> int \<times> kst" where
  "irq_setup ev xdev pdev s =
     (let s = pci_keep_intx_enabled ev pdev s
      in if d_msix_enabled (k_dev s xdev) then
           let (rv, s) = irq_msix_channel_setup ev xdev s
           in if rv \<noteq> 0 then (rv, s)
              else
                let (rv, s) = irq_msix_user_setup ev xdev s
                in if rv \<noteq> 0 then (rv, s)
                   else (0, prog_irq_msix_user xdev False (prog_irq_msix_channel xdev False s))
         else if d_msi_enabled (k_dev s xdev) then irq_msi_setup ev xdev pdev s
         else irq_legacy_setup ev xdev pdev s)"

subsection \<open>What the handlers do\<close>

text \<open>The bottom halves a trace has put on the work queue, newest first.\<close>

fun scheduled :: "event list \<Rightarrow> ptr list" where
  "scheduled [] = []"
| "scheduled (SchedWork e # es) = e # scheduled es"
| "scheduled (_ # es) = scheduled es"

lemma scheduled_append: "scheduled (xs @ ys) = scheduled xs @ scheduled ys"
  by (induction xs rule: scheduled.induct) auto

lemma scheduled_map [simp]: "scheduled (map SchedWork es) = es"
  by (induction es) auto

text \<open>A user interrupt after an event: its flag is set, unless a handler takes the event.\<close>

definition signalled :: "xdma_user_irq \<Rightarrow> xdma_user_irq" where
  "signalled u = (if ui_handler u = NULL \<and> ui_events_irq u = 0 then u\<lparr>ui_events_irq := 1\<rparr> else u)"

lemma user_service_sel [simp]:
  fixes ev :: env and x :: ptr and i :: nat and s :: kst
  defines "s' \<equiv> snd (user_irq_service ev (Some (x, i)) s)"
  shows "k_eng s' = k_eng s" "scheduled (trace s') = scheduled (trace s)" "held l (trace s') = held l (trace s)"
    "k_dev s' = (k_dev s)(x := (k_dev s x)\<lparr>d_user_irq := (d_user_irq (k_dev s x))(i := signalled (d_user_irq (k_dev s x) i))\<rparr>)"
  by (simp_all add: s'_def user_irq_service_def upd_user_irq_def signalled_def Let_def)

lemma bit_and_push: "(w :: u32) AND 2 ^ n = 0 \<longleftrightarrow> \<not> bit w n"
  using bit_iff_and_push_bit_not_eq_0 [of w n] by simp

definition users_after :: "nat \<Rightarrow> nat \<Rightarrow> u32 \<Rightarrow> (nat \<Rightarrow> xdma_user_irq) \<Rightarrow> nat \<Rightarrow> xdma_user_irq" where
  "users_after u k w U = (\<lambda>i. if u \<le> i \<and> i < u + k \<and> bit w i then signalled (U i) else U i)"

lemma users_after_0 [simp]: "users_after u 0 w U = U" "users_after u k 0 U = U"
  by (auto simp: users_after_def fun_eq_iff)

lemma users_after_Suc:
  "bit w u \<Longrightarrow> users_after u (Suc k) w U = users_after (Suc u) k (w AND NOT (2 ^ u)) (U(u := signalled (U u)))"
  "\<not> bit w u \<Longrightarrow> users_after u (Suc k) w U = users_after (Suc u) k w U"
proof -
  show "users_after u (Suc k) w U = users_after (Suc u) k (w AND NOT (2 ^ u)) (U(u := signalled (U u)))" if "bit w u"
  proof
    fix i
    show "users_after u (Suc k) w U i = users_after (Suc u) k (w AND NOT (2 ^ u)) (U(u := signalled (U u))) i"
      using that bit_imp_le_length [of w i] by (cases "i = u") (auto simp: users_after_def bit_simps simp flip: push_bit_of_1)
  qed
  show "users_after u (Suc k) w U = users_after (Suc u) k w U" if "\<not> bit w u"
  proof
    fix i
    show "users_after u (Suc k) w U i = users_after (Suc u) k w U i"
      using that by (cases "i = u") (auto simp: users_after_def)
  qed
qed

lemma isr_users_sel:
  "k_eng (isr_users ev x k u w s) = k_eng s \<and> scheduled (trace (isr_users ev x k u w s)) = scheduled (trace s) \<and>
   held l (trace (isr_users ev x k u w s)) = held l (trace s) \<and>
   k_dev (isr_users ev x k u w s) = (k_dev s)(x := (k_dev s x)\<lparr>d_user_irq := users_after u k w (d_user_irq (k_dev s x))\<rparr>)"
proof (induction ev x k u w s rule: isr_users.induct)
  case (2 ev x k u w s)
  consider "w = 0" | "w \<noteq> 0" "bit w u" | "w \<noteq> 0" "\<not> bit w u" by blast
  then show ?case
  proof cases
    case 2
    then show ?thesis using "2.IH"(1) by (simp add: bit_and_push users_after_Suc(1)) (simp add: fun_eq_iff fun_upd_def)
  next
    case 3
    then show ?thesis using "2.IH"(2) by (simp add: bit_and_push users_after_Suc(2))
  qed simp
qed simp

lemma user_service_trace: "\<exists>tr. trace (snd (user_irq_service ev (Some (x, i)) s)) = tr @ trace s \<and> scheduled tr = []"
  by (simp add: user_irq_service_def upd_user_irq_def Let_def)

lemma isr_users_trace: "\<exists>tr. trace (isr_users ev x k u w s) = tr @ trace s \<and> scheduled tr = []"
proof (induction ev x k u w s rule: isr_users.induct)
  case (2 ev x k u w s)
  obtain tr where tr: "trace (snd (user_irq_service ev (Some (x, u)) s)) = tr @ trace s" "scheduled tr = []"
    using user_service_trace by blast
  consider "w = 0" | "w \<noteq> 0" "bit w u" | "w \<noteq> 0" "\<not> bit w u" by blast
  then show ?case
  proof cases
    case 2
    with "2.IH"(1) obtain tr' where "trace (isr_users ev x (Suc k) u w s) = tr' @ tr @ trace s" "scheduled tr' = []"
      by (auto simp: bit_and_push tr)
    with tr show ?thesis by (intro exI [of _ "tr' @ tr"]) (simp add: scheduled_append)
  next
    case 3
    then show ?thesis using "2.IH"(2) by (simp add: bit_and_push)
  qed simp
qed simp

lemma isr_channels_sel [simp]:
  "k_eng (isr_channels es m s) = k_eng s" "k_dev (isr_channels es m s) = k_dev s"
  by (induction es m s rule: isr_channels.induct) simp_all

text \<open>Engines with their own interrupt bits are scheduled exactly when their bit is requested.\<close>

lemma isr_channels_trace:
  assumes "\<forall>e \<in> set es. e_magic (k_eng s e) = MAGIC_ENGINE"
    and "sorted_wrt (\<lambda>e f. e_irq_bitmask (k_eng s e) AND e_irq_bitmask (k_eng s f) = 0) es"
  shows "trace (isr_channels es m s) = map SchedWork (rev (filter (\<lambda>e. e_irq_bitmask (k_eng s e) AND m \<noteq> 0) es)) @ trace s"
  using assms
proof (induction es m s rule: isr_channels.induct)
  case (2 e es m s)
  let ?b = "\<lambda>e. e_irq_bitmask (k_eng s e)"
  show ?case
  proof (cases "?b e AND m \<noteq> 0")
    case True
    have "?b f AND (m AND NOT (?b e)) = ?b f AND m" if "f \<in> set es" for f
    proof -
      have "?b e AND ?b f = 0" using "2.prems"(2) that by simp
      then have "\<not> (bit (?b e) n \<and> bit (?b f) n)" for n by (metis bit_0_eq bit_and_iff bot_apply bot_bool_def)
      then show ?thesis by (auto simp: bit_eq_iff bit_simps)
    qed
    then have "filter (\<lambda>f. ?b f AND (m AND NOT (?b e)) \<noteq> 0) es = filter (\<lambda>f. ?b f AND m \<noteq> 0) es"
      by (intro filter_cong) auto
    moreover have "m \<noteq> 0" using True by auto
    ultimately show ?thesis using 2 True by simp
  qed (use 2 in auto)
qed simp


text \<open>A device with two host-to-card engines, whose second one and whose user interrupts 1 and 9 have
  requested attention.\<close>

definition irq_device :: kst where
  "irq_device = kst0\<lparr>k_dev := (\<lambda>_. zero_dev\<lparr>d_bar := (\<lambda>_. 0x10000), d_h2c_channel_max := 2, d_user_max := 16,
       d_engine_h2c := (\<lambda>i. i + 1), d_mask_irq_h2c := 3\<rparr>),
     k_eng := (\<lambda>e. zero_engine\<lparr>e_magic := MAGIC_ENGINE, e_irq_bitmask := of_nat e\<rparr>)\<rparr>"

definition env_irq :: env where
  "env_irq = env0\<lparr>hw := (\<lambda>_ a. if a = 0x12044 then 2 else if a = 0x12040 then 0x202 else 0)\<rparr>"

lemma irq_device_simps [simp]:
  "d_bar (k_dev irq_device x) i = 0x10000" "d_user_max (k_dev irq_device x) = 16" "d_mask_irq_h2c (k_dev irq_device x) = 3"
  "h2c_engines (k_dev irq_device x) = [1, 2]" "c2h_engines (k_dev irq_device x) = []" "trace irq_device = []"
  "e_magic (k_eng irq_device e) = MAGIC_ENGINE" "e_irq_bitmask (k_eng irq_device e) = of_nat e"
  "d_user_irq (k_dev irq_device x) n = zero_user_irq"
  by (simp_all add: irq_device_def h2c_engines_def c2h_engines_def zero_dev_def zero_engine_def kst0_def upt_rec)


text \<open>requests of the user interrupts 8 and above are dropped.  Although a device has up to 16 user
  interrupts, the handler of the shared line never flags one of the upper eight nor calls its handler,
  whatever the device requests.\<close>

theorem isr_drops_high_users:
  assumes "8 \<le> i"
  shows "d_user_irq (k_dev (snd (xdma_isr ev xdev s)) xdev) i = d_user_irq (k_dev s xdev) i"
proof -
  have b: "\<not> bit (w AND 0xff) i" for w :: u32
  proof -
    have m: "(0xff :: u32) = mask 8" by (simp add: mask_eq_exp_minus_1)
    show ?thesis unfolding m using assms by (simp add: bit_simps)
  qed
  show ?thesis
    by (simp add: xdma_isr_def Let_def split_beta isr_users_sel users_after_def b)
qed

theorem isr_drops_high_users_witness:
  "(8 :: nat) \<le> 9 \<and> d_user_irq (k_dev (snd (xdma_isr env_irq 5 irq_device)) 5) 9 = zero_user_irq"
  using isr_drops_high_users [of 9 env_irq 5 irq_device] by simp

subsection \<open>The vector tables\<close>

text \<open>The four fields of a word of the vector table.\<close>

definition vector_field :: "u32 \<Rightarrow> nat \<Rightarrow> u32" where
  "vector_field w n = drop_bit (8 * n) w AND 0xff"

lemma pack_field:
  assumes "n < 4"
  shows "vector_field (fst (pack_vectors 4 i mx 0 0)) n = (if i + n < mx then of_nat (i + n) AND 0x1f else 0)"
proof -
  have m: "(0xff :: u32) = mask 8" "(0x1f :: u32) = mask 5" by (simp_all add: mask_eq_exp_minus_1)
  have n: "n = 0 \<or> n = 1 \<or> n = 2 \<or> n = 3" using assms by auto
  define v where "v k = (if i + k < mx then of_nat (i + k) AND (mask 5 :: u32) else 0)" for k
  have vb: "bit (v k) l \<Longrightarrow> l < 5" for k l by (auto simp: v_def bit_simps split: if_splits)
  have p: "fst (pack_vectors 4 i mx 0 0) = v 0 OR push_bit 8 (v 1) OR push_bit 16 (v 2) OR push_bit 24 (v 3)"
  proof -
    have four: "(4 :: nat) = Suc (Suc (Suc (Suc 0)))" by simp
    show ?thesis unfolding four pack_vectors.simps by (simp add: or.assoc v_def m numeral_2_eq_2 numeral_3_eq_3)
  qed
  have "drop_bit (8 * n) (v 0 OR push_bit 8 (v 1) OR push_bit 16 (v 2) OR push_bit 24 (v 3)) AND mask 8 = v n"
    using n by (elim disjE; intro bit_eqI) (auto simp: bit_simps dest: vb)
  then show ?thesis by (simp add: vector_field_def p m v_def)
qed

lemma prog_vectors_frame [simp]:
  "k_eng (prog_vectors c base j i mx s) = k_eng s" "k_dev (prog_vectors c base j i mx s) = k_dev s"
  "held l (trace (prog_vectors c base j i mx s)) = held l (trace s)"
proof (induction c base j i mx s rule: prog_vectors.induct)
  case (1 c base j i mx s)
  let ?v = "if c then (0, i + 4) else pack_vectors 4 i mx 0 0"
  have e: "prog_vectors c base j i mx s =
      (if i < mx then prog_vectors c base (Suc j) (snd ?v) mx (write_register (fst ?v) (base + 4 * j) s) else s)"
    by (subst prog_vectors.simps) (simp add: split_beta)
  {
    case 1
    show ?case using "1.IH"(1) [OF _ refl, of "fst ?v" "snd ?v"] by (simp add: e)
  next
    case 2
    show ?case using "1.IH"(2) [OF _ refl, of "fst ?v" "snd ?v"] by (simp add: e)
  next
    case 3
    show ?case using "1.IH"(3) [OF _ refl, of "fst ?v" "snd ?v"] by (simp add: e)
  }
qed

lemma prog_vectors_outside:
  "(\<And>q. j \<le> q \<Longrightarrow> 4 * (q - j) < mx - i \<Longrightarrow> a \<noteq> base + 4 * q) \<Longrightarrow>
   last_write (trace (prog_vectors False base j i mx s)) a = last_write (trace s) a"
proof (induction "mx - i" arbitrary: i j s rule: less_induct)
  case less
  show ?case
  proof (cases "i < mx")
    case True
    obtain w where w: "pack_vectors 4 i mx 0 0 = (w, min (i + 4) mx)"
      using pack_vectors_snd [of 4 i mx 0 0] True by (metis prod.collapse)
    have "a \<noteq> base + 4 * q" if "Suc j \<le> q" "4 * (q - Suc j) < mx - min (i + 4) mx" for q
      using less.prems [of q] that by auto
    moreover have "a \<noteq> base + 4 * j" using less.prems [of j] True by simp
    ultimately show ?thesis
      using less.hyps [of "min (i + 4) mx" "Suc j" "write_register w (base + 4 * j) s"] True
      by (subst prog_vectors.simps) (auto simp: w)
  qed (subst prog_vectors.simps, simp)
qed

lemma prog_vectors_at:
  "i + 4 * q < mx \<Longrightarrow> last_write (trace (prog_vectors False base j i mx s)) (base + 4 * (j + q)) = Some (fst (pack_vectors 4 (i + 4 * q) mx 0 0))"
proof (induction q arbitrary: i j s)
  case 0
  obtain w where w: "pack_vectors 4 i mx 0 0 = (w, min (i + 4) mx)"
    using pack_vectors_snd [of 4 i mx 0 0] 0 by (metis add.right_neutral mult_0_right prod.collapse)
  show ?case
    using 0 by (subst prog_vectors.simps) (simp add: w prog_vectors_outside)
next
  case (Suc q)
  obtain w where w: "pack_vectors 4 i mx 0 0 = (w, min (i + 4) mx)"
    using pack_vectors_snd [of 4 i mx 0 0] Suc.prems by (metis add_lessD1 prod.collapse)
  have "min (i + 4) mx = i + 4" using Suc.prems by simp
  then show ?case
    using Suc.IH [of "i + 4" "Suc j" "write_register w (base + 4 * j) s"] Suc.prems
    by (subst prog_vectors.simps) (simp add: w algebra_simps)
qed

text \<open>The word of a vector table an entry lies in, as the driver last wrote it.\<close>

definition table_entry :: "event list \<Rightarrow> ptr \<Rightarrow> nat \<Rightarrow> u32 option" where
  "table_entry tr base n = map_option (\<lambda>w. vector_field w (n mod 4)) (last_write tr (base + 4 * (n div 4)))"

lemma table_after_prog:
  assumes "n < k"
  shows "table_entry (trace (prog_vectors False base 0 i (i + k) s)) base n = Some (of_nat (i + n) AND 0x1f)"
proof -
  have "i + 4 * (n div 4) < i + k" using assms by simp
  moreover have e: "i + 4 * (n div 4) + n mod 4 = i + n" by simp
  ultimately show ?thesis
    using prog_vectors_at [of i "n div 4" "i + k" base 0 s] pack_field [of "n mod 4" "i + 4 * (n div 4)" "i + k", unfolded e] assms
    by (simp add: table_entry_def)
qed

text \<open>After the vector tables have been programmed, entry \<open>c\<close> of the channel table holds vector \<open>c\<close>
  and entry \<open>u\<close> of the user table the vector after those of all channels, in the five bits the device
  uses, for every channel and user interrupt of the device.\<close>

theorem vectors_programmed:
  fixes s :: kst and xdev :: ptr
  defines "d \<equiv> k_dev s xdev" and "tr \<equiv> trace (prog_irq_msix_user xdev False (prog_irq_msix_channel xdev False s))"
  assumes "d_user_max d \<le> 32"
  shows "(c < d_c2h_channel_max d + d_h2c_channel_max d \<longrightarrow> table_entry tr (ireg d ''channel_msi_vector'') c = Some (of_nat c AND 0x1f)) \<and>
    (u < d_user_max d \<longrightarrow> table_entry tr (ireg d ''user_msi_vector'') u = Some (of_nat (d_c2h_channel_max d + d_h2c_channel_max d + u) AND 0x1f))"
proof (intro conjI impI)
  let ?n = "d_c2h_channel_max d + d_h2c_channel_max d"
  let ?s = "prog_vectors False (ireg d ''channel_msi_vector'') 0 0 ?n s"
  have tr: "tr = trace (prog_vectors False (ireg d ''user_msi_vector'') 0 ?n (?n + d_user_max d) ?s)"
    by (simp add: tr_def prog_irq_msix_user_def prog_irq_msix_channel_def Let_def d_def)
  show "table_entry tr (ireg d ''user_msi_vector'') u = Some (of_nat (?n + u) AND 0x1f)" if "u < d_user_max d"
    unfolding tr by (rule table_after_prog [OF that])
  show "table_entry tr (ireg d ''channel_msi_vector'') c = Some (of_nat c AND 0x1f)" if c: "c < ?n"
  proof -
    have ne: "ireg d ''channel_msi_vector'' + 4 * (c div 4) \<noteq> ireg d ''user_msi_vector'' + 4 * q" if "4 * q < d_user_max d" for q
      using that assms(3) by (simp add: ireg_def reg_offsets)
    have "last_write tr (ireg d ''channel_msi_vector'' + 4 * (c div 4)) = last_write (trace ?s) (ireg d ''channel_msi_vector'' + 4 * (c div 4))"
      unfolding tr by (intro prog_vectors_outside) (use ne in simp)
    then show ?thesis
      using table_after_prog [OF c, of "ireg d ''channel_msi_vector''" 0 s] by (simp add: table_entry_def)
  qed
qed

theorem vectors_programmed_witness:
  "table_entry (trace (prog_irq_msix_user 5 False (prog_irq_msix_channel 5 False irq_device))) (ireg (k_dev irq_device 5) ''user_msi_vector'') 7 = Some 9"
  using vectors_programmed [of irq_device 5 0 7] by (simp add: irq_device_def zero_dev_def)

subsection \<open>The lines in use\<close>

text \<open>The lines a trace holds, and that it releases only lines it holds.\<close>

fun irqs :: "event list \<Rightarrow> (int \<times> irq_cookie) multiset" where
  "irqs [] = {#}"
| "irqs (ReqIrq v c rv # es) = (if rv = 0 then add_mset (v, c) (irqs es) else irqs es)"
| "irqs (FreeIrq v c # es) = irqs es - {#(v, c)#}"
| "irqs (_ # es) = irqs es"

fun irq_ok :: "event list \<Rightarrow> bool" where
  "irq_ok [] \<longleftrightarrow> True"
| "irq_ok (FreeIrq v c # es) \<longleftrightarrow> (v, c) \<in># irqs es \<and> irq_ok es"
| "irq_ok (_ # es) \<longleftrightarrow> irq_ok es"

lemma request_irq_sel [simp]:
  "irqs (trace (snd (request_irq ev v c s))) = (if fst (request_irq ev v c s) = 0 then add_mset (uint v, c) (irqs (trace s)) else irqs (trace s))"
  "irq_ok (trace (snd (request_irq ev v c s))) = irq_ok (trace s)" "k_eng (snd (request_irq ev v c s)) = k_eng s"
  "k_dev (snd (request_irq ev v c s)) = k_dev s"
  by (simp_all add: request_irq_def Let_def)

text \<open>The lines of a list of engines with vectors from \<open>j\<close> on, and of the user interrupts below \<open>n\<close>.\<close>

fun engine_lines :: "env \<Rightarrow> ptr \<Rightarrow> nat \<Rightarrow> ptr list \<Rightarrow> (int \<times> irq_cookie) multiset" where
  "engine_lines ev pdev j [] = {#}"
| "engine_lines ev pdev j (e # es) = add_mset (uint (vector_of ev pdev j), CookieEngine e) (engine_lines ev pdev (Suc j) es)"

definition user_lines :: "env \<Rightarrow> ptr \<Rightarrow> ptr \<Rightarrow> nat \<Rightarrow> nat list \<Rightarrow> (int \<times> irq_cookie) multiset" where
  "user_lines ev pdev xdev base is = image_mset (\<lambda>i. (uint (vector_of ev pdev (base + i)), CookieUser xdev i)) (mset is)"

fun lines_set :: "env \<Rightarrow> ptr \<Rightarrow> nat \<Rightarrow> ptr list \<Rightarrow> kst \<Rightarrow> bool" where
  "lines_set ev pdev j [] s \<longleftrightarrow> True"
| "lines_set ev pdev j (e # es) s \<longleftrightarrow> e_msix_irq_line (k_eng s e) = vector_of ev pdev j \<and> lines_set ev pdev (Suc j) es s"

lemma request_engines_frame:
  "k_dev (snd (request_engines ev pdev j es s)) = k_dev s" "irq_ok (trace (snd (request_engines ev pdev j es s))) = irq_ok (trace s)"
  "e \<notin> set es \<Longrightarrow> k_eng (snd (request_engines ev pdev j es s)) e = k_eng s e"
  by (induction es arbitrary: j s) (simp_all add: Let_def split_beta)

lemma lines_set_cong: "(\<And>e. e \<in> set es \<Longrightarrow> k_eng s e = k_eng s' e) \<Longrightarrow> lines_set ev pdev j es s = lines_set ev pdev j es s'"
  by (induction es arbitrary: j) simp_all

lemma request_engines_ok:
  "fst (request_engines ev pdev j es s) = 0 \<Longrightarrow> distinct es \<Longrightarrow>
   irqs (trace (snd (request_engines ev pdev j es s))) = irqs (trace s) + engine_lines ev pdev j es \<and>
   lines_set ev pdev j es (snd (request_engines ev pdev j es s))"
proof (induction es arbitrary: j s)
  case (Cons e es)
  let ?s = "upd_eng e (\<lambda>g. g\<lparr>e_msix_irq_line := vector_of ev pdev j\<rparr>) (snd (request_irq ev (vector_of ev pdev j) (CookieEngine e) s))"
  have r: "fst (request_irq ev (vector_of ev pdev j) (CookieEngine e) s) = 0"
    using Cons.prems(1) by (auto simp: Let_def split_beta split: if_splits)
  then have eq: "request_engines ev pdev j (e # es) s = request_engines ev pdev (Suc j) es ?s" by (simp add: Let_def split_beta)
  have "irqs (trace (snd (request_engines ev pdev (Suc j) es ?s))) = irqs (trace ?s) + engine_lines ev pdev (Suc j) es \<and>
      lines_set ev pdev (Suc j) es (snd (request_engines ev pdev (Suc j) es ?s))"
    using Cons.IH [of "Suc j" ?s] Cons.prems(2) Cons.prems(1) [unfolded eq] by simp
  then show ?case unfolding eq using Cons.prems(2) r by (simp add: request_engines_frame(3))
qed simp

lemma free_engines_frame [simp]: "k_eng (free_engines es s) = k_eng s" "k_dev (free_engines es s) = k_dev s"
  by (induction es s rule: free_engines.induct) simp_all

lemma free_engines_ok:
  assumes "lines_set ev pdev j es s" and "\<And>k. k < length es \<Longrightarrow> vector_of ev pdev (j + k) \<noteq> 0"
    and "engine_lines ev pdev j es \<subseteq># irqs (trace s)" and "irq_ok (trace s)"
  shows "irqs (trace (free_engines es s)) = irqs (trace s) - engine_lines ev pdev j es \<and> irq_ok (trace (free_engines es s))"
  using assms
proof (induction es arbitrary: j s)
  case (Cons e es)
  let ?s = "emit (FreeIrq (uint (vector_of ev pdev j)) (CookieEngine e)) s"
  have v: "vector_of ev pdev j \<noteq> 0" using Cons.prems(2) [of 0] by simp
  have line: "e_msix_irq_line (k_eng s e) = vector_of ev pdev j" using Cons.prems(1) by simp
  have "(uint (vector_of ev pdev j), CookieEngine e) \<in># irqs (trace s)" "engine_lines ev pdev (Suc j) es \<subseteq># irqs (trace ?s)"
    using Cons.prems(3) by (auto simp: insert_subset_eq_iff)
  then have "irqs (trace (free_engines es ?s)) = irqs (trace ?s) - engine_lines ev pdev (Suc j) es \<and> irq_ok (trace (free_engines es ?s))"
    using Cons.prems(1,2,4) Cons.prems(2) [of "Suc _"] by (intro Cons.IH) (auto simp: lines_set_cong [of es ?s s])
  then show ?case using v by (simp add: line)
qed simp

lemma free_users_frame [simp]: "k_eng (free_users ev pdev xdev base is s) = k_eng s" "k_dev (free_users ev pdev xdev base is s) = k_dev s"
  by (induction "is" arbitrary: s) (simp_all add: free_users_def)

lemma free_users_ok:
  assumes "user_lines ev pdev xdev base is \<subseteq># irqs (trace s)" and "irq_ok (trace s)"
  shows "irqs (trace (free_users ev pdev xdev base is s)) = irqs (trace s) - user_lines ev pdev xdev base is \<and>
    irq_ok (trace (free_users ev pdev xdev base is s))"
  using assms
proof (induction "is" arbitrary: s)
  case (Cons i "is")
  let ?s = "emit (FreeIrq (uint (vector_of ev pdev (base + i))) (CookieUser xdev i)) s"
  have "(uint (vector_of ev pdev (base + i)), CookieUser xdev i) \<in># irqs (trace s)" "user_lines ev pdev xdev base is \<subseteq># irqs (trace ?s)"
    using Cons.prems(1) by (auto simp: user_lines_def insert_subset_eq_iff)
  then have "irqs (trace (free_users ev pdev xdev base is ?s)) = irqs (trace ?s) - user_lines ev pdev xdev base is \<and>
      irq_ok (trace (free_users ev pdev xdev base is ?s))"
    using Cons.prems(2) by (intro Cons.IH) simp_all
  then show ?case by (simp add: free_users_def user_lines_def)
qed (simp add: free_users_def user_lines_def)

lemma request_users_frame [simp]:
  "k_eng (snd (request_users ev pdev xdev base i k s)) = k_eng s" "k_dev (snd (request_users ev pdev xdev base i k s)) = k_dev s"
  by (induction k arbitrary: i s) (simp_all add: Let_def split_beta)

text \<open>All lines of the user interrupts are requested, or none is kept.\<close>

lemma request_users_ok:
  assumes "user_lines ev pdev xdev base [0..<i] \<subseteq># irqs (trace s)" and "irq_ok (trace s)"
  shows "irqs (trace (snd (request_users ev pdev xdev base i k s))) =
      (if fst (request_users ev pdev xdev base i k s) = 0 then irqs (trace s) + user_lines ev pdev xdev base [i..<i + k]
       else irqs (trace s) - user_lines ev pdev xdev base [0..<i]) \<and>
    irq_ok (trace (snd (request_users ev pdev xdev base i k s)))"
  using assms
proof (induction k arbitrary: i s)
  case 0
  then show ?case by (simp add: user_lines_def)
next
  case (Suc k)
  let ?r = "request_irq ev (vector_of ev pdev (base + i)) (CookieUser xdev i) s"
  let ?l = "(uint (vector_of ev pdev (base + i)), CookieUser xdev i)"
  have up: "user_lines ev pdev xdev base [0..<Suc i] = add_mset ?l (user_lines ev pdev xdev base [0..<i])"
    by (simp add: user_lines_def)
  show ?case
  proof (cases "fst ?r = 0")
    case False
    have "user_lines ev pdev xdev base (rev [0..<i]) = user_lines ev pdev xdev base [0..<i]" by (simp add: user_lines_def)
    with False Suc.prems free_users_ok [of ev pdev xdev base "rev [0..<i]" "snd ?r"] show ?thesis
      by (simp add: Let_def split_beta)
  next
    case True
    have "user_lines ev pdev xdev base [0..<Suc i] \<subseteq># irqs (trace (snd ?r))" unfolding up using Suc.prems(1) True by simp
    from Suc.IH [OF this] Suc.prems(2)
    have "irqs (trace (snd (request_users ev pdev xdev base (Suc i) k (snd ?r)))) =
        (if fst (request_users ev pdev xdev base (Suc i) k (snd ?r)) = 0
         then irqs (trace (snd ?r)) + user_lines ev pdev xdev base [Suc i..<Suc i + k]
         else irqs (trace (snd ?r)) - user_lines ev pdev xdev base [0..<Suc i]) \<and>
        irq_ok (trace (snd (request_users ev pdev xdev base (Suc i) k (snd ?r))))" by simp
    moreover have "user_lines ev pdev xdev base [i..<i + Suc k] = add_mset ?l (user_lines ev pdev xdev base [Suc i..<Suc i + k])"
    proof -
      have "[i..<i + Suc k] = i # [Suc i..<Suc i + k]" by (simp add: upt_conv_Cons del: upt_Suc)
      then show ?thesis by (simp add: user_lines_def del: upt_Suc)
    qed
    ultimately show ?thesis
      unfolding up using True by (simp add: Let_def split_beta)
  qed
qed

lemma prog_vectors_irqs [simp]:
  "irqs (trace (prog_vectors c base j i mx s)) = irqs (trace s)" "irq_ok (trace (prog_vectors c base j i mx s)) = irq_ok (trace s)"
proof (induction c base j i mx s rule: prog_vectors.induct)
  case (1 c base j i mx s)
  let ?v = "if c then (0, i + 4) else pack_vectors 4 i mx 0 0"
  have e: "prog_vectors c base j i mx s =
      (if i < mx then prog_vectors c base (Suc j) (snd ?v) mx (write_register (fst ?v) (base + 4 * j) s) else s)"
    by (subst prog_vectors.simps) (simp add: split_beta)
  {
    case 1
    show ?case using "1.IH"(1) [OF _ refl, of "fst ?v" "snd ?v"] by (simp add: e)
  next
    case 2
    show ?case using "1.IH"(2) [OF _ refl, of "fst ?v" "snd ?v"] by (simp add: e)
  }
qed

lemma prog_irq_sel [simp]:
  "k_eng (prog_irq_msix_user x c s) = k_eng s" "k_dev (prog_irq_msix_user x c s) = k_dev s"
  "irqs (trace (prog_irq_msix_user x c s)) = irqs (trace s)" "irq_ok (trace (prog_irq_msix_user x c s)) = irq_ok (trace s)"
  "k_eng (prog_irq_msix_channel x c s) = k_eng s" "k_dev (prog_irq_msix_channel x c s) = k_dev s"
  "irqs (trace (prog_irq_msix_channel x c s)) = irqs (trace s)" "irq_ok (trace (prog_irq_msix_channel x c s)) = irq_ok (trace s)"
  by (simp_all add: prog_irq_msix_user_def prog_irq_msix_channel_def Let_def)

lemma keep_intx_sel [simp]:
  "k_eng (pci_keep_intx_enabled ev p s) = k_eng s" "k_dev (pci_keep_intx_enabled ev p s) = k_dev s"
  "irqs (trace (pci_keep_intx_enabled ev p s)) = irqs (trace s)" "irq_ok (trace (pci_keep_intx_enabled ev p s)) = irq_ok (trace s)"
  by (simp_all add: pci_keep_intx_enabled_def Let_def split_beta)

text \<open>The lines of the channels of a device, and of its user interrupts.\<close>

definition channel_lines :: "env \<Rightarrow> xdma_dev \<Rightarrow> (int \<times> irq_cookie) multiset" where
  "channel_lines ev d = engine_lines ev (d_pdev d) 0 (h2c_engines d) + engine_lines ev (d_pdev d) (d_h2c_channel_max d) (c2h_engines d)"

definition all_user_lines :: "env \<Rightarrow> ptr \<Rightarrow> xdma_dev \<Rightarrow> (int \<times> irq_cookie) multiset" where
  "all_user_lines ev xdev d = user_lines ev (d_pdev d) xdev (d_h2c_channel_max d + d_c2h_channel_max d) [0..<d_user_max d]"

lemma channel_setup_ok:
  fixes ev :: env and xdev :: ptr and s :: kst
  defines "d \<equiv> k_dev s xdev" and "r \<equiv> irq_msix_channel_setup ev xdev s"
  assumes "xdev \<noteq> NULL" and "d_msix_enabled d" and "distinct (h2c_engines d @ c2h_engines d)" and "fst r = 0"
  shows "irqs (trace (snd r)) = irqs (trace s) + channel_lines ev d \<and> lines_set ev (d_pdev d) 0 (h2c_engines d) (snd r) \<and>
    lines_set ev (d_pdev d) (d_h2c_channel_max d) (c2h_engines d) (snd r)"
proof -
  define r1 where "r1 = request_engines ev (d_pdev d) 0 (h2c_engines d) s"
  define r2 where "r2 = request_engines ev (d_pdev d) (d_h2c_channel_max d) (c2h_engines d) (snd r1)"
  have r: "r = (if fst r1 \<noteq> 0 then r1 else r2)"
    using assms(3,4) by (simp add: r_def irq_msix_channel_setup_def Let_def split_beta d_def [symmetric] r1_def [symmetric] r2_def [symmetric])
  then have z: "fst r1 = 0" "fst r2 = 0" using assms(6) by (auto split: if_splits)
  have "lines_set ev (d_pdev d) 0 (h2c_engines d) (snd r2) = lines_set ev (d_pdev d) 0 (h2c_engines d) (snd r1)"
    using assms(5) by (intro lines_set_cong) (auto simp: r2_def intro!: request_engines_frame(3))
  with z assms(5) request_engines_ok [of ev "d_pdev d" 0 "h2c_engines d" s, folded r1_def]
    request_engines_ok [of ev "d_pdev d" "d_h2c_channel_max d" "c2h_engines d" "snd r1", folded r2_def]
  show ?thesis by (simp add: r channel_lines_def add.assoc)
qed

lemma channel_setup_frame:
  "k_dev (snd (irq_msix_channel_setup ev x s)) = k_dev s" "irq_ok (trace (snd (irq_msix_channel_setup ev x s))) = irq_ok (trace s)"
  by (simp_all add: irq_msix_channel_setup_def Let_def split_beta request_engines_frame)

lemma msix_teardown_ok:
  fixes ev :: env and xdev :: ptr and s :: kst
  defines "d \<equiv> k_dev s xdev"
  assumes "xdev \<noteq> NULL" and en: "d_msix_enabled d" and ok: "irq_ok (trace s)"
    and lines: "lines_set ev (d_pdev d) 0 (h2c_engines d) s" "lines_set ev (d_pdev d) (d_h2c_channel_max d) (c2h_engines d) s"
    and vec: "\<forall>j < d_h2c_channel_max d + d_c2h_channel_max d. vector_of ev (d_pdev d) j \<noteq> 0"
    and sub: "channel_lines ev d + all_user_lines ev xdev d \<subseteq># irqs (trace s)"
  shows "irqs (trace (irq_teardown ev xdev s)) = irqs (trace s) - (channel_lines ev d + all_user_lines ev xdev d) \<and>
    irq_ok (trace (irq_teardown ev xdev s))"
proof -
  let ?h = "engine_lines ev (d_pdev d) 0 (h2c_engines d)" and ?c = "engine_lines ev (d_pdev d) (d_h2c_channel_max d) (c2h_engines d)"
  let ?u = "all_user_lines ev xdev d"
  define s1 where "s1 = prog_irq_msix_channel xdev True s"
  define s2 where "s2 = free_engines (h2c_engines d) s1"
  define s3 where "s3 = free_engines (c2h_engines d) s2"
  define s4 where "s4 = prog_irq_msix_user xdev True s3"
  have k: "k_dev s3 = k_dev s" "k_eng s1 = k_eng s" "k_eng s2 = k_eng s" by (simp_all add: s3_def s2_def s1_def)
  have eq: "irq_teardown ev xdev s = free_users ev (d_pdev d) xdev (d_h2c_channel_max d + d_c2h_channel_max d) [0..<d_user_max d] s4"
    using assms(2) en
    by (simp add: irq_teardown_def irq_msix_channel_teardown_def irq_msix_user_teardown_def Let_def d_def s4_def s3_def s2_def s1_def)
  have sub': "?h + ?c + ?u \<subseteq># irqs (trace s)" using sub by (simp add: channel_lines_def)
  then have h: "?h \<subseteq># irqs (trace s)" "?c \<subseteq># irqs (trace s) - ?h" "?u \<subseteq># irqs (trace s) - ?h - ?c"
    by (auto simp: mset_subset_eq_exists_conv ac_simps)
  have 2: "irqs (trace s2) = irqs (trace s) - ?h \<and> irq_ok (trace s2)"
    unfolding s2_def using free_engines_ok [of ev "d_pdev d" 0 "h2c_engines d" s1] lines(1) vec h(1) ok
    by (simp add: s1_def h2c_engines_def lines_set_cong [of _ "prog_irq_msix_channel xdev True s" s])
  have 3: "irqs (trace s3) = irqs (trace s) - ?h - ?c \<and> irq_ok (trace s3)"
    unfolding s3_def using free_engines_ok [of ev "d_pdev d" "d_h2c_channel_max d" "c2h_engines d" s2] lines(2) vec h(2) 2
    by (simp add: c2h_engines_def lines_set_cong [of _ s2 s] k)
  show ?thesis
    unfolding eq using free_users_ok [of ev "d_pdev d" xdev "d_h2c_channel_max d + d_c2h_channel_max d" "[0..<d_user_max d]" s4] 3 h(3)
    by (simp add: s4_def all_user_lines_def channel_lines_def)
qed

lemma single_line_released:
  fixes w :: u32 and ev :: env
  assumes "w \<noteq> - 1" and "\<not> d_msix_enabled (k_dev t xdev)" and "irq_ok (trace t)"
  defines "q \<equiv> request_irq ev w (CookieDev xdev) (upd_dev xdev (\<lambda>d. d\<lparr>d_irq_line := sint w\<rparr>) t)"
  assumes "fst q = 0"
  shows "irqs (trace (irq_teardown ev xdev (snd q))) = irqs (trace t) \<and> irq_ok (trace (irq_teardown ev xdev (snd q)))"
proof -
  have w: "word_of_int (sint w) = w" by simp
  then have "sint w \<noteq> - 1" using assms(1) by (metis of_int_minus of_int_1)
  with w assms show ?thesis by (simp add: irq_teardown_def)
qed

lemma msix_setup_teardown:
  fixes ev :: env and xdev pdev :: ptr and s :: kst
  defines "d \<equiv> k_dev s xdev" and "r \<equiv> irq_setup ev xdev pdev s"
  assumes x: "xdev \<noteq> NULL" and ok: "irq_ok (trace s)" and True: "d_msix_enabled d" and dist: "distinct (h2c_engines d @ c2h_engines d)"
    and vec: "\<forall>j < d_h2c_channel_max d + d_c2h_channel_max d. vector_of ev (d_pdev d) j \<noteq> 0" and rv: "fst r = 0"
  shows "irqs (trace (irq_teardown ev xdev (snd r))) = irqs (trace s) \<and> irq_ok (trace (irq_teardown ev xdev (snd r)))"
proof -
  define s0 where "s0 = pci_keep_intx_enabled ev pdev s"
  have d0: "k_dev s0 xdev = d" "irqs (trace s0) = irqs (trace s)" "irq_ok (trace s0)" using ok by (simp_all add: s0_def d_def)
  define r1 where "r1 = irq_msix_channel_setup ev xdev s0"
  define r2 where "r2 = irq_msix_user_setup ev xdev (snd r1)"
  have k1: "k_dev (snd r1) = k_dev s0" "irq_ok (trace (snd r1))" using d0 by (simp_all add: r1_def channel_setup_frame)
  have r: "r = (if fst r1 \<noteq> 0 then r1 else if fst r2 \<noteq> 0 then r2 else
      (0, prog_irq_msix_user xdev False (prog_irq_msix_channel xdev False (snd r2))))"
    using True by (simp add: r_def irq_setup_def Let_def split_beta s0_def [symmetric] d0 r1_def [symmetric] r2_def [symmetric])
  then have z: "fst r1 = 0" "fst r2 = 0" using rv by (auto split: if_splits)
  have c: "irqs (trace (snd r1)) = irqs (trace s) + channel_lines ev d \<and> lines_set ev (d_pdev d) 0 (h2c_engines d) (snd r1) \<and>
      lines_set ev (d_pdev d) (d_h2c_channel_max d) (c2h_engines d) (snd r1)"
    using channel_setup_ok [of xdev s0 ev] x True dist z(1) by (simp add: r1_def d0)
  have u: "irqs (trace (snd r2)) = irqs (trace (snd r1)) + all_user_lines ev xdev d \<and> irq_ok (trace (snd r2))"
    using request_users_ok [of ev "d_pdev d" xdev "d_h2c_channel_max d + d_c2h_channel_max d" 0 "snd r1" "d_user_max d"] z(2) k1
    by (simp add: r2_def irq_msix_user_setup_def Let_def d0 all_user_lines_def) (simp add: user_lines_def)
  have e: "k_eng (snd r) = k_eng (snd r1)" "k_dev (snd r) xdev = d" "irqs (trace (snd r)) = irqs (trace (snd r2))" "irq_ok (trace (snd r))"
    using z u k1 d0 by (simp_all add: r) (simp_all add: r2_def irq_msix_user_setup_def Let_def)
  have l: "lines_set ev p j es (snd r) = lines_set ev p j es (snd r1)" for p j es by (intro lines_set_cong) (simp add: e)
  show ?thesis
    using msix_teardown_ok [of xdev "snd r" ev] x True vec c u e l by (simp add: ac_simps)
qed

lemma single_setup_teardown:
  fixes ev :: env and xdev pdev :: ptr and s :: kst
  defines "d \<equiv> k_dev s xdev" and "r \<equiv> irq_setup ev xdev pdev s"
  assumes ok: "irq_ok (trace s)" and False: "\<not> d_msix_enabled d"
    and line: "\<forall>tr. (word_of_int (ksvc ev tr ''pdev->irq'' pdev) :: u32) \<noteq> - 1" and rv: "fst r = 0"
  shows "irqs (trace (irq_teardown ev xdev (snd r))) = irqs (trace s) \<and> irq_ok (trace (irq_teardown ev xdev (snd r)))"
proof -
  let ?w = "\<lambda>tr. word_of_int (ksvc ev tr ''pdev->irq'' pdev) :: u32"
  have tail: "irqs (trace (irq_teardown ev xdev (snd q))) = irqs (trace t) \<and> irq_ok (trace (irq_teardown ev xdev (snd q)))"
    if "q = request_irq ev (?w tr) (CookieDev xdev) (upd_dev xdev (\<lambda>d. d\<lparr>d_irq_line := sint (?w tr)\<rparr>) t)" "fst q = 0"
      "\<not> d_msix_enabled (k_dev t xdev)" "irq_ok (trace t)" for q t tr
    using that single_line_released [of "?w tr" t xdev ev] line by auto
  have f: "irqs (trace (fold (\<lambda>ofs. write_register w (b + ofs)) os t)) = irqs (trace t)"
    "irq_ok (trace (fold (\<lambda>ofs. write_register w (b + ofs)) os t)) = irq_ok (trace t)"
    "k_dev (fold (\<lambda>ofs. write_register w (b + ofs)) os t) = k_dev t" for w b os t
    by (induction os arbitrary: t) simp_all
  show ?thesis
  proof (cases "d_msi_enabled d")
    case True
    let ?t = "snd (kcall ev ''pdev->irq'' pdev (pci_keep_intx_enabled ev pdev s))"
    have "r = request_irq ev (?w (trace (pci_keep_intx_enabled ev pdev s))) (CookieDev xdev)
        (upd_dev xdev (\<lambda>d. d\<lparr>d_irq_line := sint (?w (trace (pci_keep_intx_enabled ev pdev s)))\<rparr>) ?t)"
      using True False by (simp add: r_def irq_setup_def irq_msi_setup_def Let_def split_beta d_def)
    from tail [OF this rv] False ok show ?thesis by (simp add: d_def)
  next
    case no_msi: False
    define t0 where "t0 = snd (kcall ev ''pci_read_config_byte PCI_INTERRUPT_PIN'' pdev (pci_keep_intx_enabled ev pdev s))"
    obtain w b os where eq: "r = (let t = fold (\<lambda>ofs. write_register w (b + ofs)) os t0 in
        request_irq ev (?w (trace t)) (CookieDev xdev) (upd_dev xdev (\<lambda>d. d\<lparr>d_irq_line := sint (?w (trace t))\<rparr>) (snd (kcall ev ''pdev->irq'' pdev t))))"
    proof -
      let ?val = "word_of_int (ksvc ev (trace (pci_keep_intx_enabled ev pdev s)) ''pci_read_config_byte PCI_INTERRUPT_PIN'' pdev) :: u8"
      have nz: "?val \<noteq> 0"
        using rv no_msi False by (auto simp: r_def irq_setup_def irq_legacy_setup_def Let_def split_beta d_def EINVAL_def)
      show ?thesis
        using that [of 0 0 "[]"] that [where os = "[0x2080, 0x2084, 0x2088, 0x208C, 0x20A0, 0x20A4]"] nz no_msi False
        by (cases "?val > 1") (auto simp: r_def irq_setup_def irq_legacy_setup_def Let_def split_beta d_def t0_def)
    qed
    from tail [OF eq [unfolded Let_def] rv] False ok show ?thesis by (simp add: d_def f t0_def)
  qed
qed

text \<open>C30: setting up the interrupts of a device and taking them down again leaves the interrupt lines in
  use as they were and releases only lines that are held, with MSI-X vectors as well as with a single
  line.  It needs distinct engines and, with MSI-X, vectors that are not 0, else a line that is not the
  invalid one.\<close>

theorem irq_setup_teardown:
  fixes ev :: env and xdev pdev :: ptr and s :: kst
  defines "d \<equiv> k_dev s xdev" and "r \<equiv> irq_setup ev xdev pdev s"
  assumes x: "xdev \<noteq> NULL" and ok: "irq_ok (trace s)" and dist: "distinct (h2c_engines d @ c2h_engines d)"
    and vec: "\<forall>j < d_h2c_channel_max d + d_c2h_channel_max d. vector_of ev (d_pdev d) j \<noteq> 0"
    and line: "\<forall>tr. (word_of_int (ksvc ev tr ''pdev->irq'' pdev) :: u32) \<noteq> - 1"
    and rv: "fst r = 0"
  shows "irqs (trace (irq_teardown ev xdev (snd r))) = irqs (trace s) \<and> irq_ok (trace (irq_teardown ev xdev (snd r)))"
  using msix_setup_teardown [of xdev s ev pdev] single_setup_teardown [of s xdev ev pdev] assms
  by (cases "d_msix_enabled d") auto

text \<open>The device of the examples, with MSI-X enabled.\<close>

definition msix_device :: kst where
  "msix_device = upd_dev 5 (\<lambda>d. d\<lparr>d_msix_enabled := True, d_user_max := 2\<rparr>) irq_device"

lemma msix_device_simps [simp]:
  "d_msix_enabled (k_dev msix_device 5)" "h2c_engines (k_dev msix_device 5) = [1, 2]" "c2h_engines (k_dev msix_device 5) = []"
  "d_h2c_channel_max (k_dev msix_device 5) = 2" "d_c2h_channel_max (k_dev msix_device 5) = 0" "trace msix_device = []"
  "d_user_max (k_dev msix_device 5) = Suc (Suc 0)" "d_pdev (k_dev msix_device 5) = 0"
  by (simp_all add: msix_device_def irq_device_def h2c_engines_def c2h_engines_def zero_dev_def kst0_def upt_rec)

theorem irq_setup_teardown_witness:
  "fst (irq_setup env0 5 0 msix_device) = 0 \<and>
   irqs (trace (irq_teardown env0 5 (snd (irq_setup env0 5 0 msix_device)))) = {#}"
proof -
  have rv: "fst (irq_setup env0 5 0 msix_device) = 0"
    by (simp add: irq_setup_def irq_msix_channel_setup_def irq_msix_user_setup_def request_irq_def pci_keep_intx_enabled_def env0_def
        Let_def split_beta)
  have v: "\<forall>j < 2. vector_of env0 0 j \<noteq> 0"
    by (auto simp: vector_of_def env0_def less_2_cases_iff)
  show ?thesis
    using irq_setup_teardown [of 5 msix_device env0 0] rv v by (simp add: env0_def)
qed

text \<open>when the lines of the user interrupts cannot all be had, those of them already requested are
  released again, but the lines of the channels, requested before, stay in use; nobody releases them,
  since the caller only disables MSI-X.\<close>

theorem irq_user_failure_keeps_channels:
  fixes ev :: env and xdev pdev :: ptr and s :: kst
  defines "d \<equiv> k_dev s xdev" and "r \<equiv> irq_setup ev xdev pdev s"
  assumes x: "xdev \<noteq> NULL" and en: "d_msix_enabled d" and ok: "irq_ok (trace s)" and dist: "distinct (h2c_engines d @ c2h_engines d)"
    and chan: "fst (irq_msix_channel_setup ev xdev (pci_keep_intx_enabled ev pdev s)) = 0" and rv: "fst r \<noteq> 0"
  shows "irqs (trace (disable_msi_msix ev xdev pdev (snd r))) = irqs (trace s) + channel_lines ev d"
proof -
  define s0 where "s0 = pci_keep_intx_enabled ev pdev s"
  have d0: "k_dev s0 xdev = d" "irqs (trace s0) = irqs (trace s)" "irq_ok (trace s0)" using ok by (simp_all add: s0_def d_def)
  define r1 where "r1 = irq_msix_channel_setup ev xdev s0"
  define r2 where "r2 = irq_msix_user_setup ev xdev (snd r1)"
  have k1: "k_dev (snd r1) = k_dev s0" "irq_ok (trace (snd r1))" using d0 by (simp_all add: r1_def channel_setup_frame)
  have z: "fst r1 = 0" using chan by (simp add: r1_def s0_def)
  have r: "r = r2" "fst r2 \<noteq> 0"
    using en rv z by (auto simp: r_def irq_setup_def Let_def split_beta s0_def [symmetric] d0 r1_def [symmetric] r2_def [symmetric] split: if_splits)
  have "irqs (trace (snd r1)) = irqs (trace s) + channel_lines ev d"
    using channel_setup_ok [of xdev s0 ev] x en dist z by (simp add: r1_def d0)
  moreover have "irqs (trace (snd r2)) = irqs (trace (snd r1))"
    using request_users_ok [of ev "d_pdev d" xdev "d_h2c_channel_max d + d_c2h_channel_max d" 0 "snd r1" "d_user_max d"] r(2) k1
    by (simp add: r2_def irq_msix_user_setup_def Let_def d0) (simp add: user_lines_def)
  ultimately show ?thesis by (simp add: r disable_msi_msix_def)
qed

definition env_busy :: env where
  "env_busy = env0\<lparr>ksvc := (\<lambda>_ f x. if f = ''request_irq'' \<and> x = 35 then - EBUSY else 0)\<rparr>"

theorem irq_user_failure_keeps_channels_witness:
  "fst (irq_setup env_busy 5 0 msix_device) = - EBUSY \<and>
   irqs (trace (disable_msi_msix env_busy 5 0 (snd (irq_setup env_busy 5 0 msix_device)))) =
     {#(32, CookieEngine 1), (33, CookieEngine 2)#}"
proof -
  note d = irq_msix_channel_setup_def irq_msix_user_setup_def request_irq_def pci_keep_intx_enabled_def env_busy_def env0_def
    vector_of_def Let_def split_beta
  have rv: "fst (irq_setup env_busy 5 0 msix_device) = - EBUSY" by (simp add: irq_setup_def d)
  have c: "fst (irq_msix_channel_setup env_busy 5 (pci_keep_intx_enabled env_busy 0 msix_device)) = 0" by (simp add: d)
  have "channel_lines env_busy (k_dev msix_device 5) = {#(32, CookieEngine 1), (33, CookieEngine 2)#}"
    by (simp add: channel_lines_def vector_of_def env_busy_def env0_def)
  with irq_user_failure_keeps_channels [of 5 msix_device env_busy 0] rv c show ?thesis by (simp add: EBUSY_def)
qed

end
