(* ===== verification/Xdma_Device.thy ===== *)
theory Xdma_Device
  imports Xdma_Irq Xdma_Setup Xdma_Submit
begin

text \<open>
  Bringing a device up and down (\<^verbatim>\<open>libxdma.c\<close>): mapping and identifying its BARs, probing its engines,
  opening and closing the device with the unwinding of every error, taking it offline and online, and
  the user interrupt handlers.
\<close>

subsection \<open>BARs\<close>

definition unmap_bar :: "ptr \<Rightarrow> nat \<Rightarrow> kst \<Rightarrow> kst" where
  "unmap_bar xdev i s =
     (if d_bar (k_dev s xdev) (int i) \<noteq> NULL
      then upd_dev xdev (\<lambda>d. d\<lparr>d_bar := (d_bar d)(int i := NULL)\<rparr>)
             (emit (Kernel ''pci_iounmap'' (d_bar (k_dev s xdev) (int i)) 0) s)
      else s)"

definition unmap_bars :: "ptr \<Rightarrow> ptr \<Rightarrow> kst \<Rightarrow> kst" where
  "unmap_bars xdev dev s = fold (unmap_bar xdev) [0..<XDMA_BAR_NUM] s"

definition INT_MAX :: u64 where "INT_MAX = 0x7fffffff"

text \<open>The BAR and the length are part of the name of the service.\<close>

definition map_single_bar :: "env \<Rightarrow> ptr \<Rightarrow> ptr \<Rightarrow> nat \<Rightarrow> kst \<Rightarrow> int \<times> kst" where
  "map_single_bar ev xdev dev idx s =
     (let len = bar_len ev dev idx;
          s = upd_dev xdev (\<lambda>d. d\<lparr>d_bar := (d_bar d)(int idx := NULL)\<rparr>) s
      in if len = 0 then (0, s)
         else
           let map_len = (if len > INT_MAX then INT_MAX else len);
               (p, s) = kcall ev (''pci_iomap '' @ dec idx @ '' '' @ dec (unat map_len)) dev s;
               s = upd_dev xdev (\<lambda>d. d\<lparr>d_bar := (d_bar d)(int idx := nat p)\<rparr>) s
           in if nat p = NULL then (- 1, s) else (sint (ucast map_len :: u32), s))"

definition is_config_bar :: "env \<Rightarrow> ptr \<Rightarrow> nat \<Rightarrow> kst \<Rightarrow> int \<times> kst" where
  "is_config_bar ev xdev idx s =
     (let msk = 0xffff0000; bar = d_bar (k_dev s xdev) (int idx);
          (irq_id, s) = read_register ev (bar + XDMA_OFS_INT_CTRL + field_ofs interrupt_regs ''identifier'') s;
          (cfg_id, s) = read_register ev (bar + XDMA_OFS_CONFIG + field_ofs config_regs ''identifier'') s
      in (if irq_id AND msk = IRQ_BLOCK_ID \<and> cfg_id AND msk = CONFIG_BLOCK_ID then 1 else 0, s))"

text \<open>The list of BARs is a local array of the caller, which is never null.\<close>

definition identify_bars :: "ptr \<Rightarrow> nat list \<Rightarrow> nat \<Rightarrow> nat \<Rightarrow> kst \<Rightarrow> int \<times> kst" where
  "identify_bars xdev bar_id_list num_bars config_bar_pos s =
     (if xdev = NULL then (- EINVAL, s)
      else if num_bars = 2 then
        if config_bar_pos = 0 then (0, upd_dev xdev (\<lambda>d. d\<lparr>d_bypass_bar_idx := int (bar_id_list ! 1)\<rparr>) s)
        else if config_bar_pos = 1 then (0, upd_dev xdev (\<lambda>d. d\<lparr>d_user_bar_idx := int (bar_id_list ! 0)\<rparr>) s)
        else (0, s)
      else if num_bars = 3 \<or> num_bars = 4 then
        if config_bar_pos = 1 \<or> config_bar_pos = 2
        then (0, upd_dev xdev (\<lambda>d. d\<lparr>d_user_bar_idx := int (bar_id_list ! 0),
                   d_bypass_bar_idx := int (bar_id_list ! (num_bars - 1))\<rparr>) s)
        else (0, s)
      else (0, s))"

text \<open>The loop over the BARs \<open>i\<close>, \<open>i + 1\<close> and so on, \<open>k\<close> of them, with the list of mapped BARs and the
  position of the configuration BAR in it.\<close>

fun map_bars_loop ::
    "env \<Rightarrow> ptr \<Rightarrow> ptr \<Rightarrow> nat \<Rightarrow> nat \<Rightarrow> nat list \<Rightarrow> nat \<Rightarrow> kst \<Rightarrow> (int + nat list \<times> nat) \<times> kst" where
  "map_bars_loop ev xdev dev i 0 bar_id_list pos s = (Inr (bar_id_list, pos), s)"
| "map_bars_loop ev xdev dev i (Suc k) bar_id_list pos s =
     (let (bar_len, s) = map_single_bar ev xdev dev i s
      in if bar_len = 0 then map_bars_loop ev xdev dev (Suc i) k bar_id_list pos s
         else if bar_len < 0 then (Inl (- EINVAL), s)
         else
           let (conf, s) = (if bar_len \<ge> XDMA_BAR_SIZE \<and> d_config_bar_idx (k_dev s xdev) < 0
                            then is_config_bar ev xdev i s else (0, s))
           in if conf \<noteq> 0
              then map_bars_loop ev xdev dev (Suc i) k (bar_id_list @ [i]) (length bar_id_list)
                     (upd_dev xdev (\<lambda>d. d\<lparr>d_config_bar_idx := int i\<rparr>) s)
              else map_bars_loop ev xdev dev (Suc i) k (bar_id_list @ [i]) pos s)"

definition map_bars :: "env \<Rightarrow> ptr \<Rightarrow> ptr \<Rightarrow> kst \<Rightarrow> int \<times> kst" where
  "map_bars ev xdev dev s =
     (case map_bars_loop ev xdev dev 0 XDMA_BAR_NUM [] 0 s of
        (Inl rv, s) \<Rightarrow> (rv, unmap_bars xdev dev s)
      | (Inr (bar_id_list, pos), s) \<Rightarrow>
          if d_config_bar_idx (k_dev s xdev) < 0 then (- EINVAL, unmap_bars xdev dev s)
          else identify_bars xdev bar_id_list (length bar_id_list) pos s)"

subsection \<open>Allocation, regions, DMA mask\<close>

text \<open>The embedded engines lie at fixed places in the device structure.\<close>

definition h2c_at :: "env \<Rightarrow> ptr \<Rightarrow> nat \<Rightarrow> ptr" where
  "h2c_at ev xdev i = xdev + offsetof_h2c ev + i * sizeof_engine ev"

definition c2h_at :: "env \<Rightarrow> ptr \<Rightarrow> nat \<Rightarrow> ptr" where
  "c2h_at ev xdev i = xdev + offsetof_c2h ev + i * sizeof_engine ev"

definition alloc_dev_instance :: "env \<Rightarrow> ptr \<Rightarrow> kst \<Rightarrow> ptr \<times> kst" where
  "alloc_dev_instance ev pdev s =
     (if pdev = NULL then (NULL, s)
      else
        let (p, s) = kcall ev ''kzalloc'' (sizeof_dev ev) s; xdev = nat p
        in if xdev = NULL then (NULL, s)
           else
             let s = upd_dev xdev (\<lambda>_. zero_dev\<lparr>d_magic := MAGIC_DEVICE, d_config_bar_idx := - 1, d_user_bar_idx := - 1,
                       d_bypass_bar_idx := - 1, d_irq_line := - 1, d_pdev := pdev,
                       d_user_irq := (\<lambda>i. if i < 16 then zero_user_irq\<lparr>ui_user_idx := of_nat i\<rparr> else zero_user_irq),
                       d_engine_h2c := h2c_at ev xdev, d_engine_c2h := c2h_at ev xdev\<rparr>) s;
                 s = fold (\<lambda>i. upd_eng (h2c_at ev xdev i) (\<lambda>_. zero_engine)) [0..<XDMA_CHANNEL_NUM_MAX] s;
                 s = fold (\<lambda>i. upd_eng (c2h_at ev xdev i) (\<lambda>_. zero_engine)) [0..<XDMA_CHANNEL_NUM_MAX] s
             in (xdev, s))"

definition request_regions :: "env \<Rightarrow> ptr \<Rightarrow> ptr \<Rightarrow> kst \<Rightarrow> int \<times> kst" where
  "request_regions ev xdev pdev s =
     (if xdev = NULL then (- EINVAL, s)
      else if pdev = NULL then (- EINVAL, s)
      else
        let (rv, s) = kcall ev ''pci_request_regions'' pdev s
        in (rv, upd_dev xdev (\<lambda>d. if rv \<noteq> 0 then d\<lparr>d_regions_in_use := True\<rparr> else d\<lparr>d_got_regions := True\<rparr>) s))"

definition set_dma_mask :: "env \<Rightarrow> ptr \<Rightarrow> kst \<Rightarrow> int \<times> kst" where
  "set_dma_mask ev pdev s =
     (if pdev = NULL then (- EINVAL, s)
      else
        let (rv, s) = kcall ev ''pci_set_dma_mask 64'' pdev s
        in if rv = 0 then (0, snd (kcall ev ''pci_set_consistent_dma_mask 64'' pdev s))
           else
             let (rv, s) = kcall ev ''pci_set_dma_mask 32'' pdev s
             in if rv = 0 then (0, snd (kcall ev ''pci_set_consistent_dma_mask 32'' pdev s))
                else (- EINVAL, s))"

subsection \<open>Probing the engines\<close>

definition get_engine_channel_id :: "env \<Rightarrow> ptr \<Rightarrow> kst \<Rightarrow> int \<times> kst" where
  "get_engine_channel_id ev regs s =
     (if regs = NULL then (- EINVAL, s)
      else
        let (value, s) = read_register ev (regs + field_ofs engine_regs ''identifier'') s
        in (uint (drop_bit 8 (value AND 0x00000f00)), s))"

definition get_engine_id :: "env \<Rightarrow> ptr \<Rightarrow> kst \<Rightarrow> int \<times> kst" where
  "get_engine_id ev regs s =
     (if regs = NULL then (- EINVAL, s)
      else
        let (value, s) = read_register ev (regs + field_ofs engine_regs ''identifier'') s
        in (uint (drop_bit 16 (value AND 0xffff0000)), s))"

definition remove_engine :: "env \<Rightarrow> ptr \<Rightarrow> ptr \<Rightarrow> kst \<Rightarrow> kst" where
  "remove_engine ev xdev e s =
     (if e_magic (k_eng s e) = MAGIC_ENGINE then snd (engine_destroy ev xdev e s) else s)"

definition remove_engines :: "env \<Rightarrow> ptr \<Rightarrow> kst \<Rightarrow> kst" where
  "remove_engines ev xdev s =
     (if xdev = NULL then s
      else
        let s = fold (remove_engine ev xdev) (h2c_engines (k_dev s xdev)) s
        in fold (remove_engine ev xdev) (c2h_engines (k_dev s xdev)) s)"

definition probe_for_engine :: "env \<Rightarrow> ptr \<Rightarrow> dma_data_direction \<Rightarrow> nat \<Rightarrow> kst \<Rightarrow> int \<times> kst" where
  "probe_for_engine ev xdev dir channel s =
     (let d = k_dev s xdev;
          offset = channel * CHANNEL_SPACING + (if dir = DMA_TO_DEVICE then 0 else H2C_CHANNEL_OFFSET);
          engine_id_expected = (if dir = DMA_TO_DEVICE then XDMA_ID_H2C else XDMA_ID_C2H);
          engine = (if dir = DMA_TO_DEVICE then d_engine_h2c d channel else d_engine_c2h d channel);
          regs = d_bar d (d_config_bar_idx d) + offset;
          (engine_id, s) = get_engine_id ev regs s;
          (channel_id, s) = get_engine_channel_id ev regs s
      in if (word_of_int engine_id :: u32) \<noteq> engine_id_expected \<or> (word_of_int channel_id :: u32) \<noteq> of_nat channel
         then (- EINVAL, s)
         else engine_init ev engine xdev offset dir channel s)"

text \<open>The channels \<open>i\<close>, \<open>i + 1\<close> and so on, \<open>k\<close> of them, until one is missing; the number found.\<close>

fun probe_channels :: "env \<Rightarrow> ptr \<Rightarrow> dma_data_direction \<Rightarrow> nat \<Rightarrow> nat \<Rightarrow> kst \<Rightarrow> nat \<times> kst" where
  "probe_channels ev xdev dir i 0 s = (i, s)"
| "probe_channels ev xdev dir i (Suc k) s =
     (let (rv, s) = probe_for_engine ev xdev dir i s
      in if rv \<noteq> 0 then (i, s) else probe_channels ev xdev dir (Suc i) k s)"

definition probe_engines :: "env \<Rightarrow> ptr \<Rightarrow> kst \<Rightarrow> int \<times> kst" where
  "probe_engines ev xdev s =
     (if xdev = NULL then (- EINVAL, s)
      else
        let (i, s) = probe_channels ev xdev DMA_TO_DEVICE 0 (d_h2c_channel_max (k_dev s xdev)) s;
            s = upd_dev xdev (\<lambda>d. d\<lparr>d_h2c_channel_max := i\<rparr>) s;
            (i, s) = probe_channels ev xdev DMA_FROM_DEVICE 0 (d_c2h_channel_max (k_dev s xdev)) s
        in (0, upd_dev xdev (\<lambda>d. d\<lparr>d_c2h_channel_max := i\<rparr>) s))"

subsection \<open>Open and close\<close>

definition pci_enable_capability :: "env \<Rightarrow> ptr \<Rightarrow> nat \<Rightarrow> kst \<Rightarrow> kst" where
  "pci_enable_capability ev pdev cap s = snd (kcall ev (''pcie_capability_set_word PCI_EXP_DEVCTL '' @ dec cap) pdev s)"

text \<open>The labels of the error exit of \<open>xdma_device_open\<close>, each falling through to the next.\<close>

definition free_xdev :: "ptr \<Rightarrow> kst \<Rightarrow> kst" where
  "free_xdev xdev s = emit (Kernel ''kfree'' xdev 0) s"

definition err_enable :: "env \<Rightarrow> ptr \<Rightarrow> kst \<Rightarrow> kst" where
  "err_enable ev xdev s = free_xdev xdev (xdev_list_remove ev xdev s)"

definition err_regions :: "env \<Rightarrow> ptr \<Rightarrow> ptr \<Rightarrow> kst \<Rightarrow> kst" where
  "err_regions ev xdev pdev s =
     err_enable ev xdev (if \<not> d_regions_in_use (k_dev s xdev) then emit (Kernel ''pci_disable_device'' pdev 0) s else s)"

definition err_map :: "env \<Rightarrow> ptr \<Rightarrow> ptr \<Rightarrow> kst \<Rightarrow> kst" where
  "err_map ev xdev pdev s =
     err_regions ev xdev pdev (if d_got_regions (k_dev s xdev) then emit (Kernel ''pci_release_regions'' pdev 0) s else s)"

definition err_mask :: "env \<Rightarrow> ptr \<Rightarrow> ptr \<Rightarrow> kst \<Rightarrow> kst" where
  "err_mask ev xdev pdev s = err_map ev xdev pdev (unmap_bars xdev pdev s)"

definition err_engines :: "env \<Rightarrow> ptr \<Rightarrow> ptr \<Rightarrow> kst \<Rightarrow> kst" where
  "err_engines ev xdev pdev s = err_mask ev xdev pdev (remove_engines ev xdev s)"

definition err_msix :: "env \<Rightarrow> ptr \<Rightarrow> ptr \<Rightarrow> kst \<Rightarrow> kst" where
  "err_msix ev xdev pdev s = err_engines ev xdev pdev (disable_msi_msix ev xdev pdev s)"

text \<open>The limits the caller asks for, as they are put into the device.\<close>

definition channel_limit :: "nat \<Rightarrow> nat \<Rightarrow> nat" where
  "channel_limit mx n = (if n = 0 \<or> n > mx then mx else n)"

text \<open>The part of \<open>xdma_device_open\<close> up to the regions: the PCI function is enabled and configured.\<close>

definition open_pci :: "env \<Rightarrow> ptr \<Rightarrow> kst \<Rightarrow> kst" where
  "open_pci ev pdev s =
     (let s = pci_check_intr_pend ev pdev s;
          s = pci_enable_capability ev pdev 0x10 s;
          s = pci_enable_capability ev pdev 0x100 s;
          s = snd (kcall ev ''pcie_set_readrq 512'' pdev s)
      in emit (Kernel ''pci_set_master'' pdev 0) s)"

text \<open>The part from the first access to the device: interrupts off, engines probed, interrupts set up.\<close>

definition open_engines :: "env \<Rightarrow> ptr \<Rightarrow> ptr \<Rightarrow> kst \<Rightarrow> bool \<times> kst" where
  "open_engines ev xdev pdev s =
     (let s = check_nonzero_interrupt_status ev xdev s;
          s = channel_interrupts_disable xdev (NOT 0) s;
          s = user_interrupts_disable xdev (NOT 0) s;
          s = snd (read_interrupts ev xdev s);
          (rv, s) = probe_engines ev xdev s
      in if rv \<noteq> 0 then (False, err_mask ev xdev pdev s)
         else
           let (rv, s) = enable_msi_msix ev xdev pdev s
           in if rv < 0 then (False, err_engines ev xdev pdev s)
              else
                let (rv, s) = irq_setup ev xdev pdev s
                in if rv < 0 then (False, err_msix ev xdev pdev s)
                   else
                     let s = (if poll_mode ev = 0 then channel_interrupts_enable xdev (NOT 0) s else s);
                         s = snd (read_interrupts ev xdev s)
                     in (True, xdma_device_flag_clear xdev XDEV_FLAG_OFFLINE s))"

text \<open>The part from the configuration of the PCI function on, with the error exits.\<close>

definition open_rest :: "env \<Rightarrow> ptr \<Rightarrow> ptr \<Rightarrow> kst \<Rightarrow> bool \<times> kst" where
  "open_rest ev xdev pdev s =
     (let (rv, s) = request_regions ev xdev pdev (open_pci ev pdev s)
      in if rv \<noteq> 0 then (False, err_regions ev xdev pdev s)
         else
           let (rv, s) = map_bars ev xdev pdev s
           in if rv \<noteq> 0 then (False, err_map ev xdev pdev s)
              else
                let (rv, s) = set_dma_mask ev pdev s
                in if rv \<noteq> 0 then (False, err_mask ev xdev pdev s) else open_engines ev xdev pdev s)"

text \<open>The part up to the list of devices: the device structure with the limits asked for, marked offline.\<close>

definition open_instance :: "env \<Rightarrow> ptr \<Rightarrow> nat \<times> nat \<times> nat \<Rightarrow> kst \<Rightarrow> ptr \<times> kst" where
  "open_instance ev pdev lim s =
     (let (user_max, h2c_max, c2h_max) = lim;
          (xdev, s) = alloc_dev_instance ev pdev s
      in if xdev = NULL then (NULL, s)
         else
           let s = upd_dev xdev (\<lambda>d. d\<lparr>d_user_max := user_max, d_h2c_channel_max := h2c_max, d_c2h_channel_max := c2h_max\<rparr>) s;
               s = xdma_device_flag_set xdev XDEV_FLAG_OFFLINE s
           in (xdev, upd_dev xdev (\<lambda>d. d\<lparr>d_user_max := channel_limit MAX_USER_IRQ (d_user_max d),
                 d_h2c_channel_max := channel_limit XDMA_CHANNEL_NUM_MAX (d_h2c_channel_max d),
                 d_c2h_channel_max := channel_limit XDMA_CHANNEL_NUM_MAX (d_c2h_channel_max d)\<rparr>) s))"

text \<open>The limits are what the integers behind the pointers hold, and are returned as they are left; \<open>cpus\<close> are the
  online CPUs.\<close>

definition xdma_device_open ::
    "env \<Rightarrow> nat list \<Rightarrow> ptr \<Rightarrow> nat \<times> nat \<times> nat \<Rightarrow> kst \<Rightarrow> (ptr \<times> nat \<times> nat \<times> nat) \<times> kst" where
  "xdma_device_open ev cpus pdev lim s =
     (let (xdev, s) = open_instance ev pdev lim s
      in if xdev = NULL then ((NULL, lim), s)
         else
           let (rv, s) = xdev_list_add ev cpus xdev s
           in if rv < 0 then ((NULL, lim), free_xdev xdev s)
              else
                let (rv, s) = kcall ev ''pci_enable_device'' pdev s
                in if rv \<noteq> 0 then ((NULL, lim), err_enable ev xdev s)
                   else
                     let (ok, s) = open_rest ev xdev pdev s
                     in if ok then ((xdev, d_user_max (k_dev s xdev), d_h2c_channel_max (k_dev s xdev),
                                     d_c2h_channel_max (k_dev s xdev)), s)
                        else ((NULL, lim), s))"

definition xdma_device_close :: "env \<Rightarrow> ptr \<Rightarrow> ptr \<Rightarrow> kst \<Rightarrow> kst" where
  "xdma_device_close ev pdev dev_hndl s =
     (if dev_hndl = NULL then s
      else
        let (rv, s) = debug_check_dev_hndl pdev dev_hndl s
        in if rv < 0 then s
           else
             let s = channel_interrupts_disable dev_hndl (NOT 0) s;
                 s = user_interrupts_disable dev_hndl (NOT 0) s;
                 s = snd (read_interrupts ev dev_hndl s);
                 s = irq_teardown ev dev_hndl s;
                 s = disable_msi_msix ev dev_hndl pdev s;
                 s = remove_engines ev dev_hndl s;
                 s = unmap_bars dev_hndl pdev s;
                 s = (if d_got_regions (k_dev s dev_hndl) then emit (Kernel ''pci_release_regions'' pdev 0) s else s);
                 s = (if \<not> d_regions_in_use (k_dev s dev_hndl) then emit (Kernel ''pci_disable_device'' pdev 0) s else s);
                 s = xdev_list_remove ev dev_hndl s
             in emit (Kernel ''kfree'' dev_hndl 0) s)"

subsection \<open>Offline and online\<close>

definition offline_engine :: "env \<Rightarrow> ptr \<Rightarrow> kst \<Rightarrow> kst" where
  "offline_engine ev e s =
     (if e_magic (k_eng s e) = MAGIC_ENGINE then
        let s = emit (Acquire (LkEngine e)) s;
            s = upd_eng e (\<lambda>g. g\<lparr>e_shutdown := e_shutdown g OR ENGINE_SHUTDOWN_REQUEST\<rparr>) s;
            s = snd (xdma_engine_stop ev e s)
        in emit (Release (LkEngine e)) s
      else s)"

definition xdma_device_offline :: "env \<Rightarrow> ptr \<Rightarrow> ptr \<Rightarrow> kst \<Rightarrow> kst" where
  "xdma_device_offline ev pdev dev_hndl s =
     (if dev_hndl = NULL then s
      else
        let (rv, s) = debug_check_dev_hndl pdev dev_hndl s
        in if rv < 0 then s
           else
             let s = xdma_device_flag_set dev_hndl XDEV_FLAG_OFFLINE s;
                 s = fold (offline_engine ev) (h2c_engines (k_dev s dev_hndl)) s;
                 s = fold (offline_engine ev) (c2h_engines (k_dev s dev_hndl)) s;
                 s = channel_interrupts_disable dev_hndl (NOT 0) s;
                 s = user_interrupts_disable dev_hndl (NOT 0) s;
                 s = snd (read_interrupts ev dev_hndl s)
             in irq_teardown ev dev_hndl s)"

definition online_engine :: "env \<Rightarrow> ptr \<Rightarrow> kst \<Rightarrow> kst" where
  "online_engine ev e s =
     (if e_magic (k_eng s e) = MAGIC_ENGINE then
        let s = snd (engine_init_regs ev e s);
            s = emit (Acquire (LkEngine e)) s;
            s = upd_eng e (\<lambda>g. g\<lparr>e_shutdown := e_shutdown g AND NOT ENGINE_SHUTDOWN_REQUEST\<rparr>) s
        in emit (Release (LkEngine e)) s
      else s)"

definition xdma_device_online :: "env \<Rightarrow> ptr \<Rightarrow> ptr \<Rightarrow> kst \<Rightarrow> kst" where
  "xdma_device_online ev pdev dev_hndl s =
     (if dev_hndl = NULL then s
      else
        let (rv, s) = debug_check_dev_hndl pdev dev_hndl s
        in if rv < 0 then s
           else
             let s = fold (online_engine ev) (h2c_engines (k_dev s dev_hndl)) s;
                 s = fold (online_engine ev) (c2h_engines (k_dev s dev_hndl)) s;
                 s = (if poll_mode ev = 0 then
                        let s = snd (irq_setup ev dev_hndl pdev s);
                            s = channel_interrupts_enable dev_hndl (NOT 0) s;
                            s = user_interrupts_enable dev_hndl (d_mask_irq_user (k_dev s dev_hndl)) s
                        in snd (read_interrupts ev dev_hndl s)
                      else s)
             in xdma_device_flag_clear dev_hndl XDEV_FLAG_OFFLINE s)"

definition xdma_device_restart :: "ptr \<Rightarrow> ptr \<Rightarrow> kst \<Rightarrow> int \<times> kst" where
  "xdma_device_restart pdev dev_hndl s =
     (if dev_hndl = NULL then (- EINVAL, s)
      else (- EINVAL, snd (debug_check_dev_hndl pdev dev_hndl s)))"

subsection \<open>User interrupts and address mode\<close>

fun register_users :: "ptr \<Rightarrow> ptr \<Rightarrow> ptr \<Rightarrow> nat \<Rightarrow> nat \<Rightarrow> u32 \<Rightarrow> kst \<Rightarrow> kst" where
  "register_users xdev handler dev i 0 msk s = s"
| "register_users xdev handler dev i (Suc k) msk s =
     (if msk = 0 then s
      else
        let b = push_bit i 1
        in if b AND msk = 0 then register_users xdev handler dev (Suc i) k msk s
           else register_users xdev handler dev (Suc i) k (msk AND NOT b)
                  (upd_user_irq xdev i (\<lambda>u. u\<lparr>ui_handler := handler, ui_dev := dev\<rparr>) s))"

definition xdma_user_isr_register :: "ptr \<Rightarrow> u32 \<Rightarrow> ptr \<Rightarrow> ptr \<Rightarrow> kst \<Rightarrow> int \<times> kst" where
  "xdma_user_isr_register dev_hndl msk handler dev s =
     (if dev_hndl = NULL then (- EINVAL, s)
      else
        let (rv, s) = debug_check_dev_hndl (d_pdev (k_dev s dev_hndl)) dev_hndl s
        in if rv < 0 then (- EINVAL, s)
           else (0, register_users dev_hndl handler dev 0 (d_user_max (k_dev s dev_hndl)) msk s))"

definition xdma_user_isr_enable :: "env \<Rightarrow> ptr \<Rightarrow> u32 \<Rightarrow> kst \<Rightarrow> int \<times> kst" where
  "xdma_user_isr_enable ev dev_hndl msk s =
     (if dev_hndl = NULL then (- EINVAL, s)
      else
        let (rv, s) = debug_check_dev_hndl (d_pdev (k_dev s dev_hndl)) dev_hndl s
        in if rv < 0 then (- EINVAL, s)
           else
             let s = upd_dev dev_hndl (\<lambda>d. d\<lparr>d_mask_irq_user := d_mask_irq_user d OR msk\<rparr>) s;
                 s = user_interrupts_enable dev_hndl msk s
             in (0, snd (read_interrupts ev dev_hndl s)))"

definition xdma_user_isr_disable :: "env \<Rightarrow> ptr \<Rightarrow> u32 \<Rightarrow> kst \<Rightarrow> int \<times> kst" where
  "xdma_user_isr_disable ev dev_hndl msk s =
     (if dev_hndl = NULL then (- EINVAL, s)
      else
        let (rv, s) = debug_check_dev_hndl (d_pdev (k_dev s dev_hndl)) dev_hndl s
        in if rv < 0 then (- EINVAL, s)
           else
             let s = upd_dev dev_hndl (\<lambda>d. d\<lparr>d_mask_irq_user := d_mask_irq_user d AND NOT msk\<rparr>) s;
                 s = user_interrupts_disable dev_hndl msk s
             in (0, snd (read_interrupts ev dev_hndl s)))"

text \<open>A 32-bit value in the memory of the calling process, little-endian; \<open>None\<close> when it cannot be read.\<close>

definition get_user :: "env \<Rightarrow> u64 \<Rightarrow> kst \<Rightarrow> u32 option" where
  "get_user ev a s =
     (case (umem ev (trace s) a, umem ev (trace s) (a + 1), umem ev (trace s) (a + 2), umem ev (trace s) (a + 3)) of
        (Some b0, Some b1, Some b2, Some b3) \<Rightarrow>
          Some (ucast b0 OR push_bit 8 (ucast b1) OR push_bit 16 (ucast b2) OR push_bit 24 (ucast b3))
      | _ \<Rightarrow> None)"

definition engine_addrmode_set :: "env \<Rightarrow> ptr \<Rightarrow> u64 \<Rightarrow> kst \<Rightarrow> int \<times> kst" where
  "engine_addrmode_set ev e arg s =
     (let w = XDMA_CTRL_NON_INCR_ADDR;
          (rv, s) =
            (case get_user ev arg s of
               None \<Rightarrow> (- EFAULT, s)
             | Some dst \<Rightarrow>
                 let s = upd_eng e (\<lambda>g. g\<lparr>e_non_incr_addr := (dst \<noteq> 0)\<rparr>) s
                 in (0, write_register w
                          (ereg (k_eng s e) (if e_non_incr_addr (k_eng s e) then ''control_w1s'' else ''control_w1c'')) s))
      in (rv, engine_alignments ev e s))"

subsection \<open>Mapped BARs\<close>

text \<open>The mappings of BARs made and not yet undone after a trace.\<close>

fun mapped :: "event list \<Rightarrow> ptr multiset" where
  "mapped [] = {#}"
| "mapped (Kernel f p r # es) =
     (if take 10 f = ''pci_iomap '' \<and> nat r \<noteq> NULL then add_mset (nat r) (mapped es)
      else if f = ''pci_iounmap'' then mapped es - {#p#} else mapped es)"
| "mapped (_ # es) = mapped es"

lemma unmap_bar_sel [simp]:
  "k_eng (unmap_bar x i s) = k_eng s" "k_xdev_list (unmap_bar x i s) = k_xdev_list s"
  "d \<noteq> x \<Longrightarrow> k_dev (unmap_bar x i s) d = k_dev s d"
  "k_dev (unmap_bar x i s) x = (k_dev s x)\<lparr>d_bar := (d_bar (k_dev s x))(int i := NULL)\<rparr>"
  "live (trace (unmap_bar x i s)) = live (trace s)" "held l (trace (unmap_bar x i s)) = held l (trace s)"
  by (simp_all add: unmap_bar_def fun_upd_idem)

lemma mapped_unmap_bar:
  "mapped (trace (unmap_bar x i s)) =
     mapped (trace s) - (if d_bar (k_dev s x) (int i) = NULL then {#} else {#d_bar (k_dev s x) (int i)#})"
  by (simp add: unmap_bar_def)

text \<open>The addresses at which the BARs of a device are mapped.\<close>

definition bars :: "xdma_dev \<Rightarrow> nat list \<Rightarrow> ptr multiset" where
  "bars d is = filter_mset (\<lambda>p. p \<noteq> NULL) (mset (map (\<lambda>i. d_bar d (int i)) is))"

lemma bars_simps [simp]:
  "bars d [] = {#}"
  "bars d (i # is) = (if d_bar d (int i) = NULL then {#} else {#d_bar d (int i)#}) + bars d is"
  by (simp_all add: bars_def)

lemma bars_cong: "(\<And>i. i \<in> set is \<Longrightarrow> d_bar d (int i) = d_bar d' (int i)) \<Longrightarrow> bars d is = bars d' is"
  by (simp add: bars_def cong: map_cong)

lemma fold_unmap_bar:
  assumes "distinct is"
  shows "k_eng (fold (unmap_bar x) is s) = k_eng s" "k_xdev_list (fold (unmap_bar x) is s) = k_xdev_list s"
    and "d \<noteq> x \<Longrightarrow> k_dev (fold (unmap_bar x) is s) d = k_dev s d"
    and "k_dev (fold (unmap_bar x) is s) x =
           (k_dev s x)\<lparr>d_bar := (\<lambda>j. if j \<in> int ` set is then NULL else d_bar (k_dev s x) j)\<rparr>"
    and "live (trace (fold (unmap_bar x) is s)) = live (trace s)"
    and "held l (trace (fold (unmap_bar x) is s)) = held l (trace s)"
    and "mapped (trace (fold (unmap_bar x) is s)) = mapped (trace s) - bars (k_dev s x) is"
  using assms
proof (induction "is" arbitrary: s)
  case (Cons i "is")
  { case 4 then show ?case using Cons by (auto simp: fun_eq_iff) }
  { case 7
    have "bars (k_dev (unmap_bar x i s) x) is = bars (k_dev s x) is"
      using 7 by (intro bars_cong) auto
    with 7 show ?case using Cons by (simp add: mapped_unmap_bar) }
qed simp_all

lemma unmap_bars_sel [simp]:
  "k_eng (unmap_bars x dev s) = k_eng s" "k_xdev_list (unmap_bars x dev s) = k_xdev_list s"
  "d \<noteq> x \<Longrightarrow> k_dev (unmap_bars x dev s) d = k_dev s d"
  "k_dev (unmap_bars x dev s) x =
     (k_dev s x)\<lparr>d_bar := (\<lambda>j. if 0 \<le> j \<and> j < int XDMA_BAR_NUM then NULL else d_bar (k_dev s x) j)\<rparr>"
  "live (trace (unmap_bars x dev s)) = live (trace s)" "held l (trace (unmap_bars x dev s)) = held l (trace s)"
  "mapped (trace (unmap_bars x dev s)) = mapped (trace s) - bars (k_dev s x) [0..<XDMA_BAR_NUM]"
proof -
  have i: "int ` {0..<n} = {j. 0 \<le> j \<and> j < int n}" for n
    by (auto simp: image_int_atLeastLessThan)
  show "k_dev (unmap_bars x dev s) x =
     (k_dev s x)\<lparr>d_bar := (\<lambda>j. if 0 \<le> j \<and> j < int XDMA_BAR_NUM then NULL else d_bar (k_dev s x) j)\<rparr>"
    unfolding unmap_bars_def fold_unmap_bar(4) [OF distinct_upt] set_upt i by simp
qed (simp_all add: unmap_bars_def fold_unmap_bar)

lemma bars_append: "bars d (xs @ ys) = bars d xs + bars d ys"
  by (simp add: bars_def)

lemma bars_null: "(\<And>i. i \<in> set xs \<Longrightarrow> d_bar d (int i) = NULL) \<Longrightarrow> bars d xs = {#}"
  by (induction xs) simp_all

lemma sint_map_len:
  fixes m :: u64
  assumes "m \<le> INT_MAX"
  shows "sint (ucast m :: u32) = uint m"
proof -
  have u: "uint m < 2 ^ 31" using assms by (simp add: INT_MAX_def word_le_def)
  then have "take_bit 31 (uint m) = uint m" by (simp add: take_bit_int_eq_self_iff)
  moreover have "\<not> bit (uint m) 31"
    using u by (metis bit_take_bit_iff calculation less_irrefl)
  ultimately show ?thesis
    by (simp add: sint_uint unsigned_ucast_eq signed_take_bit_eq_if_positive take_bit_take_bit bit_take_bit_iff
        signed_take_bit_take_bit)
qed

text \<open>Mapping one BAR: absent, refused, or mapped at a new address.\<close>

lemma map_single_bar_cases:
  fixes ev x dev i s
  defines "r \<equiv> map_single_bar ev x dev i s"
  obtains (absent) "fst r = 0" "mapped (trace (snd r)) = mapped (trace s)"
      "k_dev (snd r) = (k_dev s)(x := (k_dev s x)\<lparr>d_bar := (d_bar (k_dev s x))(int i := NULL)\<rparr>)"
    | (refused) "fst r < 0" "mapped (trace (snd r)) = mapped (trace s)"
      "k_dev (snd r) = (k_dev s)(x := (k_dev s x)\<lparr>d_bar := (d_bar (k_dev s x))(int i := NULL)\<rparr>)"
    | (ok) p where "fst r > 0" "p \<noteq> NULL" "mapped (trace (snd r)) = add_mset p (mapped (trace s))"
      "k_dev (snd r) = (k_dev s)(x := (k_dev s x)\<lparr>d_bar := (d_bar (k_dev s x))(int i := p)\<rparr>)"
proof -
  let ?m = "if bar_len ev dev i > INT_MAX then INT_MAX else bar_len ev dev i"
  let ?s = "upd_dev x (\<lambda>d. d\<lparr>d_bar := (d_bar d)(int i := NULL)\<rparr>) s"
  let ?p = "nat (ksvc ev (trace s) (''pci_iomap '' @ dec i @ '' '' @ dec (unat ?m)) dev)"
  have m: "?m \<le> INT_MAX" by (simp add: not_less)
  show thesis
  proof (cases "bar_len ev dev i = 0")
    case True
    then show thesis by (intro absent) (simp_all add: r_def map_single_bar_def)
  next
    case False
    show thesis
    proof (cases "?p = NULL")
      case True
      with False show thesis
        by (intro refused) (simp_all add: r_def map_single_bar_def Let_def split_beta)
    next
      case p: False
      have "0 < ?m" using False by (auto simp: INT_MAX_def word_gt_0)
      then have "0 < sint (ucast ?m :: u32)" using m by (simp only: sint_map_len) (simp add: word_less_def)
      with False p show thesis
        by (intro ok [of ?p]) (simp_all add: r_def map_single_bar_def Let_def split_beta)
    qed
  qed
qed

lemma map_single_bar_frame [simp]:
  "k_eng (snd (map_single_bar ev x dev i s)) = k_eng s"
  "k_xdev_list (snd (map_single_bar ev x dev i s)) = k_xdev_list s"
  "live (trace (snd (map_single_bar ev x dev i s))) = live (trace s)"
  "held l (trace (snd (map_single_bar ev x dev i s))) = held l (trace s)"
  "set (trace s) \<subseteq> set (trace (snd (map_single_bar ev x dev i s)))"
  by (auto simp: map_single_bar_def Let_def split_beta)

text \<open>A BAR that answered with the two identifiers of the configuration BAR.\<close>

definition answered_as_config :: "ptr \<Rightarrow> event list \<Rightarrow> bool" where
  "answered_as_config bar tr \<longleftrightarrow>
     (\<exists>v w. Rd (bar + XDMA_OFS_INT_CTRL) v \<in> set tr \<and> v AND 0xffff0000 = IRQ_BLOCK_ID
          \<and> Rd (bar + XDMA_OFS_CONFIG) w \<in> set tr \<and> w AND 0xffff0000 = CONFIG_BLOCK_ID)"

lemma answered_mono: "answered_as_config b tr \<Longrightarrow> set tr \<subseteq> set tr' \<Longrightarrow> answered_as_config b tr'"
  unfolding answered_as_config_def by blast

text \<open>A device without what the BARs set in it.\<close>

definition strip_bars :: "xdma_dev \<Rightarrow> xdma_dev" where
  "strip_bars d = d\<lparr>d_bar := (\<lambda>_. NULL), d_config_bar_idx := 0, d_user_bar_idx := 0, d_bypass_bar_idx := 0\<rparr>"

lemma strip_bars_upd [simp]:
  "strip_bars (d\<lparr>d_bar := b\<rparr>) = strip_bars d" "strip_bars (d\<lparr>d_config_bar_idx := i\<rparr>) = strip_bars d"
  "strip_bars (d\<lparr>d_user_bar_idx := i\<rparr>) = strip_bars d" "strip_bars (d\<lparr>d_bypass_bar_idx := i\<rparr>) = strip_bars d"
  "strip_bars (d\<lparr>d_user_bar_idx := i, d_bypass_bar_idx := j\<rparr>) = strip_bars d"
  by (simp_all add: strip_bars_def)

lemma bars_upd [simp]: "bars (d\<lparr>d_config_bar_idx := i\<rparr>) is = bars d is"
  by (simp add: bars_def)

text \<open>The state of the loop over the BARs: the list holds the BARs mapped so far, in order, and the
  configuration BAR, once found, is the one at the given position.\<close>

definition bars_inv :: "ptr \<Rightarrow> kst \<Rightarrow> nat \<Rightarrow> nat list \<Rightarrow> nat \<Rightarrow> kst \<Rightarrow> bool" where
  "bars_inv x s0 i l pos s \<longleftrightarrow>
     (let d = k_dev s x; c = d_config_bar_idx d
      in (\<forall>j \<ge> i. d_bar d (int j) = NULL)
       \<and> l = filter (\<lambda>j. d_bar d (int j) \<noteq> NULL) [0..<i]
       \<and> (c = - 1 \<or> pos < length l \<and> c = int (l ! pos) \<and> answered_as_config (d_bar d c) (trace s))
       \<and> mapped (trace s) = mapped (trace s0) + bars d [0..<i]
       \<and> strip_bars d = strip_bars (k_dev s0 x) \<and> (\<forall>y. y \<noteq> x \<longrightarrow> k_dev s y = k_dev s0 y)
       \<and> d_user_bar_idx d = d_user_bar_idx (k_dev s0 x) \<and> d_bypass_bar_idx d = d_bypass_bar_idx (k_dev s0 x)
       \<and> k_eng s = k_eng s0 \<and> k_xdev_list s = k_xdev_list s0 \<and> live (trace s) = live (trace s0)
       \<and> (\<forall>l. held l (trace s) = held l (trace s0)))"

lemma filter_upt_cong:
  "(\<And>j. j < i \<Longrightarrow> P j = Q j) \<Longrightarrow> filter P [0..<i] = filter Q [0..<i]"
  by (intro filter_cong) auto

lemma bars_upt_cong: "(\<And>j. j < i \<Longrightarrow> d_bar d (int j) = d_bar d' (int j)) \<Longrightarrow> bars d [0..<i] = bars d' [0..<i]"
  by (intro bars_cong) auto

lemma bars_inv_skip:
  assumes inv: "bars_inv x s0 i l pos s"
    and dev: "k_dev s' = (k_dev s)(x := (k_dev s x)\<lparr>d_bar := (d_bar (k_dev s x))(int i := NULL)\<rparr>)"
    and "mapped (trace s') = mapped (trace s)" "k_eng s' = k_eng s" "k_xdev_list s' = k_xdev_list s"
      "live (trace s') = live (trace s)" "\<And>l. held l (trace s') = held l (trace s)" "set (trace s) \<subseteq> set (trace s')"
  shows "bars_inv x s0 (Suc i) l pos s'"
proof -
  have [simp]: "(d_bar (k_dev s x))(int i := NULL) = d_bar (k_dev s x)"
    using inv by (auto simp: bars_inv_def Let_def fun_upd_idem_iff)
  show ?thesis
    using assms by (auto simp: bars_inv_def Let_def bars_append intro: answered_mono)
qed

lemma bars_inv_map:
  assumes inv: "bars_inv x s0 i l pos s" and p: "p \<noteq> NULL"
    and dev: "k_dev s' = (k_dev s)(x := (k_dev s x)\<lparr>d_bar := (d_bar (k_dev s x))(int i := p)\<rparr>)"
    and "mapped (trace s') = add_mset p (mapped (trace s))" "k_eng s' = k_eng s" "k_xdev_list s' = k_xdev_list s"
      "live (trace s') = live (trace s)" "\<And>l. held l (trace s') = held l (trace s)" "set (trace s) \<subseteq> set (trace s')"
  shows "bars_inv x s0 (Suc i) (l @ [i]) pos s'"
proof -
  let ?d = "(k_dev s x)\<lparr>d_bar := (d_bar (k_dev s x))(int i := p)\<rparr>"
  have b: "bars ?d [0..<i] = bars (k_dev s x) [0..<i]" by (rule bars_upt_cong) auto
  have f: "filter (\<lambda>j. d_bar ?d (int j) \<noteq> NULL) [0..<i] = filter (\<lambda>j. d_bar (k_dev s x) (int j) \<noteq> NULL) [0..<i]"
    by (rule filter_upt_cong) auto
  have l: "l = filter (\<lambda>j. d_bar (k_dev s x) (int j) \<noteq> NULL) [0..<i]" using inv by (simp add: bars_inv_def Let_def)
  have lt: "n < length l \<Longrightarrow> l ! n < i" for n
    using l nth_mem [of n l] by auto
  show ?thesis
    using assms b f lt [of pos]
    by (auto simp: bars_inv_def Let_def bars_append nth_append simp del: fun_upd_apply
        simp add: fun_upd_apply intro: answered_mono)
qed

lemma bars_inv_config:
  assumes "bars_inv x s0 (Suc i) (l @ [i]) pos s" and "d_config_bar_idx (k_dev s x) < 0" "d_bar (k_dev s x) (int i) \<noteq> NULL"
    and "answered_as_config (d_bar (k_dev s x) (int i)) (trace s)"
  shows "bars_inv x s0 (Suc i) (l @ [i]) (length l) (upd_dev x (\<lambda>d. d\<lparr>d_config_bar_idx := int i\<rparr>) s)"
  using assms by (auto simp: bars_inv_def Let_def bars_append)

lemma is_config_bar_sel [simp]:
  "k_eng (snd (is_config_bar ev x i s)) = k_eng s" "k_dev (snd (is_config_bar ev x i s)) = k_dev s"
  "k_xdev_list (snd (is_config_bar ev x i s)) = k_xdev_list s" "mapped (trace (snd (is_config_bar ev x i s))) = mapped (trace s)"
  "live (trace (snd (is_config_bar ev x i s))) = live (trace s)"
  "held l (trace (snd (is_config_bar ev x i s))) = held l (trace s)"
  "set (trace s) \<subseteq> set (trace (snd (is_config_bar ev x i s)))"
  "fst (is_config_bar ev x i s) \<noteq> 0 \<Longrightarrow>
     answered_as_config (d_bar (k_dev s x) (int i)) (trace (snd (is_config_bar ev x i s)))"
  by (auto simp: is_config_bar_def Let_def split_beta answered_as_config_def reg_offsets split: if_splits)

lemma bars_inv_same:
  assumes "bars_inv x s0 i l pos s" "k_dev s' = k_dev s" "mapped (trace s') = mapped (trace s)" "k_eng s' = k_eng s"
    "k_xdev_list s' = k_xdev_list s" "live (trace s') = live (trace s)" "\<And>l. held l (trace s') = held l (trace s)"
    "set (trace s) \<subseteq> set (trace s')"
  shows "bars_inv x s0 i l pos s'"
  using assms by (auto simp: bars_inv_def Let_def intro: answered_mono)

definition bars_out :: "ptr \<Rightarrow> kst \<Rightarrow> nat \<Rightarrow> int + nat list \<times> nat \<Rightarrow> kst \<Rightarrow> bool" where
  "bars_out x s0 m r s \<longleftrightarrow>
     (case r of Inl rv \<Rightarrow> rv = - EINVAL \<and> (\<exists>i l pos. i \<le> m \<and> bars_inv x s0 i l pos s)
      | Inr (l, pos) \<Rightarrow> bars_inv x s0 m l pos s)"

lemma map_bars_loop_inv:
  assumes "bars_inv x s0 i l pos s"
  shows "bars_out x s0 (i + k) (fst (map_bars_loop ev x dev i k l pos s)) (snd (map_bars_loop ev x dev i k l pos s))"
  using assms
proof (induction k arbitrary: i l pos s)
  case 0
  then show ?case by (simp add: bars_out_def)
next
  case (Suc k)
  let ?r = "map_single_bar ev x dev i s"
  let ?c = "is_config_bar ev x i (snd ?r)"
  show ?case
  proof (cases rule: map_single_bar_cases [of ev x dev i s])
    case absent
    with Suc.IH [of "Suc i" l pos "snd ?r"] bars_inv_skip [OF Suc.prems absent(3) absent(2)] show ?thesis
      by (simp add: split_beta)
  next
    case refused
    with bars_inv_skip [OF Suc.prems refused(3) refused(2)] show ?thesis
      by (simp add: split_beta bars_out_def) (metis Suc_le_mono le_add1)
  next
    case (ok p)
    have inv: "bars_inv x s0 (Suc i) (l @ [i]) pos (snd ?r)"
      using bars_inv_map [OF Suc.prems ok(2,4,3)] by simp
    then have c: "bars_inv x s0 (Suc i) (l @ [i]) pos (snd ?c)"
      by (rule bars_inv_same) simp_all
    have "bars_inv x s0 (Suc i) (l @ [i]) (length l) (upd_dev x (\<lambda>d. d\<lparr>d_config_bar_idx := int i\<rparr>) (snd ?c))"
      if "d_config_bar_idx (k_dev (snd ?r) x) < 0" "fst ?c \<noteq> 0"
      using that is_config_bar_sel(8) [of ev x i "snd ?r"] ok(2,4) by (intro bars_inv_config [OF c]) auto
    with inv c ok(1) show ?thesis
      by (auto simp: split_beta Let_def intro: Suc.IH [of "Suc i", simplified])
  qed
qed

text \<open>The BARs of a device that are mapped, lowest first.\<close>

definition mapped_bars :: "xdma_dev \<Rightarrow> nat list" where
  "mapped_bars d = filter (\<lambda>j. d_bar d (int j) \<noteq> NULL) [0..<XDMA_BAR_NUM]"

lemma mapped_bars_sorted: "sorted_wrt (<) (mapped_bars d)"
  unfolding mapped_bars_def by (rule sorted_wrt_filter) (rule sorted_wrt_upt)

lemma mapped_bars_less: "i < j \<Longrightarrow> j < length (mapped_bars d) \<Longrightarrow> mapped_bars d ! i < mapped_bars d ! j"
  using mapped_bars_sorted [of d] by (simp add: sorted_wrt_iff_nth_less)

lemma mapped_bars_upd [simp]:
  "mapped_bars (d\<lparr>d_user_bar_idx := i\<rparr>) = mapped_bars d" "mapped_bars (d\<lparr>d_bypass_bar_idx := i\<rparr>) = mapped_bars d"
  "mapped_bars (d\<lparr>d_user_bar_idx := i, d_bypass_bar_idx := j\<rparr>) = mapped_bars d"
  "bars (d\<lparr>d_user_bar_idx := i\<rparr>) is = bars d is" "bars (d\<lparr>d_bypass_bar_idx := i\<rparr>) is = bars d is"
  "bars (d\<lparr>d_user_bar_idx := i, d_bypass_bar_idx := j\<rparr>) is = bars d is"
  by (simp_all add: mapped_bars_def bars_def)

text \<open>The roles the other BARs get: the user BAR is the first and lies below the configuration BAR, the bypass
  BAR is the last.\<close>

definition roles_ok :: "xdma_dev \<Rightarrow> bool" where
  "roles_ok d \<longleftrightarrow>
     (let l = mapped_bars d; c = d_config_bar_idx d
      in c \<in> int ` set l
       \<and> (d_user_bar_idx d = - 1 \<or> d_user_bar_idx d = int (l ! 0) \<and> d_user_bar_idx d < c)
       \<and> (d_bypass_bar_idx d = - 1 \<or> d_bypass_bar_idx d = int (last l))
       \<and> (d_bypass_bar_idx d = c \<longrightarrow> length l = 3 \<and> c = int (last l)))"

lemma identify_bars_ok:
  assumes x: "x \<noteq> NULL" and l: "l = mapped_bars (k_dev s x)" and pos: "pos < length l" "d_config_bar_idx (k_dev s x) = int (l ! pos)"
    and d: "d_user_bar_idx (k_dev s x) = - 1" "d_bypass_bar_idx (k_dev s x) = - 1"
  defines "r \<equiv> identify_bars x l (length l) pos s"
  shows "fst r = 0" "roles_ok (k_dev (snd r) x)" "d_bar (k_dev (snd r) x) = d_bar (k_dev s x)"
    "d_config_bar_idx (k_dev (snd r) x) = d_config_bar_idx (k_dev s x)"
    "strip_bars (k_dev (snd r) x) = strip_bars (k_dev s x)" "y \<noteq> x \<Longrightarrow> k_dev (snd r) y = k_dev s y"
    "trace (snd r) = trace s" "k_eng (snd r) = k_eng s" "k_xdev_list (snd r) = k_xdev_list s"
proof -
  have lt: "i < j \<Longrightarrow> j < length l \<Longrightarrow> l ! i < l ! j" for i j using mapped_bars_less l by auto
  have ne: "l \<noteq> []" using pos by auto
  show "roles_ok (k_dev (snd r) x)"
    using x pos d lt [of 0 pos] lt [of pos "length l - 1"] ne l nth_mem [OF pos(1)]
    by (auto simp: r_def identify_bars_def roles_ok_def Let_def last_conv_nth)
qed (use x in \<open>auto simp: r_def identify_bars_def\<close>)

lemma bars_inv_end:
  assumes "bars_inv x s0 i l pos s" and "i \<le> XDMA_BAR_NUM"
  shows "mapped (trace s) = mapped (trace s0) + bars (k_dev s x) [0..<XDMA_BAR_NUM]"
proof -
  have "bars (k_dev s x) [i..<XDMA_BAR_NUM] = {#}"
    using assms by (intro bars_null) (auto simp: bars_inv_def Let_def)
  moreover have "[0..<XDMA_BAR_NUM] = [0..<i] @ [i..<XDMA_BAR_NUM]"
    using assms(2) upt_add_eq_append [of 0 i "XDMA_BAR_NUM - i"] by simp
  ultimately have "bars (k_dev s x) [0..<XDMA_BAR_NUM] = bars (k_dev s x) [0..<i]"
    by (simp add: bars_append)
  then show ?thesis using assms by (simp add: bars_inv_def Let_def)
qed

text \<open>A device whose BARs have not been looked at.\<close>

definition bars_fresh :: "xdma_dev \<Rightarrow> bool" where
  "bars_fresh d \<longleftrightarrow> d_bar d = (\<lambda>_. NULL) \<and> d_config_bar_idx d = - 1 \<and> d_user_bar_idx d = - 1 \<and> d_bypass_bar_idx d = - 1"

lemma bars_inv_fresh: "bars_fresh (k_dev s x) \<Longrightarrow> bars_inv x s 0 [] 0 s"
  by (simp add: bars_inv_def bars_fresh_def Let_def)

text \<open>What mapping leaves alone, and its two outcomes: nothing is mapped, or the BARs are mapped and
  their roles known.\<close>

definition bars_kept :: "ptr \<Rightarrow> kst \<Rightarrow> kst \<Rightarrow> bool" where
  "bars_kept x s s' \<longleftrightarrow> k_eng s' = k_eng s \<and> k_xdev_list s' = k_xdev_list s \<and> live (trace s') = live (trace s)
     \<and> (\<forall>l. held l (trace s') = held l (trace s)) \<and> (\<forall>y. y \<noteq> x \<longrightarrow> k_dev s' y = k_dev s y)
     \<and> strip_bars (k_dev s' x) = strip_bars (k_dev s x)"

definition bars_unmapped :: "ptr \<Rightarrow> kst \<Rightarrow> kst \<Rightarrow> bool" where
  "bars_unmapped x s s' \<longleftrightarrow> mapped (trace s') = mapped (trace s)
     \<and> (\<forall>j. 0 \<le> j \<and> j < int XDMA_BAR_NUM \<longrightarrow> d_bar (k_dev s' x) j = NULL)"

definition bars_ready :: "ptr \<Rightarrow> kst \<Rightarrow> kst \<Rightarrow> bool" where
  "bars_ready x s s' \<longleftrightarrow> roles_ok (k_dev s' x)
     \<and> answered_as_config (d_bar (k_dev s' x) (d_config_bar_idx (k_dev s' x))) (trace s')
     \<and> mapped (trace s') = mapped (trace s) + bars (k_dev s' x) [0..<XDMA_BAR_NUM]"

lemma map_bars_cases:
  fixes ev x dev s
  defines "r \<equiv> map_bars ev x dev s"
  assumes x: "x \<noteq> NULL" and fresh: "bars_fresh (k_dev s x)"
  shows "bars_kept x s (snd r)
    \<and> (fst r = - EINVAL \<and> bars_unmapped x s (snd r) \<or> fst r = 0 \<and> bars_ready x s (snd r))"
proof -
  obtain o' s' where l: "map_bars_loop ev x dev 0 XDMA_BAR_NUM [] 0 s = (o', s')" by fastforce
  have out: "bars_out x s XDMA_BAR_NUM o' s'"
    using map_bars_loop_inv [OF bars_inv_fresh [OF fresh], of XDMA_BAR_NUM ev dev] l by simp
  show ?thesis
  proof (cases "(\<exists>rv. o' = Inl rv) \<or> d_config_bar_idx (k_dev s' x) < 0")
    case True
    then have r: "r = (- EINVAL, unmap_bars x dev s')"
      using l out by (auto simp: r_def map_bars_def bars_out_def split: sum.splits prod.splits)
    obtain i m pos where "bars_inv x s i m pos s'" "i \<le> XDMA_BAR_NUM"
      using out by (auto simp: bars_out_def split: sum.splits)
    with bars_inv_end [OF this] show ?thesis
      by (simp add: r bars_inv_def Let_def bars_kept_def bars_unmapped_def)
  next
    case False
    then obtain m pos where o: "o' = Inr (m, pos)" and c: "\<not> d_config_bar_idx (k_dev s' x) < 0"
      by (metis obj_sumE surj_pair)
    have inv: "bars_inv x s XDMA_BAR_NUM m pos s'" using out o by (simp add: bars_out_def)
    have m: "m = mapped_bars (k_dev s' x)" "pos < length m" "d_config_bar_idx (k_dev s' x) = int (m ! pos)"
      "d_user_bar_idx (k_dev s' x) = - 1" "d_bypass_bar_idx (k_dev s' x) = - 1"
      using inv c fresh by (auto simp: bars_inv_def mapped_bars_def Let_def bars_fresh_def)
    have r: "r = identify_bars x m (length m) pos s'" using l o c by (simp add: r_def map_bars_def)
    note ok = identify_bars_ok [OF x m, folded r]
    have "bars (k_dev (snd r) x) [0..<XDMA_BAR_NUM] = bars (k_dev s' x) [0..<XDMA_BAR_NUM]"
      by (rule bars_cong) (simp add: ok)
    with bars_inv_end [OF inv] inv ok c show ?thesis
      by (auto simp: bars_inv_def Let_def bars_kept_def bars_ready_def)
  qed
qed

subsection \<open>What the interrupt operations leave alone\<close>

text \<open>The DMA memory and BAR mappings in use, the locks held and the list of devices.\<close>

definition books :: "kst \<Rightarrow> ptr multiset \<times> ptr multiset \<times> (lock_id \<Rightarrow> int) \<times> ptr list" where
  "books s = (live (trace s), mapped (trace s), (\<lambda>l. held l (trace s)), k_xdev_list s)"

lemma books_eqD:
  assumes "books s' = books s"
  shows "live (trace s') = live (trace s)" "mapped (trace s') = mapped (trace s)" "held l (trace s') = held l (trace s)"
    "k_xdev_list s' = k_xdev_list s"
  using assms by (simp_all add: books_def fun_eq_iff)

lemma books_emit [simp]:
  "books (emit (Rd a v) s) = books s" "books (emit (Wr a v) s) = books s" "books (emit (ReqIrq i c rv) s) = books s"
  "books (emit (FreeIrq i c) s) = books s"
  "f \<notin> {''dma_alloc_coherent'', ''dma_free_coherent'', ''pci_iounmap''} \<Longrightarrow> take 10 f \<noteq> ''pci_iomap '' \<Longrightarrow>
     books (emit (Kernel f p rv) s) = books s"
  by (auto simp: books_def)

lemma books_state [simp]: "books (upd_dev d f s) = books s" "books (upd_eng e g s) = books s"
  by (simp_all add: books_def)

lemma books_registers [simp]:
  "books (write_register v a s) = books s" "books (snd (read_register ev a s)) = books s"
  by (simp_all add: write_register_def read_register_def Let_def)

lemma books_kcall [simp]:
  "f \<notin> {''dma_alloc_coherent'', ''dma_free_coherent'', ''pci_iounmap''} \<Longrightarrow> take 10 f \<noteq> ''pci_iomap '' \<Longrightarrow>
     books (snd (kcall ev f x s)) = books s"
  by (simp add: kcall_def Let_def)

lemma books_interrupts [simp]:
  "books (channel_interrupts_enable d m s) = books s" "books (channel_interrupts_disable d m s) = books s"
  "books (user_interrupts_enable d m s) = books s" "books (user_interrupts_disable d m s) = books s"
  "books (snd (read_interrupts ev d s)) = books s" "books (check_nonzero_interrupt_status ev d s) = books s"
  by (simp_all add: interrupts_defs read_interrupts_def check_nonzero_interrupt_status_def Let_def split_beta)

lemma interrupts_eng_dev [simp]:
  "k_eng (snd (read_interrupts ev d s)) = k_eng s" "k_dev (snd (read_interrupts ev d s)) = k_dev s"
  "k_eng (check_nonzero_interrupt_status ev d s) = k_eng s" "k_dev (check_nonzero_interrupt_status ev d s) = k_dev s"
  by (simp_all add: read_interrupts_def check_nonzero_interrupt_status_def Let_def split_beta)

lemma books_prog_vectors [simp]: "books (prog_vectors c base j i mx s) = books s"
proof (induction c base j i mx s rule: prog_vectors.induct)
  case (1 c base j i mx s)
  let ?v = "if c then (0, i + 4) else pack_vectors 4 i mx 0 0"
  have "prog_vectors c base j i mx s =
      (if i < mx then prog_vectors c base (Suc j) (snd ?v) mx (write_register (fst ?v) (base + 4 * j) s) else s)"
    by (subst prog_vectors.simps) (simp add: split_beta)
  with 1 show ?case by (simp add: prod_eq_iff)
qed

lemma books_lines [simp]:
  "books (snd (request_irq ev v c s)) = books s" "books (snd (request_engines ev pdev j es s)) = books s"
  "books (free_engines es s) = books s" "books (free_users ev pdev x base is s) = books s"
  "books (snd (request_users ev pdev x base i k s)) = books s"
proof -
  show r: "books (snd (request_irq ev v c s)) = books s" for v c s
    by (simp add: request_irq_def Let_def)
  show f: "books (free_users ev pdev x base is s) = books s" for "is" s
    by (induction "is" arbitrary: s) (simp_all add: free_users_def)
  show "books (snd (request_engines ev pdev j es s)) = books s"
    by (induction es arbitrary: j s) (simp_all add: Let_def split_beta r)
  show "books (free_engines es s) = books s"
    by (induction es arbitrary: s) simp_all
  show "books (snd (request_users ev pdev x base i k s)) = books s"
    by (induction k arbitrary: i s) (simp_all add: Let_def split_beta r f)
qed

lemma books_irq_teardown [simp]: "books (irq_teardown ev x s) = books s"
  by (simp add: irq_teardown_def irq_msix_channel_teardown_def irq_msix_user_teardown_def prog_irq_msix_channel_def
      prog_irq_msix_user_def Let_def)

lemma irq_teardown_sel [simp]: "k_eng (irq_teardown ev x s) = k_eng s" "k_dev (irq_teardown ev x s) = k_dev s"
  by (simp_all add: irq_teardown_def irq_msix_channel_teardown_def irq_msix_user_teardown_def prog_irq_msix_channel_def
      prog_irq_msix_user_def Let_def)

lemma books_msi [simp]:
  "books (snd (msi_msix_capable ev p ty s)) = books s" "books (snd (enable_msi_msix ev x p s)) = books s"
  "books (disable_msi_msix ev x p s) = books s" "books (pci_keep_intx_enabled ev p s) = books s"
  "books (pci_check_intr_pend ev p s) = books s"
proof -
  show m: "books (snd (msi_msix_capable ev p ty s)) = books s" for ty s
    by (simp add: msi_msix_capable_def Let_def split_beta)
  show "books (snd (enable_msi_msix ev x p s)) = books s"
    by (simp add: enable_msi_msix_def Let_def split_beta m)
qed (simp_all add: disable_msi_msix_def pci_keep_intx_enabled_def pci_check_intr_pend_def Let_def split_beta)

lemma books_irq_setup [simp]: "books (snd (irq_setup ev x p s)) = books s"
proof -
  have w: "books (fold (\<lambda>ofs. write_register w (b + ofs)) os t) = books t" for w b os t
    by (induction os arbitrary: t) simp_all
  have c: "books (snd (irq_msix_channel_setup ev x t)) = books t" "books (snd (irq_msix_user_setup ev x t)) = books t"
    "books (snd (irq_msi_setup ev x p t)) = books t" "books (prog_irq_msix_channel x b t) = books t"
    "books (prog_irq_msix_user x b t) = books t" for t b
    by (simp_all add: irq_msix_channel_setup_def irq_msix_user_setup_def irq_msi_setup_def prog_irq_msix_channel_def
        prog_irq_msix_user_def Let_def split_beta)
  have "books (snd (irq_legacy_setup ev x p t)) = books t" for t
    by (simp add: irq_legacy_setup_def Let_def split_beta w del: fold_simps)
  then show ?thesis by (simp add: irq_setup_def Let_def split_beta c)
qed

text \<open>Setting up the interrupts changes nothing of a device but its interrupt line.\<close>

lemma irq_setup_dev:
  "\<exists>n. k_dev (snd (irq_setup ev x p s)) = (k_dev s)(x := (k_dev s x)\<lparr>d_irq_line := n\<rparr>)"
proof -
  have w: "k_dev (fold (\<lambda>ofs. write_register w (b + ofs)) os t) = k_dev t" for w b os t
    by (induction os arbitrary: t) simp_all
  have c: "k_dev (snd (irq_msix_user_setup ev x t)) = k_dev t" "k_dev (prog_irq_msix_channel x b t) = k_dev t"
    "k_dev (prog_irq_msix_user x b t) = k_dev t" "k_dev (pci_keep_intx_enabled ev p t) = k_dev t" for t b
    by (simp_all add: irq_msix_user_setup_def prog_irq_msix_channel_def prog_irq_msix_user_def Let_def)
  have i: "\<exists>n. D = D(x := (D x)\<lparr>d_irq_line := n\<rparr>)" for D :: "ptr \<Rightarrow> xdma_dev"
    by (intro exI [of _ "d_irq_line (D x)"]) simp
  have l: "\<exists>n. k_dev (snd (irq_legacy_setup ev x p t)) = (k_dev t)(x := (k_dev t x)\<lparr>d_irq_line := n\<rparr>)" for t
    by (auto simp: irq_legacy_setup_def Let_def split_beta w i simp del: fold_simps)
  have m: "\<exists>n. k_dev (snd (irq_msi_setup ev x p t)) = (k_dev t)(x := (k_dev t x)\<lparr>d_irq_line := n\<rparr>)" for t
    by (auto simp: irq_msi_setup_def Let_def split_beta)
  show ?thesis
    using l [of "pci_keep_intx_enabled ev p s"] m [of "pci_keep_intx_enabled ev p s"]
    by (simp add: irq_setup_def Let_def split_beta c channel_setup_frame i)
qed

text \<open>An engine without its interrupt line.\<close>

definition strip_line :: "xdma_engine \<Rightarrow> xdma_engine" where
  "strip_line g = g\<lparr>e_msix_irq_line := 0\<rparr>"

lemma strip_line_eqD:
  assumes "strip_line g' = strip_line g"
  shows "blocks g' = blocks g" "e_magic g' = e_magic g" "e_dir g' = e_dir g" "e_channel g' = e_channel g" "e_xdev g' = e_xdev g"
    "e_transfer_list g' = e_transfer_list g" "e_running g' = e_running g" "e_shutdown g' = e_shutdown g"
proof -
  have *: "f g' = f g" if "\<And>g. f (strip_line g) = f g" for f :: "xdma_engine \<Rightarrow> 'a"
    using that assms by metis
  show "blocks g' = blocks g" "e_magic g' = e_magic g" "e_dir g' = e_dir g" "e_channel g' = e_channel g" "e_xdev g' = e_xdev g"
    "e_transfer_list g' = e_transfer_list g" "e_running g' = e_running g" "e_shutdown g' = e_shutdown g"
    by (rule *; simp add: strip_line_def blocks_def)+
qed

lemma irq_setup_eng [simp]: "strip_line (k_eng (snd (irq_setup ev x p s)) e) = strip_line (k_eng s e)"
proof -
  have w: "k_eng (fold (\<lambda>ofs. write_register w (b + ofs)) os t) = k_eng t" for w b os t
    by (induction os arbitrary: t) simp_all
  have k: "k_eng (pci_keep_intx_enabled ev p t) = k_eng t" "k_eng (snd (request_irq ev v c t)) = k_eng t" for t v c
    by (simp_all add: pci_keep_intx_enabled_def request_irq_def Let_def split_beta)
  have r: "strip_line (k_eng (snd (request_engines ev q j es t)) e) = strip_line (k_eng t e)" for q j es t
    by (induction es arbitrary: j t) (simp_all add: Let_def split_beta k strip_line_def)
  have c: "strip_line (k_eng (snd (irq_msix_channel_setup ev x t)) e) = strip_line (k_eng t e)"
    "strip_line (k_eng (snd (irq_msix_user_setup ev x t)) e) = strip_line (k_eng t e)"
    "strip_line (k_eng (snd (irq_msi_setup ev x p t)) e) = strip_line (k_eng t e)" for t
    by (simp_all add: irq_msix_channel_setup_def irq_msix_user_setup_def irq_msi_setup_def Let_def split_beta r k)
  have l: "k_eng (snd (irq_legacy_setup ev x p t)) = k_eng t" for t
    by (simp add: irq_legacy_setup_def Let_def split_beta w k del: fold_simps)
  show ?thesis
    by (simp add: irq_setup_def Let_def split_beta k c l)
qed

subsection \<open>Offline\<close>

lemma offline_engine_sel:
  assumes "e \<noteq> NULL"
  shows "k_eng (offline_engine ev e s) = (if e_magic (k_eng s e) = MAGIC_ENGINE
      then (k_eng s)(e := (k_eng s e)\<lparr>e_shutdown := e_shutdown (k_eng s e) OR ENGINE_SHUTDOWN_REQUEST, e_running := False\<rparr>)
      else k_eng s)"
    and "k_dev (offline_engine ev e s) = k_dev s" and "k_xfer (offline_engine ev e s) = k_xfer s"
    and "books (offline_engine ev e s) = books s"
  using assms by (auto simp: offline_engine_def Let_def books_def fun_eq_iff xdma_engine_stop_def)

text \<open>An engine that has been told to shut down and does not run.\<close>

definition shut_down :: "xdma_engine \<Rightarrow> bool" where
  "shut_down g \<longleftrightarrow> \<not> e_running g \<and> e_shutdown g AND ENGINE_SHUTDOWN_REQUEST \<noteq> 0"

lemma or_request: "(w OR ENGINE_SHUTDOWN_REQUEST) AND ENGINE_SHUTDOWN_REQUEST \<noteq> 0"
proof -
  have "bit ((w OR ENGINE_SHUTDOWN_REQUEST) AND ENGINE_SHUTDOWN_REQUEST) 0"
    by (simp add: ENGINE_SHUTDOWN_REQUEST_def bit_simps)
  then show ?thesis by (metis bit_0_eq bot_apply bot_bool_def)
qed

lemma fold_offline:
  assumes "NULL \<notin> set es"
  shows "k_dev (fold (offline_engine ev) es s) = k_dev s" "k_xfer (fold (offline_engine ev) es s) = k_xfer s"
    "books (fold (offline_engine ev) es s) = books s"
    "e_magic (k_eng (fold (offline_engine ev) es s) e) = e_magic (k_eng s e)"
    "e_xdev (k_eng (fold (offline_engine ev) es s) e) = e_xdev (k_eng s e)"
    "e_transfer_list (k_eng (fold (offline_engine ev) es s) e) = e_transfer_list (k_eng s e)"
  using assms by (induction es arbitrary: s) (simp_all add: offline_engine_sel)

lemma fold_offline_keeps:
  "NULL \<notin> set es \<Longrightarrow> shut_down (k_eng s e) \<Longrightarrow> shut_down (k_eng (fold (offline_engine ev) es s) e)"
proof (induction es arbitrary: s)
  case (Cons x es)
  then have "shut_down (k_eng (offline_engine ev x s) e)"
    using or_request by (auto simp: offline_engine_sel shut_down_def)
  with Cons show ?case by simp
qed simp

lemma fold_offline_stops:
  "NULL \<notin> set es \<Longrightarrow> e \<in> set es \<Longrightarrow> e_magic (k_eng s e) = MAGIC_ENGINE \<Longrightarrow> shut_down (k_eng (fold (offline_engine ev) es s) e)"
proof (induction es arbitrary: s)
  case (Cons x es)
  show ?case
  proof (cases "x = e")
    case True
    then have "shut_down (k_eng (offline_engine ev x s) e)"
      using or_request Cons.prems by (auto simp: offline_engine_sel shut_down_def)
    with Cons.prems show ?thesis by (simp add: fold_offline_keeps)
  next
    case False
    with Cons show ?thesis by (simp add: offline_engine_sel)
  qed
qed simp

lemma offline_sel:
  fixes ev pdev x s
  defines "s' \<equiv> xdma_device_offline ev pdev x s" and "d \<equiv> k_dev s x"
  assumes x: "x \<noteq> NULL" and ok: "fst (debug_check_dev_hndl pdev x s) = 0" and nn: "NULL \<notin> set (h2c_engines d @ c2h_engines d)"
  shows "k_dev s' = (k_dev s)(x := d\<lparr>d_flags := d_flags d OR XDEV_FLAG_OFFLINE\<rparr>)" "k_xdev_list s' = k_xdev_list s" "held l (trace s') = held l (trace s)"
    "e_magic (k_eng s' e) = e_magic (k_eng s e)" "e_xdev (k_eng s' e) = e_xdev (k_eng s e)"
    "e_transfer_list (k_eng s' e) = e_transfer_list (k_eng s e)"
    "e \<in> set (h2c_engines d @ c2h_engines d) \<Longrightarrow> e_magic (k_eng s e) = MAGIC_ENGINE \<Longrightarrow> shut_down (k_eng s' e)"
proof -
  define s1 where "s1 = xdma_device_flag_set x XDEV_FLAG_OFFLINE (snd (debug_check_dev_hndl pdev x s))"
  have s1: "k_dev s1 = (k_dev s)(x := d\<lparr>d_flags := d_flags d OR XDEV_FLAG_OFFLINE\<rparr>)" "k_eng s1 = k_eng s" "k_xfer s1 = k_xfer s"
    "k_xdev_list s1 = k_xdev_list s" "held l (trace s1) = held l (trace s)"
    by (simp_all add: s1_def xdma_device_flag_set_def Let_def d_def)
  have hc: "h2c_engines (k_dev s1 x) = h2c_engines d" "c2h_engines (k_dev s1 x) = c2h_engines d"
    by (simp_all add: s1 h2c_engines_def c2h_engines_def)
  define s2 where "s2 = fold (offline_engine ev) (h2c_engines d) s1"
  define s3 where "s3 = fold (offline_engine ev) (c2h_engines d) s2"
  have nh: "NULL \<notin> set (h2c_engines d)" "NULL \<notin> set (c2h_engines d)" using nn by auto
  have k2: "c2h_engines (k_dev s2 x) = c2h_engines d" using nh hc by (simp add: s2_def fold_offline)
  have eq: "s' = irq_teardown ev x (snd (read_interrupts ev x (user_interrupts_disable x (NOT 0) (channel_interrupts_disable x (NOT 0) s3))))"
    using x ok by (simp add: s'_def xdma_device_offline_def Let_def split_beta s1_def [symmetric] hc s2_def [symmetric] k2 s3_def)
  have bk: "books s' = books s1" using nh by (simp add: eq s3_def s2_def fold_offline)
  note f2 = fold_offline [OF nh(1), where ev = ev and s = s1, folded s2_def]
    and f3 = fold_offline [OF nh(2), where ev = ev and s = s2, folded s3_def]
  show "k_dev s' = (k_dev s)(x := d\<lparr>d_flags := d_flags d OR XDEV_FLAG_OFFLINE\<rparr>)" by (simp add: eq f2 f3 s1)
  show "k_xdev_list s' = k_xdev_list s" "held l (trace s') = held l (trace s)"
    using books_eqD [OF bk] s1 by simp_all
  show "e_magic (k_eng s' e) = e_magic (k_eng s e)" "e_xdev (k_eng s' e) = e_xdev (k_eng s e)"
    "e_transfer_list (k_eng s' e) = e_transfer_list (k_eng s e)"
    by (simp_all add: eq f2 f3 s1)
  show "shut_down (k_eng s' e)" if "e \<in> set (h2c_engines d @ c2h_engines d)" "e_magic (k_eng s e) = MAGIC_ENGINE"
    using that nh fold_offline_stops [of "h2c_engines d" e s1 ev, folded s2_def] fold_offline_stops [of "c2h_engines d" e s2 ev, folded s3_def]
      fold_offline_keeps [of "c2h_engines d" s2 e ev, folded s3_def] f2(4)
    by (auto simp: eq s1)
qed

lemma find_pdev_cong: "(\<And>x. x \<in> set xs \<Longrightarrow> d_pdev (D x) = d_pdev (D' x)) \<Longrightarrow> find_pdev D p xs = find_pdev D' p xs"
  by (induction xs) auto

lemma check_hndl_cong:
  assumes "\<And>x. d_pdev (k_dev s' x) = d_pdev (k_dev s x)" "k_xdev_list s' = k_xdev_list s"
  shows "fst (debug_check_dev_hndl p h s') = fst (debug_check_dev_hndl p h s)"
  using find_pdev_cong [of "k_xdev_list s" "k_dev s'" "k_dev s" p] assms
  by (simp add: debug_check_dev_hndl_def xdev_find_by_pdev_def Let_def)

lemma check_hndl_pdev:
  assumes "fst (debug_check_dev_hndl p h s) = 0"
  shows "d_pdev (k_dev s h) = p" "h \<noteq> NULL" "h \<in> set (k_xdev_list s)" "p \<noteq> NULL"
  using assms find_pdev_some [of "k_dev s" p "k_xdev_list s"]
  by (auto simp: debug_check_dev_hndl_def xdev_find_by_pdev_def Let_def EINVAL_def split: if_splits)

text \<open>The number of channels of a direction.\<close>

definition channels :: "xdma_dev \<Rightarrow> bool \<Rightarrow> nat" where
  "channels d write = (if write then d_h2c_channel_max d else d_c2h_channel_max d)"

lemma submit_offline:
  assumes "fst (debug_check_dev_hndl (d_pdev (k_dev s x)) x s) = 0" "d_flags (k_dev s x) AND XDEV_FLAG_OFFLINE \<noteq> 0"
    and "\<forall>e \<in> set (h2c_engines (k_dev s x) @ c2h_engines (k_dev s x)). e \<noteq> NULL \<and> e_magic (k_eng s e) = MAGIC_ENGINE \<and> e_xdev (k_eng s e) = x"
  shows "\<exists>t. xdma_xfer_submit ev others x ch w ep sgt m s = Some (if ch < channels (k_dev s x) w then - EBUSY else - EINVAL, t) \<and> k_eng t = k_eng s"
proof -
  have x: "x \<noteq> NULL" using check_hndl_pdev [OF assms(1)] by simp
  let ?s = "snd (debug_check_dev_hndl (d_pdev (k_dev s x)) x s)"
  have e: "channel_engine x ch w ?s = (if ch < channels (k_dev s x) w
      then Some (if w then d_engine_h2c (k_dev s x) ch else d_engine_c2h (k_dev s x) ch) else None)"
    by (simp add: channel_engine_def channels_def not_less)
  have mem: "ch < channels (k_dev s x) w \<Longrightarrow> (if w then d_engine_h2c (k_dev s x) ch else d_engine_c2h (k_dev s x) ch)
      \<in> set (h2c_engines (k_dev s x) @ c2h_engines (k_dev s x))"
    by (auto simp: channels_def h2c_engines_def c2h_engines_def)
  show ?thesis
  proof (cases "ch < channels (k_dev s x) w")
    case True
    with assms x e bspec [OF assms(3) mem [OF True]] show ?thesis
      by (simp add: xdma_xfer_submit_def submit_checks_def Let_def split_beta)
  next
    case False
    with assms x e show ?thesis by (simp add: xdma_xfer_submit_def submit_checks_def Let_def split_beta)
  qed
qed

subsection \<open>Properties\<close>

text \<open>C27: taking a device offline stops every engine of it and asks it to shut down, keeping the queues;
  from then on no transfer is accepted: queueing one is answered with \<open>-EBUSY\<close> and changes nothing, a
  submission returns \<open>-EBUSY\<close> on every channel the device has and \<open>-EINVAL\<close> on the others, whatever the
  other threads do, and all locks are given back.\<close>

theorem offline_refuses_io:
  fixes ev pdev x s
  defines "s' \<equiv> xdma_device_offline ev pdev x s" and "es \<equiv> set (h2c_engines (k_dev s x) @ c2h_engines (k_dev s x))"
  assumes ok: "fst (debug_check_dev_hndl pdev x s) = 0"
    and eng: "\<forall>e \<in> es. e \<noteq> NULL \<and> e_magic (k_eng s e) = MAGIC_ENGINE \<and> e_xdev (k_eng s e) = x"
  shows "(\<forall>e \<in> es. \<not> e_running (k_eng s' e) \<and> e_shutdown (k_eng s' e) AND ENGINE_SHUTDOWN_REQUEST \<noteq> 0
        \<and> e_transfer_list (k_eng s' e) = e_transfer_list (k_eng s e)
        \<and> (\<forall>t. t \<noteq> NULL \<and> t_desc_num (k_xfer s' t) \<noteq> 0 \<longrightarrow>
             fst (transfer_queue ev e t s') = - EBUSY \<and> k_eng (snd (transfer_queue ev e t s')) = k_eng s'))
    \<and> (\<forall>others ch w ep sgt m. \<exists>t. xdma_xfer_submit ev others x ch w ep sgt m s' =
          Some (if ch < channels (k_dev s x) w then - EBUSY else - EINVAL, t) \<and> k_eng t = k_eng s')
    \<and> (\<forall>l. held l (trace s') = held l (trace s))"
proof -
  have x: "x \<noteq> NULL" "d_pdev (k_dev s x) = pdev" using check_hndl_pdev [OF ok] by simp_all
  have nn: "NULL \<notin> set (h2c_engines (k_dev s x) @ c2h_engines (k_dev s x))" using eng by (auto simp: es_def)
  note o = offline_sel [OF x(1) ok nn, where ev = ev, folded s'_def]
  have fl: "d_flags (k_dev s' x) AND XDEV_FLAG_OFFLINE \<noteq> 0"
    using or_request by (simp add: o(1) XDEV_FLAG_OFFLINE_def ENGINE_SHUTDOWN_REQUEST_def)
  have hc: "h2c_engines (k_dev s' x) = h2c_engines (k_dev s x)" "c2h_engines (k_dev s' x) = c2h_engines (k_dev s x)"
    "channels (k_dev s' x) w = channels (k_dev s x) w" for w
    by (simp_all add: o(1) h2c_engines_def c2h_engines_def channels_def)
  have ok': "fst (debug_check_dev_hndl (d_pdev (k_dev s' x)) x s') = 0"
    using check_hndl_cong [of s' s] ok x by (simp add: o)
  have "\<exists>t. xdma_xfer_submit ev others x ch w ep sgt m s' =
      Some (if ch < channels (k_dev s x) w then - EBUSY else - EINVAL, t) \<and> k_eng t = k_eng s'" for others ch w ep sgt m
    using submit_offline [OF ok' fl] eng o hc by (simp add: es_def)
  moreover have "fst (transfer_queue ev e t s') = - EBUSY \<and> k_eng (snd (transfer_queue ev e t s')) = k_eng s'"
    if "e \<in> es" "t \<noteq> NULL" "t_desc_num (k_xfer s' t) \<noteq> 0" for e t
    using that eng fl x transfer_queue_refused [of e t s'] by (auto simp: queue_answer_def o errno_defs)
  ultimately show ?thesis
    using eng o by (auto simp: shut_down_def es_def)
qed

text \<open>A device with one engine, on the list.\<close>

definition one_device :: kst where
  "one_device = kst0\<lparr>k_xdev_list := [5],
     k_dev := (\<lambda>_. zero_dev\<lparr>d_pdev := 9, d_h2c_channel_max := 1, d_engine_h2c := (\<lambda>_. 3)\<rparr>),
     k_eng := (\<lambda>_. zero_engine\<lparr>e_magic := MAGIC_ENGINE, e_xdev := 5, e_running := True\<rparr>)\<rparr>"

theorem offline_refuses_io_witness:
  "\<not> e_running (k_eng (xdma_device_offline env0 9 5 one_device) 3) \<and>
   (\<exists>t. xdma_xfer_submit env0 id 5 0 True 0 7 False (xdma_device_offline env0 9 5 one_device) = Some (- EBUSY, t))"
proof -
  have ok: "fst (debug_check_dev_hndl 9 5 one_device) = 0"
    by (simp add: debug_check_dev_hndl_def xdev_find_by_pdev_def Let_def one_device_def)
  have d: "h2c_engines (k_dev one_device 5) = [3]" "c2h_engines (k_dev one_device 5) = []" "channels (k_dev one_device 5) True = 1"
    "e_magic (k_eng one_device 3) = MAGIC_ENGINE" "e_xdev (k_eng one_device 3) = 5"
    by (simp_all add: one_device_def h2c_engines_def c2h_engines_def channels_def zero_dev_def)
  have eng: "\<forall>e \<in> set (h2c_engines (k_dev one_device 5) @ c2h_engines (k_dev one_device 5)).
      e \<noteq> NULL \<and> e_magic (k_eng one_device e) = MAGIC_ENGINE \<and> e_xdev (k_eng one_device e) = 5"
    by (simp add: d)
  note t = offline_refuses_io [OF ok eng, of env0]
  then have "\<exists>t. xdma_xfer_submit env0 id 5 0 True 0 7 False (xdma_device_offline env0 9 5 one_device) =
      Some (if 0 < channels (k_dev one_device 5) True then - EBUSY else - EINVAL, t)"
    by blast
  with t show ?thesis by (auto simp: d)
qed


text \<open>A function with nothing but a configuration BAR 0, mapped at 65536.\<close>

definition env_bars :: env where
  "env_bars = env0\<lparr>bar_len := (\<lambda>_ i. if i = 0 then 0x10000 else 0), ksvc := (\<lambda>_ _ _. 0x10000),
     hw := (\<lambda>_ a. if a = 0x12000 then IRQ_BLOCK_ID else if a = 0x13000 then CONFIG_BLOCK_ID else 0)\<rparr>"

definition new_device :: kst where
  "new_device = kst0\<lparr>k_dev := (\<lambda>_. zero_dev\<lparr>d_config_bar_idx := - 1, d_user_bar_idx := - 1, d_bypass_bar_idx := - 1\<rparr>)\<rparr>"

lemma map_bars_loop_absent:
  assumes "\<forall>j \<ge> i. bar_len ev dev j = 0 \<and> d_bar (k_dev s x) (int j) = NULL"
  shows "map_bars_loop ev x dev i k l pos s = (Inr (l, pos), s)"
  using assms
proof (induction k arbitrary: i)
  case (Suc k)
  have "upd_dev x (\<lambda>d. d\<lparr>d_bar := (d_bar d)(int i := NULL)\<rparr>) s = s"
    using Suc.prems by (simp add: upd_dev_def fun_upd_idem)
  with Suc show ?case by (simp add: map_single_bar_def Let_def)
qed simp

lemma env_bars_first:
  assumes "bars_fresh (k_dev s 5)"
  shows "\<exists>t. map_bars_loop env_bars 5 9 0 6 [] 0 s = (Inr ([0], 0), t) \<and> d_bar (k_dev t 5) = (\<lambda>_. 0)(0 := 0x10000)
    \<and> d_config_bar_idx (k_dev t 5) = 0"
proof -
  have m: "sint (ucast (0x10000 :: u64) :: u32) = 0x10000" by (simp add: sint_map_len INT_MAX_def)
  have 6: "(6 :: nat) = Suc 5" by simp
  have b: "bar_len env_bars 9 j = (if j = 0 then 0x10000 else 0)" for j by (simp add: env_bars_def)
  show ?thesis
    unfolding 6 map_bars_loop.simps(2) using assms
    by (simp add: map_single_bar_def is_config_bar_def kcall_def read_register_def Let_def b m map_bars_loop_absent
        INT_MAX_def XDMA_BAR_SIZE_def reg_offsets XDMA_OFS_INT_CTRL_def XDMA_OFS_CONFIG_def bars_fresh_def)
      (simp add: env_bars_def IRQ_BLOCK_ID_def CONFIG_BLOCK_ID_def map_bars_loop_absent)
qed


text \<open>With three BARs and the configuration BAR last, the bypass BAR is the configuration BAR itself.\<close>

lemma bypass_is_config_bar:
  assumes "x \<noteq> NULL" "length l = 3" "d_config_bar_idx (k_dev s x) = int (l ! 2)"
  shows "d_bypass_bar_idx (k_dev (snd (identify_bars x l 3 2 s)) x) = d_config_bar_idx (k_dev (snd (identify_bars x l 3 2 s)) x)"
  using assms by (simp add: identify_bars_def)

end
