(* ===== verification/Cdev_Char.thy ===== *)
theory Cdev_Char
  imports Xdma_Device
begin

text \<open>
  The character devices of a PCI function (\<^verbatim>\<open>xdma_cdev.c\<close>): the sanity check every file operation starts with,
  opening and closing, and creating and destroying the nodes \<^verbatim>\<open>/dev/xdma<n>_*\<close>.  The character devices are
  embedded in the book-keeping structure of the function; here they are objects at their addresses.  What is
  proved: the nodes have distinct device numbers, all of them work, and destroying the
  nodes of a function takes down exactly those that creating them brought up.
\<close>

subsection \<open>The stores of the character devices\<close>

abbreviation k_cdev :: "kst \<Rightarrow> ptr \<Rightarrow> xdma_cdev" where "k_cdev s \<equiv> cs_cdev (k_char s)"
abbreviation k_xpdev :: "kst \<Rightarrow> ptr \<Rightarrow> xdma_pci_dev" where "k_xpdev s \<equiv> cs_xpdev (k_char s)"
abbreviation k_file :: "kst \<Rightarrow> ptr \<Rightarrow> open_file" where "k_file s \<equiv> cs_file (k_char s)"
abbreviation k_caio :: "kst \<Rightarrow> ptr \<Rightarrow> cdev_async_io" where "k_caio s \<equiv> cs_caio (k_char s)"

definition upd_cdev :: "ptr \<Rightarrow> (xdma_cdev \<Rightarrow> xdma_cdev) \<Rightarrow> kst \<Rightarrow> kst" where
  "upd_cdev p f = upd_char (\<lambda>c. c\<lparr>cs_cdev := (cs_cdev c)(p := f (cs_cdev c p))\<rparr>)"

definition upd_xpdev :: "ptr \<Rightarrow> (xdma_pci_dev \<Rightarrow> xdma_pci_dev) \<Rightarrow> kst \<Rightarrow> kst" where
  "upd_xpdev p f = upd_char (\<lambda>c. c\<lparr>cs_xpdev := (cs_xpdev c)(p := f (cs_xpdev c p))\<rparr>)"

definition upd_file :: "ptr \<Rightarrow> (open_file \<Rightarrow> open_file) \<Rightarrow> kst \<Rightarrow> kst" where
  "upd_file p f = upd_char (\<lambda>c. c\<lparr>cs_file := (cs_file c)(p := f (cs_file c p))\<rparr>)"

definition upd_caio :: "ptr \<Rightarrow> (cdev_async_io \<Rightarrow> cdev_async_io) \<Rightarrow> kst \<Rightarrow> kst" where
  "upd_caio p f = upd_char (\<lambda>c. c\<lparr>cs_caio := (cs_caio c)(p := f (cs_caio c p))\<rparr>)"

text \<open>A pointer a kernel service returns, as an address: error pointers are the last addresses.\<close>

definition ptr_of :: "int \<Rightarrow> ptr" where
  "ptr_of r = nat (r mod 2 ^ 64)"

subsection \<open>Checking, opening, closing\<close>

definition MAGIC_CHAR :: u64 where "MAGIC_CHAR = 0xCCCCCCCC"

definition xcdev_check :: "ptr \<Rightarrow> bool \<Rightarrow> kst \<Rightarrow> int" where
  "xcdev_check xcdev check_engine s =
     (let c = k_cdev s xcdev
      in if xcdev = NULL \<or> cd_magic c \<noteq> MAGIC_CHAR then - EINVAL
         else if cd_xdev c = NULL \<or> d_magic (k_dev s (cd_xdev c)) \<noteq> MAGIC_DEVICE then - EINVAL
         else if check_engine \<and> (cd_engine c = NULL \<or> e_magic (k_eng s (cd_engine c)) \<noteq> MAGIC_ENGINE) then - EINVAL
         else 0)"

text \<open>\<open>xcdev\<close> is the structure that holds the character device of the inode.\<close>

definition char_open :: "ptr \<Rightarrow> ptr \<Rightarrow> kst \<Rightarrow> int \<times> kst" where
  "char_open xcdev fp s =
     (if cd_magic (k_cdev s xcdev) \<noteq> MAGIC_CHAR then (- EINVAL, s)
      else (0, upd_file fp (\<lambda>f. f\<lparr>f_private_data := xcdev\<rparr>) s))"

definition char_close :: "ptr \<Rightarrow> kst \<Rightarrow> int" where
  "char_close fp s =
     (let xcdev = f_private_data (k_file s fp); c = k_cdev s xcdev; xdev = cd_xdev c
      in if xcdev = NULL then - EINVAL
         else if cd_magic c \<noteq> MAGIC_CHAR then - EINVAL
         else if xdev = NULL then - EINVAL
         else if d_magic (k_dev s xdev) \<noteq> MAGIC_DEVICE then - EINVAL
         else 0)"

subsection \<open>The flags of a function\<close>

datatype xpdev_flags_bits = XDF_CDEV_USER | XDF_CDEV_CTRL | XDF_CDEV_XVC | XDF_CDEV_EVENT | XDF_CDEV_SG | XDF_CDEV_BYPASS

fun flag_bit :: "xpdev_flags_bits \<Rightarrow> nat" where
  "flag_bit XDF_CDEV_USER = 0"
| "flag_bit XDF_CDEV_CTRL = 1"
| "flag_bit XDF_CDEV_XVC = 2"
| "flag_bit XDF_CDEV_EVENT = 3"
| "flag_bit XDF_CDEV_SG = 4"
| "flag_bit XDF_CDEV_BYPASS = 5"

definition xpdev_flag_set :: "ptr \<Rightarrow> xpdev_flags_bits \<Rightarrow> kst \<Rightarrow> kst" where
  "xpdev_flag_set xpdev fbit = upd_xpdev xpdev (\<lambda>x. x\<lparr>xp_flags := xp_flags x OR push_bit (flag_bit fbit) 1\<rparr>)"

definition xcdev_flag_clear :: "ptr \<Rightarrow> xpdev_flags_bits \<Rightarrow> kst \<Rightarrow> kst" where
  "xcdev_flag_clear xpdev fbit = upd_xpdev xpdev (\<lambda>x. x\<lparr>xp_flags := xp_flags x AND NOT (push_bit (flag_bit fbit) 1)\<rparr>)"

definition xpdev_flag_test :: "ptr \<Rightarrow> xpdev_flags_bits \<Rightarrow> kst \<Rightarrow> bool" where
  "xpdev_flag_test xpdev fbit s \<longleftrightarrow> xp_flags (k_xpdev s xpdev) AND push_bit (flag_bit fbit) 1 \<noteq> 0"

subsection \<open>One node\<close>

datatype cdev_type = CHAR_USER | CHAR_CTRL | CHAR_XVC | CHAR_EVENTS | CHAR_XDMA_H2C | CHAR_XDMA_C2H
  | CHAR_BYPASS_H2C | CHAR_BYPASS_C2H | CHAR_BYPASS

definition XDMA_MINOR_COUNT :: int where "XDMA_MINOR_COUNT = 255"

text \<open>The formatted name; the second number is not used by all types.\<close>

fun devnode_names :: "cdev_type \<Rightarrow> nat \<Rightarrow> nat \<Rightarrow> string" where
  "devnode_names CHAR_USER i j = ''xdma'' @ dec i @ ''_user''"
| "devnode_names CHAR_CTRL i j = ''xdma'' @ dec i @ ''_control''"
| "devnode_names CHAR_XVC i j = ''xdma'' @ dec i @ ''_xvc''"
| "devnode_names CHAR_EVENTS i j = ''xdma'' @ dec i @ ''_events_'' @ dec j"
| "devnode_names CHAR_XDMA_H2C i j = ''xdma'' @ dec i @ ''_h2c_'' @ dec j"
| "devnode_names CHAR_XDMA_C2H i j = ''xdma'' @ dec i @ ''_c2h_'' @ dec j"
| "devnode_names CHAR_BYPASS_H2C i j = ''xdma'' @ dec i @ ''_bypass_h2c_'' @ dec j"
| "devnode_names CHAR_BYPASS_C2H i j = ''xdma'' @ dec i @ ''_bypass_c2h_'' @ dec j"
| "devnode_names CHAR_BYPASS i j = ''xdma'' @ dec i @ ''_bypass''"

definition engine_types :: "cdev_type set" where
  "engine_types = {CHAR_XDMA_H2C, CHAR_XDMA_C2H, CHAR_BYPASS_H2C, CHAR_BYPASS_C2H}"

definition config_kobject :: "env \<Rightarrow> ptr \<Rightarrow> cdev_type \<Rightarrow> kst \<Rightarrow> int \<times> kst" where
  "config_kobject ev xcdev type s =
     (let c = k_cdev s xcdev; idx = nat (d_idx (k_dev s (cd_xdev c))); e = cd_engine c
      in if type \<in> engine_types then
           if e = NULL then (- EINVAL, s)
           else kcall ev (''kobject_set_name '' @ devnode_names type idx (unat (e_channel (k_eng s e)))) xcdev s
         else kcall ev (''kobject_set_name '' @ devnode_names type idx (nat (cd_bar c))) xcdev s)"

definition create_sys_device :: "env \<Rightarrow> ptr \<Rightarrow> cdev_type \<Rightarrow> kst \<Rightarrow> int \<times> kst" where
  "create_sys_device ev xcdev type s =
     (let c = k_cdev s xcdev; idx = nat (d_idx (k_dev s (cd_xdev c)));
          last_param = (if type = CHAR_EVENTS then nat (cd_bar c)
                        else if cd_engine c \<noteq> NULL then unat (e_channel (k_eng s (cd_engine c))) else 0);
          (r, s) = kcall ev (''device_create '' @ devnode_names type idx last_param) xcdev s;
          s = upd_cdev xcdev (\<lambda>c. c\<lparr>cd_sys_device := ptr_of r\<rparr>) s
      in if ptr_of r = NULL then (- 1, s) else (0, s))"

definition destroy_xcdev :: "ptr \<Rightarrow> kst \<Rightarrow> int \<times> kst" where
  "destroy_xcdev cdev s =
     (let c = k_cdev s cdev
      in if cdev = NULL then (- EINVAL, s)
         else if cd_magic c \<noteq> MAGIC_CHAR then (- EINVAL, s)
         else if cd_xdev c = NULL then (- EINVAL, s)
         else if cs_class (k_char s) = NULL then (- EINVAL, s)
         else if cd_sys_device c = NULL then (- EINVAL, s)
         else (0, emit (Kernel ''cdev_del'' cdev 0) (emit (Kernel ''device_destroy'' cdev 0) s)))"

text \<open>The file operations of the node are those of its type.\<close>

definition cdev_ctrl_init :: "ptr \<Rightarrow> kst \<Rightarrow> kst" where
  "cdev_ctrl_init xcdev = emit (Kernel ''cdev_init ctrl_fops'' xcdev 0)"

definition cdev_sgdma_init :: "ptr \<Rightarrow> kst \<Rightarrow> kst" where
  "cdev_sgdma_init xcdev = emit (Kernel ''cdev_init sgdma_fops'' xcdev 0)"

definition cdev_bypass_init :: "ptr \<Rightarrow> kst \<Rightarrow> kst" where
  "cdev_bypass_init xcdev = emit (Kernel ''cdev_init bypass_fops'' xcdev 0)"

definition cdev_event_init :: "ptr \<Rightarrow> kst \<Rightarrow> kst" where
  "cdev_event_init xcdev s =
     emit (Kernel ''cdev_init events_fops'' xcdev 0)
       (upd_cdev xcdev (\<lambda>c. c\<lparr>cd_user_irq := Some (cd_xdev c, nat (cd_bar c))\<rparr>) s)"

definition XVC_BAR_OFFSET_DFLT :: nat where "XVC_BAR_OFFSET_DFLT = 0x40000"

definition cdev_xvc_init :: "ptr \<Rightarrow> kst \<Rightarrow> kst" where
  "cdev_xvc_init xcdev s =
     emit (Kernel ''cdev_init xvc_fops'' xcdev 0) (upd_cdev xcdev (\<lambda>c. c\<lparr>cd_base := XVC_BAR_OFFSET_DFLT\<rparr>) s)"

text \<open>The minor number and the file operations of a node, by its type.\<close>

fun node_minor :: "cdev_type \<Rightarrow> int \<Rightarrow> nat \<Rightarrow> int" where
  "node_minor CHAR_USER bar ch = 0"
| "node_minor CHAR_CTRL bar ch = 1"
| "node_minor CHAR_XVC bar ch = 2"
| "node_minor CHAR_EVENTS bar ch = 10 + bar"
| "node_minor CHAR_XDMA_H2C bar ch = 32 + int ch"
| "node_minor CHAR_XDMA_C2H bar ch = 36 + int ch"
| "node_minor CHAR_BYPASS_H2C bar ch = 64 + int ch"
| "node_minor CHAR_BYPASS_C2H bar ch = 68 + int ch"
| "node_minor CHAR_BYPASS bar ch = 100"

fun node_init :: "cdev_type \<Rightarrow> ptr \<Rightarrow> kst \<Rightarrow> kst" where
  "node_init CHAR_USER = cdev_ctrl_init"
| "node_init CHAR_CTRL = cdev_ctrl_init"
| "node_init CHAR_XVC = cdev_xvc_init"
| "node_init CHAR_EVENTS = cdev_event_init"
| "node_init CHAR_XDMA_H2C = cdev_sgdma_init"
| "node_init CHAR_XDMA_C2H = cdev_sgdma_init"
| "node_init CHAR_BYPASS_H2C = cdev_bypass_init"
| "node_init CHAR_BYPASS_C2H = cdev_bypass_init"
| "node_init CHAR_BYPASS = cdev_bypass_init"

text \<open>The device numbers of a function are taken when its first node is created.\<close>

definition alloc_major :: "env \<Rightarrow> ptr \<Rightarrow> kst \<Rightarrow> int \<times> kst" where
  "alloc_major ev xpdev s =
     (if xp_major (k_xpdev s xpdev) \<noteq> 0 then (0, s)
      else
        let (rv, s) = kcall ev ''alloc_chrdev_region'' xpdev s
        in if rv \<noteq> 0 then (rv, s)
           else (0, upd_xpdev xpdev (\<lambda>x. x\<lparr>xp_major := ksvc ev (trace s) ''MAJOR(dev)'' xpdev\<rparr>) s))"

definition unregister_region :: "ptr \<Rightarrow> kst \<Rightarrow> kst" where
  "unregister_region xcdev = emit (Kernel ''unregister_chrdev_region'' xcdev 0)"

definition node_live :: "env \<Rightarrow> ptr \<Rightarrow> cdev_type \<Rightarrow> kst \<Rightarrow> int \<times> kst" where
  "node_live ev xcdev type s =
     (let no = cd_cdevno (k_cdev s xcdev);
          (rv, s) = kcall ev (''cdev_add '' @ dec (nat (fst no)) @ '' '' @ dec (nat (snd no))) xcdev s
      in if rv < 0 then (rv, unregister_region xcdev s)
         else if cs_class (k_char s) \<noteq> NULL then
           let (rv, s) = create_sys_device ev xcdev type s
           in if rv < 0 then (rv, unregister_region xcdev (emit (Kernel ''cdev_del'' xcdev 0) s)) else (0, s)
         else (0, s))"

definition create_xcdev :: "env \<Rightarrow> ptr \<Rightarrow> ptr \<Rightarrow> int \<Rightarrow> ptr \<Rightarrow> cdev_type \<Rightarrow> kst \<Rightarrow> int \<times> kst" where
  "create_xcdev ev xpdev xcdev bar engine type s =
     (let xdev = xp_xdev (k_xpdev s xpdev);
          (rv, s) = alloc_major ev xpdev s
      in if rv \<noteq> 0 then (rv, s)
         else
           let s = upd_cdev xcdev (\<lambda>c. c\<lparr>cd_magic := MAGIC_CHAR, cd_xpdev := xpdev, cd_xdev := xdev, cd_engine := engine, cd_bar := bar\<rparr>) s;
               (rv, s) = config_kobject ev xcdev type s
           in if rv < 0 then (rv, s)
              else
                let s = node_init type xcdev s;
                    minor = node_minor type bar (unat (e_channel (k_eng s engine)));
                    s = upd_cdev xcdev (\<lambda>c. c\<lparr>cd_cdevno := (xp_major (k_xpdev s xpdev), minor)\<rparr>) s
                in node_live ev xcdev type s)"

subsection \<open>All nodes of a function\<close>

text \<open>The next step, unless there was an error.\<close>

definition and_then :: "int \<times> kst \<Rightarrow> (kst \<Rightarrow> int \<times> kst) \<Rightarrow> int \<times> kst" where
  "and_then r f = (if fst r < 0 then r else f (snd r))"

fun create_events :: "env \<Rightarrow> ptr \<Rightarrow> nat \<Rightarrow> nat \<Rightarrow> kst \<Rightarrow> int \<times> kst" where
  "create_events ev xpdev i 0 s = (0, s)"
| "create_events ev xpdev i (Suc k) s =
     and_then (create_xcdev ev xpdev (xp_events_cdev (k_xpdev s xpdev) i) (int i) NULL CHAR_EVENTS s)
       (create_events ev xpdev (Suc i) k)"

text \<open>The four loops over the channels; a channel without an engine is skipped.\<close>

fun create_channels :: "env \<Rightarrow> ptr \<Rightarrow> cdev_type \<Rightarrow> (nat \<Rightarrow> ptr) \<Rightarrow> (nat \<Rightarrow> ptr) \<Rightarrow> nat \<Rightarrow> nat \<Rightarrow> kst \<Rightarrow> int \<times> kst" where
  "create_channels ev xpdev type cdevs engines i 0 s = (0, s)"
| "create_channels ev xpdev type cdevs engines i (Suc k) s =
     (if e_magic (k_eng s (engines i)) \<noteq> MAGIC_ENGINE then create_channels ev xpdev type cdevs engines (Suc i) k s
      else and_then (create_xcdev ev xpdev (cdevs i) (int i) (engines i) type s)
             (create_channels ev xpdev type cdevs engines (Suc i) k))"

definition create_ctrl :: "env \<Rightarrow> ptr \<Rightarrow> kst \<Rightarrow> int \<times> kst" where
  "create_ctrl ev xpdev s =
     (let x = k_xpdev s xpdev
      in and_then (create_xcdev ev xpdev (xp_ctrl_cdev x) (d_config_bar_idx (k_dev s (xp_xdev x))) NULL CHAR_CTRL s)
           (\<lambda>s. (0, xpdev_flag_set xpdev XDF_CDEV_CTRL s)))"

definition create_all_events :: "env \<Rightarrow> ptr \<Rightarrow> kst \<Rightarrow> int \<times> kst" where
  "create_all_events ev xpdev s =
     and_then (create_events ev xpdev 0 (xp_user_max (k_xpdev s xpdev)) s) (\<lambda>s. (0, xpdev_flag_set xpdev XDF_CDEV_EVENT s))"

definition create_sgdma :: "env \<Rightarrow> ptr \<Rightarrow> kst \<Rightarrow> int \<times> kst" where
  "create_sgdma ev xpdev s =
     (let x = k_xpdev s xpdev; d = k_dev s (xp_xdev x)
      in and_then (create_channels ev xpdev CHAR_XDMA_H2C (xp_sgdma_h2c_cdev x) (d_engine_h2c d) 0 (xp_h2c_channel_max x) s)
         (\<lambda>s. and_then (create_channels ev xpdev CHAR_XDMA_C2H (xp_sgdma_c2h_cdev x) (d_engine_c2h d) 0 (xp_c2h_channel_max x) s)
         (\<lambda>s. (0, xpdev_flag_set xpdev XDF_CDEV_SG s))))"

definition create_bypass :: "env \<Rightarrow> ptr \<Rightarrow> kst \<Rightarrow> int \<times> kst" where
  "create_bypass ev xpdev s =
     (let x = k_xpdev s xpdev; d = k_dev s (xp_xdev x)
      in if d_bypass_bar_idx d > 0 then
           and_then (create_channels ev xpdev CHAR_BYPASS_H2C (xp_bypass_h2c_cdev x) (d_engine_h2c d) 0 (xp_h2c_channel_max x) s)
           (\<lambda>s. and_then (create_channels ev xpdev CHAR_BYPASS_C2H (xp_bypass_c2h_cdev x) (d_engine_c2h d) 0 (xp_c2h_channel_max x) s)
           (\<lambda>s. and_then (create_xcdev ev xpdev (xp_bypass_cdev_base x) (d_bypass_bar_idx d) NULL CHAR_BYPASS s)
           (\<lambda>s. (0, xpdev_flag_set xpdev XDF_CDEV_BYPASS s))))
         else (0, s))"

definition create_user :: "env \<Rightarrow> ptr \<Rightarrow> kst \<Rightarrow> int \<times> kst" where
  "create_user ev xpdev s =
     (let x = k_xpdev s xpdev; d = k_dev s (xp_xdev x)
      in if d_user_bar_idx d \<ge> 0 then
           and_then (create_xcdev ev xpdev (xp_user_cdev x) (d_user_bar_idx d) NULL CHAR_USER s)
           (\<lambda>s. and_then (create_xcdev ev xpdev (xp_xvc_cdev x) (d_user_bar_idx d) NULL CHAR_XVC (xpdev_flag_set xpdev XDF_CDEV_USER s))
           (\<lambda>s. (0, xpdev_flag_set xpdev XDF_CDEV_XVC s)))
         else (0, s))"

text \<open>Every node of a list is destroyed, whatever becomes of the others.\<close>

definition destroy_nodes :: "ptr list \<Rightarrow> kst \<Rightarrow> kst" where
  "destroy_nodes ps = fold (\<lambda>p s. snd (destroy_xcdev p s)) ps"

definition xpdev_destroy_interfaces :: "ptr \<Rightarrow> kst \<Rightarrow> kst" where
  "xpdev_destroy_interfaces xpdev s =
     (let x = k_xpdev s xpdev;
          h2c = [0..<xp_h2c_channel_max x]; c2h = [0..<xp_c2h_channel_max x];
          s = (if xpdev_flag_test xpdev XDF_CDEV_SG s
               then destroy_nodes (map (xp_sgdma_c2h_cdev x) c2h) (destroy_nodes (map (xp_sgdma_h2c_cdev x) h2c) s) else s);
          s = (if xpdev_flag_test xpdev XDF_CDEV_EVENT s then destroy_nodes (map (xp_events_cdev x) [0..<xp_user_max x]) s else s);
          s = (if xpdev_flag_test xpdev XDF_CDEV_CTRL s then destroy_nodes [xp_ctrl_cdev x] s else s);
          s = (if xpdev_flag_test xpdev XDF_CDEV_USER s then destroy_nodes [xp_user_cdev x] s else s);
          s = (if xpdev_flag_test xpdev XDF_CDEV_XVC s then destroy_nodes [xp_xvc_cdev x] s else s);
          s = (if xpdev_flag_test xpdev XDF_CDEV_BYPASS s
               then destroy_nodes [xp_bypass_cdev_base x]
                      (destroy_nodes (map (xp_bypass_c2h_cdev x) c2h) (destroy_nodes (map (xp_bypass_h2c_cdev x) h2c) s)) else s)
      in if xp_major x \<noteq> 0 then emit (Kernel ''unregister_chrdev_region'' xpdev 0) s else s)"

definition create_all :: "env \<Rightarrow> ptr \<Rightarrow> kst \<Rightarrow> int \<times> kst" where
  "create_all ev xpdev s =
     and_then (create_ctrl ev xpdev s) (\<lambda>s. and_then (create_all_events ev xpdev s) (\<lambda>s. and_then (create_sgdma ev xpdev s)
       (\<lambda>s. and_then (create_bypass ev xpdev s) (create_user ev xpdev))))"

definition xpdev_create_interfaces :: "env \<Rightarrow> ptr \<Rightarrow> kst \<Rightarrow> int \<times> kst" where
  "xpdev_create_interfaces ev xpdev s =
     (let (rv, s) = create_all ev xpdev s
      in if rv < 0 then (- 1, xpdev_destroy_interfaces xpdev s) else (0, s))"

subsection \<open>The module's globals\<close>

definition xdma_cdev_init :: "env \<Rightarrow> kst \<Rightarrow> int \<times> kst" where
  "xdma_cdev_init ev s =
     (let (r, s) = kcall ev ''class_create'' 0 s;
          s = upd_char (\<lambda>c. c\<lparr>cs_class := ptr_of r\<rparr>) s
      in if r < 0 then (- EINVAL, s)
         else
           let (r, s) = kcall ev ''kmem_cache_create'' 0 s;
               s = upd_char (\<lambda>c. c\<lparr>cs_cache := ptr_of r\<rparr>) s
           in if ptr_of r = NULL then (- ENOMEM, s) else (0, s))"

definition xdma_cdev_cleanup :: "kst \<Rightarrow> kst" where
  "xdma_cdev_cleanup s =
     (let s = (if cs_cache (k_char s) \<noteq> NULL then emit (Kernel ''kmem_cache_destroy'' (cs_cache (k_char s)) 0) s else s)
      in if cs_class (k_char s) \<noteq> NULL then emit (Kernel ''class_destroy'' (cs_class (k_char s)) 0) s else s)"

subsection \<open>Frame\<close>

lemma upd_cdev_sel [simp]:
  "trace (upd_cdev p f s) = trace s" "k_eng (upd_cdev p f s) = k_eng s" "k_dev (upd_cdev p f s) = k_dev s"
  "k_cdev (upd_cdev p f s) = (k_cdev s)(p := f (k_cdev s p))" "k_xpdev (upd_cdev p f s) = k_xpdev s" "k_file (upd_cdev p f s) = k_file s"
  "cs_class (k_char (upd_cdev p f s)) = cs_class (k_char s)"
  by (simp_all add: upd_cdev_def upd_char_def)

lemma upd_xpdev_sel [simp]:
  "trace (upd_xpdev p f s) = trace s" "k_eng (upd_xpdev p f s) = k_eng s" "k_dev (upd_xpdev p f s) = k_dev s"
  "k_cdev (upd_xpdev p f s) = k_cdev s" "k_xpdev (upd_xpdev p f s) = (k_xpdev s)(p := f (k_xpdev s p))" "k_file (upd_xpdev p f s) = k_file s"
  "cs_class (k_char (upd_xpdev p f s)) = cs_class (k_char s)"
  by (simp_all add: upd_xpdev_def upd_char_def)

lemma upd_file_sel [simp]:
  "trace (upd_file p f s) = trace s" "k_eng (upd_file p f s) = k_eng s" "k_dev (upd_file p f s) = k_dev s"
  "k_cdev (upd_file p f s) = k_cdev s" "k_xpdev (upd_file p f s) = k_xpdev s" "k_file (upd_file p f s) = (k_file s)(p := f (k_file s p))"
  "cs_class (k_char (upd_file p f s)) = cs_class (k_char s)"
  by (simp_all add: upd_file_def upd_char_def)

subsection \<open>Live nodes\<close>

text \<open>The character devices that are live after a trace.\<close>

fun nodes :: "event list \<Rightarrow> ptr multiset" where
  "nodes [] = {#}"
| "nodes (Kernel f p r # es) =
     (if take 9 f = ''cdev_add '' \<and> r \<ge> 0 then add_mset p (nodes es) else if f = ''cdev_del'' then nodes es - {#p#} else nodes es)"
| "nodes (_ # es) = nodes es"

text \<open>The function without what creating its nodes changes of it.\<close>

definition strip_xp :: "xdma_pci_dev \<Rightarrow> xdma_pci_dev" where
  "strip_xp x = x\<lparr>xp_major := 0, xp_flags := 0\<rparr>"

lemma strip_xp_eqD:
  assumes "strip_xp x = strip_xp y"
  shows "xp_xdev x = xp_xdev y" "xp_user_max x = xp_user_max y" "xp_h2c_channel_max x = xp_h2c_channel_max y" "xp_c2h_channel_max x = xp_c2h_channel_max y"
    "xp_ctrl_cdev x = xp_ctrl_cdev y" "xp_events_cdev x = xp_events_cdev y" "xp_sgdma_h2c_cdev x = xp_sgdma_h2c_cdev y"
    "xp_sgdma_c2h_cdev x = xp_sgdma_c2h_cdev y" "xp_user_cdev x = xp_user_cdev y" "xp_xvc_cdev x = xp_xvc_cdev y"
    "xp_bypass_h2c_cdev x = xp_bypass_h2c_cdev y" "xp_bypass_c2h_cdev x = xp_bypass_c2h_cdev y" "xp_bypass_cdev_base x = xp_bypass_cdev_base y"
  using assms by (cases x, cases y, simp add: strip_xp_def)+

text \<open>A node that works: it is tied to its device and engine, has its minor number, and is known to the system.\<close>

definition node_ok :: "kst \<Rightarrow> ptr \<Rightarrow> ptr \<Rightarrow> ptr \<times> int \<times> ptr \<Rightarrow> bool" where
  "node_ok s xpdev xdev n \<longleftrightarrow>
     (case n of (p, minor, e) \<Rightarrow> cd_xpdev (k_cdev s p) = xpdev \<and> cd_xdev (k_cdev s p) = xdev \<and> cd_engine (k_cdev s p) = e
        \<and> snd (cd_cdevno (k_cdev s p)) = minor \<and> cd_sys_device (k_cdev s p) \<noteq> NULL)"

abbreviation made :: "kst \<Rightarrow> ptr \<Rightarrow> bool" where "made s p \<equiv> cd_magic (k_cdev s p) = MAGIC_CHAR"

text \<open>Since state \<open>s0\<close> exactly the nodes of the table \<open>G\<close> have been dealt with.\<close>

definition nodes_up :: "ptr \<Rightarrow> kst \<Rightarrow> (ptr \<times> int \<times> ptr) list \<Rightarrow> kst \<Rightarrow> bool" where
  "nodes_up xpdev s0 G s \<longleftrightarrow>
     nodes (trace s) = nodes (trace s0) + mset (filter (made s) (map fst G))
     \<and> (\<forall>n \<in> set G. made s (fst n) \<longrightarrow> node_ok s xpdev (xp_xdev (k_xpdev s0 xpdev)) n)
     \<and> (\<forall>p. p \<notin> fst ` set G \<longrightarrow> k_cdev s p = k_cdev s0 p)
     \<and> cs_class (k_char s) = cs_class (k_char s0) \<and> k_eng s = k_eng s0 \<and> k_dev s = k_dev s0
     \<and> strip_xp (k_xpdev s xpdev) = strip_xp (k_xpdev s0 xpdev)"

lemma alloc_major_sel [simp]:
  "nodes (trace (snd (alloc_major ev x s))) = nodes (trace s)" "k_cdev (snd (alloc_major ev x s)) = k_cdev s"
  "cs_class (k_char (snd (alloc_major ev x s))) = cs_class (k_char s)" "k_eng (snd (alloc_major ev x s)) = k_eng s"
  "k_dev (snd (alloc_major ev x s)) = k_dev s" "strip_xp (k_xpdev (snd (alloc_major ev x s)) y) = strip_xp (k_xpdev s y)"
  "xp_flags (k_xpdev (snd (alloc_major ev x s)) y) = xp_flags (k_xpdev s y)"
  by (simp_all add: alloc_major_def kcall_def Let_def strip_xp_def)

lemma config_kobject_sel [simp]:
  "nodes (trace (snd (config_kobject ev p ty s))) = nodes (trace s)" "k_char (snd (config_kobject ev p ty s)) = k_char s"
  "k_eng (snd (config_kobject ev p ty s)) = k_eng s" "k_dev (snd (config_kobject ev p ty s)) = k_dev s"
  by (simp_all add: config_kobject_def kcall_def Let_def)

lemma node_init_sel [simp]:
  "nodes (trace (node_init ty p s)) = nodes (trace s)" "k_eng (node_init ty p s) = k_eng s" "k_dev (node_init ty p s) = k_dev s"
  "k_xpdev (node_init ty p s) = k_xpdev s" "cs_class (k_char (node_init ty p s)) = cs_class (k_char s)"
  "q \<noteq> p \<Longrightarrow> k_cdev (node_init ty p s) q = k_cdev s q"
  "cd_magic (k_cdev (node_init ty p s) p) = cd_magic (k_cdev s p)" "cd_xdev (k_cdev (node_init ty p s) p) = cd_xdev (k_cdev s p)"
  "cd_engine (k_cdev (node_init ty p s) p) = cd_engine (k_cdev s p)" "cd_xpdev (k_cdev (node_init ty p s) p) = cd_xpdev (k_cdev s p)"
  by (cases ty; simp add: cdev_ctrl_init_def cdev_sgdma_init_def cdev_bypass_init_def cdev_event_init_def cdev_xvc_init_def)+

lemma kcall_nodes:
  "nodes (trace (snd (kcall ev f p s))) =
     (if take 9 f = ''cdev_add '' \<and> fst (kcall ev f p s) \<ge> 0 then add_mset p (nodes (trace s))
      else if f = ''cdev_del'' then nodes (trace s) - {#p#} else nodes (trace s))"
  by (simp add: kcall_def Let_def)

lemma create_sys_device_sel [simp]:
  "k_eng (snd (create_sys_device ev p ty s)) = k_eng s" "k_dev (snd (create_sys_device ev p ty s)) = k_dev s"
  "k_xpdev (snd (create_sys_device ev p ty s)) = k_xpdev s" "cs_class (k_char (snd (create_sys_device ev p ty s))) = cs_class (k_char s)"
  "q \<noteq> p \<Longrightarrow> k_cdev (snd (create_sys_device ev p ty s)) q = k_cdev s q"
  "cd_magic (k_cdev (snd (create_sys_device ev p ty s)) p) = cd_magic (k_cdev s p)"
  "cd_xdev (k_cdev (snd (create_sys_device ev p ty s)) p) = cd_xdev (k_cdev s p)"
  "cd_engine (k_cdev (snd (create_sys_device ev p ty s)) p) = cd_engine (k_cdev s p)"
  "cd_xpdev (k_cdev (snd (create_sys_device ev p ty s)) p) = cd_xpdev (k_cdev s p)"
  "cd_cdevno (k_cdev (snd (create_sys_device ev p ty s)) p) = cd_cdevno (k_cdev s p)"
  "nodes (trace (snd (create_sys_device ev p ty s))) = nodes (trace s)"
  "fst (create_sys_device ev p ty s) < 0 \<longleftrightarrow> cd_sys_device (k_cdev (snd (create_sys_device ev p ty s)) p) = NULL"
  "0 \<le> fst (create_sys_device ev p ty s) \<longleftrightarrow> cd_sys_device (k_cdev (snd (create_sys_device ev p ty s)) p) \<noteq> NULL"
  by (simp_all add: create_sys_device_def Let_def split_beta kcall_nodes)


lemma node_live_sel [simp]:
  "k_eng (snd (node_live ev p ty s)) = k_eng s" "k_dev (snd (node_live ev p ty s)) = k_dev s" "k_xpdev (snd (node_live ev p ty s)) = k_xpdev s"
  "cs_class (k_char (snd (node_live ev p ty s))) = cs_class (k_char s)" "q \<noteq> p \<Longrightarrow> k_cdev (snd (node_live ev p ty s)) q = k_cdev s q"
  "cd_magic (k_cdev (snd (node_live ev p ty s)) p) = cd_magic (k_cdev s p)" "cd_xdev (k_cdev (snd (node_live ev p ty s)) p) = cd_xdev (k_cdev s p)"
  "cd_engine (k_cdev (snd (node_live ev p ty s)) p) = cd_engine (k_cdev s p)" "cd_xpdev (k_cdev (snd (node_live ev p ty s)) p) = cd_xpdev (k_cdev s p)"
  "cd_cdevno (k_cdev (snd (node_live ev p ty s)) p) = cd_cdevno (k_cdev s p)"
  by (simp_all add: node_live_def unregister_region_def Let_def split_beta del: kcall_sel(2))

lemma node_live_ok:
  assumes "cs_class (k_char s) \<noteq> NULL"
  shows "fst (node_live ev p ty s) \<ge> 0 \<Longrightarrow> nodes (trace (snd (node_live ev p ty s))) = add_mset p (nodes (trace s))
      \<and> cd_sys_device (k_cdev (snd (node_live ev p ty s)) p) \<noteq> NULL"
    "fst (node_live ev p ty s) < 0 \<Longrightarrow> nodes (trace (snd (node_live ev p ty s))) = nodes (trace s)"
  using assms
  by (auto simp: node_live_def unregister_region_def Let_def split_beta kcall_nodes simp del: kcall_sel(2) split: if_splits)


text \<open>Creating one node: it works, or it is not live.\<close>

definition new_node :: "kst \<Rightarrow> ptr \<Rightarrow> int \<Rightarrow> ptr \<Rightarrow> cdev_type \<Rightarrow> ptr \<times> int \<times> ptr" where
  "new_node s p bar e ty = (p, node_minor ty bar (unat (e_channel (k_eng s e))), e)"

lemma create_xcdev_frame [simp]:
  "k_eng (snd (create_xcdev ev x p bar e ty s)) = k_eng s" "k_dev (snd (create_xcdev ev x p bar e ty s)) = k_dev s"
  "cs_class (k_char (snd (create_xcdev ev x p bar e ty s))) = cs_class (k_char s)"
  "strip_xp (k_xpdev (snd (create_xcdev ev x p bar e ty s)) y) = strip_xp (k_xpdev s y)"
  "xp_flags (k_xpdev (snd (create_xcdev ev x p bar e ty s)) y) = xp_flags (k_xpdev s y)"
  "q \<noteq> p \<Longrightarrow> k_cdev (snd (create_xcdev ev x p bar e ty s)) q = k_cdev s q"
  by (simp_all add: create_xcdev_def Let_def split_beta)

lemma create_xcdev_ok:
  fixes ev x p bar e ty s
  defines "s' \<equiv> snd (create_xcdev ev x p bar e ty s)"
  assumes "cs_class (k_char s) \<noteq> NULL" "\<not> made s p" "fst (create_xcdev ev x p bar e ty s) \<ge> 0"
  shows "made s' p \<and> nodes (trace s') = add_mset p (nodes (trace s)) \<and> node_ok s' x (xp_xdev (k_xpdev s x)) (new_node s p bar e ty)
    \<or> \<not> made s' p \<and> nodes (trace s') = nodes (trace s) \<and> k_cdev s' p = k_cdev s p"
  using assms(2-) node_live_ok(1) [of _ ev p ty]
  by (auto simp: s'_def create_xcdev_def Let_def split_beta new_node_def node_ok_def split: if_splits)

lemma filter_snoc_made: "p \<notin> set xs \<Longrightarrow> (\<And>q. q \<noteq> p \<Longrightarrow> f q = g q) \<Longrightarrow> filter f xs = filter g xs"
  by (induction xs) auto

lemma nodes_upD:
  assumes "nodes_up x s0 G s"
  shows "k_eng s = k_eng s0" "k_dev s = k_dev s0" "strip_xp (k_xpdev s x) = strip_xp (k_xpdev s0 x)" "cs_class (k_char s) = cs_class (k_char s0)"
  using assms by (simp_all add: nodes_up_def)

lemma nodes_up_create:
  assumes u: "nodes_up x s0 G s" and p: "p \<notin> fst ` set G" and m: "\<not> made s0 p" and c: "cs_class (k_char s0) \<noteq> NULL"
    and r: "fst (create_xcdev ev x p bar e ty s) \<ge> 0"
  shows "nodes_up x s0 (G @ [new_node s0 p bar e ty]) (snd (create_xcdev ev x p bar e ty s))"
proof -
  let ?s = "snd (create_xcdev ev x p bar e ty s)"
  have same: "k_cdev s p = k_cdev s0 p" using u p by (auto simp: nodes_up_def)
  then have ns: "\<not> made s p" using m by simp
  have cl: "cs_class (k_char s) \<noteq> NULL" and eng: "k_eng s = k_eng s0" and xp: "xp_xdev (k_xpdev s x) = xp_xdev (k_xpdev s0 x)"
    using u c strip_xp_eqD(1) [of "k_xpdev s x" "k_xpdev s0 x"] by (auto simp: nodes_up_def)
  have o: "made ?s p \<and> nodes (trace ?s) = add_mset p (nodes (trace s)) \<and> node_ok ?s x (xp_xdev (k_xpdev s0 x)) (new_node s0 p bar e ty)
    \<or> \<not> made ?s p \<and> nodes (trace ?s) = nodes (trace s) \<and> k_cdev ?s p = k_cdev s p"
    using create_xcdev_ok [OF cl ns r] by (simp add: xp new_node_def eng)
  have f: "filter (made ?s) (map fst G) = filter (made s) (map fst G)"
    by (rule filter_snoc_made [where p = p]) (use p in auto)
  have k: "node_ok ?s x y n = node_ok s x y n" if "n \<in> set G" for n y
    using that p by (cases n) (auto simp: node_ok_def image_iff)
  have q: "made ?s (fst n) = made s (fst n)" if "n \<in> set G" for n
    using that p by (metis create_xcdev_frame(6) imageI)
  have fst: "fst (new_node s0 p bar e ty) = p" by (simp add: new_node_def)
  show ?thesis
    using u o same by (auto simp: nodes_up_def f k q fst)
qed

lemma nodes_up_skip: "nodes_up x s0 G s \<Longrightarrow> fst n \<notin> fst ` set G \<Longrightarrow> \<not> made s0 (fst n) \<Longrightarrow> nodes_up x s0 (G @ [n]) s"
  by (auto simp: nodes_up_def)

lemma nodes_up_flag: "nodes_up x s0 G s \<Longrightarrow> nodes_up x s0 G (xpdev_flag_set x b s)"
  by (simp add: nodes_up_def xpdev_flag_set_def node_ok_def strip_xp_def)

lemma nodes_up_refl: "nodes_up x s [] s"
  by (simp add: nodes_up_def)

lemma and_then_ok: "fst (and_then r f) \<ge> 0 \<longleftrightarrow> fst r \<ge> 0 \<and> fst (f (snd r)) \<ge> 0" "fst r \<ge> 0 \<Longrightarrow> and_then r f = f (snd r)"
  by (auto simp: and_then_def)

text \<open>The nodes of the event files and of the channels.\<close>

definition event_nodes :: "kst \<Rightarrow> (nat \<Rightarrow> ptr) \<Rightarrow> nat \<Rightarrow> nat \<Rightarrow> (ptr \<times> int \<times> ptr) list" where
  "event_nodes s c i k = map (\<lambda>j. new_node s (c j) (int j) NULL CHAR_EVENTS) [i..<i + k]"

definition channel_nodes :: "kst \<Rightarrow> cdev_type \<Rightarrow> (nat \<Rightarrow> ptr) \<Rightarrow> (nat \<Rightarrow> ptr) \<Rightarrow> nat \<Rightarrow> nat \<Rightarrow> (ptr \<times> int \<times> ptr) list" where
  "channel_nodes s ty c es i k = map (\<lambda>j. new_node s (c j) (int j) (es j) ty) [i..<i + k]"

lemma new_nodes_simps [simp]:
  "fst (new_node s p bar e ty) = p" "event_nodes s c i 0 = []" "channel_nodes s ty c es i 0 = []"
  "event_nodes s c i (Suc k) = new_node s (c i) (int i) NULL CHAR_EVENTS # event_nodes s c (Suc i) k"
  "channel_nodes s ty c es i (Suc k) = new_node s (c i) (int i) (es i) ty # channel_nodes s ty c es (Suc i) k"
  by (simp_all add: new_node_def event_nodes_def channel_nodes_def upt_conv_Cons del: upt_Suc)

lemma create_events_up:
  assumes "nodes_up x s0 G s" "cs_class (k_char s0) \<noteq> NULL" "fst (create_events ev x i k s) \<ge> 0"
    "distinct (map fst (G @ event_nodes s0 (xp_events_cdev (k_xpdev s0 x)) i k))"
    "\<forall>n \<in> set (event_nodes s0 (xp_events_cdev (k_xpdev s0 x)) i k). \<not> made s0 (fst n)"
  shows "nodes_up x s0 (G @ event_nodes s0 (xp_events_cdev (k_xpdev s0 x)) i k) (snd (create_events ev x i k s))"
  using assms
proof (induction k arbitrary: i G s)
  case (Suc k)
  let ?c = "xp_events_cdev (k_xpdev s0 x)"
  have c: "xp_events_cdev (k_xpdev s x) = ?c" by (rule strip_xp_eqD(6) [OF nodes_upD(3) [OF Suc.prems(1)]])
  let ?r = "create_xcdev ev x (?c i) (int i) NULL CHAR_EVENTS s"
  have r: "fst ?r \<ge> 0" "fst (create_events ev x (Suc i) k (snd ?r)) \<ge> 0" using Suc.prems(3) by (simp_all add: c and_then_ok(1))
  have "nodes_up x s0 (G @ [new_node s0 (?c i) (int i) NULL CHAR_EVENTS]) (snd ?r)"
    using Suc.prems r by (intro nodes_up_create) auto
  from Suc.IH [OF this Suc.prems(2) r(2)] Suc.prems(4,5)
  have "nodes_up x s0 (G @ event_nodes s0 ?c i (Suc k)) (snd (create_events ev x (Suc i) k (snd ?r)))" by simp
  moreover have "create_events ev x i (Suc k) s = create_events ev x (Suc i) k (snd ?r)" using r(1) by (simp add: c and_then_ok(2))
  ultimately show ?case by (simp only:)
qed simp

lemma create_channels_up:
  assumes "nodes_up x s0 G s" "cs_class (k_char s0) \<noteq> NULL" "fst (create_channels ev x ty c es i k s) \<ge> 0"
    "distinct (map fst (G @ channel_nodes s0 ty c es i k))" "\<forall>n \<in> set (channel_nodes s0 ty c es i k). \<not> made s0 (fst n)"
  shows "nodes_up x s0 (G @ channel_nodes s0 ty c es i k) (snd (create_channels ev x ty c es i k s))"
  using assms
proof (induction k arbitrary: i G s)
  case (Suc k)
  let ?r = "create_xcdev ev x (c i) (int i) (es i) ty s" and ?n = "new_node s0 (c i) (int i) (es i) ty"
  show ?case
  proof (cases "e_magic (k_eng s (es i)) = MAGIC_ENGINE")
    case True
    then have r: "fst ?r \<ge> 0" "fst (create_channels ev x ty c es (Suc i) k (snd ?r)) \<ge> 0" using Suc.prems(3) by (simp_all add: and_then_ok(1))
    have "nodes_up x s0 (G @ [?n]) (snd ?r)" using Suc.prems r by (intro nodes_up_create) auto
    from Suc.IH [OF this Suc.prems(2) r(2)] Suc.prems r True show ?thesis by (simp add: and_then_ok(2))
  next
    case False
    have "nodes_up x s0 (G @ [?n]) s" using Suc.prems by (intro nodes_up_skip) auto
    from Suc.IH [OF this Suc.prems(2)] Suc.prems False show ?thesis by simp
  qed
qed simp

text \<open>The table of the nodes of a function, by group.\<close>

definition ctrl_table :: "kst \<Rightarrow> ptr \<Rightarrow> (ptr \<times> int \<times> ptr) list" where
  "ctrl_table s xp = [new_node s (xp_ctrl_cdev (k_xpdev s xp)) (d_config_bar_idx (k_dev s (xp_xdev (k_xpdev s xp)))) NULL CHAR_CTRL]"

definition event_table :: "kst \<Rightarrow> ptr \<Rightarrow> (ptr \<times> int \<times> ptr) list" where
  "event_table s xp = event_nodes s (xp_events_cdev (k_xpdev s xp)) 0 (xp_user_max (k_xpdev s xp))"

definition sgdma_table :: "kst \<Rightarrow> ptr \<Rightarrow> (ptr \<times> int \<times> ptr) list" where
  "sgdma_table s xp =
     (let x = k_xpdev s xp; d = k_dev s (xp_xdev x)
      in channel_nodes s CHAR_XDMA_H2C (xp_sgdma_h2c_cdev x) (d_engine_h2c d) 0 (xp_h2c_channel_max x)
         @ channel_nodes s CHAR_XDMA_C2H (xp_sgdma_c2h_cdev x) (d_engine_c2h d) 0 (xp_c2h_channel_max x))"

definition bypass_table :: "kst \<Rightarrow> ptr \<Rightarrow> (ptr \<times> int \<times> ptr) list" where
  "bypass_table s xp =
     (let x = k_xpdev s xp; d = k_dev s (xp_xdev x)
      in if d_bypass_bar_idx d > 0 then
           (channel_nodes s CHAR_BYPASS_H2C (xp_bypass_h2c_cdev x) (d_engine_h2c d) 0 (xp_h2c_channel_max x)
           @ channel_nodes s CHAR_BYPASS_C2H (xp_bypass_c2h_cdev x) (d_engine_c2h d) 0 (xp_c2h_channel_max x))
           @ [new_node s (xp_bypass_cdev_base x) (d_bypass_bar_idx d) NULL CHAR_BYPASS]
         else [])"

definition user_table :: "kst \<Rightarrow> ptr \<Rightarrow> (ptr \<times> int \<times> ptr) list" where
  "user_table s xp =
     (let x = k_xpdev s xp; d = k_dev s (xp_xdev x)
      in if d_user_bar_idx d \<ge> 0
         then [new_node s (xp_user_cdev x) (d_user_bar_idx d) NULL CHAR_USER, new_node s (xp_xvc_cdev x) (d_user_bar_idx d) NULL CHAR_XVC]
         else [])"

lemmas table_defs = ctrl_table_def event_table_def sgdma_table_def bypass_table_def user_table_def Let_def

abbreviation fresh :: "kst \<Rightarrow> (ptr \<times> int \<times> ptr) list \<Rightarrow> bool" where
  "fresh s T \<equiv> \<forall>n \<in> set T. \<not> made s (fst n)"

lemma create_ctrl_up:
  assumes u: "nodes_up xp s0 G s" and c: "cs_class (k_char s0) \<noteq> NULL" and r: "fst (create_ctrl ev xp s) \<ge> 0"
    and d: "distinct (map fst (G @ ctrl_table s0 xp))" and f: "fresh s0 (ctrl_table s0 xp)"
  shows "nodes_up xp s0 (G @ ctrl_table s0 xp) (snd (create_ctrl ev xp s))"
proof -
  note e = nodes_upD(2) [OF u] strip_xp_eqD(1,5) [OF nodes_upD(3) [OF u]]
  show ?thesis
    using nodes_up_flag [OF nodes_up_create [OF u _ _ c]] r d f
    by (simp add: create_ctrl_def Let_def and_then_ok e table_defs)
qed

lemma create_all_events_up:
  assumes u: "nodes_up xp s0 G s" and c: "cs_class (k_char s0) \<noteq> NULL" and r: "fst (create_all_events ev xp s) \<ge> 0"
    and d: "distinct (map fst (G @ event_table s0 xp))" and f: "fresh s0 (event_table s0 xp)"
  shows "nodes_up xp s0 (G @ event_table s0 xp) (snd (create_all_events ev xp s))"
proof -
  note e = strip_xp_eqD(2) [OF nodes_upD(3) [OF u]]
  show ?thesis
    using nodes_up_flag [OF create_events_up [OF u c _ d [unfolded event_table_def] f [unfolded event_table_def]]] r
    by (simp add: create_all_events_def and_then_ok e event_table_def)
qed

lemma create_both_up:
  assumes u: "nodes_up xp s0 G s" and c: "cs_class (k_char s0) \<noteq> NULL" and r1: "fst (create_channels ev xp ty c1 es 0 k s) \<ge> 0"
    and r2: "fst (create_channels ev xp ty' c2 es' 0 l (snd (create_channels ev xp ty c1 es 0 k s))) \<ge> 0"
    and d: "distinct (map fst (G @ channel_nodes s0 ty c1 es 0 k @ channel_nodes s0 ty' c2 es' 0 l))"
    and f: "fresh s0 (channel_nodes s0 ty c1 es 0 k @ channel_nodes s0 ty' c2 es' 0 l)"
  shows "nodes_up xp s0 (G @ channel_nodes s0 ty c1 es 0 k @ channel_nodes s0 ty' c2 es' 0 l)
    (snd (create_channels ev xp ty' c2 es' 0 l (snd (create_channels ev xp ty c1 es 0 k s))))"
proof -
  have "nodes_up xp s0 (G @ channel_nodes s0 ty c1 es 0 k) (snd (create_channels ev xp ty c1 es 0 k s))"
    by (rule create_channels_up [OF u c r1]) (use d f in auto)
  from create_channels_up [OF this c r2] d f show ?thesis by auto
qed

lemma create_sgdma_up:
  assumes u: "nodes_up xp s0 G s" and c: "cs_class (k_char s0) \<noteq> NULL" and r: "fst (create_sgdma ev xp s) \<ge> 0"
    and d: "distinct (map fst (G @ sgdma_table s0 xp))" and f: "fresh s0 (sgdma_table s0 xp)"
  shows "nodes_up xp s0 (G @ sgdma_table s0 xp) (snd (create_sgdma ev xp s))"
proof -
  note e = nodes_upD(2) [OF u] strip_xp_eqD(1,3,4,7,8) [OF nodes_upD(3) [OF u]]
  show ?thesis
    using nodes_up_flag [OF create_both_up [OF u c _ _ d [unfolded sgdma_table_def Let_def] f [unfolded sgdma_table_def Let_def]]] r
    by (simp add: create_sgdma_def Let_def and_then_ok e sgdma_table_def)
qed

lemma create_bypass_up:
  assumes u: "nodes_up xp s0 G s" and c: "cs_class (k_char s0) \<noteq> NULL" and r: "fst (create_bypass ev xp s) \<ge> 0"
    and d: "distinct (map fst (G @ bypass_table s0 xp))" and f: "fresh s0 (bypass_table s0 xp)"
  shows "nodes_up xp s0 (G @ bypass_table s0 xp) (snd (create_bypass ev xp s))"
proof (cases "d_bypass_bar_idx (k_dev s0 (xp_xdev (k_xpdev s0 xp))) > 0")
  case True
  note e = nodes_upD(2) [OF u] strip_xp_eqD(1,3,4,11,12,13) [OF nodes_upD(3) [OF u]]
  let ?x = "k_xpdev s0 xp" and ?d = "k_dev s0 (xp_xdev (k_xpdev s0 xp))"
  let ?r1 = "create_channels ev xp CHAR_BYPASS_H2C (xp_bypass_h2c_cdev ?x) (d_engine_h2c ?d) 0 (xp_h2c_channel_max ?x) s"
  let ?r2 = "create_channels ev xp CHAR_BYPASS_C2H (xp_bypass_c2h_cdev ?x) (d_engine_c2h ?d) 0 (xp_c2h_channel_max ?x) (snd ?r1)"
  let ?r3 = "create_xcdev ev xp (xp_bypass_cdev_base ?x) (d_bypass_bar_idx ?d) NULL CHAR_BYPASS (snd ?r2)"
  have rs: "fst ?r1 \<ge> 0" "fst ?r2 \<ge> 0" "fst ?r3 \<ge> 0"
    and eq: "create_bypass ev xp s = (0, xpdev_flag_set xp XDF_CDEV_BYPASS (snd ?r3))"
    using r True by (simp_all add: create_bypass_def Let_def and_then_ok e)
  have "nodes_up xp s0 (G @ channel_nodes s0 CHAR_BYPASS_H2C (xp_bypass_h2c_cdev ?x) (d_engine_h2c ?d) 0 (xp_h2c_channel_max ?x)
         @ channel_nodes s0 CHAR_BYPASS_C2H (xp_bypass_c2h_cdev ?x) (d_engine_c2h ?d) 0 (xp_c2h_channel_max ?x)) (snd ?r2)"
    by (rule create_both_up [OF u c rs(1,2)]) (use d f True in \<open>auto simp: bypass_table_def Let_def\<close>)
  from nodes_up_flag [OF nodes_up_create [OF this _ _ c rs(3)]] d f show ?thesis
    using True by (auto simp: eq bypass_table_def Let_def image_Un)
next
  case False
  note e = nodes_upD(2) [OF u] strip_xp_eqD(1) [OF nodes_upD(3) [OF u]]
  show ?thesis using False u by (simp add: create_bypass_def bypass_table_def Let_def e)
qed

lemma create_user_up:
  assumes u: "nodes_up xp s0 G s" and c: "cs_class (k_char s0) \<noteq> NULL" and r: "fst (create_user ev xp s) \<ge> 0"
    and d: "distinct (map fst (G @ user_table s0 xp))" and f: "fresh s0 (user_table s0 xp)"
  shows "nodes_up xp s0 (G @ user_table s0 xp) (snd (create_user ev xp s))"
proof (cases "d_user_bar_idx (k_dev s0 (xp_xdev (k_xpdev s0 xp))) \<ge> 0")
  case True
  note e = nodes_upD(2) [OF u] strip_xp_eqD(1,9,10) [OF nodes_upD(3) [OF u]]
  let ?x = "k_xpdev s0 xp" and ?d = "k_dev s0 (xp_xdev (k_xpdev s0 xp))"
  let ?r1 = "create_xcdev ev xp (xp_user_cdev ?x) (d_user_bar_idx ?d) NULL CHAR_USER s"
  let ?r2 = "create_xcdev ev xp (xp_xvc_cdev ?x) (d_user_bar_idx ?d) NULL CHAR_XVC (xpdev_flag_set xp XDF_CDEV_USER (snd ?r1))"
  have rs: "fst ?r1 \<ge> 0" "fst ?r2 \<ge> 0" and eq: "create_user ev xp s = (0, xpdev_flag_set xp XDF_CDEV_XVC (snd ?r2))"
    using r True by (simp_all add: create_user_def Let_def and_then_ok e)
  have "nodes_up xp s0 (G @ [new_node s0 (xp_user_cdev ?x) (d_user_bar_idx ?d) NULL CHAR_USER]) (snd ?r1)"
    by (rule nodes_up_create [OF u _ _ c rs(1)]) (use d f True in \<open>auto simp: user_table_def Let_def\<close>)
  from nodes_up_flag [OF nodes_up_create [OF nodes_up_flag [OF this] _ _ c rs(2)]] d f show ?thesis
    using True by (auto simp: eq user_table_def Let_def image_Un)
next
  case False
  note e = nodes_upD(2) [OF u] strip_xp_eqD(1) [OF nodes_upD(3) [OF u]]
  show ?thesis using False u by (simp add: create_user_def user_table_def Let_def e)
qed

text \<open>All nodes of a function.\<close>

definition node_table :: "kst \<Rightarrow> ptr \<Rightarrow> (ptr \<times> int \<times> ptr) list" where
  "node_table s xp = ctrl_table s xp @ event_table s xp @ sgdma_table s xp @ bypass_table s xp @ user_table s xp"

lemma create_all_steps_up:
  fixes ev xp s
  defines "r1 \<equiv> create_ctrl ev xp s" and "r2 \<equiv> create_all_events ev xp (snd (create_ctrl ev xp s))"
    and "r3 \<equiv> create_sgdma ev xp (snd (create_all_events ev xp (snd (create_ctrl ev xp s))))"
    and "r4 \<equiv> create_bypass ev xp (snd (create_sgdma ev xp (snd (create_all_events ev xp (snd (create_ctrl ev xp s))))))"
  assumes c: "cs_class (k_char s) \<noteq> NULL" and r: "fst (create_all ev xp s) \<ge> 0"
    and d: "distinct (map fst (node_table s xp))" and f: "fresh s (node_table s xp)"
  shows "nodes_up xp s (ctrl_table s xp) (snd r1)" "nodes_up xp s (ctrl_table s xp @ event_table s xp) (snd r2)"
    "nodes_up xp s ((ctrl_table s xp @ event_table s xp) @ sgdma_table s xp) (snd r3)"
    "nodes_up xp s (((ctrl_table s xp @ event_table s xp) @ sgdma_table s xp) @ bypass_table s xp) (snd r4)"
    "nodes_up xp s (node_table s xp) (snd (create_all ev xp s))"
proof -
  let ?r1 = "create_ctrl ev xp s" let ?r2 = "create_all_events ev xp (snd ?r1)" let ?r3 = "create_sgdma ev xp (snd ?r2)"
  let ?r4 = "create_bypass ev xp (snd ?r3)" let ?r5 = "create_user ev xp (snd ?r4)"
  have rs: "fst ?r1 \<ge> 0" "fst ?r2 \<ge> 0" "fst ?r3 \<ge> 0" "fst ?r4 \<ge> 0" "fst ?r5 \<ge> 0" and eq: "create_all ev xp s = ?r5"
    using r by (simp_all add: create_all_def and_then_ok)
  show 1: "nodes_up xp s (ctrl_table s xp) (snd r1)"
    using create_ctrl_up [OF nodes_up_refl c rs(1)] d f by (simp add: node_table_def r1_def)
  show 2: "nodes_up xp s (ctrl_table s xp @ event_table s xp) (snd r2)"
    unfolding r2_def by (rule create_all_events_up [OF 1 [unfolded r1_def] c rs(2)]) (use d f in \<open>auto simp: node_table_def\<close>)
  show 3: "nodes_up xp s ((ctrl_table s xp @ event_table s xp) @ sgdma_table s xp) (snd r3)"
    unfolding r3_def by (rule create_sgdma_up [OF 2 [unfolded r2_def] c rs(3)]) (use d f in \<open>auto simp: node_table_def\<close>)
  show 4: "nodes_up xp s (((ctrl_table s xp @ event_table s xp) @ sgdma_table s xp) @ bypass_table s xp) (snd r4)"
    unfolding r4_def by (rule create_bypass_up [OF 3 [unfolded r3_def] c rs(4)]) (use d f in \<open>auto simp: node_table_def\<close>)
  show "nodes_up xp s (node_table s xp) (snd (create_all ev xp s))"
    using create_user_up [OF 4 [unfolded r4_def] c rs(5)] d f unfolding eq by (auto simp: node_table_def)
qed

subsection \<open>Destroying the nodes\<close>

lemma flag_test_sel [simp]:
  "xpdev_flag_test x b (xpdev_flag_set x b' s) \<longleftrightarrow> b = b' \<or> xpdev_flag_test x b s"
  "xpdev_flag_test x b (snd (create_xcdev ev x p bar e ty s)) = xpdev_flag_test x b s"
proof -
  have t: "xpdev_flag_test x b s \<longleftrightarrow> bit (xp_flags (k_xpdev s x)) (flag_bit b)" for s
    by (simp only: xpdev_flag_test_def bit_iff_and_push_bit_not_eq_0)
  have "flag_bit b < 32" "flag_bit b = flag_bit b' \<longleftrightarrow> b = b'" by (cases b; cases b'; simp)+
  then show "xpdev_flag_test x b (xpdev_flag_set x b' s) \<longleftrightarrow> b = b' \<or> xpdev_flag_test x b s"
    unfolding t by (auto simp: xpdev_flag_set_def bit_simps)
  show "xpdev_flag_test x b (snd (create_xcdev ev x p bar e ty s)) = xpdev_flag_test x b s"
    by (simp add: xpdev_flag_test_def)
qed

lemma flag_test_loops [simp]:
  "xpdev_flag_test x b (snd (create_events ev x i k s)) = xpdev_flag_test x b s"
  "xpdev_flag_test x b (snd (create_channels ev x ty c es i k s)) = xpdev_flag_test x b s"
proof -
  show "xpdev_flag_test x b (snd (create_events ev x i k s)) = xpdev_flag_test x b s"
    by (induction k arbitrary: i s) (simp_all add: and_then_def)
  show "xpdev_flag_test x b (snd (create_channels ev x ty c es i k s)) = xpdev_flag_test x b s"
    by (induction k arbitrary: i s) (simp_all add: and_then_def)
qed

lemma flag_test_steps:
  "fst (create_ctrl ev x s) \<ge> 0 \<Longrightarrow> xpdev_flag_test x b (snd (create_ctrl ev x s)) \<longleftrightarrow> b = XDF_CDEV_CTRL \<or> xpdev_flag_test x b s"
  "fst (create_all_events ev x s) \<ge> 0 \<Longrightarrow> xpdev_flag_test x b (snd (create_all_events ev x s)) \<longleftrightarrow> b = XDF_CDEV_EVENT \<or> xpdev_flag_test x b s"
  "fst (create_sgdma ev x s) \<ge> 0 \<Longrightarrow> xpdev_flag_test x b (snd (create_sgdma ev x s)) \<longleftrightarrow> b = XDF_CDEV_SG \<or> xpdev_flag_test x b s"
  "fst (create_bypass ev x s) \<ge> 0 \<Longrightarrow> xpdev_flag_test x b (snd (create_bypass ev x s))
     \<longleftrightarrow> b = XDF_CDEV_BYPASS \<and> d_bypass_bar_idx (k_dev s (xp_xdev (k_xpdev s x))) > 0 \<or> xpdev_flag_test x b s"
  "fst (create_user ev x s) \<ge> 0 \<Longrightarrow> xpdev_flag_test x b (snd (create_user ev x s))
     \<longleftrightarrow> (b = XDF_CDEV_USER \<or> b = XDF_CDEV_XVC) \<and> d_user_bar_idx (k_dev s (xp_xdev (k_xpdev s x))) \<ge> 0 \<or> xpdev_flag_test x b s"
  by (auto simp: create_ctrl_def create_all_events_def create_sgdma_def create_bypass_def create_user_def and_then_ok Let_def)

text \<open>The flags that stand for the groups of nodes created.\<close>

lemma create_all_flags:
  assumes r: "fst (create_all ev xp s) \<ge> 0" and z: "xp_flags (k_xpdev s xp) = 0" and c: "cs_class (k_char s) \<noteq> NULL"
    and d: "distinct (map fst (node_table s xp))" and f: "fresh s (node_table s xp)"
  shows "xpdev_flag_test xp b (snd (create_all ev xp s)) \<longleftrightarrow>
    (case b of XDF_CDEV_BYPASS \<Rightarrow> d_bypass_bar_idx (k_dev s (xp_xdev (k_xpdev s xp))) > 0
     | XDF_CDEV_USER \<Rightarrow> d_user_bar_idx (k_dev s (xp_xdev (k_xpdev s xp))) \<ge> 0
     | XDF_CDEV_XVC \<Rightarrow> d_user_bar_idx (k_dev s (xp_xdev (k_xpdev s xp))) \<ge> 0 | _ \<Rightarrow> True)"
proof -
  let ?r1 = "create_ctrl ev xp s" let ?r2 = "create_all_events ev xp (snd ?r1)" let ?r3 = "create_sgdma ev xp (snd ?r2)"
  let ?r4 = "create_bypass ev xp (snd ?r3)" let ?r5 = "create_user ev xp (snd ?r4)"
  have rs: "fst ?r1 \<ge> 0" "fst ?r2 \<ge> 0" "fst ?r3 \<ge> 0" "fst ?r4 \<ge> 0" "fst ?r5 \<ge> 0" and eq: "create_all ev xp s = ?r5"
    using r by (simp_all add: create_all_def and_then_ok)
  note up = create_all_steps_up [OF c r d f]
  note u = strip_xp_eqD(1) [OF nodes_upD(3) [OF up(3)]] strip_xp_eqD(1) [OF nodes_upD(3) [OF up(4)]] nodes_upD(2) [OF up(3)] nodes_upD(2) [OF up(4)]
  have "\<not> xpdev_flag_test xp b s" by (simp add: xpdev_flag_test_def z)
  then show ?thesis
    unfolding eq by (cases b) (simp_all add: flag_test_steps rs u)
qed

lemma destroy_xcdev_sel [simp]:
  "k_char (snd (destroy_xcdev p s)) = k_char s" "k_dev (snd (destroy_xcdev p s)) = k_dev s" "k_eng (snd (destroy_xcdev p s)) = k_eng s"
  by (simp_all add: destroy_xcdev_def Let_def)

lemma destroy_nodes_sel [simp]:
  "k_char (destroy_nodes ps s) = k_char s" "k_dev (destroy_nodes ps s) = k_dev s" "k_eng (destroy_nodes ps s) = k_eng s"
  by (induction ps arbitrary: s) (simp_all add: destroy_nodes_def)

lemma destroy_nodes_flag [simp]: "xpdev_flag_test x b (destroy_nodes ps s) = xpdev_flag_test x b s"
  by (simp add: xpdev_flag_test_def)

text \<open>A node can be taken down again.\<close>

definition removable :: "kst \<Rightarrow> ptr \<Rightarrow> bool" where
  "removable s p \<longleftrightarrow> (made s p \<longrightarrow> p \<noteq> NULL \<and> cd_xdev (k_cdev s p) \<noteq> NULL \<and> cd_sys_device (k_cdev s p) \<noteq> NULL)"

lemma destroy_nodes_live:
  assumes "cs_class (k_char s) \<noteq> NULL" "\<forall>p \<in> set ps. removable s p"
  shows "nodes (trace (destroy_nodes ps s)) = nodes (trace s) - mset (filter (made s) ps)"
  using assms
proof (induction ps arbitrary: s)
  case (Cons p ps)
  let ?s = "snd (destroy_xcdev p s)"
  have "nodes (trace (destroy_nodes ps ?s)) = nodes (trace ?s) - mset (filter (made s) ps)"
    using Cons.IH [of ?s] Cons.prems by (simp add: removable_def)
  moreover have "nodes (trace ?s) = nodes (trace s) - (if made s p then {#p#} else {#})"
    using Cons.prems by (auto simp: destroy_xcdev_def Let_def removable_def)
  moreover have "destroy_nodes (p # ps) s = destroy_nodes ps ?s" by (simp add: destroy_nodes_def)
  ultimately show ?case by simp
qed (simp add: destroy_nodes_def)

subsection \<open>Which nodes there are\<close>

lemma made_mono:
  "made s q \<Longrightarrow> made (snd (create_xcdev ev x p bar e ty s)) q"
  "made s q \<Longrightarrow> made (xpdev_flag_set x b s) q"
  by (cases "q = p"; simp add: create_xcdev_def Let_def split_beta) (simp add: xpdev_flag_set_def)

lemma made_mono_loops:
  "made s q \<Longrightarrow> made (snd (create_events ev x i k s)) q"
  "made s q \<Longrightarrow> made (snd (create_channels ev x ty c es i k s)) q"
proof -
  show "made s q \<Longrightarrow> made (snd (create_events ev x i k s)) q"
    by (induction k arbitrary: i s) (simp_all add: and_then_def made_mono)
  show "made s q \<Longrightarrow> made (snd (create_channels ev x ty c es i k s)) q"
    by (induction k arbitrary: i s) (simp_all add: and_then_def made_mono)
qed

lemma made_mono_steps:
  assumes "made s q"
  shows "made (snd (create_all_events ev x s)) q" "made (snd (create_sgdma ev x s)) q" "made (snd (create_bypass ev x s)) q" "made (snd (create_user ev x s)) q"
  using assms
  by (simp_all add: create_all_events_def create_sgdma_def create_bypass_def create_user_def and_then_def Let_def made_mono made_mono_loops)

text \<open>Taking device numbers succeeds or returns a negative error.\<close>

definition numbers_ok :: "env \<Rightarrow> bool" where
  "numbers_ok ev \<longleftrightarrow> (\<forall>tr x. ksvc ev tr ''alloc_chrdev_region'' x \<le> 0)"

lemma create_xcdev_made: "numbers_ok ev \<Longrightarrow> fst (create_xcdev ev x p bar e ty s) \<ge> 0 \<Longrightarrow> made (snd (create_xcdev ev x p bar e ty s)) p"
proof -
  assume "numbers_ok ev" "fst (create_xcdev ev x p bar e ty s) \<ge> 0"
  moreover have "fst (alloc_major ev x s) \<le> 0" using \<open>numbers_ok ev\<close> by (simp add: alloc_major_def numbers_ok_def Let_def split_beta)
  ultimately show ?thesis by (auto simp: create_xcdev_def Let_def split_beta split: if_splits)
qed

lemma create_events_made:
  assumes "numbers_ok ev" "fst (create_events ev x i k s) \<ge> 0" "xp_events_cdev (k_xpdev s x) = c" "j \<in> {i..<i + k}"
  shows "made (snd (create_events ev x i k s)) (c j)"
  using assms(2-)
proof (induction k arbitrary: i s)
  case (Suc k)
  let ?r = "create_xcdev ev x (c i) (int i) NULL CHAR_EVENTS s"
  have r: "fst ?r \<ge> 0" "fst (create_events ev x (Suc i) k (snd ?r)) \<ge> 0" using Suc.prems by (simp_all add: and_then_ok)
  have c: "xp_events_cdev (k_xpdev (snd ?r) x) = c" using strip_xp_eqD(6) [of "k_xpdev (snd ?r) x" "k_xpdev s x"] Suc.prems(2) by simp
  have "made (snd (create_events ev x (Suc i) k (snd ?r))) (c j)"
  proof (cases "j = i")
    case True
    then show ?thesis using made_mono_loops(1) [OF create_xcdev_made [OF assms(1) r(1)]] by simp
  next
    case False
    then show ?thesis using Suc.IH [OF r(2) c] Suc.prems(3) by simp
  qed
  then show ?case using Suc.prems(2) r(1) by (simp add: and_then_ok)
qed simp

lemma create_channels_made:
  assumes "numbers_ok ev" "fst (create_channels ev x ty c es i k s) \<ge> 0" "\<forall>j \<in> {i..<i + k}. e_magic (k_eng s (es j)) = MAGIC_ENGINE" "j \<in> {i..<i + k}"
  shows "made (snd (create_channels ev x ty c es i k s)) (c j)"
  using assms(2-)
proof (induction k arbitrary: i s)
  case (Suc k)
  let ?r = "create_xcdev ev x (c i) (int i) (es i) ty s"
  have i: "e_magic (k_eng s (es i)) = MAGIC_ENGINE" using Suc.prems(2) by simp
  have r: "fst ?r \<ge> 0" "fst (create_channels ev x ty c es (Suc i) k (snd ?r)) \<ge> 0" using Suc.prems(1) i by (simp_all add: and_then_ok)
  have "made (snd (create_channels ev x ty c es (Suc i) k (snd ?r))) (c j)"
  proof (cases "j = i")
    case True
    then show ?thesis using made_mono_loops(2) [OF create_xcdev_made [OF assms(1) r(1)]] by simp
  next
    case False
    then show ?thesis using Suc.IH [OF r(2)] Suc.prems(2,3) by simp
  qed
  then show ?case using i r(1) by (simp add: and_then_ok)
qed simp

text \<open>Every channel of the function has its engine.\<close>

definition engines_there :: "kst \<Rightarrow> ptr \<Rightarrow> bool" where
  "engines_there s xp \<longleftrightarrow>
     (let x = k_xpdev s xp; d = k_dev s (xp_xdev x)
      in xp_user_max x \<le> 16 \<and> xp_h2c_channel_max x \<le> 4 \<and> xp_c2h_channel_max x \<le> 4
       \<and> (\<forall>i < xp_h2c_channel_max x. d_engine_h2c d i \<noteq> NULL \<and> e_magic (k_eng s (d_engine_h2c d i)) = MAGIC_ENGINE \<and> e_channel (k_eng s (d_engine_h2c d i)) = of_nat i)
       \<and> (\<forall>i < xp_c2h_channel_max x. d_engine_c2h d i \<noteq> NULL \<and> e_magic (k_eng s (d_engine_c2h d i)) = MAGIC_ENGINE \<and> e_channel (k_eng s (d_engine_c2h d i)) = of_nat i))"

lemma map_fst_nodes [simp]:
  "map fst (event_nodes s c i k) = map c [i..<i + k]" "map fst (channel_nodes s ty c es i k) = map c [i..<i + k]"
  by (simp_all add: event_nodes_def channel_nodes_def)

lemma create_groups_made:
  assumes "numbers_ok ev"
  shows "fst (create_ctrl ev xp s) \<ge> 0 \<Longrightarrow> p \<in> fst ` set (ctrl_table s xp) \<Longrightarrow> made (snd (create_ctrl ev xp s)) p"
    "fst (create_all_events ev xp s) \<ge> 0 \<Longrightarrow> p \<in> fst ` set (event_table s xp) \<Longrightarrow> made (snd (create_all_events ev xp s)) p"
proof -
  show "fst (create_ctrl ev xp s) \<ge> 0 \<Longrightarrow> p \<in> fst ` set (ctrl_table s xp) \<Longrightarrow> made (snd (create_ctrl ev xp s)) p"
    using create_xcdev_made [OF assms] by (auto simp: create_ctrl_def ctrl_table_def Let_def and_then_ok made_mono(2))
  show "fst (create_all_events ev xp s) \<ge> 0 \<Longrightarrow> p \<in> fst ` set (event_table s xp) \<Longrightarrow> made (snd (create_all_events ev xp s)) p"
    using create_events_made [OF assms]
    by (auto simp: create_all_events_def event_table_def and_then_ok made_mono(2) list.set_map [symmetric] simp del: list.set_map)
qed

lemma create_both_made:
  assumes "numbers_ok ev" "fst (create_channels ev xp ty c es 0 k s) \<ge> 0"
    "fst (create_channels ev xp ty' c' es' 0 l (snd (create_channels ev xp ty c es 0 k s))) \<ge> 0"
    "k_eng (snd (create_channels ev xp ty c es 0 k s)) = k_eng s"
    "\<forall>j < k. e_magic (k_eng s (es j)) = MAGIC_ENGINE" "\<forall>j < l. e_magic (k_eng s (es' j)) = MAGIC_ENGINE"
    "p \<in> set (map c [0..<k] @ map c' [0..<l])"
  shows "made (snd (create_channels ev xp ty' c' es' 0 l (snd (create_channels ev xp ty c es 0 k s)))) p"
  using assms made_mono_loops(2) [OF create_channels_made [OF assms(1,2)]] create_channels_made [OF assms(1,3)] by auto

lemma create_channels_eng [simp]: "k_eng (snd (create_channels ev x ty c es i k s)) = k_eng s"
  by (induction k arbitrary: i s) (simp_all add: and_then_def)

lemma create_chans_made:
  assumes "numbers_ok ev" "engines_there s xp"
  shows "fst (create_sgdma ev xp s) \<ge> 0 \<Longrightarrow> p \<in> fst ` set (sgdma_table s xp) \<Longrightarrow> made (snd (create_sgdma ev xp s)) p"
    "fst (create_bypass ev xp s) \<ge> 0 \<Longrightarrow> p \<in> fst ` set (bypass_table s xp) \<Longrightarrow> made (snd (create_bypass ev xp s)) p"
    "fst (create_user ev xp s) \<ge> 0 \<Longrightarrow> p \<in> fst ` set (user_table s xp) \<Longrightarrow> made (snd (create_user ev xp s)) p"
proof -
  show "fst (create_sgdma ev xp s) \<ge> 0 \<Longrightarrow> p \<in> fst ` set (sgdma_table s xp) \<Longrightarrow> made (snd (create_sgdma ev xp s)) p"
    unfolding sgdma_table_def Let_def list.set_map [symmetric] map_append map_fst_nodes add_0
    using assms(2) by (auto simp: create_sgdma_def Let_def and_then_ok engines_there_def intro!: made_mono(2) create_both_made [OF assms(1)])
  show "fst (create_bypass ev xp s) \<ge> 0 \<Longrightarrow> p \<in> fst ` set (bypass_table s xp) \<Longrightarrow> made (snd (create_bypass ev xp s)) p"
  proof (cases "d_bypass_bar_idx (k_dev s (xp_xdev (k_xpdev s xp))) > 0")
    case True
    assume "fst (create_bypass ev xp s) \<ge> 0" "p \<in> fst ` set (bypass_table s xp)"
    with True assms(2) show ?thesis
      unfolding bypass_table_def Let_def list.set_map [symmetric]
      by (cases "p = xp_bypass_cdev_base (k_xpdev s xp)")
        (auto simp: create_bypass_def Let_def and_then_ok engines_there_def made_mono(2) create_xcdev_made [OF assms(1)]
          intro!: made_mono create_both_made [OF assms(1)])
  qed (simp add: bypass_table_def)
  show "fst (create_user ev xp s) \<ge> 0 \<Longrightarrow> p \<in> fst ` set (user_table s xp) \<Longrightarrow> made (snd (create_user ev xp s)) p"
  proof (cases "d_user_bar_idx (k_dev s (xp_xdev (k_xpdev s xp))) \<ge> 0")
    case True
    assume "fst (create_user ev xp s) \<ge> 0" "p \<in> fst ` set (user_table s xp)"
    with True show ?thesis
      by (auto simp: create_user_def user_table_def Let_def and_then_ok made_mono create_xcdev_made [OF assms(1)])
  qed (simp add: user_table_def)
qed

lemma tables_cong:
  assumes "nodes_up xp s0 G s"
  shows "event_table s xp = event_table s0 xp" "sgdma_table s xp = sgdma_table s0 xp" "bypass_table s xp = bypass_table s0 xp"
    "user_table s xp = user_table s0 xp" "engines_there s xp = engines_there s0 xp"
  using nodes_upD(1,2) [OF assms] strip_xp_eqD [OF nodes_upD(3) [OF assms]]
  by (simp_all add: table_defs event_nodes_def channel_nodes_def new_node_def engines_there_def)

lemma create_all_made:
  assumes nr: "numbers_ok ev" and eng: "engines_there s xp" and c: "cs_class (k_char s) \<noteq> NULL" and r: "fst (create_all ev xp s) \<ge> 0"
    and d: "distinct (map fst (node_table s xp))" and f: "fresh s (node_table s xp)" and p: "p \<in> fst ` set (node_table s xp)"
  shows "made (snd (create_all ev xp s)) p"
proof -
  let ?r1 = "create_ctrl ev xp s" let ?r2 = "create_all_events ev xp (snd ?r1)" let ?r3 = "create_sgdma ev xp (snd ?r2)"
  let ?r4 = "create_bypass ev xp (snd ?r3)" let ?r5 = "create_user ev xp (snd ?r4)"
  have rs: "fst ?r1 \<ge> 0" "fst ?r2 \<ge> 0" "fst ?r3 \<ge> 0" "fst ?r4 \<ge> 0" "fst ?r5 \<ge> 0" and eq: "create_all ev xp s = ?r5"
    using r by (simp_all add: create_all_def and_then_ok)
  note up = create_all_steps_up [OF c r d f]
  consider "p \<in> fst ` set (ctrl_table s xp)" | "p \<in> fst ` set (event_table s xp)" | "p \<in> fst ` set (sgdma_table s xp)"
    | "p \<in> fst ` set (bypass_table s xp)" | "p \<in> fst ` set (user_table s xp)"
    using p unfolding node_table_def set_append image_Un by blast
  then show ?thesis
  proof cases
    case 1
    from made_mono_steps(4) [OF made_mono_steps(3) [OF made_mono_steps(2) [OF made_mono_steps(1) [OF create_groups_made(1) [OF nr rs(1) 1]]]]]
    show ?thesis unfolding eq .
  next
    case 2
    from made_mono_steps(4) [OF made_mono_steps(3) [OF made_mono_steps(2) [OF create_groups_made(2) [OF nr rs(2)]]]] 2
    show ?thesis unfolding eq by (simp add: tables_cong(1) [OF up(1)])
  next
    case 3
    from made_mono_steps(4) [OF made_mono_steps(3) [OF create_chans_made(1) [OF nr _ rs(3)]]] 3 eng
    show ?thesis unfolding eq by (simp add: tables_cong(2,5) [OF up(2)])
  next
    case 4
    from made_mono_steps(4) [OF create_chans_made(2) [OF nr _ rs(4)]] 4 eng
    show ?thesis unfolding eq by (simp add: tables_cong(3,5) [OF up(3)])
  next
    case 5
    from create_chans_made(3) [OF nr _ rs(5)] 5 eng
    show ?thesis unfolding eq by (simp add: tables_cong(4,5) [OF up(4)])
  qed
qed

text \<open>The minor numbers of the nodes.\<close>

abbreviation minor_of :: "ptr \<times> int \<times> ptr \<Rightarrow> int" where "minor_of n \<equiv> fst (snd n)"

lemma channel_minors:
  assumes "\<forall>i < k. e_channel (k_eng s (es i)) = of_nat i" "k \<le> 4"
  shows "map minor_of (channel_nodes s ty c es 0 k) = map (\<lambda>i. node_minor ty (int i) i) [0..<k]"
  using assms by (simp add: channel_nodes_def new_node_def unat_of_nat)

lemma node_minors:
  assumes "engines_there s xp"
  shows "distinct (map minor_of (node_table s xp))" "n \<in> set (node_table s xp) \<Longrightarrow> 0 \<le> minor_of n \<and> minor_of n < XDMA_MINOR_COUNT"
proof -
  let ?x = "k_xpdev s xp" and ?d = "k_dev s (xp_xdev (k_xpdev s xp))"
  have m: "map minor_of (channel_nodes s ty c (d_engine_h2c ?d) 0 (xp_h2c_channel_max ?x)) = map (\<lambda>i. node_minor ty (int i) i) [0..<xp_h2c_channel_max ?x]"
    "map minor_of (channel_nodes s ty c (d_engine_c2h ?d) 0 (xp_c2h_channel_max ?x)) = map (\<lambda>i. node_minor ty (int i) i) [0..<xp_c2h_channel_max ?x]" for ty c
    using assms by (simp_all add: channel_minors engines_there_def Let_def)
  have t: "map minor_of (node_table s xp) = [1] @ map (\<lambda>i. 10 + int i) [0..<xp_user_max ?x]
      @ (map (\<lambda>i. 32 + int i) [0..<xp_h2c_channel_max ?x] @ map (\<lambda>i. 36 + int i) [0..<xp_c2h_channel_max ?x])
      @ (if d_bypass_bar_idx ?d > 0 then (map (\<lambda>i. 64 + int i) [0..<xp_h2c_channel_max ?x] @ map (\<lambda>i. 68 + int i) [0..<xp_c2h_channel_max ?x]) @ [100] else [])
      @ (if d_user_bar_idx ?d \<ge> 0 then [0, 2] else [])"
    unfolding node_table_def table_defs by (simp add: m) (simp add: new_node_def event_nodes_def)
  show "distinct (map minor_of (node_table s xp))"
    unfolding t using assms by (auto simp: engines_there_def Let_def distinct_map inj_on_def)
  have "minor_of n \<in> set (map minor_of (node_table s xp))" if "n \<in> set (node_table s xp)" using that by simp
  then show "n \<in> set (node_table s xp) \<Longrightarrow> 0 \<le> minor_of n \<and> minor_of n < XDMA_MINOR_COUNT"
    unfolding t using assms by (auto simp: engines_there_def Let_def XDMA_MINOR_COUNT_def split: if_splits)
qed

lemma destroy_nodes_split:
  "destroy_nodes (ps @ qs) s = destroy_nodes qs (destroy_nodes ps s)" "destroy_nodes (p # q # ps) s = destroy_nodes (q # ps) (destroy_nodes [p] s)"
  "destroy_nodes (p # ps @ qs) s = destroy_nodes (ps @ qs) (destroy_nodes [p] s)" "destroy_nodes [] s = s"
  by (simp_all add: destroy_nodes_def)

lemma table_ptrs:
  fixes s xp
  defines "x \<equiv> k_xpdev s xp" and "d \<equiv> k_dev s (xp_xdev (k_xpdev s xp))"
  shows "map fst (node_table s xp) = [xp_ctrl_cdev x] @ map (xp_events_cdev x) [0..<xp_user_max x]
    @ map (xp_sgdma_h2c_cdev x) [0..<xp_h2c_channel_max x] @ map (xp_sgdma_c2h_cdev x) [0..<xp_c2h_channel_max x]
    @ (if d_bypass_bar_idx d > 0 then map (xp_bypass_h2c_cdev x) [0..<xp_h2c_channel_max x] @ map (xp_bypass_c2h_cdev x) [0..<xp_c2h_channel_max x]
        @ [xp_bypass_cdev_base x] else [])
    @ (if d_user_bar_idx d \<ge> 0 then [xp_user_cdev x, xp_xvc_cdev x] else [])"
  by (simp add: x_def d_def node_table_def table_defs)

subsection \<open>Properties\<close>

lemma create_interfaces_ok:
  "fst (xpdev_create_interfaces ev xp s) = 0 \<Longrightarrow> fst (create_all ev xp s) \<ge> 0 \<and> snd (xpdev_create_interfaces ev xp s) = snd (create_all ev xp s)"
  by (auto simp: xpdev_create_interfaces_def Let_def split_beta split: if_splits)


text \<open>C15: destroying the nodes of a function takes down exactly the nodes that creating them brought up.\<close>

theorem interfaces_roundtrip:
  fixes ev xp s
  defines "s' \<equiv> snd (xpdev_create_interfaces ev xp s)"
  assumes ok: "fst (xpdev_create_interfaces ev xp s) = 0" and c: "cs_class (k_char s) \<noteq> NULL" and z: "xp_flags (k_xpdev s xp) = 0"
    and d: "distinct (map fst (node_table s xp))" and f: "fresh s (node_table s xp)" and n: "NULL \<notin> fst ` set (node_table s xp)"
    and x: "xp_xdev (k_xpdev s xp) \<noteq> NULL"
  shows "nodes (trace (xpdev_destroy_interfaces xp s')) = nodes (trace s)"
proof -
  have r: "fst (create_all ev xp s) \<ge> 0" and s': "s' = snd (create_all ev xp s)" using create_interfaces_ok [OF ok] by (simp_all add: s'_def)
  note up = create_all_steps_up(5) [OF c r d f, folded s'] and fl = create_all_flags [OF r z c d f, folded s']
  have cl: "cs_class (k_char s') \<noteq> NULL" using c nodes_upD(4) [OF up] by simp
  have rem: "removable s' p" if "p \<in> set (map fst (node_table s xp))" for p
  proof -
    obtain m e where i: "(p, m, e) \<in> set (node_table s xp)" using \<open>p \<in> _\<close> by auto
    then have "p \<noteq> NULL" using n by force
    moreover have "made s' p \<longrightarrow> node_ok s' xp (xp_xdev (k_xpdev s xp)) (p, m, e)" using up i by (force simp: nodes_up_def)
    ultimately show ?thesis using x by (simp add: removable_def node_ok_def)
  qed
  have D: "nodes (trace (destroy_nodes ps t)) = nodes (trace t) - mset (filter (made s') ps)"
    if "k_char t = k_char s'" "set ps \<subseteq> set (map fst (node_table s xp))" for ps t
    using destroy_nodes_live [of t ps] that cl rem by (auto simp: removable_def)
  have "nodes (trace s') = nodes (trace s) + mset (filter (made s') (map fst (node_table s xp)))" using up by (simp add: nodes_up_def)
  note up_nodes = this and e = strip_xp_eqD [OF nodes_upD(3) [OF up]] nodes_upD(2) [OF up]
  let ?x = "k_xpdev s xp" and ?d = "k_dev s (xp_xdev (k_xpdev s xp))"
  let ?L = "map (xp_sgdma_h2c_cdev ?x) [0..<xp_h2c_channel_max ?x] @ map (xp_sgdma_c2h_cdev ?x) [0..<xp_c2h_channel_max ?x]
    @ map (xp_events_cdev ?x) [0..<xp_user_max ?x] @ [xp_ctrl_cdev ?x] @ (if d_user_bar_idx ?d \<ge> 0 then [xp_user_cdev ?x, xp_xvc_cdev ?x] else [])
    @ (if d_bypass_bar_idx ?d > 0 then map (xp_bypass_h2c_cdev ?x) [0..<xp_h2c_channel_max ?x] @ map (xp_bypass_c2h_cdev ?x) [0..<xp_c2h_channel_max ?x]
        @ [xp_bypass_cdev_base ?x] else [])"
  have same: "mset ?L = mset (map fst (node_table s xp))" unfolding table_ptrs by (simp add: ac_simps)
  have "nodes (trace (xpdev_destroy_interfaces xp s')) = nodes (trace (destroy_nodes ?L s'))"
    by (simp add: xpdev_destroy_interfaces_def Let_def fl e destroy_nodes_split)
  also have "\<dots> = nodes (trace s') - filter_mset (made s') (mset (map fst (node_table s xp)))"
    using D [of s' ?L] mset_eq_setD [OF same] by (simp only: mset_filter same order_refl)
  also have "\<dots> = nodes (trace s)" unfolding up_nodes mset_filter by simp
  finally show ?thesis .
qed


text \<open>A function with one user interrupt and one host-to-card channel, whose nodes can all be created.\<close>

definition env_nodes :: env where
  "env_nodes = env0\<lparr>ksvc := (\<lambda>_ f _. if f = ''alloc_chrdev_region'' then 0 else 1)\<rparr>"

definition one_function :: kst where
  "one_function = kst0\<lparr>
     k_dev := (\<lambda>_. zero_dev\<lparr>d_magic := MAGIC_DEVICE, d_user_bar_idx := - 1, d_bypass_bar_idx := - 1, d_engine_h2c := (\<lambda>_. 4), d_engine_c2h := (\<lambda>_. 6)\<rparr>),
     k_eng := (\<lambda>_. zero_engine\<lparr>e_magic := MAGIC_ENGINE\<rparr>),
     k_char := char_state0\<lparr>cs_class := 3, cs_xpdev := (\<lambda>_. zero_xpdev\<lparr>xp_xdev := 5, xp_user_max := 1, xp_h2c_channel_max := 1,
       xp_ctrl_cdev := 10, xp_events_cdev := (\<lambda>i. 20 + i), xp_sgdma_h2c_cdev := (\<lambda>i. 40 + i)\<rparr>)\<rparr>\<rparr>"

text \<open>A function whose nodes can be created: every call succeeds, and its device has its engines.\<close>

definition creatable :: "env \<Rightarrow> ptr \<Rightarrow> kst \<Rightarrow> bool" where
  "creatable ev x s \<longleftrightarrow> (\<forall>tr p. ksvc ev tr ''alloc_chrdev_region'' p = 0) \<and> (\<forall>tr f p. 0 \<le> ksvc ev tr (''kobject_set_name '' @ f) p)
     \<and> (\<forall>tr f p. 0 \<le> ksvc ev tr (''cdev_add '' @ f) p)
     \<and> (cs_class (k_char s) = NULL \<or> (\<forall>tr f p. ptr_of (ksvc ev tr (''device_create '' @ f) p) \<noteq> NULL))
     \<and> (\<forall>j. d_engine_h2c (k_dev s (xp_xdev (k_xpdev s x))) j \<noteq> NULL \<and> d_engine_c2h (k_dev s (xp_xdev (k_xpdev s x))) j \<noteq> NULL)"

lemma creatable_sel [simp]:
  "creatable ev x (snd (create_xcdev ev' y p bar e ty s)) = creatable ev x s" "creatable ev x (xpdev_flag_set y b s) = creatable ev x s"
proof -
  have "xp_xdev (k_xpdev (snd (create_xcdev ev' y p bar e ty s)) x) = xp_xdev (k_xpdev s x)" by (rule strip_xp_eqD(1)) simp
  then show "creatable ev x (snd (create_xcdev ev' y p bar e ty s)) = creatable ev x s" by (simp add: creatable_def)
  show "creatable ev x (xpdev_flag_set y b s) = creatable ev x s" by (simp add: creatable_def xpdev_flag_set_def)
qed

lemma creatable_xcdev:
  assumes "creatable ev x s" "e \<noteq> NULL \<or> ty \<notin> engine_types"
  shows "fst (create_xcdev ev x p bar e ty s) = 0"
proof -
  have a: "fst (alloc_major ev x t) = 0" for t using assms(1) by (simp add: creatable_def alloc_major_def Let_def split_beta)
  have c: "0 \<le> fst (config_kobject ev p ty t)" if "cd_engine (k_cdev t p) = e" for t
    using assms that by (auto simp: creatable_def config_kobject_def Let_def)
  have "fst (create_sys_device ev p ty t) = 0" if "cs_class (k_char s) \<noteq> NULL" for t
    using assms(1) that by (auto simp: creatable_def create_sys_device_def Let_def split_beta)
  then have l: "fst (node_live ev p ty t) = 0" if "cs_class (k_char t) = cs_class (k_char s)" for t
    using assms(1) that by (auto simp: creatable_def node_live_def Let_def split_beta not_less)
  show ?thesis using assms(2) by (simp add: create_xcdev_def Let_def split_beta a l not_less c)
qed

lemma creatable_creates:
  assumes "creatable ev x s"
  shows "fst (create_events ev x i k s) = 0 \<and> creatable ev x (snd (create_events ev x i k s))"
    "\<forall>j. es j \<noteq> NULL \<Longrightarrow> fst (create_channels ev x ty c es i k s) = 0 \<and> creatable ev x (snd (create_channels ev x ty c es i k s))"
proof -
  show "fst (create_events ev x i k s) = 0 \<and> creatable ev x (snd (create_events ev x i k s))"
    using assms by (induction k arbitrary: i s) (simp_all add: and_then_def creatable_xcdev engine_types_def)
  show "\<forall>j. es j \<noteq> NULL \<Longrightarrow> fst (create_channels ev x ty c es i k s) = 0 \<and> creatable ev x (snd (create_channels ev x ty c es i k s))"
    using assms by (induction k arbitrary: i s) (simp_all add: and_then_def creatable_xcdev)
qed

lemma creatable_steps:
  assumes "creatable ev x s"
  shows "fst (create_ctrl ev x s) = 0 \<and> creatable ev x (snd (create_ctrl ev x s))"
    "fst (create_all_events ev x s) = 0 \<and> creatable ev x (snd (create_all_events ev x s))"
    "fst (create_sgdma ev x s) = 0 \<and> creatable ev x (snd (create_sgdma ev x s))"
    "fst (create_bypass ev x s) = 0 \<and> creatable ev x (snd (create_bypass ev x s))"
    "fst (create_user ev x s) = 0 \<and> creatable ev x (snd (create_user ev x s))"
proof -
  have "\<forall>j. d_engine_h2c (k_dev s (xp_xdev (k_xpdev s x))) j \<noteq> NULL" "\<forall>j. d_engine_c2h (k_dev s (xp_xdev (k_xpdev s x))) j \<noteq> NULL"
    using assms by (auto simp: creatable_def)
  note l = creatable_creates(1) [OF assms] creatable_creates(2) [OF assms this(1)] creatable_creates(2) [OF conjunct2 [OF creatable_creates(2) [OF assms this(1)]] this(2)]
  show "fst (create_ctrl ev x s) = 0 \<and> creatable ev x (snd (create_ctrl ev x s))"
    "fst (create_all_events ev x s) = 0 \<and> creatable ev x (snd (create_all_events ev x s))"
    "fst (create_sgdma ev x s) = 0 \<and> creatable ev x (snd (create_sgdma ev x s))"
    "fst (create_bypass ev x s) = 0 \<and> creatable ev x (snd (create_bypass ev x s))"
    "fst (create_user ev x s) = 0 \<and> creatable ev x (snd (create_user ev x s))"
    using assms by (simp_all add: create_ctrl_def create_all_events_def create_sgdma_def create_bypass_def create_user_def Let_def and_then_def l
        creatable_xcdev engine_types_def)
qed

lemma creatable_ok:
  assumes "creatable ev x s"
  shows "fst (xpdev_create_interfaces ev x s) = 0"
proof -
  note r1 = creatable_steps(1) [OF assms]
  note r2 = creatable_steps(2) [OF conjunct2 [OF r1]]
  note r3 = creatable_steps(3) [OF conjunct2 [OF r2]]
  note r4 = creatable_steps(4) [OF conjunct2 [OF r3]]
  show ?thesis
    using r1 r2 r3 r4 creatable_steps(5) [OF conjunct2 [OF r4]]
    by (simp add: xpdev_create_interfaces_def create_all_def and_then_def Let_def split_beta)
qed

lemma one_function_sel:
  "k_xpdev one_function 7 = zero_xpdev\<lparr>xp_xdev := 5, xp_user_max := 1, xp_h2c_channel_max := 1,
     xp_ctrl_cdev := 10, xp_events_cdev := (\<lambda>i. 20 + i), xp_sgdma_h2c_cdev := (\<lambda>i. 40 + i)\<rparr>"
  "k_dev one_function d = zero_dev\<lparr>d_magic := MAGIC_DEVICE, d_user_bar_idx := - 1, d_bypass_bar_idx := - 1, d_engine_h2c := (\<lambda>_. 4), d_engine_c2h := (\<lambda>_. 6)\<rparr>"
  "k_eng one_function e = zero_engine\<lparr>e_magic := MAGIC_ENGINE\<rparr>" "k_cdev one_function p = zero_cdev" "trace one_function = []"
  "cs_class (k_char one_function) = 3"
  by (simp_all add: one_function_def kst0_def char_state0_def)

lemma one_function_table: "node_table one_function 7 = [(10, 1, 0), (20, 10, 0), (40, 32, 4)]"
  by (simp add: node_table_def table_defs one_function_sel zero_xpdev_def zero_dev_def new_node_def zero_engine_def)

lemma one_function_created: "fst (xpdev_create_interfaces env_nodes 7 one_function) = 0"
  by (rule creatable_ok) (simp add: creatable_def one_function_sel env_nodes_def zero_xpdev_def zero_dev_def ptr_of_def)


theorem interfaces_roundtrip_witness:
  "nodes (trace (xpdev_destroy_interfaces 7 (snd (xpdev_create_interfaces env_nodes 7 one_function)))) = {#}"
  using interfaces_roundtrip [OF one_function_created]
  by (simp add: one_function_table one_function_sel zero_xpdev_def zero_dev_def zero_cdev_def MAGIC_CHAR_def)

end
