(* ===== verification/Cdev_User.thy ===== *)
theory Cdev_User
  imports Xdma_Types
begin

text \<open>
  The memory of the calling process, as the file operations see it: \<open>copy_from_user\<close>, \<open>copy_to_user\<close> and
  \<open>put_user\<close> of the kernel, the little-endian layout of the structures that are copied, and the numbers of the
  \<open>ioctl\<close> calls.  Both copies return the number of bytes that could not be copied; the kernel fills with zeros what it could not
  read.
\<close>

subsection \<open>Bytes\<close>

fun le_bytes :: "nat \<Rightarrow> 'a :: len word \<Rightarrow> u8 list" where
  "le_bytes 0 w = []"
| "le_bytes (Suc n) w = ucast w # le_bytes n (drop_bit 8 w)"

fun le_word :: "u8 list \<Rightarrow> 'a :: len word" where
  "le_word [] = 0"
| "le_word (b # bs) = ucast b OR push_bit 8 (le_word bs)"

lemma le_bytes_length [simp]: "length (le_bytes n w) = n"
  by (induction n arbitrary: w) auto

lemma le_word_bytes: "le_word (le_bytes n w) = take_bit (8 * n) (w :: 'a :: len word)"
proof (induction n arbitrary: w)
  case (Suc n)
  show ?case
    by (rule bit_word_eqI) (auto simp: Suc bit_simps not_less)
qed simp

lemma le_word_bytes_id: "LENGTH('a) \<le> 8 * n \<Longrightarrow> le_word (le_bytes n w) = (w :: 'a :: len word)"
  by (simp add: le_word_bytes take_bit_word_eq_self)

text \<open>The bytes \<open>i\<close> to \<open>i + n\<close> of a structure.\<close>

definition slice :: "nat \<Rightarrow> nat \<Rightarrow> 'a list \<Rightarrow> 'a list" where
  "slice i n xs = take n (drop i xs)"

subsection \<open>Copying\<close>

definition user_bytes :: "env \<Rightarrow> u64 \<Rightarrow> nat \<Rightarrow> kst \<Rightarrow> u8 list" where
  "user_bytes ev a n s = map the (takeWhile (\<lambda>b. b \<noteq> None) (map (\<lambda>i. umem ev (trace s) (a + of_nat i)) [0..<n]))"

definition copy_from_user :: "env \<Rightarrow> u64 \<Rightarrow> nat \<Rightarrow> kst \<Rightarrow> nat \<times> u8 list" where
  "copy_from_user ev a n s = (let bs = user_bytes ev a n s in (n - length bs, bs @ replicate (n - length bs) 0))"

definition copy_to_user :: "env \<Rightarrow> u64 \<Rightarrow> u8 list \<Rightarrow> kst \<Rightarrow> nat \<times> kst" where
  "copy_to_user ev a bs s =
     (let n = length (takeWhile (\<lambda>i. uwr ev (trace s) (a + of_nat i)) [0..<length bs])
      in (length bs - n, emit (ToUser a (take n bs)) s))"

definition put_user :: "env \<Rightarrow> u64 \<Rightarrow> u32 \<Rightarrow> kst \<Rightarrow> int \<times> kst" where
  "put_user ev a w s = (let (r, s') = copy_to_user ev a (le_bytes 4 w) s in if r = 0 then (0, s') else (- EFAULT, s))"

lemma copy_from_user_length: "length (snd (copy_from_user ev a n s)) = n"
proof -
  have "length (user_bytes ev a n s) \<le> n"
    using length_takeWhile_le [of _ "map (\<lambda>i. umem ev (trace s) (a + of_nat i)) [0..<n]"] by (simp add: user_bytes_def)
  then show ?thesis by (simp add: copy_from_user_def Let_def)
qed

lemma copy_to_user_all:
  assumes "\<forall>i < length bs. uwr ev (trace s) (a + of_nat i)"
  shows "copy_to_user ev a bs s = (0, emit (ToUser a bs) s)"
proof -
  have "takeWhile (\<lambda>i. uwr ev (trace s) (a + of_nat i)) [0..<length bs] = [0..<length bs]"
    using assms by (simp add: takeWhile_eq_all_conv)
  then show ?thesis unfolding copy_to_user_def by (simp only: Let_def length_upt diff_zero take_all order_refl diff_self_eq_0)
qed

lemma copy_from_user_all:
  assumes "\<forall>i < length bs. umem ev (trace s) (a + of_nat i) = Some (bs ! i)"
  shows "copy_from_user ev a (length bs) s = (0, bs)"
proof -
  have m: "map (\<lambda>i. umem ev (trace s) (a + of_nat i)) [0..<length bs] = map Some bs"
    using assms by (intro nth_equalityI) auto
  have "user_bytes ev a (length bs) s = bs"
    unfolding user_bytes_def m by (induction bs) auto
  then show ?thesis by (simp add: copy_from_user_def)
qed

lemma copy_to_user_sel [simp]:
  "k_eng (snd (copy_to_user ev a bs s)) = k_eng s" "k_dev (snd (copy_to_user ev a bs s)) = k_dev s"
  "k_char (snd (copy_to_user ev a bs s)) = k_char s" "k_cb (snd (copy_to_user ev a bs s)) = k_cb s"
  "k_sgt (snd (copy_to_user ev a bs s)) = k_sgt s" "held l (trace (snd (copy_to_user ev a bs s))) = held l (trace s)"
  "k_xfer (snd (copy_to_user ev a bs s)) = k_xfer s" "k_desc (snd (copy_to_user ev a bs s)) = k_desc s"
  "writes (trace (snd (copy_to_user ev a bs s))) = writes (trace s)"
  by (simp_all add: copy_to_user_def Let_def)

subsection \<open>Numbers of calls\<close>

definition IOC :: "u32 \<Rightarrow> u32 \<Rightarrow> u32 \<Rightarrow> u32 \<Rightarrow> u32" where
  "IOC dir type nr sz = push_bit 30 dir OR push_bit 8 type OR nr OR push_bit 16 sz"

definition IOC_TYPE :: "u32 \<Rightarrow> u32" where "IOC_TYPE cmd = drop_bit 8 cmd AND 0xff"
definition IOC_DIR :: "u32 \<Rightarrow> u32" where "IOC_DIR cmd = drop_bit 30 cmd AND 3"
definition IOC_SIZE :: "u32 \<Rightarrow> u32" where "IOC_SIZE cmd = drop_bit 16 cmd AND 0x3fff"

end
