(* ===== verification/Cdev_Sgdma.thy ===== *)
theory Cdev_Sgdma
  imports Cdev_Char Cdev_User Xdma_Async Xdma_Aperture
begin

text \<open>
  The SG DMA character device (\<^verbatim>\<open>cdev_sgdma.c\<close>): reading and writing a file moves the bytes of a user buffer
  by DMA.  The pages of the buffer are pinned and put in a scatter-gather table, the transfer is submitted
  (\<open>Xdma_Submit\<close>, \<open>Xdma_Async\<close>, \<open>Xdma_Aperture\<close>), and the pages are released.  An entry of the table that has not been
  mapped for DMA yet carries the physical address of its bytes.  A call that dereferences a null pointer, overruns a buffer or does
  not return is \<open>None\<close>.
\<close>

subsection \<open>File position and alignment\<close>

definition char_sgdma_llseek :: "ptr \<Rightarrow> int \<Rightarrow> int \<Rightarrow> kst \<Rightarrow> int \<times> kst" where
  "char_sgdma_llseek fp off whence s =
     (if whence \<notin> {0, 1, 2} then (- EINVAL, s)
      else
        let newpos = (if whence = 0 then off else if whence = 1 then f_pos (k_file s fp) + off else 0xFFFFFFFF + off);
            newpos = sint (word_of_int newpos :: u64)
        in if newpos < 0 then (- EINVAL, s) else (newpos, upd_file fp (\<lambda>f. f\<lparr>f_pos := newpos\<rparr>) s))"

definition check_transfer_align :: "ptr \<Rightarrow> u64 \<Rightarrow> u64 \<Rightarrow> u64 \<Rightarrow> bool \<Rightarrow> kst \<Rightarrow> int" where
  "check_transfer_align e buf cnt pos sync s =
     (if e = NULL then - EINVAL
      else
        let g = k_eng s e;
            buf_lsb = (ucast buf :: u32) AND (ucast (e_addr_align g) - 1);
            pos_lsb = (ucast pos :: u32) AND (ucast (e_addr_align g) - 1);
            len_lsb = cnt AND (ucast (e_len_granularity g) - 1)
        in if e_non_incr_addr g then
             if buf_lsb \<noteq> 0 then - EINVAL
             else if pos_lsb \<noteq> 0 \<and> sync then - EINVAL
             else if len_lsb \<noteq> 0 then - EINVAL
             else 0
           else if buf_lsb \<noteq> pos_lsb then - EINVAL
           else 0)"

subsection \<open>Pinning a user buffer\<close>

definition PAGE_SIZE :: u64 where "PAGE_SIZE = 4096"
definition PAGE_MASK :: u64 where "PAGE_MASK = NOT (PAGE_SIZE - 1)"

definition sg_free_table :: "ptr \<Rightarrow> kst \<Rightarrow> kst" where
  "sg_free_table sgt s = emit (Kernel ''sg_free_table'' sgt 0) (upd_sgt sgt (\<lambda>_. zero_sgt) s)"

definition put_page :: "u64 \<Rightarrow> kst \<Rightarrow> kst" where
  "put_page p = emit (Kernel ''put_page'' (unat p) 0)"

text \<open>The handle is zeroed; its embedded table stays where it is.\<close>

definition zero_cb :: "env \<Rightarrow> ptr \<Rightarrow> kst \<Rightarrow> kst" where
  "zero_cb ev cb s = upd_sgt (cb + offsetof_sgt ev) (\<lambda>_. zero_sgt) (upd_cb cb (\<lambda>_. zero_io_cb\<lparr>c_sgt := cb + offsetof_sgt ev\<rparr>) s)"

definition xdma_io_cb_release :: "env \<Rightarrow> ptr \<Rightarrow> kst \<Rightarrow> kst" where
  "xdma_io_cb_release ev cb s =
     (let c = k_cb s cb;
          s = fold put_page (take (unat (c_pages_nr c)) (c_pages c)) s;
          s = sg_free_table (c_sgt c) s
      in zero_cb ev cb (emit (Kernel ''kfree pages'' cb 0) s))"

definition release_page :: "bool \<Rightarrow> u64 \<Rightarrow> kst \<Rightarrow> kst" where
  "release_page write p s = put_page p (if \<not> write then emit (Kernel ''set_page_dirty_lock'' (unat p) 0) s else s)"

definition char_sgdma_unmap_user_buf :: "ptr \<Rightarrow> bool \<Rightarrow> kst \<Rightarrow> kst" where
  "char_sgdma_unmap_user_buf cb write s =
     (let c = k_cb s cb; s = sg_free_table (c_sgt c) s
      in if c_pages c = [] \<or> c_pages_nr c = 0 then s
         else
           let s = fold (release_page write) (takeWhile (\<lambda>p. p \<noteq> 0) (take (unat (c_pages_nr c)) (c_pages c))) s
           in upd_cb cb (\<lambda>c. c\<lparr>c_pages := []\<rparr>) (emit (Kernel ''kfree pages'' cb 0) s))"

text \<open>The loop that fills the table: the page frames in order, the address and the number of bytes that are left.  It returns the entries
  and the bytes that are left over.\<close>

fun sg_fill :: "u64 list \<Rightarrow> u64 \<Rightarrow> u64 \<Rightarrow> scatterlist list \<times> u64" where
  "sg_fill [] buf len = ([], len)"
| "sg_fill (p # ps) buf len =
     (let offset = (ucast (buf AND (PAGE_SIZE - 1)) :: u32);
          nbytes = min (ucast PAGE_SIZE - offset) (ucast len);
          (sgs, left) = sg_fill ps (buf + ucast nbytes) (len - ucast nbytes)
      in (\<lparr>sg_dma_address = p * PAGE_SIZE + ucast offset, sg_dma_len = nbytes\<rparr> # sgs, left))"

fun dup_pages :: "u64 list \<Rightarrow> bool" where
  "dup_pages (p # q # ps) \<longleftrightarrow> p = q \<or> dup_pages (q # ps)"
| "dup_pages _ \<longleftrightarrow> False"

definition pages_needed :: "u64 \<Rightarrow> u64 \<Rightarrow> u32" where
  "pages_needed buf len = ucast (drop_bit 12 ((buf + len + PAGE_SIZE - 1) - (buf AND PAGE_MASK)))"

text \<open>The kernel pins as many pages as it can, the page frames of which are the answer.\<close>

definition pin_pages :: "env \<Rightarrow> ptr \<Rightarrow> u64 \<Rightarrow> u32 \<Rightarrow> kst \<Rightarrow> int \<times> kst" where
  "pin_pages ev cb buf n s =
     (case gup ev (trace s) buf n of
        Inl e \<Rightarrow> (e, s)
      | Inr ps \<Rightarrow> (int (length ps), upd_cb cb (\<lambda>c. c\<lparr>c_pages := ps @ replicate (unat n - length ps) 0\<rparr>)
                    (fold (\<lambda>p. emit (Kernel ''pin_page'' (unat p) 0)) ps s)))"

definition char_sgdma_map_user_buf_to_sgl :: "env \<Rightarrow> ptr \<Rightarrow> bool \<Rightarrow> kst \<Rightarrow> int \<times> kst" where
  "char_sgdma_map_user_buf_to_sgl ev cb write s =
     (let c = k_cb s cb; sgt = c_sgt c; pages_nr = pages_needed (c_buf c) (c_len c)
      in if pages_nr = 0 then (- EINVAL, s)
         else
           let (r, s) = kcall ev (''sg_alloc_table '' @ dec (unat pages_nr)) sgt s
           in if r \<noteq> 0 then (- ENOMEM, s)
              else
                let s = upd_sgt sgt (\<lambda>_. \<lparr>sgl = replicate (unat pages_nr) \<lparr>sg_dma_address = 0, sg_dma_len = 0\<rparr>,
                          nents = unat pages_nr, orig_nents = unat pages_nr\<rparr>) s;
                    (p, s) = kcall ev (''kcalloc '' @ dec (unat pages_nr)) 8 s
                in if nat p = NULL then (- ENOMEM, char_sgdma_unmap_user_buf cb write (upd_cb cb (\<lambda>c. c\<lparr>c_pages := []\<rparr>) s))
                   else
                     let s = upd_cb cb (\<lambda>c. c\<lparr>c_pages := replicate (unat pages_nr) 0\<rparr>) s;
                         (rv, s) = pin_pages ev cb (c_buf c) pages_nr s
                     in if rv < 0 then (rv, char_sgdma_unmap_user_buf cb write s)
                        else if rv \<noteq> int (unat pages_nr)
                        then (- EFAULT, char_sgdma_unmap_user_buf cb write (upd_cb cb (\<lambda>c. c\<lparr>c_pages_nr := word_of_int rv\<rparr>) s))
                        else if dup_pages (c_pages (k_cb s cb))
                        then (- EFAULT, char_sgdma_unmap_user_buf cb write (upd_cb cb (\<lambda>c. c\<lparr>c_pages_nr := pages_nr\<rparr>) s))
                        else
                          let (sgs, left) = sg_fill (c_pages (k_cb s cb)) (c_buf c) (c_len c);
                              s = upd_sgt sgt (\<lambda>t. t\<lparr>sgl := sgs\<rparr>) s
                          in if left \<noteq> 0 then (- EINVAL, s) else (0, upd_cb cb (\<lambda>c. c\<lparr>c_pages_nr := pages_nr\<rparr>) s))"

subsection \<open>Read and write\<close>

text \<open>\<open>cb\<close> is the address of the local handle.\<close>

definition local_cb :: "env \<Rightarrow> ptr \<Rightarrow> u64 \<Rightarrow> u64 \<Rightarrow> u64 \<Rightarrow> bool \<Rightarrow> kst \<Rightarrow> kst" where
  "local_cb ev cb buf len ep write s =
     upd_cb cb (\<lambda>c. c\<lparr>c_buf := buf, c_len := len, c_ep_addr := ep, c_write := write\<rparr>) (zero_cb ev cb s)"

definition dir_mismatch :: "bool \<Rightarrow> dma_data_direction \<Rightarrow> bool" where
  "dir_mismatch write dir \<longleftrightarrow> write \<and> dir \<noteq> DMA_TO_DEVICE \<or> \<not> write \<and> dir \<noteq> DMA_FROM_DEVICE"

definition char_sgdma_read_write ::
    "env \<Rightarrow> (kst \<Rightarrow> kst) \<Rightarrow> ptr \<Rightarrow> ptr \<Rightarrow> u64 \<Rightarrow> u64 \<Rightarrow> int \<Rightarrow> bool \<Rightarrow> kst \<Rightarrow> (int \<times> kst) option" where
  "char_sgdma_read_write ev others cb fp buf cnt pos write s =
     (let xcdev = f_private_data (k_file s fp); rv = xcdev_check xcdev True s
      in if rv < 0 then Some (rv, s)
         else
           let xdev = cd_xdev (k_cdev s xcdev); e = cd_engine (k_cdev s xcdev); ep = (word_of_int pos :: u64)
           in if dir_mismatch write (e_dir (k_eng s e)) then Some (- EINVAL, s)
              else
                let rv = check_transfer_align e buf cnt ep True s
                in if rv \<noteq> 0 then Some (rv, s)
                   else
                     let s = local_cb ev cb buf cnt ep write s;
                         (rv, s) = char_sgdma_map_user_buf_to_sgl ev cb write s
                     in if rv < 0 then Some (rv, s)
                        else case xdma_xfer_submit ev others xdev (unat (e_channel (k_eng s e))) write ep (c_sgt (k_cb s cb)) False s of
                               None \<Rightarrow> None
                             | Some (res, s) \<Rightarrow> Some (res, char_sgdma_unmap_user_buf cb write s))"

definition char_sgdma_write ::
    "env \<Rightarrow> (kst \<Rightarrow> kst) \<Rightarrow> ptr \<Rightarrow> ptr \<Rightarrow> u64 \<Rightarrow> u64 \<Rightarrow> int \<Rightarrow> kst \<Rightarrow> (int \<times> kst) option" where
  "char_sgdma_write ev others cb fp buf cnt pos = char_sgdma_read_write ev others cb fp buf cnt pos True"

definition char_sgdma_read ::
    "env \<Rightarrow> (kst \<Rightarrow> kst) \<Rightarrow> ptr \<Rightarrow> ptr \<Rightarrow> u64 \<Rightarrow> u64 \<Rightarrow> int \<Rightarrow> kst \<Rightarrow> (int \<times> kst) option" where
  "char_sgdma_read ev others cb fp buf cnt pos = char_sgdma_read_write ev others cb fp buf cnt pos False"

subsection \<open>Asynchronous calls\<close>

text \<open>The file of an asynchronous call.\<close>

definition ki_filp :: "env \<Rightarrow> ptr \<Rightarrow> kst \<Rightarrow> ptr" where
  "ki_filp ev iocb s = nat (ksvc ev (trace s) ''iocb->ki_filp'' iocb)"

text \<open>The call is completed with the two results that the event carries in its name.\<close>

definition ki_complete :: "ptr \<Rightarrow> int \<Rightarrow> int \<Rightarrow> kst \<Rightarrow> kst" where
  "ki_complete iocb res res2 s = emit (Kernel ''ki_complete res2'' iocb res2) (emit (Kernel ''ki_complete res'' iocb res) s)"

definition cache_free :: "ptr \<Rightarrow> kst \<Rightarrow> kst" where
  "cache_free p = emit (Kernel ''kmem_cache_free'' p 0)"

definition async_account :: "ptr \<Rightarrow> int \<Rightarrow> int \<Rightarrow> kst \<Rightarrow> kst" where
  "async_account caio err numbytes =
     upd_caio caio (\<lambda>c. let res2 = ca_res2 c OR (if err < 0 then err else 0)
       in c\<lparr>ca_res2 := res2, ca_err_cnt := (if res2 \<noteq> 0 then ca_err_cnt c + 1 else ca_err_cnt c),
            ca_cmpl_cnt := ca_cmpl_cnt c + 1, ca_res := ca_res c + numbytes\<rparr>)"

definition async_io_handler :: "env \<Rightarrow> ptr \<Rightarrow> int \<Rightarrow> kst \<Rightarrow> kst option" where
  "async_io_handler ev cb err s =
     (let caio = c_private (k_cb s cb)
      in if caio = NULL then Some s
         else
           let iocb = ca_iocb (k_caio s caio); xcdev = f_private_data (k_file s (ki_filp ev iocb s))
           in if xcdev_check xcdev True s < 0 then Some s
              else
                let (lock_stat, s) = kcall ev ''spin_trylock'' caio s
                in if lock_stat = 0 then Some (cache_free caio (ki_complete iocb 0 (- EBUSY) s))
                   else
                     let s = emit (Acquire (LkCdev caio)) s
                     in if ca_cancel (k_caio s caio)
                        then Some (emit (Kernel ''kfree'' cb 0) (cache_free caio (emit (Release (LkCdev caio)) s)))
                        else
                          let e = cd_engine (k_cdev s xcdev); xdev = cd_xdev (k_cdev s xcdev); c = k_cb s cb
                          in case (if err = 0 then xdma_xfer_completion ev cb xdev (unat (e_channel (k_eng s e))) (c_write c) (c_sgt c) False s
                                   else Some (0, s)) of
                               None \<Rightarrow> None
                             | Some (numbytes, s) \<Rightarrow>
                                 let s = char_sgdma_unmap_user_buf cb (c_write c) s;
                                     s = async_account caio err numbytes s; a = k_caio s caio
                                 in if ca_cmpl_cnt a = ca_req_cnt a
                                    then Some (emit (Kernel ''kfree'' cb 0) (cache_free caio (emit (Release (LkCdev caio))
                                           (ki_complete iocb (ca_res a) (ca_res2 a) s))))
                                    else Some (emit (Release (LkCdev caio)) s))"

text \<open>The loop over the segments \<open>(base, length)\<close> of a call; \<open>cb\<close> is the handle of the next one.  The result of
  queueing a segment is not looked at.\<close>

fun aio_loop :: "env \<Rightarrow> ptr \<Rightarrow> ptr \<Rightarrow> ptr \<Rightarrow> ptr \<Rightarrow> bool \<Rightarrow> u64 \<Rightarrow> (u64 \<times> u64) list \<Rightarrow> kst \<Rightarrow> (int \<times> kst) option" where
  "aio_loop ev xdev e caio cb write pos [] s = Some (0, s)"
| "aio_loop ev xdev e caio cb write pos (io # ios) s =
     (let s = upd_cb cb (\<lambda>c. c\<lparr>c_private := caio, c_io_done := True\<rparr>) (local_cb ev cb (fst io) (snd io) pos write s);
          rv = check_transfer_align e (fst io) (snd io) pos True s
      in if rv \<noteq> 0 then Some (rv, cache_free caio s)
         else
           let (rv, s) = char_sgdma_map_user_buf_to_sgl ev cb True s
           in if rv < 0 then Some (rv, s)
              else case xdma_xfer_submit_nowait ev cb xdev (unat (e_channel (k_eng s e))) write pos (c_sgt (k_cb s cb)) False s of
                     None \<Rightarrow> None
                   | Some (_, s) \<Rightarrow> aio_loop ev xdev e caio (cb + sizeof_io_cb ev) write pos ios s)"

definition cdev_aio :: "env \<Rightarrow> bool \<Rightarrow> ptr \<Rightarrow> (u64 \<times> u64) list \<Rightarrow> u64 \<Rightarrow> kst \<Rightarrow> (int \<times> kst) option" where
  "cdev_aio ev write iocb io pos s =
     (let xcdev = f_private_data (k_file s (ki_filp ev iocb s))
      in if xcdev = NULL then Some (- EINVAL, s)
         else
           let e = cd_engine (k_cdev s xcdev); xdev = cd_xdev (k_cdev s xcdev)
           in if e = NULL then None
              else if dir_mismatch write (e_dir (k_eng s e)) then Some (- EINVAL, s)
              else
                let (a, s) = kcall ev ''kmem_cache_alloc'' (cs_cache (k_char s)) s; caio = nat a
                in if caio = NULL then None
                   else
                     let (c, s) = kcall ev ''kzalloc'' (length io * sizeof_io_cb ev) s; cb = nat c
                     in if cb = NULL \<and> io \<noteq> [] then None
                        else
                          let s = upd_caio caio (\<lambda>_. zero_caio\<lparr>ca_cb := cb, ca_iocb := iocb, ca_write := write, ca_req_cnt := int (length io)\<rparr>) s
                          in case aio_loop ev xdev e caio cb write pos io s of
                               None \<Rightarrow> None
                             | Some (rv, s) \<Rightarrow>
                                 if rv \<noteq> 0 then Some (rv, s)
                                 else Some (- EIOCBQUEUED,
                                        if e_cmplthp (k_eng s e) \<noteq> NULL then xdma_kthread_wakeup (e_cmplthp (k_eng s e)) s else s))"

definition cdev_aio_write :: "env \<Rightarrow> ptr \<Rightarrow> (u64 \<times> u64) list \<Rightarrow> u64 \<Rightarrow> kst \<Rightarrow> (int \<times> kst) option" where
  "cdev_aio_write ev = cdev_aio ev True"

definition cdev_aio_read :: "env \<Rightarrow> ptr \<Rightarrow> (u64 \<times> u64) list \<Rightarrow> u64 \<Rightarrow> kst \<Rightarrow> (int \<times> kst) option" where
  "cdev_aio_read ev = cdev_aio ev False"

text \<open>The segments of an iterator and the offset in the first of them, which is taken for the file position.\<close>

definition cdev_write_iter :: "env \<Rightarrow> ptr \<Rightarrow> (u64 \<times> u64) list \<times> u64 \<Rightarrow> kst \<Rightarrow> (int \<times> kst) option" where
  "cdev_write_iter ev iocb io = cdev_aio_write ev iocb (fst io) (snd io)"

definition cdev_read_iter :: "env \<Rightarrow> ptr \<Rightarrow> (u64 \<times> u64) list \<times> u64 \<Rightarrow> kst \<Rightarrow> (int \<times> kst) option" where
  "cdev_read_iter ev iocb io = cdev_aio_read ev iocb (fst io) (snd io)"

subsection \<open>Performance measurement\<close>

definition IOCTL_XDMA_PERF_V1 :: u32 where "IOCTL_XDMA_PERF_V1 = 1"

text \<open>The layout of the measurement block, 40 bytes.\<close>

definition perf_of_bytes :: "u8 list \<Rightarrow> xdma_performance_ioctl" where
  "perf_of_bytes bs = \<lparr>pf_version = le_word (slice 0 4 bs), pf_transfer_size = le_word (slice 4 4 bs),
     pf_stopped = le_word (slice 8 4 bs), pf_iterations = le_word (slice 12 4 bs),
     pf_clock_cycle_count = le_word (slice 16 8 bs), pf_data_cycle_count = le_word (slice 24 8 bs),
     pf_pending_count = le_word (slice 32 8 bs)\<rparr>"

definition perf_bytes :: "xdma_performance_ioctl \<Rightarrow> u8 list" where
  "perf_bytes p = le_bytes 4 (pf_version p) @ le_bytes 4 (pf_transfer_size p) @ le_bytes 4 (pf_stopped p) @ le_bytes 4 (pf_iterations p)
     @ le_bytes 8 (pf_clock_cycle_count p) @ le_bytes 8 (pf_data_cycle_count p) @ le_bytes 8 (pf_pending_count p)"

text \<open>The copy returns the number of bytes it could not read, which is never negative.\<close>

definition ioctl_do_perf_start :: "env \<Rightarrow> ptr \<Rightarrow> u64 \<Rightarrow> kst \<Rightarrow> (int \<times> kst) option" where
  "ioctl_do_perf_start ev e arg s =
     (if e = NULL then Some (- EINVAL, s)
      else
        let xdev = e_xdev (k_eng s e)
        in if xdev = NULL then Some (- EINVAL, s)
           else if e_xdma_perf (k_eng s e) \<noteq> None then Some (- EBUSY, s)
           else
             let (p, s) = kcall ev ''kzalloc'' 40 s
             in if nat p = NULL then Some (- ENOMEM, s)
                else
                  let perf = perf_of_bytes (snd (copy_from_user ev arg 40 s));
                      s = upd_eng e (\<lambda>g. g\<lparr>e_xdma_perf := Some perf\<rparr>) s
                  in if pf_version perf \<noteq> IOCTL_XDMA_PERF_V1 then Some (- EINVAL, s)
                     else xdma_performance_submit ev xdev e (enable_perf ev e s))"

definition ioctl_do_perf_stop :: "env \<Rightarrow> ptr \<Rightarrow> u64 \<Rightarrow> kst \<Rightarrow> (int \<times> kst) option" where
  "ioctl_do_perf_stop ev e arg s =
     (if e = NULL then Some (- EINVAL, s)
      else if e_xdma_perf (k_eng s e) = None then Some (- EINVAL, s)
      else case engine_cyclic_stop ev e s of
             None \<Rightarrow> None
           | Some (transfer, s) \<Rightarrow>
               if transfer = NULL then Some (- EINVAL, s)
               else
                 let s = get_perf_stats ev e s
                 in case e_xdma_perf (k_eng s e) of
                      None \<Rightarrow> None
                    | Some perf \<Rightarrow>
                        let (rv, s) = copy_to_user ev arg (perf_bytes perf) s
                        in if rv \<noteq> 0 then Some (int rv, s)
                           else Some (0, upd_eng e (\<lambda>g. g\<lparr>e_xdma_perf := None\<rparr>)
                                  (emit (Kernel ''kfree perf'' e 0) (emit (Kernel ''kfree'' transfer 0) s))))"

definition ioctl_do_perf_get :: "env \<Rightarrow> ptr \<Rightarrow> u64 \<Rightarrow> kst \<Rightarrow> (int \<times> kst) option" where
  "ioctl_do_perf_get ev e arg s =
     (if e = NULL then Some (- EINVAL, s)
      else if e_xdma_perf (k_eng s e) = None then Some (- EPROTO, s)
      else
        let s = get_perf_stats ev e s
        in case e_xdma_perf (k_eng s e) of
             None \<Rightarrow> None
           | Some perf \<Rightarrow>
               let (rc, s) = copy_to_user ev arg (perf_bytes perf) s
               in if rc \<noteq> 0 then Some (int rc, s) else Some (0, s))"

subsection \<open>Other calls\<close>

definition ioctl_do_addrmode_set :: "env \<Rightarrow> ptr \<Rightarrow> u64 \<Rightarrow> kst \<Rightarrow> int \<times> kst" where
  "ioctl_do_addrmode_set ev e arg s = engine_addrmode_set ev e arg s"

definition ioctl_do_addrmode_get :: "env \<Rightarrow> ptr \<Rightarrow> u64 \<Rightarrow> kst \<Rightarrow> int \<times> kst" where
  "ioctl_do_addrmode_get ev e arg s =
     (if e = NULL then (- EINVAL, s) else put_user ev arg (if e_non_incr_addr (k_eng s e) then 1 else 0) s)"

definition ioctl_do_align_get :: "env \<Rightarrow> ptr \<Rightarrow> u64 \<Rightarrow> kst \<Rightarrow> int \<times> kst" where
  "ioctl_do_align_get ev e arg s =
     (if e = NULL then (- EINVAL, s) else put_user ev arg (ucast (e_addr_align (k_eng s e))) s)"

record xdma_aperture_ioctl =
  ap_ep_addr :: u64
  ap_aperture :: u32
  ap_buffer :: u64
  ap_len :: u64
  ap_error :: u32
  ap_done :: u64

text \<open>The layout of an aperture call, 48 bytes; the padding is not looked at and is copied back as zeros.\<close>

definition aperture_of_bytes :: "u8 list \<Rightarrow> xdma_aperture_ioctl" where
  "aperture_of_bytes bs = \<lparr>ap_ep_addr = le_word (slice 0 8 bs), ap_aperture = le_word (slice 8 4 bs),
     ap_buffer = le_word (slice 16 8 bs), ap_len = le_word (slice 24 8 bs), ap_error = le_word (slice 32 4 bs),
     ap_done = le_word (slice 40 8 bs)\<rparr>"

definition aperture_bytes :: "xdma_aperture_ioctl \<Rightarrow> u8 list" where
  "aperture_bytes io = le_bytes 8 (ap_ep_addr io) @ le_bytes 4 (ap_aperture io) @ replicate 4 0 @ le_bytes 8 (ap_buffer io)
     @ le_bytes 8 (ap_len io) @ le_bytes 4 (ap_error io) @ replicate 4 0 @ le_bytes 8 (ap_done io)"

definition ioctl_do_aperture_dma ::
    "env \<Rightarrow> (kst \<Rightarrow> kst) \<Rightarrow> ptr \<Rightarrow> ptr \<Rightarrow> u64 \<Rightarrow> bool \<Rightarrow> kst \<Rightarrow> (int \<times> kst) option" where
  "ioctl_do_aperture_dma ev others cb e arg write s =
     (let io = aperture_of_bytes (snd (copy_from_user ev arg 48 s))
      in if dir_mismatch write (e_dir (k_eng s e)) then Some (- EINVAL, s)
         else
           let rv = check_transfer_align e (ap_buffer io) (ap_len io) (ap_ep_addr io) True s
           in if rv \<noteq> 0 then Some (rv, s)
              else
                let s = local_cb ev cb (ap_buffer io) (ap_len io) (ap_ep_addr io) write s;
                    (rv, s) = char_sgdma_map_user_buf_to_sgl ev cb write s
                in if rv < 0 then Some (rv, s)
                   else case xdma_xfer_aperture ev others e write (ap_ep_addr io) (ap_aperture io) (c_sgt (k_cb s cb)) False s of
                          None \<Rightarrow> None
                        | Some (res, s) \<Rightarrow>
                            let s = char_sgdma_unmap_user_buf cb write s;
                                io = (if res < 0 then io\<lparr>ap_error := word_of_int res\<rparr>
                                      else io\<lparr>ap_error := 0, ap_done := word_of_int res\<rparr>);
                                s = snd (copy_to_user ev arg (aperture_bytes io) s)
                            in Some (sint (ap_error io), s))"

definition IOCTL_XDMA_PERF_START :: u32 where "IOCTL_XDMA_PERF_START = IOC 1 0x71 1 8"
definition IOCTL_XDMA_PERF_STOP :: u32 where "IOCTL_XDMA_PERF_STOP = IOC 1 0x71 2 8"
definition IOCTL_XDMA_PERF_GET :: u32 where "IOCTL_XDMA_PERF_GET = IOC 2 0x71 3 8"
definition IOCTL_XDMA_ADDRMODE_SET :: u32 where "IOCTL_XDMA_ADDRMODE_SET = IOC 1 0x71 4 4"
definition IOCTL_XDMA_ADDRMODE_GET :: u32 where "IOCTL_XDMA_ADDRMODE_GET = IOC 2 0x71 5 4"
definition IOCTL_XDMA_ALIGN_GET :: u32 where "IOCTL_XDMA_ALIGN_GET = IOC 2 0x71 6 4"
definition IOCTL_XDMA_APERTURE_R :: u32 where "IOCTL_XDMA_APERTURE_R = IOC 1 0x71 7 8"
definition IOCTL_XDMA_APERTURE_W :: u32 where "IOCTL_XDMA_APERTURE_W = IOC 1 0x71 8 8"

lemmas ioctl_defs = IOCTL_XDMA_PERF_START_def IOCTL_XDMA_PERF_STOP_def IOCTL_XDMA_PERF_GET_def IOCTL_XDMA_ADDRMODE_SET_def
  IOCTL_XDMA_ADDRMODE_GET_def IOCTL_XDMA_ALIGN_GET_def IOCTL_XDMA_APERTURE_R_def IOCTL_XDMA_APERTURE_W_def IOC_def

definition char_sgdma_ioctl ::
    "env \<Rightarrow> (kst \<Rightarrow> kst) \<Rightarrow> ptr \<Rightarrow> ptr \<Rightarrow> u32 \<Rightarrow> u64 \<Rightarrow> kst \<Rightarrow> (int \<times> kst) option" where
  "char_sgdma_ioctl ev others cb fp cmd arg s =
     (let xcdev = f_private_data (k_file s fp); rv = xcdev_check xcdev True s; e = cd_engine (k_cdev s xcdev)
      in if rv < 0 then Some (rv, s)
         else if cmd = IOCTL_XDMA_PERF_START then ioctl_do_perf_start ev e arg s
         else if cmd = IOCTL_XDMA_PERF_STOP then ioctl_do_perf_stop ev e arg s
         else if cmd = IOCTL_XDMA_PERF_GET then ioctl_do_perf_get ev e arg s
         else if cmd = IOCTL_XDMA_ADDRMODE_SET then Some (ioctl_do_addrmode_set ev e arg s)
         else if cmd = IOCTL_XDMA_ADDRMODE_GET then Some (ioctl_do_addrmode_get ev e arg s)
         else if cmd = IOCTL_XDMA_ALIGN_GET then Some (ioctl_do_align_get ev e arg s)
         else if cmd = IOCTL_XDMA_APERTURE_R then ioctl_do_aperture_dma ev others cb e arg False s
         else if cmd = IOCTL_XDMA_APERTURE_W then ioctl_do_aperture_dma ev others cb e arg True s
         else Some (- EINVAL, s))"

definition O_TRUNC :: u32 where "O_TRUNC = 0x200"

text \<open>The result of \<open>char_open\<close> is not looked at.\<close>

definition char_sgdma_open :: "ptr \<Rightarrow> ptr \<Rightarrow> kst \<Rightarrow> (int \<times> kst) option" where
  "char_sgdma_open inode_xcdev fp s =
     (let s = snd (char_open inode_xcdev fp s); xcdev = f_private_data (k_file s fp); e = cd_engine (k_cdev s xcdev); g = k_eng s e
      in if xcdev = NULL \<or> e = NULL then None
         else if e_streaming g \<and> e_dir g = DMA_FROM_DEVICE then
           if e_device_open g then Some (- EBUSY, s)
           else Some (0, upd_eng e (\<lambda>g. g\<lparr>e_device_open := True, e_eop_flush := (f_flags (k_file s fp) AND O_TRUNC \<noteq> 0)\<rparr>) s)
         else Some (0, s))"

definition char_sgdma_close :: "ptr \<Rightarrow> kst \<Rightarrow> int \<times> kst" where
  "char_sgdma_close fp s =
     (let xcdev = f_private_data (k_file s fp); rv = xcdev_check xcdev True s; e = cd_engine (k_cdev s xcdev); g = k_eng s e
      in if rv < 0 then (rv, s)
         else if e_streaming g \<and> e_dir g = DMA_FROM_DEVICE then (0, upd_eng e (\<lambda>g. g\<lparr>e_device_open := False\<rparr>) s)
         else (0, s))"

subsection \<open>The table of a user buffer\<close>

text \<open>The addresses of the bytes of a table, in order; and the place of byte \<open>k\<close> of a buffer that starts at offset \<open>off\<close> of the first
  of the page frames \<open>ps\<close>.\<close>

definition sg_addrs :: "scatterlist list \<Rightarrow> u64 list" where
  "sg_addrs sgs = concat (map (\<lambda>sg. map (\<lambda>i. sg_dma_address sg + of_nat i) [0..<unat (sg_dma_len sg)]) sgs)"

definition byte_place :: "u64 list \<Rightarrow> nat \<Rightarrow> nat \<Rightarrow> u64" where
  "byte_place ps off k = ps ! ((off + k) div 4096) * 4096 + of_nat ((off + k) mod 4096)"

lemma page_offset: "unat (buf AND (PAGE_SIZE - 1)) = unat buf mod 4096"
proof -
  have "PAGE_SIZE - 1 = mask 12" by (simp add: PAGE_SIZE_def mask_eq_exp_minus_1)
  then show ?thesis by (simp add: word_and_eq_mod unat_mod_distrib)
qed

lemma page_offset32: "unat (ucast (buf AND (PAGE_SIZE - 1)) :: u32) = unat buf mod 4096"
proof -
  have "unat buf mod 4096 < 4096" by simp
  then have "unat buf mod 4096 < 2 ^ 32" by (rule less_trans) simp
  then show ?thesis by (simp add: unsigned_ucast_eq page_offset take_bit_nat_eq_self)
qed

lemma pages_needed_nat:
  assumes "unat buf + unat len + 4095 < 2 ^ 64" "unat len < 2 ^ 32"
  shows "unat (pages_needed buf len) = (unat buf mod 4096 + unat len + 4095) div 4096"
proof -
  have a: "unat (buf + len + PAGE_SIZE - 1) = unat buf + unat len + 4095"
  proof -
    have e: "buf + len + PAGE_SIZE - 1 = (buf + len) + 4095" by (simp add: PAGE_SIZE_def)
    have "unat (buf + len) = unat buf + unat len" using assms(1) by (simp add: unat_word_ariths)
    moreover have "unat (buf + len + 4095) = unat (buf + len) + unat (4095 :: u64)"
      using assms(1) calculation by (intro unat_add_lem [THEN iffD1]) simp
    ultimately show ?thesis unfolding e by simp
  qed
  have m: "buf AND PAGE_MASK = buf - (buf AND (PAGE_SIZE - 1))"
  proof -
    have "buf - (buf AND (PAGE_SIZE - 1)) = buf AND NOT (buf AND (PAGE_SIZE - 1))"
      by (rule disjunctive_diff_eq_and_not) (rule bit_word_eqI, simp add: bit_simps)
    also have "\<dots> = buf AND NOT (PAGE_SIZE - 1)" by (rule bit_word_eqI) (auto simp: bit_simps)
    finally show ?thesis by (simp only: PAGE_MASK_def)
  qed
  have b: "unat (buf AND PAGE_MASK) = unat buf - unat buf mod 4096"
    unfolding m by (simp add: unat_sub word_and_le1 word_and_le2 page_offset)
  have le: "unat (buf AND PAGE_MASK) \<le> unat (buf + len + PAGE_SIZE - 1)" unfolding a b by simp
  have "unat (buf + len + PAGE_SIZE - 1 - (buf AND PAGE_MASK)) = unat buf mod 4096 + unat len + 4095"
    using le unfolding word_le_nat_alt [symmetric] by (simp add: unat_sub a b)
  then have d: "unat (drop_bit 12 (buf + len + PAGE_SIZE - 1 - (buf AND PAGE_MASK))) = (unat buf mod 4096 + unat len + 4095) div 4096"
    by (simp add: drop_bit_eq_div unat_div_distrib)
  have "unat buf mod 4096 < 4096" by simp
  then have "(unat buf mod 4096 + unat len + 4095) div 4096 < 2 ^ 32" using assms(2) by (simp add: less_mult_imp_div_less)
  then show ?thesis by (simp add: pages_needed_def unsigned_ucast_eq d take_bit_nat_eq_self)
qed

lemma fill_step:
  fixes buf len :: u64
  defines "off \<equiv> unat buf mod 4096" and "nb \<equiv> min (ucast PAGE_SIZE - (ucast (buf AND (PAGE_SIZE - 1)) :: u32)) (ucast len)"
  assumes "unat len < 2 ^ 32" "unat buf + unat len < 2 ^ 64"
  shows "unat nb = min (4096 - off) (unat len)" "unat (buf + ucast nb) = unat buf + unat nb" "unat (len - ucast nb) = unat len - unat nb"
proof -
  have o: "off < 4096" by (simp add: off_def)
  have P: "ucast PAGE_SIZE = (4096 :: u32)" by (simp add: PAGE_SIZE_def)
  have p: "unat (ucast PAGE_SIZE - (ucast (buf AND (PAGE_SIZE - 1)) :: u32)) = 4096 - off"
    using o page_offset32 [of buf] unfolding P off_def [symmetric] by (simp add: unat_sub word_le_nat_alt)
  have l: "unat (ucast len :: u32) = unat len" using assms(3) by (simp add: unsigned_ucast_eq take_bit_nat_eq_self)
  show nb: "unat nb = min (4096 - off) (unat len)"
    unfolding nb_def by (simp add: min_def word_le_nat_alt p l)
  have u: "unat (ucast nb :: u64) = unat nb" by simp
  show "unat (buf + ucast nb) = unat buf + unat nb"
    using assms(4) nb u by (subst unat_add_lem [THEN iffD1]) simp_all
  show "unat (len - ucast nb) = unat len - unat nb"
    using nb u by (simp add: unat_sub word_le_nat_alt)
qed

lemma sg_fill_Cons:
  fixes p :: u64 and ps buf len
  defines "nb \<equiv> min (ucast PAGE_SIZE - (ucast (buf AND (PAGE_SIZE - 1)) :: u32)) (ucast len)"
  shows "fst (sg_fill (p # ps) buf len) = \<lparr>sg_dma_address = p * PAGE_SIZE + (buf AND (PAGE_SIZE - 1)), sg_dma_len = nb\<rparr>
      # fst (sg_fill ps (buf + ucast nb) (len - ucast nb))"
    "snd (sg_fill (p # ps) buf len) = snd (sg_fill ps (buf + ucast nb) (len - ucast nb))"
proof -
  have "ucast (ucast (buf AND (PAGE_SIZE - 1)) :: u32) = (buf AND (PAGE_SIZE - 1))"
    by (rule word_unat_eq_iff [THEN iffD2]) (simp only: unat_ucast_u64 page_offset page_offset32)
  then show "fst (sg_fill (p # ps) buf len) = \<lparr>sg_dma_address = p * PAGE_SIZE + (buf AND (PAGE_SIZE - 1)), sg_dma_len = nb\<rparr>
      # fst (sg_fill ps (buf + ucast nb) (len - ucast nb))"
    by (simp add: Let_def split_beta nb_def)
  show "snd (sg_fill (p # ps) buf len) = snd (sg_fill ps (buf + ucast nb) (len - ucast nb))"
    by (simp add: Let_def split_beta nb_def)
qed

lemma first_page_addrs:
  assumes "off = unat buf mod 4096" "off + k \<le> 4096"
  shows "map (\<lambda>i. p * PAGE_SIZE + (buf AND (PAGE_SIZE - 1)) + of_nat i) [0..<k] = map (byte_place (p # ps) off) [0..<k]"
proof -
  have "(buf AND (PAGE_SIZE - 1)) = of_nat off" by (rule word_unat_eq_iff [THEN iffD2]) (simp add: page_offset assms(1) take_bit_nat_eq_self unsigned_of_nat)
  then show ?thesis using assms(2) by (auto simp: byte_place_def PAGE_SIZE_def)
qed

lemma map_upt_split: "m \<le> n \<Longrightarrow> map f [0..<n] = map f [0..<m] @ map (\<lambda>j. f (m + j)) [0..<n - m]"
  by (rule nth_equalityI) (auto simp: nth_append)

lemma sg_fill_ok:
  assumes "unat len < 2 ^ 32" "unat buf + unat len < 2 ^ 64" "length ps = (unat buf mod 4096 + unat len + 4095) div 4096"
  shows "snd (sg_fill ps buf len) = 0 \<and> length (fst (sg_fill ps buf len)) = length ps
    \<and> sg_addrs (fst (sg_fill ps buf len)) = map (byte_place ps (unat buf mod 4096)) [0..<unat len]
    \<and> (\<Sum>sg \<leftarrow> fst (sg_fill ps buf len). unat (sg_dma_len sg)) = unat len
    \<and> (\<forall>sg \<in> set (fst (sg_fill ps buf len)). unat (sg_dma_len sg) \<le> 4096)"
  using assms
proof (induction ps arbitrary: buf len)
  case Nil
  then have "unat len = 0" by simp
  then show ?case by (simp add: sg_addrs_def unat_eq_0)
next
  case (Cons p ps)
  define nb where "nb = min (ucast PAGE_SIZE - (ucast (buf AND (PAGE_SIZE - 1)) :: u32)) (ucast len)"
  define off where "off = unat buf mod 4096"
  note st = fill_step [OF Cons.prems(1,2), folded nb_def off_def] and f = sg_fill_Cons [where p = p and ps = ps and buf = buf and len = len, folded nb_def]
  have o: "off < 4096" by (simp add: off_def)
  have first: "map (\<lambda>i. p * PAGE_SIZE + (buf AND (PAGE_SIZE - 1)) + of_nat i) [0..<unat nb] = map (byte_place (p # ps) off) [0..<unat nb]"
    by (rule first_page_addrs) (use o st(1) in \<open>auto simp: off_def\<close>)
  show ?case
  proof (cases "unat len \<le> 4096 - off")
    case True
    then have k: "unat nb = unat len" using st(1) by simp
    have "off + unat len + 4095 \<le> 8191" using True o by simp
    then have "(off + unat len + 4095) div 4096 \<le> 1" by simp
    then have "length (p # ps) \<le> 1" using Cons.prems(3) unfolding off_def by linarith
    then have "ps = []" by simp
    have z: "len - ucast nb = 0" using st(3) k by (simp only: unat_eq_0 [symmetric])
    have F: "fst (sg_fill (p # ps) buf len) = [\<lparr>sg_dma_address = p * PAGE_SIZE + (buf AND (PAGE_SIZE - 1)), sg_dma_len = nb\<rparr>]"
      "snd (sg_fill (p # ps) buf len) = 0"
      unfolding f z unfolding \<open>ps = []\<close> by simp_all
    show ?thesis
      unfolding F off_def [symmetric] using first k True by (simp add: sg_addrs_def \<open>ps = []\<close>)
  next
    case False
    then have k: "unat nb = 4096 - off" using st(1) by simp
    let ?n = "unat len - unat nb"
    have b: "unat (buf + ucast nb) mod 4096 = 0"
    proof -
      have "unat buf = 4096 * (unat buf div 4096) + off" by (simp add: off_def)
      then have "unat buf + (4096 - off) = 4096 * (unat buf div 4096 + 1)" using o by simp
      then show ?thesis by (simp add: st(2) k)
    qed
    have len: "length ps = (0 + ?n + 4095) div 4096"
    proof -
      have "off + unat len + 4095 = (?n + 4095) + 4096" using False o k by simp
      then have "(off + unat len + 4095) div 4096 = (?n + 4095) div 4096 + 1" by simp
      then show ?thesis using Cons.prems(3) by (simp add: off_def)
    qed
    note IH = Cons.IH [of "len - ucast nb" "buf + ucast nb", unfolded st(2,3) b [unfolded st(2)]]
    have ih: "snd (sg_fill ps (buf + ucast nb) (len - ucast nb)) = 0 \<and> length (fst (sg_fill ps (buf + ucast nb) (len - ucast nb))) = length ps
      \<and> sg_addrs (fst (sg_fill ps (buf + ucast nb) (len - ucast nb))) = map (byte_place ps 0) [0..<?n]
      \<and> (\<Sum>sg \<leftarrow> fst (sg_fill ps (buf + ucast nb) (len - ucast nb)). unat (sg_dma_len sg)) = ?n
      \<and> (\<forall>sg \<in> set (fst (sg_fill ps (buf + ucast nb) (len - ucast nb))). unat (sg_dma_len sg) \<le> 4096)"
      by (rule IH) (use Cons.prems(1,2) len False k in auto)
    have "byte_place (p # ps) off (unat nb + j) = byte_place ps 0 j" for j
    proof -
      have "off + (unat nb + j) = 4096 + j" using k o by simp
      moreover have "(4096 + j) div 4096 = Suc (j div 4096)" by simp
      ultimately show ?thesis unfolding byte_place_def by (simp only: nth_Cons_Suc) simp
    qed
    then have "map (byte_place (p # ps) off) [0..<unat len] = map (byte_place (p # ps) off) [0..<unat nb] @ map (byte_place ps 0) [0..<?n]"
      using False k map_upt_split [of "unat nb" "unat len" "byte_place (p # ps) off"] by simp
    then show ?thesis
      unfolding f off_def [symmetric] using first ih k False by (simp add: sg_addrs_def)
  qed
qed

subsection \<open>Pinned pages\<close>

text \<open>The page frames that are pinned after a trace.\<close>

fun pins :: "event list \<Rightarrow> ptr multiset" where
  "pins [] = {#}"
| "pins (Kernel f p r # es) = (if f = ''pin_page'' then add_mset p (pins es) else if f = ''put_page'' then pins es - {#p#} else pins es)"
| "pins (_ # es) = pins es"

lemma kcall_pins:
  "pins (trace (snd (kcall ev f p s))) =
     (if f = ''pin_page'' then add_mset p (pins (trace s)) else if f = ''put_page'' then pins (trace s) - {#p#} else pins (trace s))"
  by (simp add: kcall_def Let_def)

lemma pin_fold:
  "pins (trace (fold (\<lambda>p. emit (Kernel ''pin_page'' (unat p) 0)) ps s)) = pins (trace s) + mset (map unat ps)"
  "k_cb (fold (\<lambda>p. emit (Kernel ''pin_page'' (unat p) 0)) ps s) = k_cb s"
  "k_sgt (fold (\<lambda>p. emit (Kernel ''pin_page'' (unat p) 0)) ps s) = k_sgt s"
  by (induction ps arbitrary: s) simp_all

lemma release_fold:
  "pins (trace (fold (release_page w) ps s)) = pins (trace s) - mset (map unat ps)"
  "k_cb (fold (release_page w) ps s) = k_cb s" "k_sgt (fold (release_page w) ps s) = k_sgt s"
  "k_eng (fold (release_page w) ps s) = k_eng s" "k_dev (fold (release_page w) ps s) = k_dev s"
  by (induction ps arbitrary: s) (simp_all add: release_page_def put_page_def)

lemma unmap_pins:
  assumes "c_pages (k_cb t cb) = ps @ replicate m 0" "unat (c_pages_nr (k_cb t cb)) = length ps" "0 \<notin> set ps"
  shows "pins (trace (char_sgdma_unmap_user_buf cb w t)) = pins (trace t) - mset (map unat ps)"
proof (cases "ps = []")
  case True
  then have "c_pages_nr (k_cb t cb) = 0" using assms(2) by (simp add: unat_eq_0)
  then show ?thesis using True by (simp add: char_sgdma_unmap_user_buf_def Let_def sg_free_table_def)
next
  case False
  then have n: "c_pages_nr (k_cb t cb) \<noteq> 0" using assms(2) by (auto simp: unat_eq_0 [symmetric])
  have tw: "takeWhile (\<lambda>p. p \<noteq> 0) ps = ps" using assms(3) by (auto simp: takeWhile_eq_all_conv)
  show ?thesis
    using False n assms(1,2) by (simp add: tw char_sgdma_unmap_user_buf_def Let_def sg_free_table_def release_fold)
qed

text \<open>What the kernel answers to pinning pages: an error, or at most the pages asked for, none of them null.\<close>

definition gup_ok :: "env \<Rightarrow> bool" where
  "gup_ok ev \<longleftrightarrow> (\<forall>tr a n. case gup ev tr a n of Inl e \<Rightarrow> e < 0 | Inr ps \<Rightarrow> length ps \<le> unat n \<and> 0 \<notin> set ps)"

lemma gup_okD: "gup_ok ev \<Longrightarrow> case gup ev tr a n of Inl e \<Rightarrow> e < 0 | Inr ps \<Rightarrow> length ps \<le> unat n \<and> 0 \<notin> set ps"
  by (simp add: gup_ok_def)

text \<open>The buffer of a handle can be addressed and is smaller than 4 GiB; the handle holds no pages yet.\<close>

definition buf_ok :: "xdma_io_cb \<Rightarrow> bool" where
  "buf_ok c \<longleftrightarrow> unat (c_len c) < 2 ^ 32 \<and> unat (c_buf c) + unat (c_len c) + 4095 < 2 ^ 64 \<and> c_pages c = [] \<and> c_pages_nr c = 0"

text \<open>The buffer of a handle is pinned and its table filled in.\<close>

definition buf_mapped :: "ptr \<Rightarrow> xdma_io_cb \<Rightarrow> u64 list \<Rightarrow> kst \<Rightarrow> bool" where
  "buf_mapped cb c ps s \<longleftrightarrow> k_cb s cb = c\<lparr>c_pages := ps, c_pages_nr := pages_needed (c_buf c) (c_len c)\<rparr> \<and> 0 \<notin> set ps
     \<and> length ps = unat (pages_needed (c_buf c) (c_len c)) \<and> ps \<noteq> []
     \<and> k_sgt s (c_sgt c) = \<lparr>sgl = fst (sg_fill ps (c_buf c) (c_len c)), nents = length ps, orig_nents = length ps\<rparr>"

text \<open>The last part of mapping a buffer, from pinning the pages on.\<close>

definition map_pinned :: "ptr \<Rightarrow> bool \<Rightarrow> xdma_io_cb \<Rightarrow> u32 \<Rightarrow> int \<times> kst \<Rightarrow> int \<times> kst" where
  "map_pinned cb w c n r =
     (if fst r < 0 then (fst r, char_sgdma_unmap_user_buf cb w (snd r))
      else if fst r \<noteq> int (unat n)
      then (- EFAULT, char_sgdma_unmap_user_buf cb w (upd_cb cb (\<lambda>c. c\<lparr>c_pages_nr := word_of_int (fst r)\<rparr>) (snd r)))
      else if dup_pages (c_pages (k_cb (snd r) cb))
      then (- EFAULT, char_sgdma_unmap_user_buf cb w (upd_cb cb (\<lambda>c. c\<lparr>c_pages_nr := n\<rparr>) (snd r)))
      else
        let f = sg_fill (c_pages (k_cb (snd r) cb)) (c_buf c) (c_len c); s = upd_sgt (c_sgt c) (\<lambda>t. t\<lparr>sgl := fst f\<rparr>) (snd r)
        in if snd f \<noteq> 0 then (- EINVAL, s) else (0, upd_cb cb (\<lambda>c. c\<lparr>c_pages_nr := n\<rparr>) s))"

lemma map_pinned_cases:
  fixes ev cb w c n s
  defines "r \<equiv> map_pinned cb w c n (pin_pages ev cb (c_buf c) n s)"
  assumes b: "buf_ok c" and g: "gup_ok ev" and n: "n = pages_needed (c_buf c) (c_len c)" "n \<noteq> 0"
    and cb: "k_cb s cb = c\<lparr>c_pages := replicate (unat n) 0\<rparr>"
    and sg: "nents (k_sgt s (c_sgt c)) = unat n" "orig_nents (k_sgt s (c_sgt c)) = unat n"
  shows "fst r < 0 \<and> pins (trace (snd r)) = pins (trace s)
    \<or> fst r = 0 \<and> (\<exists>ps. buf_mapped cb c ps (snd r) \<and> pins (trace (snd r)) = pins (trace s) + mset (map unat ps))"
proof (cases "gup ev (trace s) (c_buf c) n")
  case (Inl e)
  then have "e < 0" using gup_okD [OF g, where tr = "trace s" and a = "c_buf c" and n = n] by simp
  moreover have "pin_pages ev cb (c_buf c) n s = (e, s)" by (simp add: pin_pages_def Inl)
  moreover have "pins (trace (char_sgdma_unmap_user_buf cb w s)) = pins (trace s)"
    using unmap_pins [where ps = "[]" and m = "unat n" and t = s and cb = cb and w = w] b by (simp add: cb buf_ok_def)
  ultimately show ?thesis by (simp add: r_def map_pinned_def)
next
  case (Inr ps)
  then have ps: "length ps \<le> unat n" "0 \<notin> set ps" using gup_okD [OF g, where tr = "trace s" and a = "c_buf c" and n = n] by simp_all
  define s5 where "s5 = snd (pin_pages ev cb (c_buf c) n s)"
  have pin: "pin_pages ev cb (c_buf c) n s = (int (length ps), s5)" by (simp add: s5_def pin_pages_def Inr)
  have k5: "k_cb s5 cb = c\<lparr>c_pages := ps @ replicate (unat n - length ps) 0\<rparr>" "pins (trace s5) = pins (trace s) + mset (map unat ps)"
    "k_sgt s5 = k_sgt s"
    by (simp_all add: s5_def pin_pages_def Inr pin_fold cb)
  have un: "pins (trace (char_sgdma_unmap_user_buf cb w (upd_cb cb (\<lambda>c. c\<lparr>c_pages_nr := k\<rparr>) s5))) = pins (trace s)" if "unat k = length ps" for k
    using unmap_pins [where ps = ps and m = "unat n - length ps" and t = "upd_cb cb (\<lambda>c. c\<lparr>c_pages_nr := k\<rparr>) s5" and cb = cb and w = w] that ps(2)
    by (simp add: k5)
  show ?thesis
  proof (cases "length ps = unat n")
    case False
    have "length ps < 2 ^ 32" using ps(1) unsigned_less [of n, where 'a = nat] by simp
    then have "unat (word_of_int (int (length ps)) :: u32) = length ps" by (simp add: unsigned_of_nat take_bit_nat_eq_self)
    moreover have "map_pinned cb w c n (int (length ps), s5)
        = (- EFAULT, char_sgdma_unmap_user_buf cb w (upd_cb cb (\<lambda>c. c\<lparr>c_pages_nr := word_of_int (int (length ps))\<rparr>) s5))"
      using False unfolding map_pinned_def fst_conv snd_conv by (simp only: of_nat_eq_iff of_nat_less_0_iff if_False if_True not_False_eq_True)
    ultimately show ?thesis using un by (simp add: r_def pin errno_defs)
  next
    case True
    have l: "length ps = (unat (c_buf c) mod 4096 + unat (c_len c) + 4095) div 4096"
      using b True n(1) pages_needed_nat [of "c_buf c" "c_len c"] by (simp add: buf_ok_def)
    have "snd (sg_fill ps (c_buf c) (c_len c)) = 0" using sg_fill_ok [OF _ _ l] b by (simp add: buf_ok_def)
    then have "map_pinned cb w c n (int (length ps), s5)
        = (if dup_pages ps then (- EFAULT, char_sgdma_unmap_user_buf cb w (upd_cb cb (\<lambda>c. c\<lparr>c_pages_nr := n\<rparr>) s5))
           else (0, upd_cb cb (\<lambda>c. c\<lparr>c_pages_nr := n\<rparr>) (upd_sgt (c_sgt c) (\<lambda>t. t\<lparr>sgl := fst (sg_fill ps (c_buf c) (c_len c))\<rparr>) s5)))"
      using True by (simp add: map_pinned_def k5 Let_def)
    moreover have "ps \<noteq> []" using True n(2) by (auto simp: unat_eq_0)
    ultimately show ?thesis
      using un [OF True [symmetric]] True ps(2) sg
      by (auto simp: r_def pin k5 errno_defs buf_mapped_def n(1) [symmetric])
  qed
qed

lemma map_user_buf_cases:
  fixes ev cb w s
  defines "r \<equiv> char_sgdma_map_user_buf_to_sgl ev cb w s" and "c \<equiv> k_cb s cb"
  assumes b: "buf_ok (k_cb s cb)" and g: "gup_ok ev"
  shows "fst r < 0 \<and> pins (trace (snd r)) = pins (trace s)
    \<or> fst r = 0 \<and> (\<exists>ps. buf_mapped cb c ps (snd r) \<and> pins (trace (snd r)) = pins (trace s) + mset (map unat ps))"
proof -
  define n where "n = pages_needed (c_buf c) (c_len c)"
  define r1 where "r1 = kcall ev (''sg_alloc_table '' @ dec (unat n)) (c_sgt c) s"
  define s2 where "s2 = upd_sgt (c_sgt c) (\<lambda>_. \<lparr>sgl = replicate (unat n) \<lparr>sg_dma_address = 0, sg_dma_len = 0\<rparr>, nents = unat n, orig_nents = unat n\<rparr>) (snd r1)"
  define r3 where "r3 = kcall ev (''kcalloc '' @ dec (unat n)) 8 s2"
  define s4 where "s4 = upd_cb cb (\<lambda>c. c\<lparr>c_pages := replicate (unat n) 0\<rparr>) (snd r3)"
  have k1: "pins (trace (snd r1)) = pins (trace s)" "k_cb (snd r1) = k_cb s" by (simp_all add: r1_def kcall_pins)
  have k3: "pins (trace (snd r3)) = pins (trace s)" "k_cb (snd r3) = k_cb s" "k_sgt (snd r3) = k_sgt s2"
    by (simp_all add: r3_def kcall_pins s2_def k1)
  have k4: "pins (trace s4) = pins (trace s)" "k_cb s4 cb = c\<lparr>c_pages := replicate (unat n) 0\<rparr>" "k_sgt s4 = k_sgt s2"
    by (simp_all add: s4_def k3 c_def)
  define r5 where "r5 = pin_pages ev cb (c_buf c) n s4"
  note eqs = r_def char_sgdma_map_user_buf_to_sgl_def Let_def c_def [symmetric] n_def [symmetric] r1_def [symmetric] s2_def [symmetric]
    r3_def [symmetric] s4_def [symmetric] r5_def [symmetric] split_beta
  consider "n = 0" | "n \<noteq> 0" "fst r1 \<noteq> 0" | "n \<noteq> 0" "fst r1 = 0" "nat (fst r3) = NULL" | "n \<noteq> 0" "fst r1 = 0" "nat (fst r3) \<noteq> NULL" by blast
  then show ?thesis
  proof cases
    case 3
    then have "r = (- ENOMEM, char_sgdma_unmap_user_buf cb w (upd_cb cb (\<lambda>c. c\<lparr>c_pages := []\<rparr>) (snd r3)))" unfolding eqs by simp
    then show ?thesis using unmap_pins [where ps = "[]" and m = 0 and cb = cb and w = w] b by (simp add: k3 buf_ok_def errno_defs)
  next
    case 4
    then have "r = map_pinned cb w c n r5" unfolding eqs map_pinned_def by simp
    then show ?thesis
      using map_pinned_cases [where cb = cb and w = w and c = c and n = n and ev = ev and s = s4] b g 4 by (simp add: r5_def k4 n_def c_def s2_def)
  qed (unfold eqs, simp_all add: k1 errno_defs)
qed

subsection \<open>What a read or write does to the rest of the driver\<close>

lemma unmap_frame [simp]:
  "k_eng (char_sgdma_unmap_user_buf cb w s) = k_eng s" "k_dev (char_sgdma_unmap_user_buf cb w s) = k_dev s"
  by (simp_all add: char_sgdma_unmap_user_buf_def sg_free_table_def Let_def release_fold)

lemma unmap_frame2:
  "k_xdev_list (fold (release_page w) ps s) = k_xdev_list s" "k_char (fold (release_page w) ps s) = k_char s"
  "k_xdev_list (fold (\<lambda>p. emit (Kernel ''pin_page'' (unat p) 0)) ps s) = k_xdev_list s"
  "k_eng (fold (\<lambda>p. emit (Kernel ''pin_page'' (unat p) 0)) ps s) = k_eng s" "k_dev (fold (\<lambda>p. emit (Kernel ''pin_page'' (unat p) 0)) ps s) = k_dev s"
  by (induction ps arbitrary: s) (simp_all add: release_page_def put_page_def)

lemma pin_pages_frame [simp]:
  "k_eng (snd (pin_pages ev cb a n s)) = k_eng s" "k_dev (snd (pin_pages ev cb a n s)) = k_dev s"
  "k_xdev_list (snd (pin_pages ev cb a n s)) = k_xdev_list s"
  by (simp_all add: pin_pages_def unmap_frame2 split: sum.split)

lemma unmap_frame3 [simp]: "k_xdev_list (char_sgdma_unmap_user_buf cb w s) = k_xdev_list s"
  by (simp add: char_sgdma_unmap_user_buf_def sg_free_table_def Let_def unmap_frame2)

lemma map_user_buf_frame:
  "k_eng (snd (char_sgdma_map_user_buf_to_sgl ev cb w s)) = k_eng s" "k_dev (snd (char_sgdma_map_user_buf_to_sgl ev cb w s)) = k_dev s"
  "k_xdev_list (snd (char_sgdma_map_user_buf_to_sgl ev cb w s)) = k_xdev_list s"
  by (simp_all add: char_sgdma_map_user_buf_to_sgl_def Let_def split_beta)

lemma local_cb_frame [simp]:
  "k_eng (local_cb ev cb b n ep w s) = k_eng s" "k_dev (local_cb ev cb b n ep w s) = k_dev s" "k_xdev_list (local_cb ev cb b n ep w s) = k_xdev_list s"
  "k_cb (local_cb ev cb b n ep w s) cb = zero_io_cb\<lparr>c_sgt := cb + offsetof_sgt ev, c_buf := b, c_len := n, c_ep_addr := ep, c_write := w\<rparr>"
  "trace (local_cb ev cb b n ep w s) = trace s"
  by (simp_all add: local_cb_def zero_cb_def)

text \<open>The services of the kernel that a read or write needs: memory, the pages \<open>ps\<close> of the buffer, a mapping for DMA that keeps the
  lengths of the entries; and the limits of the driver.\<close>

definition kernel_serves :: "env \<Rightarrow> u64 \<Rightarrow> u64 \<Rightarrow> u64 list \<Rightarrow> bool" where
  "kernel_serves ev buf len ps \<longleftrightarrow>
     (\<forall>tr n x. ksvc ev tr (''sg_alloc_table '' @ dec n) x = 0 \<and> 0 < ksvc ev tr (''kcalloc '' @ dec n) x \<and> 0 < ksvc ev tr ''kzalloc'' x)
     \<and> (\<forall>tr. gup ev tr buf (pages_needed buf len) = Inr ps) \<and> length ps = unat (pages_needed buf len) \<and> 0 \<notin> set ps \<and> \<not> dup_pages ps
     \<and> (\<forall>tr l. map sg_dma_len (dma_map ev tr l) = map sg_dma_len l)
     \<and> 4096 \<le> unat (desc_blen_max ev) \<and> unat (desc_blen_max ev) \<le> 2 ^ 31 \<and> unat (sizeof_request_cb ev) < 2 ^ 31 \<and> 0 < offsetof_tfer ev"

lemma map_user_buf_serves:
  fixes ev cb w s
  defines "c \<equiv> k_cb s cb" and "r \<equiv> char_sgdma_map_user_buf_to_sgl ev cb w s"
  assumes b: "buf_ok (k_cb s cb)" and k: "kernel_serves ev (c_buf (k_cb s cb)) (c_len (k_cb s cb)) ps" and n: "pages_needed (c_buf (k_cb s cb)) (c_len (k_cb s cb)) \<noteq> 0"
  shows "fst r = 0" "k_cb (snd r) cb = c\<lparr>c_pages := ps, c_pages_nr := pages_needed (c_buf c) (c_len c)\<rparr>"
    "k_sgt (snd r) (c_sgt c) = \<lparr>sgl = fst (sg_fill ps (c_buf c) (c_len c)), nents = length ps, orig_nents = length ps\<rparr>"
proof -
  have l: "length ps = (unat (c_buf c) mod 4096 + unat (c_len c) + 4095) div 4096"
    using k b pages_needed_nat [of "c_buf c" "c_len c"] by (simp add: kernel_serves_def buf_ok_def c_def)
  have z: "snd (sg_fill ps (c_buf c) (c_len c)) = 0" using sg_fill_ok [OF _ _ l] b by (simp add: buf_ok_def c_def)
  have sv: "ksvc ev tr (''sg_alloc_table '' @ dec m) x = 0" "0 < ksvc ev tr (''kcalloc '' @ dec m) x" for tr m x using k by (auto simp: kernel_serves_def)
  have p: "pin_pages ev cb (c_buf c) (pages_needed (c_buf c) (c_len c)) t = (int (length ps), upd_cb cb (\<lambda>c. c\<lparr>c_pages := ps\<rparr>)
      (fold (\<lambda>p. emit (Kernel ''pin_page'' (unat p) 0)) ps t))" for t
    using k by (simp add: pin_pages_def kernel_serves_def c_def)
  have ps: "\<not> dup_pages ps" "int (length ps) = int (unat (pages_needed (c_buf c) (c_len c)))" "length ps = unat (pages_needed (c_buf c) (c_len c))"
    using k by (simp_all add: kernel_serves_def c_def)
  define n where "n = pages_needed (c_buf c) (c_len c)"
  define r1 where "r1 = kcall ev (''sg_alloc_table '' @ dec (unat n)) (c_sgt c) s"
  define s2 where "s2 = upd_sgt (c_sgt c) (\<lambda>_. \<lparr>sgl = replicate (unat n) \<lparr>sg_dma_address = 0, sg_dma_len = 0\<rparr>, nents = unat n, orig_nents = unat n\<rparr>) (snd r1)"
  define r3 where "r3 = kcall ev (''kcalloc '' @ dec (unat n)) 8 s2"
  define s4 where "s4 = upd_cb cb (\<lambda>c. c\<lparr>c_pages := replicate (unat n) 0\<rparr>) (snd r3)"
  have f: "fst r1 = 0" "0 < fst r3" unfolding r1_def r3_def kcall_sel(1) by (rule sv)+
  have k4: "k_cb s4 cb = c\<lparr>c_pages := replicate (unat n) 0\<rparr>" "k_sgt s4 (c_sgt c) = \<lparr>sgl = replicate (unat n) \<lparr>sg_dma_address = 0, sg_dma_len = 0\<rparr>, nents = unat n, orig_nents = unat n\<rparr>"
    by (simp_all add: s4_def r3_def s2_def r1_def c_def)
  have "r = map_pinned cb w c n (pin_pages ev cb (c_buf c) n s4)"
    unfolding r_def char_sgdma_map_user_buf_to_sgl_def Let_def c_def [symmetric] n_def [symmetric] r1_def [symmetric] s2_def [symmetric]
      r3_def [symmetric] s4_def [symmetric] split_beta map_pinned_def
    using n f by (simp add: n_def c_def)
  then have "r = (0, upd_cb cb (\<lambda>c. c\<lparr>c_pages_nr := n\<rparr>) (upd_sgt (c_sgt c) (\<lambda>t. t\<lparr>sgl := fst (sg_fill ps (c_buf c) (c_len c))\<rparr>)
      (upd_cb cb (\<lambda>c. c\<lparr>c_pages := ps\<rparr>) (fold (\<lambda>p. emit (Kernel ''pin_page'' (unat p) 0)) ps s4))))"
    using ps(2) by (simp add: map_pinned_def p [folded n_def] ps(1) z Let_def n_def [symmetric])
  then show "fst r = 0" "k_cb (snd r) cb = c\<lparr>c_pages := ps, c_pages_nr := pages_needed (c_buf c) (c_len c)\<rparr>"
    "k_sgt (snd r) (c_sgt c) = \<lparr>sgl = fst (sg_fill ps (c_buf c) (c_len c)), nents = length ps, orig_nents = length ps\<rparr>"
    by (simp_all add: pin_fold k4 n_def ps(3))
qed

lemma submit_target_cong:
  "k_eng s' = k_eng s \<Longrightarrow> k_dev s' = k_dev s \<Longrightarrow> k_xdev_list s' = k_xdev_list s \<Longrightarrow> submit_target d ch w e s' = submit_target d ch w e s"
  by (simp add: submit_target_def devlist_ok_def channel_engine_def)

lemma page_pieces_fit:
  assumes "4096 \<le> unat (desc_blen_max ev)" "unat (desc_blen_max ev) \<le> 2 ^ 31" "unat (sizeof_request_cb ev) < 2 ^ 31"
    "\<forall>sg \<in> set sgs. unat (sg_dma_len sg) \<le> 4096" "length sgs \<le> 2 ^ 21"
  shows "request_fits ev sgs"
proof -
  let ?b = "unat (desc_blen_max ev)"
  have "pieces_nr ?b (unat (sg_dma_len sg)) \<le> 1" if "sg \<in> set sgs" for sg
  proof -
    have "unat (sg_dma_len sg) + ?b - 1 < 2 * ?b" using assms(1,4) that by fastforce
    then have "pieces_nr ?b (unat (sg_dma_len sg)) < 2" unfolding pieces_nr_def by (rule less_mult_imp_div_less)
    then show ?thesis by simp
  qed
  then have "(\<Sum>sg \<leftarrow> sgs. pieces_nr ?b (unat (sg_dma_len sg))) \<le> (\<Sum>sg \<leftarrow> sgs. 1)" by (intro sum_list_mono) auto
  then have s: "(\<Sum>sg \<leftarrow> sgs. pieces_nr ?b (unat (sg_dma_len sg))) \<le> 2 ^ 21" using assms(5) by (simp add: sum_list_triv)
  have "unat (sizeof_request_cb ev) + 16 * (length sgs + (\<Sum>sg \<leftarrow> sgs. pieces_nr ?b (unat (sg_dma_len sg)))) < 2 ^ 32"
    using s assms(3,5) by simp
  moreover have "unat (sg_dma_len sg) + ?b \<le> 2 ^ 32" if "sg \<in> set sgs" for sg using assms(2,4) that by fastforce
  ultimately show ?thesis using assms(1) by (simp add: request_fits_def)
qed

lemma lens_same: "map f xs = map f ys \<Longrightarrow> (\<forall>x \<in> set xs. P (f x)) = (\<forall>y \<in> set ys. P (f y))"
  by (metis (mono_tags, lifting) imageE imageI list.set_map)

lemma mapped_buffer:
  fixes ev tr ps buf len
  assumes k: "kernel_serves ev buf len ps" and b: "unat len < 2 ^ 32" "unat buf + unat len + 4095 < 2 ^ 64"
  defines "es \<equiv> dma_map ev tr (fst (sg_fill ps buf len))"
  shows "length es = length ps" "(\<Sum>sg \<leftarrow> es. unat (sg_dma_len sg)) = unat len" "request_fits ev es"
proof -
  have l: "length ps = (unat buf mod 4096 + unat len + 4095) div 4096"
    using k b pages_needed_nat [of buf len] by (simp add: kernel_serves_def)
  note f = sg_fill_ok [OF b(1) _ l]
  have same: "map sg_dma_len es = map sg_dma_len (fst (sg_fill ps buf len))" using k by (simp add: es_def kernel_serves_def)
  then have "length es = length (fst (sg_fill ps buf len))" by (metis length_map)
  then show len: "length es = length ps" using f b(2) by simp
  have "map (\<lambda>sg. unat (sg_dma_len sg)) es = map (\<lambda>sg. unat (sg_dma_len sg)) (fst (sg_fill ps buf len))"
    using arg_cong [OF same, of "map unat"] by (simp add: o_def)
  then show "(\<Sum>sg \<leftarrow> es. unat (sg_dma_len sg)) = unat len" using f b(2) by simp
  have "\<forall>sg \<in> set es. unat (sg_dma_len sg) \<le> 4096"
    using lens_same [OF same, of "\<lambda>w. unat w \<le> 4096"] f b(2) by simp
  moreover have "length es \<le> 2 ^ 21"
  proof -
    have "unat buf mod 4096 + unat len + 4095 \<le> 4095 + 2 ^ 32 + 4095" using b(1) by (simp add: add_mono less_imp_le)
    then have "(unat buf mod 4096 + unat len + 4095) div 4096 \<le> (4095 + 2 ^ 32 + 4095) div 4096" by (rule div_le_mono)
    then show ?thesis unfolding len l by simp
  qed
  ultimately show "request_fits ev es" using k by (intro page_pieces_fit) (simp_all add: kernel_serves_def)
qed


subsection \<open>Properties\<close>



text \<open>A kernel that has memory and pins the page frames 1, 2 and so on; a buffer of four bytes across two pages; a file open on the
  host-to-card channel of a device.\<close>

definition env_io :: env where
  "env_io = env0\<lparr>ksvc := (\<lambda>_ f _. if take 15 f = ''sg_alloc_table '' then 0 else 0x100000),
     gup := (\<lambda>_ _ n. Inr (map (\<lambda>i. of_nat (Suc i)) [0..<unat n]))\<rparr>"

definition io_state :: kst where
  "io_state = kst0\<lparr>k_xdev_list := [1], k_cb := (\<lambda>_. zero_io_cb\<lparr>c_sgt := 40, c_buf := 0x1ffe, c_len := 4\<rparr>),
     k_dev := (\<lambda>_. zero_dev\<lparr>d_magic := MAGIC_DEVICE, d_pdev := 7, d_h2c_channel_max := 1, d_engine_h2c := (\<lambda>_. 2)\<rparr>),
     k_eng := (\<lambda>_. zero_engine\<lparr>e_magic := MAGIC_ENGINE, e_xdev := 1, e_dir := DMA_TO_DEVICE, e_desc_max := 2, e_desc := 0x8000, e_addr_align := 1\<rparr>),
     k_char := char_state0\<lparr>cs_cdev := (\<lambda>_. zero_cdev\<lparr>cd_magic := MAGIC_CHAR, cd_xdev := 1, cd_engine := 2\<rparr>),
       cs_file := (\<lambda>_. \<lparr>f_private_data = 8, f_pos = 0, f_flags = 0\<rparr>)\<rparr>\<rparr>"

lemma io_pages: "pages_needed 0x1ffe 4 = 2"
  by (rule word_unat_eq_iff [THEN iffD2]) (simp add: pages_needed_nat)

lemma env_io_serves: "kernel_serves env_io 0x1ffe 4 [1, 2]" "gup_ok env_io"
proof -
  have "[0..<2] = [0 :: nat, 1]" by (simp add: upt_rec)
  then show "kernel_serves env_io 0x1ffe 4 [1, 2]"
    by (simp add: kernel_serves_def io_pages) (simp add: env_io_def env0_def XDMA_DESC_BLEN_MAX_def)
  have "(of_nat (Suc i) :: u64) \<noteq> 0" if "i < unat (n :: u32)" for i n
  proof -
    have "Suc i < 2 ^ 64" using that unsigned_less [of n, where 'a = nat] by simp
    then have "unat (of_nat (Suc i) :: u64) = Suc i" by (simp add: unsigned_of_nat take_bit_nat_eq_self del: of_nat_Suc)
    then show ?thesis by (metis nat.distinct(1) unsigned_0)
  qed
  then show "gup_ok env_io" by (auto simp: gup_ok_def env_io_def simp del: of_nat_Suc)
qed



subsection \<open>A measurement of the wrong version\<close>

text \<open>Starting a measurement of a version that is not supported fails but occupies the engine: every later start is refused as busy,
  and stopping the measurement fails too as long as no transfer is queued.\<close>

theorem perf_bad_version_sticks:
  fixes ev e arg s
  defines "s' \<equiv> snd (the (ioctl_do_perf_start ev e arg s))"
  assumes e: "e \<noteq> NULL" "e_xdev (k_eng s e) \<noteq> NULL" and free: "e_xdma_perf (k_eng s e) = None" "e_transfer_list (k_eng s e) = []"
    and mem: "\<forall>tr x. 0 < ksvc ev tr ''kzalloc'' x"
    and ver: "\<forall>t. pf_version (perf_of_bytes (snd (copy_from_user ev arg 40 t))) \<noteq> IOCTL_XDMA_PERF_V1"
  shows "ioctl_do_perf_start ev e arg s = Some (- EINVAL, s') \<and> ioctl_do_perf_start ev e arg' s' = Some (- EBUSY, s')
    \<and> ioctl_do_perf_stop ev e arg' s' = Some (- EINVAL, s')"
proof -
  define s1 where "s1 = snd (kcall ev ''kzalloc'' 40 s)"
  define perf where "perf = perf_of_bytes (snd (copy_from_user ev arg 40 s1))"
  have m: "\<not> ksvc ev (trace s) ''kzalloc'' 40 \<le> 0" using mem [rule_format, of "trace s" 40] by linarith
  have r: "ioctl_do_perf_start ev e arg s = Some (- EINVAL, upd_eng e (\<lambda>g. g\<lparr>e_xdma_perf := Some perf\<rparr>) s1)"
    unfolding ioctl_do_perf_start_def Let_def split_beta s1_def [symmetric] perf_def [symmetric]
    using e free ver [rule_format, of s1] m by (simp add: perf_def)
  then have s': "s' = upd_eng e (\<lambda>g. g\<lparr>e_xdma_perf := Some perf\<rparr>) s1" by (simp add: s'_def)
  have k: "k_eng s1 = k_eng s" by (simp add: s1_def)
  show ?thesis
    unfolding s' r using e free
    by (simp add: ioctl_do_perf_start_def ioctl_do_perf_stop_def engine_cyclic_stop_def k Let_def)
qed

theorem perf_bad_version_sticks_witness:
  "\<exists>s'. ioctl_do_perf_start env_io 2 0 io_state = Some (- EINVAL, s') \<and> ioctl_do_perf_start env_io 2 0 s' = Some (- EBUSY, s')"
proof -
  have u: "user_bytes env_io 0 40 t = replicate 40 0" for t
    by (simp add: user_bytes_def env_io_def env0_def o_def takeWhile_map map_replicate_const)
  have "snd (copy_from_user env_io 0 40 t) = replicate 40 0" for t by (simp add: copy_from_user_def u)
  moreover have "le_word (replicate n 0) = (0 :: u32)" for n by (induction n) simp_all
  ultimately have v: "pf_version (perf_of_bytes (snd (copy_from_user env_io 0 40 t))) \<noteq> IOCTL_XDMA_PERF_V1" for t
    by (simp add: perf_of_bytes_def slice_def IOCTL_XDMA_PERF_V1_def)
  show ?thesis
    using perf_bad_version_sticks [where ev = env_io and e = 2 and s = io_state and arg = 0 and arg' = 0] v
    by (simp add: io_state_def zero_engine_def) (auto simp: env_io_def)
qed

end
