(* ===== verification/Cdev_Nodes.thy ===== *)
theory Cdev_Nodes
  imports Cdev_Char Cdev_User
begin

text \<open>
  The file operations of the control, user and bypass-window nodes (\<^verbatim>\<open>cdev_ctrl.c\<close>), of the event nodes
  (\<^verbatim>\<open>cdev_events.c\<close>) and of the descriptor bypass nodes (\<^verbatim>\<open>cdev_bypass.c\<close>).  A file position is an unbounded
  integer, an operation that moves it returns the new position beside its result.  What is proved: an
  interrupt is delivered to a reader exactly once, the bypass nodes show the queued descriptors and feed the device
  the words of the caller in order, and a mapping stays inside its BAR as long as its offset does, but
  not otherwise.
\<close>

subsection \<open>Registers: \<open>cdev_ctrl.c\<close>\<close>

text \<open>\<open>xdev->bar[xcdev->bar] + *pos\<close>\<close>

definition ctrl_reg :: "ptr \<Rightarrow> int \<Rightarrow> kst \<Rightarrow> ptr" where
  "ctrl_reg xcdev pos s =
     (let c = k_cdev s xcdev in nat ((int (d_bar (k_dev s (cd_xdev c)) (cd_bar c)) + pos) mod 2 ^ 64))"

definition char_ctrl_read :: "env \<Rightarrow> ptr \<Rightarrow> u64 \<Rightarrow> u64 \<Rightarrow> int \<Rightarrow> kst \<Rightarrow> int \<times> int \<times> kst" where
  "char_ctrl_read ev fp buf cnt pos s =
     (let xcdev = f_private_data (k_file s fp); rv = xcdev_check xcdev False s
      in if rv < 0 then (rv, pos, s)
         else if pos AND 3 \<noteq> 0 then (- EPROTO, pos, s)
         else
           let (w, s) = read_register ev (ctrl_reg xcdev pos s) s;
               (_, s) = copy_to_user ev buf (le_bytes 4 w) s
           in (4, pos + 4, s))"

definition char_ctrl_write :: "env \<Rightarrow> ptr \<Rightarrow> u64 \<Rightarrow> u64 \<Rightarrow> int \<Rightarrow> kst \<Rightarrow> int \<times> int \<times> kst" where
  "char_ctrl_write ev fp buf cnt pos s =
     (let xcdev = f_private_data (k_file s fp); rv = xcdev_check xcdev False s
      in if rv < 0 then (rv, pos, s)
         else if pos AND 3 \<noteq> 0 then (- EPROTO, pos, s)
         else
           let (_, bs) = copy_from_user ev buf 4 s
           in (4, pos + 4, write_register (le_word bs) (ctrl_reg xcdev pos s) s))"

definition DRV_MOD_VERSION_NUMBER :: u32 where "DRV_MOD_VERSION_NUMBER = 2020 * 1000 + 2 * 100 + 2"

record xdma_ioc_info =
  ii_magic :: u32
  ii_command :: u32
  ii_vendor :: u16
  ii_device :: u16
  ii_subsystem_vendor :: u16
  ii_subsystem_device :: u16
  ii_dma_engine_version :: u32
  ii_driver_version :: u32
  ii_feature_id :: u64
  ii_domain :: u16
  ii_bus :: u8
  ii_dev :: u8
  ii_func :: u8

text \<open>The structure in memory: 37 bytes and 3 of padding, which \<open>memset\<close> has cleared.\<close>

definition info_bytes :: "xdma_ioc_info \<Rightarrow> u8 list" where
  "info_bytes i =
     le_bytes 4 (ii_magic i) @ le_bytes 4 (ii_command i) @ le_bytes 2 (ii_vendor i) @ le_bytes 2 (ii_device i) @
     le_bytes 2 (ii_subsystem_vendor i) @ le_bytes 2 (ii_subsystem_device i) @ le_bytes 4 (ii_dma_engine_version i) @
     le_bytes 4 (ii_driver_version i) @ le_bytes 8 (ii_feature_id i) @ le_bytes 2 (ii_domain i) @
     [ii_bus i, ii_dev i, ii_func i, 0, 0, 0]"

text \<open>The fields of the kernel's \<open>struct pci_dev\<close>, and its macros on \<open>devfn\<close>.\<close>

definition pci_field :: "env \<Rightarrow> string \<Rightarrow> ptr \<Rightarrow> kst \<Rightarrow> 'a :: len word" where
  "pci_field ev f pdev s = of_int (ksvc ev (trace s) f pdev)"

definition PCI_BUS_NUM :: "u32 \<Rightarrow> u8" where "PCI_BUS_NUM x = ucast (drop_bit 8 x AND 0xff)"
definition PCI_SLOT :: "u32 \<Rightarrow> u8" where "PCI_SLOT devfn = ucast (drop_bit 3 devfn AND 0x1f)"
definition PCI_FUNC :: "u32 \<Rightarrow> u8" where "PCI_FUNC devfn = ucast (devfn AND 0x07)"

definition version_ioctl :: "env \<Rightarrow> ptr \<Rightarrow> u64 \<Rightarrow> kst \<Rightarrow> int \<times> kst" where
  "version_ioctl ev xcdev arg s =
     (let d = k_dev s (cd_xdev (k_cdev s xcdev)); pdev = d_pdev d; devfn = pci_field ev ''devfn'' pdev s;
          (rv, _) = copy_from_user ev arg 40 s
      in if rv \<noteq> 0 then (- EFAULT, s)
         else
           let obj = \<lparr>ii_magic = 0, ii_command = 0, ii_vendor = pci_field ev ''vendor'' pdev s, ii_device = pci_field ev ''device'' pdev s,
                      ii_subsystem_vendor = pci_field ev ''subsystem_vendor'' pdev s, ii_subsystem_device = pci_field ev ''subsystem_device'' pdev s,
                      ii_dma_engine_version = 0, ii_driver_version = DRV_MOD_VERSION_NUMBER, ii_feature_id = d_feature_id d,
                      ii_domain = 0, ii_bus = PCI_BUS_NUM devfn, ii_dev = PCI_SLOT devfn, ii_func = PCI_FUNC devfn\<rparr>;
               (r, s) = copy_to_user ev arg (info_bytes obj) s
           in if r \<noteq> 0 then (- EFAULT, s) else (0, s))"

definition XDMA_IOC_MAGIC :: u32 where "XDMA_IOC_MAGIC = 0x78"
definition XDMA_XCL_MAGIC :: u32 where "XDMA_XCL_MAGIC = 0x586C0C6C"
definition XDMA_IOCINFO :: u32 where "XDMA_IOCINFO = IOC 3 XDMA_IOC_MAGIC 1 40"
definition XDMA_IOCOFFLINE :: u32 where "XDMA_IOCOFFLINE = IOC 0 XDMA_IOC_MAGIC 2 0"
definition XDMA_IOCONLINE :: u32 where "XDMA_IOCONLINE = IOC 0 XDMA_IOC_MAGIC 3 0"

definition xlx_access_ok :: "env \<Rightarrow> u64 \<Rightarrow> u32 \<Rightarrow> kst \<Rightarrow> bool" where
  "xlx_access_ok ev arg n s \<longleftrightarrow> ksvc ev (trace s) (''access_ok '' @ dec (unat n)) (unat arg) \<noteq> 0"

definition char_ctrl_ioctl :: "env \<Rightarrow> ptr \<Rightarrow> u32 \<Rightarrow> u64 \<Rightarrow> kst \<Rightarrow> int \<times> kst" where
  "char_ctrl_ioctl ev fp cmd arg s =
     (let xcdev = f_private_data (k_file s fp); rv = xcdev_check xcdev False s; xdev = cd_xdev (k_cdev s xcdev)
      in if rv < 0 then (rv, s)
         else if xdev = NULL then (- EINVAL, s)
         else if IOC_TYPE cmd \<noteq> XDMA_IOC_MAGIC then (- ENOTTY, s)
         else if IOC_DIR cmd AND 3 \<noteq> 0 \<and> \<not> xlx_access_ok ev arg (IOC_SIZE cmd) s then (- EFAULT, s)
         else if cmd = XDMA_IOCINFO then
           let (r, bs) = copy_from_user ev arg 8 s
           in if r \<noteq> 0 then (- EFAULT, s)
              else if le_word (take 4 bs) \<noteq> XDMA_XCL_MAGIC then (- ENOTTY, s)
              else version_ioctl ev xcdev arg s
         else if cmd = XDMA_IOCOFFLINE then (0, xdma_device_offline ev (d_pdev (k_dev s xdev)) xdev s)
         else if cmd = XDMA_IOCONLINE then (0, xdma_device_online ev (d_pdev (k_dev s xdev)) xdev s)
         else (- ENOTTY, s))"

subsection \<open>Mapping a BAR\<close>

definition VMEM_FLAGS :: u64 where "VMEM_FLAGS = 0x4000 OR 0x40000 OR 0x04000000"

text \<open>The area of the calling process that is to be mapped (a structure of the kernel).\<close>

record vm_area =
  vm_start :: u64
  vm_end :: u64
  vm_pgoff :: u64
  vm_page_prot :: int
  vm_flags :: u64

definition pci_resource_start :: "env \<Rightarrow> ptr \<Rightarrow> int \<Rightarrow> kst \<Rightarrow> u64" where
  "pci_resource_start ev pdev bar s = of_int (ksvc ev (trace s) (''pci_resource_start '' @ dec (nat bar)) pdev)"

definition pci_resource_end :: "env \<Rightarrow> ptr \<Rightarrow> int \<Rightarrow> kst \<Rightarrow> u64" where
  "pci_resource_end ev pdev bar s = of_int (ksvc ev (trace s) (''pci_resource_end '' @ dec (nat bar)) pdev)"

text \<open>The physical page frame and the number of bytes are part of the name of the call.\<close>

definition remap_call :: "u64 \<Rightarrow> u64 \<Rightarrow> string" where
  "remap_call pfn n = ''io_remap_pfn_range '' @ dec (unat pfn) @ '' '' @ dec (unat n)"

definition bridge_mmap :: "env \<Rightarrow> ptr \<Rightarrow> vm_area \<Rightarrow> kst \<Rightarrow> int \<times> vm_area \<times> kst" where
  "bridge_mmap ev fp vma s =
     (let xcdev = f_private_data (k_file s fp); rv = xcdev_check xcdev False s; c = k_cdev s xcdev; pdev = d_pdev (k_dev s (cd_xdev c));
          off = push_bit 12 (vm_pgoff vma);
          phys = pci_resource_start ev pdev (cd_bar c) s + off;
          vsize = vm_end vma - vm_start vma;
          psize = pci_resource_end ev pdev (cd_bar c) s - pci_resource_start ev pdev (cd_bar c) s + 1 - off
      in if rv < 0 then (rv, vma, s)
         else if psize < vsize then (- EINVAL, vma, s)
         else
           let vma = vma\<lparr>vm_page_prot := ksvc ev (trace s) ''pgprot_noncached'' (nat (vm_page_prot vma)), vm_flags := vm_flags vma OR VMEM_FLAGS\<rparr>;
               (rv, s) = kcall ev (remap_call (drop_bit 12 phys) vsize) (unat (vm_start vma)) s
           in if rv \<noteq> 0 then (- EAGAIN, vma, s) else (0, vma, s))"

subsection \<open>Events: \<open>cdev_events.c\<close>\<close>

text \<open>A reader sleeps while there is no event; what happens until it wakes up is \<open>others\<close>.  It wakes up
  because there is an event, or because of a signal.  \<open>events_irq\<close> is a byte, what is copied a word.\<close>

definition char_events_read :: "env \<Rightarrow> (kst \<Rightarrow> kst) \<Rightarrow> ptr \<Rightarrow> u64 \<Rightarrow> u64 \<Rightarrow> int \<Rightarrow> kst \<Rightarrow> int \<times> kst" where
  "char_events_read ev others fp buf cnt pos s =
     (let xcdev = f_private_data (k_file s fp); rv = xcdev_check xcdev False s
      in if rv < 0 then (rv, s)
         else case cd_user_irq (k_cdev s xcdev) of
           None \<Rightarrow> (- EINVAL, s)
         | Some (xdev, i) \<Rightarrow>
             if cnt \<noteq> 4 then (- EPROTO, s)
             else if pos AND 3 \<noteq> 0 then (- EPROTO, s)
             else
               let s = (if ui_events_irq (d_user_irq (k_dev s xdev) i) \<noteq> 0 then s else others s)
               in if ui_events_irq (d_user_irq (k_dev s xdev) i) = 0 then (- ERESTARTSYS, s)
                  else
                    let s = emit (Acquire (LkEvents xdev i)) s;
                        events_user = ucast (ui_events_irq (d_user_irq (k_dev s xdev) i)) :: u32;
                        s = upd_user_irq xdev i (\<lambda>u. u\<lparr>ui_events_irq := 0\<rparr>) s;
                        s = emit (Release (LkEvents xdev i)) s;
                        (_, s) = copy_to_user ev buf (le_bytes 4 events_user) s
                    in (4, s))"

definition char_events_poll :: "ptr \<Rightarrow> kst \<Rightarrow> u32 \<times> kst" where
  "char_events_poll fp s =
     (let xcdev = f_private_data (k_file s fp); rv = xcdev_check xcdev False s
      in if rv < 0 then (of_int rv, s)
         else case cd_user_irq (k_cdev s xcdev) of
           None \<Rightarrow> (of_int (- EINVAL), s)
         | Some (xdev, i) \<Rightarrow>
             let s = emit (Kernel ''poll_wait'' xdev (int i)) s;
                 s = emit (Acquire (LkEvents xdev i)) s;
                 m = (if ui_events_irq (d_user_irq (k_dev s xdev) i) \<noteq> 0 then 0x1 OR 0x40 else 0)
             in (m, emit (Release (LkEvents xdev i)) s))"

subsection \<open>Descriptor bypass: \<open>cdev_bypass.c\<close>\<close>

definition desc_bytes :: "xdma_desc \<Rightarrow> u8 list" where
  "desc_bytes d =
     concat (map (le_bytes 4) [ds_control d, ds_bytes d, ds_src_addr_lo d, ds_src_addr_hi d, ds_dst_addr_lo d, ds_dst_addr_hi d,
       ds_next_lo d, ds_next_hi d])"

text \<open>The loop of \<open>copy_desc_data\<close>, over the descriptors from \<open>p\<close> on.\<close>

fun copy_descs :: "env \<Rightarrow> ptr \<Rightarrow> u64 \<Rightarrow> nat \<Rightarrow> int \<Rightarrow> u64 \<Rightarrow> u64 \<Rightarrow> kst \<Rightarrow> int \<times> u64 \<times> kst" where
  "copy_descs ev p buf 0 rc buf_offset buf_size s = (rc, buf_offset, s)"
| "copy_descs ev p buf (Suc k) rc buf_offset buf_size s =
     (if buf_offset + 32 \<le> buf_size then
        let (copy_err, s) = copy_to_user ev (buf + buf_offset) (desc_bytes (k_desc s p)) s
        in if copy_err \<noteq> 0 then copy_descs ev (desc_at p 1) buf k (- EINVAL) buf_size buf_size s
           else copy_descs ev (desc_at p 1) buf k rc (buf_offset + 32) buf_size s
      else copy_descs ev (desc_at p 1) buf k (- ENOMEM) buf_offset buf_size s)"

definition copy_desc_data :: "env \<Rightarrow> ptr \<Rightarrow> u64 \<Rightarrow> u64 \<Rightarrow> u64 \<Rightarrow> kst \<Rightarrow> int \<times> u64 \<times> kst" where
  "copy_desc_data ev transfer buf buf_offset buf_size s =
     (if buf = 0 then (- EINVAL, buf_offset, s)
      else copy_descs ev (t_desc_virt (k_xfer s transfer)) buf (unat (t_desc_num (k_xfer s transfer))) 0 buf_offset buf_size s)"

fun bypass_transfers :: "env \<Rightarrow> u64 \<Rightarrow> u64 \<Rightarrow> ptr list \<Rightarrow> int \<Rightarrow> u64 \<Rightarrow> kst \<Rightarrow> int \<times> u64 \<times> kst" where
  "bypass_transfers ev buf cnt [] rc buf_offset s = (rc, buf_offset, s)"
| "bypass_transfers ev buf cnt (x # xs) rc buf_offset s =
     (let (rc, buf_offset, s) = copy_desc_data ev x buf buf_offset cnt s in bypass_transfers ev buf cnt xs rc buf_offset s)"

definition char_bypass_read :: "env \<Rightarrow> ptr \<Rightarrow> u64 \<Rightarrow> u64 \<Rightarrow> kst \<Rightarrow> int \<times> kst" where
  "char_bypass_read ev fp buf cnt s =
     (let xcdev = f_private_data (k_file s fp); rc = xcdev_check xcdev True s; c = k_cdev s xcdev; e = cd_engine c
      in if rc < 0 then (rc, s)
         else if cnt AND 3 \<noteq> 0 then (- EINVAL, s)
         else if buf = 0 then (- EINVAL, s)
         else if d_bypass_bar_idx (k_dev s (cd_xdev c)) < 0 then (- ENODEV, s)
         else
           let s = emit (Acquire (LkEngine e)) s;
               (rc, buf_offset, s) = bypass_transfers ev buf cnt (e_transfer_list (k_eng s e)) rc 0 s;
               s = emit (Release (LkEngine e)) s
           in if rc < 0 then (rc, s) else (int (unat buf_offset), s))"

text \<open>The loop of \<open>char_bypass_write\<close>; \<open>rc\<close> is an \<open>int\<close>, so the offset is cut to 32 bits.\<close>

function bypass_words :: "env \<Rightarrow> u64 \<Rightarrow> nat \<Rightarrow> ptr \<Rightarrow> int \<Rightarrow> nat \<Rightarrow> kst \<Rightarrow> int \<times> kst" where
  "bypass_words ev buf cnt bypass_addr rc buf_offset s =
     (if buf_offset < cnt then
        let (copy_err, bs) = copy_from_user ev (buf + of_nat buf_offset) 4 s
        in if copy_err = 0 then
             bypass_words ev buf cnt bypass_addr (sint (of_nat (buf_offset + 4) :: u32)) (buf_offset + 4)
               (write_register (le_word bs) bypass_addr s)
           else (- EINVAL, s)
      else (rc, s))"
  by pat_completeness auto

termination
  by (relation "measure (\<lambda>(ev, buf, cnt, a, rc, ofs, s). cnt - ofs)") auto

declare bypass_words.simps [simp del]

definition char_bypass_write :: "env \<Rightarrow> ptr \<Rightarrow> u64 \<Rightarrow> u64 \<Rightarrow> kst \<Rightarrow> int \<times> kst" where
  "char_bypass_write ev fp buf cnt s =
     (let xcdev = f_private_data (k_file s fp); rc = xcdev_check xcdev True s; c = k_cdev s xcdev; e = cd_engine c;
          d = k_dev s (cd_xdev c)
      in if rc < 0 then (rc, s)
         else if cnt AND 3 \<noteq> 0 then (- EINVAL, s)
         else if buf = 0 then (- EINVAL, s)
         else if d_bypass_bar_idx d < 0 then (- ENODEV, s)
         else
           let s = emit (Acquire (LkEngine e)) s;
               bypass_addr = d_bar d (d_bypass_bar_idx d) + 4 * unat (e_bypass_offset (k_eng s e));
               (rc, s) = bypass_words ev buf (unat cnt) bypass_addr rc 0 s
           in (rc, emit (Release (LkEngine e)) s))"

subsection \<open>A mapping and its BAR\<close>

lemma bridge_mmap_cases:
  fixes ev vma fp s
  defines "c \<equiv> k_cdev s (f_private_data (k_file s fp))"
  defines "pdev \<equiv> d_pdev (k_dev s (cd_xdev c))"
  defines "st \<equiv> pci_resource_start ev pdev (cd_bar c) s" and "en \<equiv> pci_resource_end ev pdev (cd_bar c) s"
  defines "off \<equiv> push_bit 12 (vm_pgoff vma)" and "n \<equiv> vm_end vma - vm_start vma"
  assumes ok: "xcdev_check (f_private_data (k_file s fp)) False s = 0"
  shows "bridge_mmap ev fp vma s =
    (if en - st + 1 - off < n then (- EINVAL, vma, s)
     else
       let call = remap_call (drop_bit 12 (st + off)) n; a = unat (vm_start vma)
       in (if ksvc ev (trace s) call a = 0 then 0 else - EAGAIN,
           vma\<lparr>vm_page_prot := ksvc ev (trace s) ''pgprot_noncached'' (nat (vm_page_prot vma)), vm_flags := vm_flags vma OR VMEM_FLAGS\<rparr>,
           emit (Kernel call a (ksvc ev (trace s) call a)) s))"
  using ok by (simp add: bridge_mmap_def kcall_def Let_def assms)

text \<open>The physical address a mapping starts at and the number of bytes it covers.\<close>

definition map_first :: "u64 \<Rightarrow> vm_area \<Rightarrow> nat" where
  "map_first st vma = unat st + 4096 * unat (vm_pgoff vma)"

definition map_size :: "vm_area \<Rightarrow> nat" where
  "map_size vma = unat (vm_end vma) - unat (vm_start vma)"

lemma map_words:
  fixes st en :: u64
  assumes "vm_start vma \<le> vm_end vma" and "map_first st vma < 2 ^ 64" and "st \<le> en"
  shows "unat (vm_end vma - vm_start vma) = map_size vma" and "unat (push_bit 12 (vm_pgoff vma)) = 4096 * unat (vm_pgoff vma)"
    and "unat (st + push_bit 12 (vm_pgoff vma)) = map_first st vma"
    and "unat (drop_bit 12 (st + push_bit 12 (vm_pgoff vma))) = map_first st vma div 4096"
    and "unat (en - st) = unat en - unat st"
proof -
  show "unat (vm_end vma - vm_start vma) = map_size vma" using assms(1) by (simp add: map_size_def unat_sub)
  have m: "4096 * unat (vm_pgoff vma) < 2 ^ 64" using assms(2) by (simp add: map_first_def)
  show p: "unat (push_bit 12 (vm_pgoff vma)) = 4096 * unat (vm_pgoff vma)"
    using m by (simp add: push_bit_eq_mult unat_word_ariths mult.commute)
  show f: "unat (st + push_bit 12 (vm_pgoff vma)) = map_first st vma"
    using assms(2) by (subst unat_word_add_lt) (simp_all add: p map_first_def)
  show "unat (drop_bit 12 (st + push_bit 12 (vm_pgoff vma))) = map_first st vma div 4096"
    using f by (simp add: drop_bit_eq_div unat_div_distrib)
  show "unat (en - st) = unat en - unat st" using assms(3) by (rule unat_sub_le)
qed

lemma mmap_room:
  fixes st en :: u64
  assumes "vm_start vma \<le> vm_end vma" and "map_first st vma < 2 ^ 64" and "st \<le> en" and "unat en + 1 < 2 ^ 64"
  shows "map_first st vma \<le> unat en + 1 \<Longrightarrow>
      unat (en - st + 1 - push_bit 12 (vm_pgoff vma)) = unat en + 1 - map_first st vma"
    and "unat en + 1 < map_first st vma \<Longrightarrow>
      unat (en - st + 1 - push_bit 12 (vm_pgoff vma)) = 2 ^ 64 + unat en + 1 - map_first st vma"
proof -
  note w = map_words [OF assms(1-3)]
  have l: "unat st \<le> unat en" using assms(3) by (simp add: word_le_nat_alt)
  have one: "unat (en - st + 1) = unat en - unat st + 1"
    using assms(4) l by (subst unat_word_add_lt) (simp_all add: w)
  show "unat (en - st + 1 - push_bit 12 (vm_pgoff vma)) = unat en + 1 - map_first st vma"
    if "map_first st vma \<le> unat en + 1"
    using that l by (subst unat_sub_le) (auto simp: word_le_nat_alt one w map_first_def)
  show "unat (en - st + 1 - push_bit 12 (vm_pgoff vma)) = 2 ^ 64 + unat en + 1 - map_first st vma"
    if m: "unat en + 1 < map_first st vma"
  proof -
    have "\<not> push_bit 12 (vm_pgoff vma) \<le> en - st + 1" using m l by (simp add: word_le_nat_alt one w map_first_def)
    then show ?thesis using m l assms(2) by (simp add: unat_sub_if' one w map_first_def)
  qed
qed

text \<open>C24: Mapping a node into the calling process at an offset that lies inside its BAR (\<open>bridge_mmap\<close>) never reaches
  beyond the BAR: when the area fits into the rest of the BAR, exactly its bytes are mapped,
  starting at the physical page of the offset, and the area is marked as device memory; when it does not
  fit the call is refused and nothing changes.\<close>

theorem mmap_inside_bar:
  fixes ev vma fp s
  defines "c \<equiv> k_cdev s (f_private_data (k_file s fp))"
  defines "pdev \<equiv> d_pdev (k_dev s (cd_xdev c))"
  defines "st \<equiv> pci_resource_start ev pdev (cd_bar c) s" and "en \<equiv> pci_resource_end ev pdev (cd_bar c) s"
  assumes ok: "xcdev_check (f_private_data (k_file s fp)) False s = 0"
    and bar: "st \<le> en" "unat en + 1 < 2 ^ 64"
    and area: "vm_start vma \<le> vm_end vma" and off: "map_first st vma \<le> unat en + 1"
  shows "if map_first st vma + map_size vma \<le> unat en + 1
    then \<exists>pfn n. unat pfn = map_first st vma div 4096 \<and> unat n = map_size vma \<and>
      snd (snd (bridge_mmap ev fp vma s)) = snd (kcall ev (remap_call pfn n) (unat (vm_start vma)) s) \<and>
      fst (bridge_mmap ev fp vma s) = (if fst (kcall ev (remap_call pfn n) (unat (vm_start vma)) s) = 0 then 0 else - EAGAIN) \<and>
      vm_flags (fst (snd (bridge_mmap ev fp vma s))) AND VMEM_FLAGS = VMEM_FLAGS
    else bridge_mmap ev fp vma s = (- EINVAL, vma, s)"
proof -
  have lt: "map_first st vma < 2 ^ 64" using off bar(2) by linarith
  note w = map_words [OF area lt bar(1)] and r = mmap_room(1) [OF area lt bar off]
  have small: "en - st + 1 - push_bit 12 (vm_pgoff vma) < vm_end vma - vm_start vma \<longleftrightarrow> unat en + 1 < map_first st vma + map_size vma"
    using off by (auto simp: word_less_nat_alt r w)
  have flags: "(f OR VMEM_FLAGS) AND VMEM_FLAGS = VMEM_FLAGS" for f :: u64 by (simp add: bit_eq_iff bit_simps)
  show ?thesis
    using w(1,4) bridge_mmap_cases [OF ok, of ev vma] small flags
    unfolding c_def [symmetric] pdev_def [symmetric] st_def [symmetric] en_def [symmetric]
    by (auto simp: Let_def kcall_def)
qed

text \<open>An offset beyond the end of the BAR is not refused: the room left is computed as an unsigned difference, which
  wraps to almost the whole address space, so the call goes through and maps physical memory behind
  the BAR.\<close>

theorem mmap_outside_bar:
  fixes ev vma fp s
  defines "c \<equiv> k_cdev s (f_private_data (k_file s fp))"
  defines "pdev \<equiv> d_pdev (k_dev s (cd_xdev c))"
  defines "st \<equiv> pci_resource_start ev pdev (cd_bar c) s" and "en \<equiv> pci_resource_end ev pdev (cd_bar c) s"
  assumes ok: "xcdev_check (f_private_data (k_file s fp)) False s = 0"
    and bar: "st \<le> en" "unat en + 1 < 2 ^ 64"
    and area: "vm_start vma \<le> vm_end vma" and off: "unat en + 1 < map_first st vma"
    and fits: "map_first st vma + map_size vma \<le> 2 ^ 64" "map_first st vma < 2 ^ 64"
  shows "\<exists>pfn n. unat pfn = map_first st vma div 4096 \<and> unat n = map_size vma \<and>
      snd (snd (bridge_mmap ev fp vma s)) = snd (kcall ev (remap_call pfn n) (unat (vm_start vma)) s) \<and>
      fst (bridge_mmap ev fp vma s) = (if fst (kcall ev (remap_call pfn n) (unat (vm_start vma)) s) = 0 then 0 else - EAGAIN)"
proof -
  note w = map_words [OF area fits(2) bar(1)] and r = mmap_room(2) [OF area fits(2) bar off]
  have "\<not> en - st + 1 - push_bit 12 (vm_pgoff vma) < vm_end vma - vm_start vma"
    using off fits by (auto simp: word_less_nat_alt r w)
  then show ?thesis
    using w(1,4) bridge_mmap_cases [OF ok, of ev vma]
    unfolding c_def [symmetric] pdev_def [symmetric] st_def [symmetric] en_def [symmetric]
    by (auto simp: Let_def kcall_def)
qed

subsection \<open>A node of each kind\<close>

definition node_state :: kst where
  "node_state = kst0\<lparr>k_dev := (\<lambda>_. zero_dev\<lparr>d_magic := MAGIC_DEVICE, d_pdev := 7, d_bypass_bar_idx := 2, d_bar := (\<lambda>_. 0x4000)\<rparr>),
     k_eng := (\<lambda>_. zero_engine\<lparr>e_magic := MAGIC_ENGINE, e_bypass_offset := 0x100, e_transfer_list := [1, 2]\<rparr>),
     k_xfer := (\<lambda>x. zero_transfer\<lparr>t_desc_virt := 0x8000 * x, t_desc_num := of_nat x\<rparr>),
     k_char := char_state0\<lparr>cs_cdev := (\<lambda>_. zero_cdev\<lparr>cd_magic := MAGIC_CHAR, cd_xdev := 1, cd_engine := 2, cd_bar := 1, cd_user_irq := Some (1, 3)\<rparr>),
       cs_file := (\<lambda>_. \<lparr>f_private_data = 8, f_pos = 0, f_flags = 0\<rparr>)\<rparr>\<rparr>"

definition env_bar :: env where
  "env_bar = env0\<lparr>ksvc := (\<lambda>_ f _. if take 18 f = ''pci_resource_start'' then 0x100000 else if take 16 f = ''pci_resource_end'' then 0x10ffff else 0)\<rparr>"

lemma node_state_simps [simp]:
  "trace node_state = []" "d_magic (k_dev node_state x) = MAGIC_DEVICE" "d_pdev (k_dev node_state x) = 7"
  "d_bypass_bar_idx (k_dev node_state x) = 2" "d_bar (k_dev node_state x) i = 0x4000" "d_user_irq (k_dev node_state x) n = zero_user_irq"
  "e_magic (k_eng node_state e) = MAGIC_ENGINE" "e_bypass_offset (k_eng node_state e) = 0x100" "e_transfer_list (k_eng node_state e) = [1, 2]"
  "t_desc_virt (k_xfer node_state t) = 0x8000 * t" "t_desc_num (k_xfer node_state t) = of_nat t" "k_desc node_state p = zero_desc"
  "cd_magic (k_cdev node_state c) = MAGIC_CHAR" "cd_xdev (k_cdev node_state c) = 1" "cd_engine (k_cdev node_state c) = 2"
  "cd_bar (k_cdev node_state c) = 1" "cd_user_irq (k_cdev node_state c) = Some (1, 3)" "f_private_data (k_file node_state f) = 8"
  by (simp_all add: node_state_def kst0_def zero_dev_def zero_engine_def zero_cdev_def char_state0_def zero_transfer_def)

lemma env_bar_simps [simp]:
  "pci_resource_start env_bar pdev bar s = 0x100000" "pci_resource_end env_bar pdev bar s = 0x10ffff"
  by (simp_all add: env_bar_def pci_resource_start_def pci_resource_end_def)

lemma node_state_ok [simp]: "xcdev_check 8 b node_state = 0"
  by (simp add: xcdev_check_def)

theorem mmap_inside_bar_witness:
  "let vma = \<lparr>vm_start = 0x7000, vm_end = 0x9000, vm_pgoff = 0xf, vm_page_prot = 0, vm_flags = 0\<rparr>
   in bridge_mmap env_bar 9 vma node_state = (- EINVAL, vma, node_state)"
  using mmap_inside_bar [where ev = env_bar and fp = 9 and s = node_state
      and vma = "\<lparr>vm_start = 0x7000, vm_end = 0x9000, vm_pgoff = 0xf, vm_page_prot = 0, vm_flags = 0\<rparr>"]
  by (simp add: map_first_def map_size_def)

theorem mmap_outside_bar_witness:
  "let vma = \<lparr>vm_start = 0x7000, vm_end = 0x9000, vm_pgoff = 0x20, vm_page_prot = 0, vm_flags = 0\<rparr>
   in \<exists>pfn n. unat pfn = 0x120 \<and> unat n = 0x2000 \<and>
        snd (snd (bridge_mmap env_bar 9 vma node_state)) = snd (kcall env_bar (remap_call pfn n) 0x7000 node_state)"
  using mmap_outside_bar [where ev = env_bar and fp = 9 and s = node_state
      and vma = "\<lparr>vm_start = 0x7000, vm_end = 0x9000, vm_pgoff = 0x20, vm_page_prot = 0, vm_flags = 0\<rparr>"]
  by (auto simp: map_first_def map_size_def)

subsection \<open>Delivery of events\<close>

lemma xcdev_check_user_irq [simp]:
  "xcdev_check xcdev b (upd_user_irq xdev i f s) = xcdev_check xcdev b s" "xcdev_check xcdev b (emit e s) = xcdev_check xcdev b s"
  by (auto simp: xcdev_check_def upd_user_irq_def Let_def)

lemma upd_user_irq_sel [simp]:
  "trace (upd_user_irq xdev i f s) = trace s" "k_char (upd_user_irq xdev i f s) = k_char s"
  "d_user_irq (k_dev (upd_user_irq xdev i f s) xdev) i = f (d_user_irq (k_dev s xdev) i)"
  by (simp_all add: upd_user_irq_def)

text \<open>What raising user interrupt \<open>i\<close> any positive number of times leaves: the event byte is set; nothing a
  reader depends on has changed otherwise.\<close>

definition raised :: "env \<Rightarrow> ptr \<Rightarrow> nat \<Rightarrow> kst \<Rightarrow> kst" where
  "raised ev xdev i s = snd (user_irq_service ev (Some (xdev, i)) s)"

lemma raised_once:
  assumes h: "ui_handler (d_user_irq (k_dev s xdev) i) = NULL" and b: "ui_events_irq (d_user_irq (k_dev s xdev) i) \<in> {0, 1}"
  shows "ui_handler (d_user_irq (k_dev (raised ev xdev i s) xdev) i) = NULL" "ui_events_irq (d_user_irq (k_dev (raised ev xdev i s) xdev) i) = 1"
    "k_char (raised ev xdev i s) = k_char s" "xcdev_check xcdev f (raised ev xdev i s) = xcdev_check xcdev f s"
    "held l (trace (raised ev xdev i s)) = held l (trace s)"
  using assms by (auto simp: raised_def user_irq_service_def Let_def)

lemma raised_often:
  fixes ev s xdev i n
  assumes "ui_handler (d_user_irq (k_dev s xdev) i) = NULL" and "ui_events_irq (d_user_irq (k_dev s xdev) i) \<in> {0, 1}"
  defines "s' \<equiv> (raised ev xdev i ^^ Suc n) s"
  shows "ui_handler (d_user_irq (k_dev s' xdev) i) = NULL \<and> ui_events_irq (d_user_irq (k_dev s' xdev) i) = 1 \<and>
    k_char s' = k_char s \<and> xcdev_check xcdev f s' = xcdev_check xcdev f s \<and> held l (trace s') = held l (trace s)"
  unfolding s'_def
proof (induction n)
  case 0
  then show ?case using raised_once [OF assms(1,2)] by simp
next
  case (Suc n)
  then show ?case using raised_once [of "(raised ev xdev i ^^ Suc n) s" xdev i] by auto
qed

lemma events_read_pending:
  fixes ev others fp buf pos s
  assumes ok: "xcdev_check (f_private_data (k_file s fp)) False s = 0"
    and ui: "cd_user_irq (k_cdev s (f_private_data (k_file s fp))) = Some (xdev, i)"
    and b: "ui_events_irq (d_user_irq (k_dev s xdev) i) = 1" and p: "pos AND 3 = 0"
    and wr: "\<forall>tr j. j < 4 \<longrightarrow> uwr ev tr (buf + of_nat j)"
  defines "s' \<equiv> snd (char_events_read ev others fp buf 4 pos s)"
  shows "fst (char_events_read ev others fp buf 4 pos s) = 4"
    and "trace s' = ToUser buf [1, 0, 0, 0] # Release (LkEvents xdev i) # Acquire (LkEvents xdev i) # trace s"
    and "ui_events_irq (d_user_irq (k_dev s' xdev) i) = 0" and "k_char s' = k_char s"
    and "xcdev_check xcdev f s' = xcdev_check xcdev f s"
proof -
  let ?s = "emit (Release (LkEvents xdev i)) (upd_user_irq xdev i (\<lambda>u. u\<lparr>ui_events_irq := 0\<rparr>) (emit (Acquire (LkEvents xdev i)) s))"
  have bs: "le_bytes 4 (1 :: u32) = [1, 0, 0, 0]" by (simp add: numeral_eq_Suc drop_bit_Suc)
  have c: "copy_to_user ev buf [1, 0, 0, 0] ?s = (0, emit (ToUser buf [1, 0, 0, 0]) ?s)"
    using wr by (intro copy_to_user_all) simp
  have "char_events_read ev others fp buf 4 pos s = (4, emit (ToUser buf [1, 0, 0, 0]) ?s)"
    using ok ui b p c by (simp add: char_events_read_def Let_def bs)
  then show "fst (char_events_read ev others fp buf 4 pos s) = 4"
    and "trace s' = ToUser buf [1, 0, 0, 0] # Release (LkEvents xdev i) # Acquire (LkEvents xdev i) # trace s"
    and "ui_events_irq (d_user_irq (k_dev s' xdev) i) = 0" and "k_char s' = k_char s"
    and "xcdev_check xcdev f s' = xcdev_check xcdev f s"
    by (simp_all add: s'_def)
qed

lemma events_poll_mask:
  assumes "xcdev_check (f_private_data (k_file s fp)) False s = 0"
    and "cd_user_irq (k_cdev s (f_private_data (k_file s fp))) = Some (xdev, i)"
  shows "fst (char_events_poll fp s) = (if ui_events_irq (d_user_irq (k_dev s xdev) i) \<noteq> 0 then 0x41 else 0)"
  using assms by (simp add: char_events_poll_def Let_def)

text \<open>C25: Events reach their reader.  However often user interrupt \<open>i\<close> has fired (\<open>user_irq_service\<close>) since the last read, polling its
  event node says that it can be read; the read that follows returns the single event 1 to the
  caller, with the lock of the events released, and after it polling says that there is nothing to read.  A reader
  that was already sleeping is given the same event; one that is woken by a signal instead gets
  \<open>-ERESTARTSYS\<close> and no event is lost.\<close>

theorem events_delivered_once:
  fixes ev fp s xdev i n
  defines "fire \<equiv> raised ev xdev i ^^ Suc n"
  assumes ok: "xcdev_check (f_private_data (k_file s fp)) False s = 0"
    and ui: "cd_user_irq (k_cdev s (f_private_data (k_file s fp))) = Some (xdev, i)"
    and h: "ui_handler (d_user_irq (k_dev s xdev) i) = NULL" and b: "ui_events_irq (d_user_irq (k_dev s xdev) i) = 0"
    and p: "pos AND 3 = 0" and wr: "\<forall>tr j. j < 4 \<longrightarrow> uwr ev tr (buf + of_nat j)"
  shows "fst (char_events_poll fp (fire s)) = 0x41 \<and>
    (\<exists>s'. char_events_read ev others fp buf 4 pos (fire s) = (4, s') \<and> hd (trace s') = ToUser buf [1, 0, 0, 0] \<and>
          held (LkEvents xdev i) (trace s') = held (LkEvents xdev i) (trace s) \<and> fst (char_events_poll fp s') = 0) \<and>
    char_events_read ev fire fp buf 4 pos s = char_events_read ev others fp buf 4 pos (fire s) \<and>
    char_events_read ev (\<lambda>s. s) fp buf 4 pos s = (- ERESTARTSYS, s)"
proof (intro conjI)
  have r: "ui_events_irq (d_user_irq (k_dev (fire s) xdev) i) = 1" "k_char (fire s) = k_char s"
      "xcdev_check c f (fire s) = xcdev_check c f s" "held l (trace (fire s)) = held l (trace s)" for c f l
    using raised_often [OF h, where ev = ev and n = n] b unfolding fire_def by auto
  show "fst (char_events_poll fp (fire s)) = 0x41"
    using ok ui by (subst events_poll_mask [where xdev = xdev and i = i]) (simp_all add: r)
  note rd = events_read_pending [where s = "fire s" and fp = fp and xdev = xdev and i = i and others = others, OF _ _ r(1) p wr]
  show "\<exists>s'. char_events_read ev others fp buf 4 pos (fire s) = (4, s') \<and> hd (trace s') = ToUser buf [1, 0, 0, 0] \<and>
          held (LkEvents xdev i) (trace s') = held (LkEvents xdev i) (trace s) \<and> fst (char_events_poll fp s') = 0"
    using ok ui rd
    by (intro exI [of _ "snd (char_events_read ev others fp buf 4 pos (fire s))"])
       (simp add: r prod_eq_iff events_poll_mask [where xdev = xdev and i = i])
  show "char_events_read ev fire fp buf 4 pos s = char_events_read ev others fp buf 4 pos (fire s)"
    using ok ui b p by (simp add: char_events_read_def r Let_def)
  show "char_events_read ev (\<lambda>s. s) fp buf 4 pos s = (- ERESTARTSYS, s)"
    using ok ui b p by (simp add: char_events_read_def Let_def)
qed

theorem events_delivered_once_witness:
  "fst (char_events_poll 9 ((raised env0 1 3 ^^ Suc 4) node_state)) = 0x41 \<and>
   char_events_read env0 (\<lambda>s. s) 9 0x1000 4 0 node_state = (- ERESTARTSYS, node_state)"
  using events_delivered_once [where ev = env0 and s = node_state and fp = 9 and xdev = 1 and i = 3 and n = 4 and pos = 0 and buf = "0x1000"]
  by (simp add: zero_user_irq_def env0_def)

subsection \<open>Descriptor bypass\<close>

text \<open>The words of a byte sequence written to one register, in order.\<close>

definition write_words :: "ptr \<Rightarrow> u32 list \<Rightarrow> kst \<Rightarrow> kst" where
  "write_words a ws = fold (\<lambda>w. write_register w a) ws"

fun words_of :: "u8 list \<Rightarrow> u32 list" where
  "words_of (b0 # b1 # b2 # b3 # bs) = le_word [b0, b1, b2, b3] # words_of bs"
| "words_of _ = []"

lemma four_bytes: "4 \<le> length bs \<Longrightarrow> \<exists>b0 b1 b2 b3 rest. bs = b0 # b1 # b2 # b3 # rest"
  by (simp add: numeral_eq_Suc Suc_le_length_iff) blast

lemma bypass_words_all:
  assumes "\<forall>tr i. i < length data \<longrightarrow> umem ev tr (buf + of_nat (j + i)) = Some (data ! i)"
    and "length data = 4 * k" and "j + 4 * k < 2 ^ 31"
  shows "bypass_words ev buf (j + 4 * k) a rc j s = (if k = 0 then rc else int (j + 4 * k), write_words a (words_of data) s)"
  using assms
proof (induction k arbitrary: data j rc s)
  case 0
  then show ?case by (simp add: bypass_words.simps write_words_def)
next
  case (Suc k)
  obtain b0 b1 b2 b3 rest where d: "data = b0 # b1 # b2 # b3 # rest" using four_bytes [of data] Suc.prems(2) by auto
  have "\<forall>i < length [b0, b1, b2, b3]. umem ev (trace s) (buf + of_nat j + of_nat i) = Some ([b0, b1, b2, b3] ! i)"
  proof (intro allI impI)
    fix i assume i: "i < length [b0, b1, b2, b3]"
    have "data ! i = [b0, b1, b2, b3] ! i" using i nth_append_left [of i "[b0, b1, b2, b3]" rest] by (simp add: d)
    then show "umem ev (trace s) (buf + of_nat j + of_nat i) = Some ([b0, b1, b2, b3] ! i)"
      using Suc.prems(1) [rule_format, of i "trace s"] i by (simp add: d add.assoc)
  qed
  from copy_from_user_all [OF this] have c: "copy_from_user ev (buf + of_nat j) 4 s = (0, [b0, b1, b2, b3])" by (simp add: numeral_eq_Suc)
  have nxt: "\<forall>tr i. i < length rest \<longrightarrow> umem ev tr (buf + of_nat (j + 4 + i)) = Some (rest ! i)"
  proof (intro allI impI)
    fix tr i assume "i < length rest"
    then show "umem ev tr (buf + of_nat (j + 4 + i)) = Some (rest ! i)"
      using Suc.prems(1) [rule_format, of "4 + i" tr] by (simp add: d add.assoc)
  qed
  have i: "sint (of_nat (j + 4) :: u32) = int (j + 4)"
    using Suc.prems(3) by (simp add: sint_uint signed_take_bit_int_eq_self uint_nat unat_of_nat flip: of_nat_add)
  have "bypass_words ev buf (j + 4 * Suc k) a rc j s =
      bypass_words ev buf (j + 4 + 4 * k) a (int (j + 4)) (j + 4) (write_register (le_word [b0, b1, b2, b3]) a s)"
    by (subst bypass_words.simps) (simp add: c i [simplified] add.assoc del: le_word.simps)
  also have "\<dots> = (int (j + 4 * Suc k), write_words a (words_of rest) (write_register (le_word [b0, b1, b2, b3]) a s))"
    using Suc.IH [OF nxt] Suc.prems(2,3) by (auto simp: d)
  finally show ?case by (simp add: d write_words_def del: le_word.simps)
qed

text \<open>The bytes of descriptors shown to the caller, one after the other, from place \<open>j\<close> of the buffer on.\<close>

fun show_descs :: "u64 \<Rightarrow> nat \<Rightarrow> xdma_desc list \<Rightarrow> kst \<Rightarrow> kst" where
  "show_descs buf j [] s = s"
| "show_descs buf j (d # ds) s = show_descs buf (Suc j) ds (emit (ToUser (buf + of_nat (32 * j)) (desc_bytes d)) s)"

lemma show_descs_append: "show_descs buf j (ds @ es) s = show_descs buf (j + length ds) es (show_descs buf j ds s)"
  by (induction ds arbitrary: j s) simp_all

lemma show_descs_sel [simp]:
  "k_desc (show_descs buf j ds s) = k_desc s" "k_xfer (show_descs buf j ds s) = k_xfer s" "k_eng (show_descs buf j ds s) = k_eng s"
  "held l (trace (show_descs buf j ds s)) = held l (trace s)"
  by (induction ds arbitrary: j s) simp_all

definition descs_of :: "kst \<Rightarrow> ptr \<Rightarrow> xdma_desc list" where
  "descs_of s x = map (\<lambda>i. k_desc s (desc_at (t_desc_virt (k_xfer s x)) i)) [0..<unat (t_desc_num (k_xfer s x))]"

lemma desc_bytes_length [simp]: "length (desc_bytes d) = 32"
  by (simp add: desc_bytes_def)

lemma copy_descs_fit:
  assumes "32 * (j + n) \<le> unat cnt" and wr: "\<forall>tr i. i < unat cnt \<longrightarrow> uwr ev tr (buf + of_nat i)"
  shows "copy_descs ev p buf n rc (of_nat (32 * j)) cnt s =
    (rc, of_nat (32 * (j + n)), show_descs buf j (map (\<lambda>i. k_desc s (desc_at p i)) [0..<n]) s)"
  using assms(1)
proof (induction n arbitrary: p j s)
  case (Suc n)
  have lt: "32 * j + 32 < 2 ^ 64" using Suc.prems unsigned_less [of cnt, where 'a = nat] by simp
  have fit: "(of_nat (32 * j) + 32 :: u64) \<le> cnt"
    using Suc.prems lt by (simp add: word_le_nat_alt unat_word_ariths unat_of_nat)
  have "\<forall>i < length (desc_bytes (k_desc s p)). uwr ev (trace s) (buf + of_nat (32 * j) + of_nat i)"
  proof (intro allI impI)
    fix i assume "i < length (desc_bytes (k_desc s p))"
    then show "uwr ev (trace s) (buf + of_nat (32 * j) + of_nat i)"
      using wr [rule_format, of "32 * j + i"] Suc.prems by (simp add: add.assoc)
  qed
  note c = copy_to_user_all [OF this]
  have d: "map (\<lambda>i. k_desc s (desc_at p i)) [0..<Suc n] = k_desc s p # map (\<lambda>i. k_desc s (desc_at (desc_at p 1) i)) [0..<n]"
    by (rule nth_equalityI) (auto simp: nth_Cons desc_at_def add.assoc simp del: upt_Suc split: nat.splits)
  have "copy_descs ev p buf (Suc n) rc (of_nat (32 * j)) cnt s =
      copy_descs ev (desc_at p 1) buf n rc (of_nat (32 * Suc j)) cnt (emit (ToUser (buf + of_nat (32 * j)) (desc_bytes (k_desc s p))) s)"
    using fit c by (simp add: add.commute)
  then show ?case
    using Suc.IH [of "Suc j" "desc_at p 1" "emit (ToUser (buf + of_nat (32 * j)) (desc_bytes (k_desc s p))) s"] Suc.prems
    unfolding d by simp
qed simp

lemma bypass_transfers_fit:
  assumes "32 * (j + length (concat (map (descs_of s) xs))) \<le> unat cnt" and "buf \<noteq> 0"
    and wr: "\<forall>tr i. i < unat cnt \<longrightarrow> uwr ev tr (buf + of_nat i)"
  shows "\<exists>rc'. bypass_transfers ev buf cnt xs rc (of_nat (32 * j)) s =
      (rc', of_nat (32 * (j + length (concat (map (descs_of s) xs)))), show_descs buf j (concat (map (descs_of s) xs)) s) \<and>
    (rc = 0 \<longrightarrow> rc' = 0)"
  using assms(1)
proof (induction xs arbitrary: j rc s)
  case (Cons x xs)
  let ?n = "unat (t_desc_num (k_xfer s x))" and ?s = "show_descs buf j (descs_of s x) s"
  have l: "length (descs_of s x) = ?n" by (simp add: descs_of_def)
  have "copy_desc_data ev x buf (of_nat (32 * j)) cnt s = (0, of_nat (32 * (j + ?n)), ?s)"
    using copy_descs_fit [OF _ wr, of j ?n "t_desc_virt (k_xfer s x)" 0 s] Cons.prems assms(2)
    by (simp add: copy_desc_data_def descs_of_def)
  moreover have "descs_of ?s = descs_of s" by (simp add: descs_of_def fun_eq_iff)
  ultimately show ?case
    using Cons.IH [of "j + ?n" ?s 0] Cons.prems by (simp add: l show_descs_append add.assoc)
qed simp

text \<open>Writing to a bypass node hands the device the words of the caller's buffer: when the buffer can be read, its length is a
  multiple of four and there is a bypass BAR, all its little-endian words are written to the bypass register of the engine, in
  order and nothing else, under the lock of the engine, and the call returns the length.\<close>

theorem bypass_write_words:
  fixes ev fp buf cnt s data
  defines "c \<equiv> k_cdev s (f_private_data (k_file s fp))"
  defines "d \<equiv> k_dev s (cd_xdev c)" and "e \<equiv> cd_engine c"
  defines "reg \<equiv> d_bar d (d_bypass_bar_idx d) + 4 * unat (e_bypass_offset (k_eng s e))"
  assumes ok: "xcdev_check (f_private_data (k_file s fp)) True s = 0" and bar: "0 \<le> d_bypass_bar_idx d"
    and len: "unat cnt = length data" "4 dvd length data" "length data < 2 ^ 31" and buf: "buf \<noteq> 0"
    and rd: "\<forall>tr i. i < length data \<longrightarrow> umem ev tr (buf + of_nat i) = Some (data ! i)"
  shows "char_bypass_write ev fp buf cnt s =
    (int (length data), emit (Release (LkEngine e)) (write_words reg (words_of data) (emit (Acquire (LkEngine e)) s)))"
proof -
  obtain k where k: "length data = 4 * k" using len(2) by (elim dvdE)
  have "unat (cnt AND 3) = 0"
    using word_and_eq_mod [of cnt 2] len(1) k by (simp add: mask_eq_exp_minus_1 unat_mod_distrib)
  then have a: "cnt AND 3 = 0" by (simp add: unat_eq_zero)
  have "bypass_words ev buf (0 + 4 * k) reg 0 0 t = (if k = 0 then 0 else int (0 + 4 * k), write_words reg (words_of data) t)" for t
    using rd k len(3) by (intro bypass_words_all) simp_all
  then show ?thesis
    using ok bar buf a by (simp add: char_bypass_write_def Let_def c_def d_def e_def reg_def len(1) k)
qed

text \<open>Reading a bypass node shows the caller the descriptors the engine has queued: when the buffer can hold them all, it receives
  the 32 bytes of each descriptor of each queued transfer, in the order of the queue, without gaps, and the call returns
  their total length; the lock of the engine is released and no descriptor changes.\<close>

theorem bypass_read_descriptors:
  fixes ev fp buf cnt s
  defines "c \<equiv> k_cdev s (f_private_data (k_file s fp))"
  defines "e \<equiv> cd_engine c"
  defines "ds \<equiv> concat (map (descs_of s) (e_transfer_list (k_eng s e)))"
  assumes ok: "xcdev_check (f_private_data (k_file s fp)) True s = 0" and bar: "0 \<le> d_bypass_bar_idx (k_dev s (cd_xdev c))"
    and len: "cnt AND 3 = 0" "32 * length ds \<le> unat cnt" and buf: "buf \<noteq> 0"
    and wr: "\<forall>tr i. i < unat cnt \<longrightarrow> uwr ev tr (buf + of_nat i)"
  shows "char_bypass_read ev fp buf cnt s =
    (int (32 * length ds), emit (Release (LkEngine e)) (show_descs buf 0 ds (emit (Acquire (LkEngine e)) s)))"
proof -
  have d: "descs_of (emit ev s) = descs_of s" for ev by (simp add: descs_of_def fun_eq_iff)
  have u: "unat (of_nat (32 * length ds) :: u64) = 32 * length ds"
    using len(2) unsigned_less [of cnt, where 'a = nat] by (subst unat_of_nat) simp
  have "bypass_transfers ev buf cnt (e_transfer_list (k_eng s e)) 0 (of_nat (32 * 0)) (emit (Acquire (LkEngine e)) s) =
      (0, of_nat (32 * (0 + length ds)), show_descs buf 0 ds (emit (Acquire (LkEngine e)) s))"
    using bypass_transfers_fit [OF _ buf wr, of 0 "emit (Acquire (LkEngine e)) s" "e_transfer_list (k_eng s e)" 0] len(2)
    by (simp add: d ds_def)
  moreover have "uint (32 * of_nat (length ds) :: u64) = 32 * int (length ds)"
    using u by (simp add: uint_nat)
  ultimately show ?thesis
    using ok bar len(1) buf by (simp add: char_bypass_read_def Let_def c_def e_def)
qed

theorem bypass_write_words_witness:
  "char_bypass_write env0 9 0x1000 8 node_state =
    (8, emit (Release (LkEngine 2)) (write_words 0x4400 [0, 0] (emit (Acquire (LkEngine 2)) node_state)))"
proof -
  have "words_of (replicate 8 0) = [0, 0]" by (simp add: numeral_eq_Suc)
  then show ?thesis
    using bypass_write_words [where ev = env0 and fp = 9 and buf = "0x1000" and cnt = 8 and s = node_state and data = "replicate 8 0"]
    by (simp add: env0_def)
qed

theorem bypass_read_descriptors_witness:
  "fst (char_bypass_read env0 9 0x1000 96 node_state) = 96"
  using bypass_read_descriptors [where ev = env0 and fp = 9 and buf = "0x1000" and cnt = 96 and s = node_state]
  by (simp add: env0_def descs_of_def)

end
