(* ===== verification/Cdev_Xvc.thy ===== *)
theory Cdev_Xvc
  imports Cdev_Nodes
begin

text \<open>
  The virtual cable node (\<^verbatim>\<open>cdev_xvc.c\<close>): one \<open>ioctl\<close> shifts a vector of TMS and TDI bits through the JTAG registers of the
  device, 32 bits at a time, and returns the TDO bits.  The kernel buffer is a list of bytes; what the
  allocator left in it is a parameter.  The loop counts in 32-bit words and need not end, so it is a partial function: \<open>None\<close> is
  for not returning and for an access outside the buffer.  What is proved: for every length of up to
  \<open>2^32 - 32\<close> bits the loop is the obvious recursion over the chunks of the two vectors, hence ends, stays inside the buffer and
  returns nothing of what the allocator left; for the seven largest lengths it leaves the buffer at once.
\<close>

definition COMPLETION_LOOP_MAX :: nat where "COMPLETION_LOOP_MAX = 100"
definition XVC_BAR_LENGTH_REG :: nat where "XVC_BAR_LENGTH_REG = 0x0"
definition XVC_BAR_TMS_REG :: nat where "XVC_BAR_TMS_REG = 0x4"
definition XVC_BAR_TDI_REG :: nat where "XVC_BAR_TDI_REG = 0x8"
definition XVC_BAR_TDO_REG :: nat where "XVC_BAR_TDO_REG = 0xC"
definition XVC_BAR_CTRL_REG :: nat where "XVC_BAR_CTRL_REG = 0x10"

definition XVC_MAGIC :: u32 where "XVC_MAGIC = 0x58564344"
definition XDMA_IOCXVC :: u32 where "XDMA_IOCXVC = IOC 3 XVC_MAGIC 1 32"
definition ENOIOCTLCMD :: int where "ENOIOCTLCMD = 515"

record xvc_ioc =
  xo_opcode :: u32
  xo_length :: u32
  xo_tms_buf :: u64
  xo_tdi_buf :: u64
  xo_tdo_buf :: u64

definition xvc_of_bytes :: "u8 list \<Rightarrow> xvc_ioc" where
  "xvc_of_bytes bs = \<lparr>xo_opcode = le_word (slice 0 4 bs), xo_length = le_word (slice 4 4 bs), xo_tms_buf = le_word (slice 8 8 bs),
     xo_tdi_buf = le_word (slice 16 8 bs), xo_tdo_buf = le_word (slice 24 8 bs)\<rparr>"

subsection \<open>One chunk\<close>

text \<open>Polling for completion; the first component is the number of tries left.\<close>

fun xvc_wait :: "env \<Rightarrow> ptr \<Rightarrow> nat \<Rightarrow> kst \<Rightarrow> nat \<times> kst" where
  "xvc_wait ev base 0 s = (0, s)"
| "xvc_wait ev base (Suc cnt) s =
     (let (control, s) = read_register ev (base + XVC_BAR_CTRL_REG) s
      in if control AND 0x01 = 0 then (Suc cnt, s) else xvc_wait ev base cnt s)"

definition xvc_shift_bits :: "env \<Rightarrow> ptr \<Rightarrow> u32 \<Rightarrow> u32 \<Rightarrow> u32 \<Rightarrow> kst \<Rightarrow> int \<times> u32 \<times> kst" where
  "xvc_shift_bits ev base tms_bits tdi_bits tdo_bits s =
     (let s = write_register tms_bits (base + XVC_BAR_TMS_REG) s;
          s = write_register tdi_bits (base + XVC_BAR_TDI_REG) s;
          s = write_register 0x1 (base + XVC_BAR_CTRL_REG) s;
          (cnt, s) = xvc_wait ev base COMPLETION_LOOP_MAX s
      in if cnt = 0 then (- ETIMEDOUT, tdo_bits, s)
         else let (w, s) = read_register ev (base + XVC_BAR_TDO_REG) s in (0, w, s))"

subsection \<open>The loop\<close>

text \<open>\<open>memcpy\<close> out of and into the allocated buffer.\<close>

definition buf_read :: "u8 list \<Rightarrow> nat \<Rightarrow> nat \<Rightarrow> u8 list option" where
  "buf_read buf ofs n = (if ofs + n \<le> length buf then Some (slice ofs n buf) else None)"

definition buf_write :: "u8 list \<Rightarrow> nat \<Rightarrow> u8 list \<Rightarrow> u8 list option" where
  "buf_write buf ofs bs = (if ofs + length bs \<le> length buf then Some (take ofs buf @ bs @ drop (ofs + length bs) buf) else None)"

partial_function (option) xvc_loop ::
    "env \<Rightarrow> ptr \<Rightarrow> u32 \<Rightarrow> nat \<Rightarrow> u8 list \<Rightarrow> u32 \<Rightarrow> u32 \<Rightarrow> int \<Rightarrow> kst \<Rightarrow> (int \<times> u8 list \<times> kst) option" where
  "xvc_loop ev iobase total_bits total_bytes buf bits bits_left rv s =
     (if \<not> bits < total_bits then Some (rv, buf, s)
      else
        let bytes = unat (drop_bit 3 bits);
            s = (if bits_left < 32 then write_register bits_left (iobase + XVC_BAR_LENGTH_REG) s else s);
            shift_bytes = (if bits_left < 32 then unat (drop_bit 3 (bits_left + 7)) else 4)
        in case buf_read buf bytes shift_bytes of None \<Rightarrow> None | Some tms \<Rightarrow>
           (case buf_read buf (total_bytes + bytes) shift_bytes of None \<Rightarrow> None | Some tdi \<Rightarrow>
             (let (rv, tdo_store, s) = xvc_shift_bits ev iobase (le_word tms) (le_word tdi) 0 s
              in if rv < 0 then Some (rv, buf, s)
                 else case buf_write buf (2 * total_bytes + bytes) (take shift_bytes (le_bytes 4 tdo_store)) of None \<Rightarrow> None | Some buf \<Rightarrow>
                   xvc_loop ev iobase total_bits total_bytes buf (bits + 32) (bits_left - 32) rv s)))"

text \<open>With the lock held: the shifts, and copying the result back.  \<open>opcode\<close> 2 returns the TDI bits.\<close>

definition xvc_locked :: "env \<Rightarrow> ptr \<Rightarrow> xvc_ioc \<Rightarrow> nat \<Rightarrow> u8 list \<Rightarrow> kst \<Rightarrow> (int \<times> kst) option" where
  "xvc_locked ev iobase obj total_bytes buf s =
     (let s = (if 32 \<le> xo_length obj then write_register 0x20 (iobase + XVC_BAR_LENGTH_REG) s else s)
      in case xvc_loop ev iobase (xo_length obj) total_bytes buf 0 (xo_length obj) 0 s of
           None \<Rightarrow> None
         | Some (rv, buf, s) \<Rightarrow>
             if rv < 0 then Some (rv, s)
             else
               let out = (if xo_opcode obj = 2 then slice total_bytes total_bytes buf else slice (2 * total_bytes) total_bytes buf);
                   (r, s) = copy_to_user ev (xo_tdo_buf obj) out s
               in Some (int r, s))"

definition xvc_ioctl :: "env \<Rightarrow> (nat \<Rightarrow> u8) \<Rightarrow> ptr \<Rightarrow> u32 \<Rightarrow> u64 \<Rightarrow> kst \<Rightarrow> (int \<times> kst) option" where
  "xvc_ioctl ev junk fp cmd arg s =
     (let xcdev = f_private_data (k_file s fp); rv = xcdev_check xcdev False s; c = k_cdev s xcdev
      in if rv < 0 then Some (rv, s)
         else if cmd \<noteq> XDMA_IOCXVC then Some (- ENOIOCTLCMD, s)
         else
           let (r, bs) = copy_from_user ev arg 32 s; obj = xvc_of_bytes bs
           in if r \<noteq> 0 then Some (int r, emit (Kernel ''kfree'' NULL 0) s)
              else if xo_opcode obj \<noteq> 1 \<and> xo_opcode obj \<noteq> 2 then Some (- EINVAL, s)
              else
                let total_bytes = unat (drop_bit 3 (xo_length obj + 7));
                    (p, s) = kcall ev ''kmalloc'' (unat (of_nat total_bytes * 3 :: u32)) s; buffer = ptr_of p
                in if buffer = NULL then Some (- ENOMEM, emit (Kernel ''kfree'' NULL 0) s)
                   else
                     let (r, tms) = copy_from_user ev (xo_tms_buf obj) total_bytes s
                     in if r \<noteq> 0 then Some (int r, emit (Kernel ''kfree'' buffer 0) s)
                        else
                          let (r, tdi) = copy_from_user ev (xo_tdi_buf obj) total_bytes s
                          in if r \<noteq> 0 then Some (int r, emit (Kernel ''kfree'' buffer 0) s)
                             else
                               let s = emit (Acquire (LkCdev xcdev)) s;
                                   iobase = d_bar (k_dev s (cd_xdev c)) (cd_bar c) + cd_base c
                               in case xvc_locked ev iobase obj total_bytes (tms @ tdi @ map junk [0..<total_bytes]) s of
                                    None \<Rightarrow> None
                                  | Some (rv, s) \<Rightarrow> Some (rv, emit (Kernel ''kfree'' buffer 0) (emit (Release (LkCdev xcdev)) s)))"

subsection \<open>The reference: chunk by chunk\<close>

function xvc_chunks :: "env \<Rightarrow> ptr \<Rightarrow> nat \<Rightarrow> u8 list \<Rightarrow> u8 list \<Rightarrow> kst \<Rightarrow> int \<times> u8 list \<times> kst" where
  "xvc_chunks ev base n tms tdi s =
     (if n = 0 then (0, [], s)
      else
        let k = (min n 32 + 7) div 8;
            s = (if n < 32 then write_register (of_nat n) (base + XVC_BAR_LENGTH_REG) s else s);
            (rv, tdo, s) = xvc_shift_bits ev base (le_word (take k tms)) (le_word (take k tdi)) 0 s
        in if rv < 0 then (rv, [], s)
           else
             let (rv, rest, s) = xvc_chunks ev base (n - 32) (drop k tms) (drop k tdi) s
             in (rv, take k (le_bytes 4 tdo) @ rest, s))"
  by pat_completeness auto

termination
  by (relation "measure (\<lambda>(ev, base, n, tms, tdi, s). n)") auto

declare xvc_chunks.simps [simp del]

subsection \<open>The loop is the recursion over the chunks\<close>

lemma buf_read_in:
  "a + k \<le> length xs \<Longrightarrow> buf_read (xs @ ys) a k = Some (take k (drop a xs))"
  "a + k \<le> length xs \<Longrightarrow> m = length zs \<Longrightarrow> buf_read (zs @ xs @ ys) (m + a) k = Some (take k (drop a xs))"
  by (simp_all add: buf_read_def slice_def)

lemma buf_write_in:
  "length bs \<le> length ys \<Longrightarrow> m = length xs \<Longrightarrow> buf_write (xs @ ys) m bs = Some (xs @ bs @ drop (length bs) ys)"
  by (simp add: buf_write_def)

lemma xvc_shift_result: "fst (xvc_shift_bits ev base a b c s) \<in> {0, - ETIMEDOUT}"
  by (simp add: xvc_shift_bits_def Let_def split: prod.split)

text \<open>The counters of the loop, as numbers.\<close>

lemma xvc_counters:
  fixes bits_total :: u32
  assumes "unat bits_total \<le> 2 ^ 32 - 32" and "32 * j < unat bits_total"
  defines "n \<equiv> unat bits_total - 32 * j" and "bits \<equiv> of_nat (32 * j) :: u32"
  shows "bits < bits_total" "unat (drop_bit 3 bits) = 4 * j" "unat (bits_total - bits) = n"
    "bits_total - bits < 32 \<longleftrightarrow> n < 32" "n < 32 \<Longrightarrow> unat (drop_bit 3 (bits_total - bits + 7)) = (n + 7) div 8"
proof -
  have lt: "32 * j < 2 ^ 32" using assms(1,2) by simp
  have b: "unat bits = 32 * j" unfolding bits_def using lt by (subst unat_of_nat) simp
  show 1: "bits < bits_total" using assms(2) b by (simp add: word_less_nat_alt)
  show "unat (drop_bit 3 bits) = 4 * j" using b by (simp add: drop_bit_eq_div unat_div_distrib)
  show d: "unat (bits_total - bits) = n" using 1 b by (subst unat_sub_le) (simp_all add: n_def)
  show "bits_total - bits < 32 \<longleftrightarrow> n < 32" by (simp add: word_less_nat_alt d)
  show "unat (drop_bit 3 (bits_total - bits + 7)) = (n + 7) div 8" if "n < 32"
  proof -
    have "unat (bits_total - bits + 7) = n + 7" using that d by (subst unat_word_add_lt) simp_all
    then show ?thesis by (simp add: drop_bit_eq_div unat_div_distrib)
  qed
qed

lemma xvc_loop_stops:
  fixes bits_total :: u32
  assumes "unat bits_total \<le> 2 ^ 32 - 32" and "unat bits_total \<le> 32 * j" and "32 * j < unat bits_total + 32"
  shows "xvc_loop ev base bits_total m buf (of_nat (32 * j)) left rv s = Some (rv, buf, s)"
proof -
  have "unat (of_nat (32 * j) :: u32) = 32 * j" using assms(1,3) by (subst unat_of_nat) simp
  then have "\<not> (of_nat (32 * j) :: u32) < bits_total" using assms(2) by (simp add: word_less_nat_alt)
  then show ?thesis by (subst xvc_loop.simps) simp
qed

lemma xvc_loop_step:
  assumes "bits < tot" and "bytes = unat (drop_bit 3 bits)"
    and "k = (if left < 32 then unat (drop_bit 3 (left + 7)) else 4)"
    and "buf_read buf bytes k = Some tms" and "buf_read buf (m + bytes) k = Some tdi"
    and "xvc_shift_bits ev base (le_word tms) (le_word tdi) 0 (if left < 32 then write_register left (base + XVC_BAR_LENGTH_REG) s else s) = (r, w, t)"
  shows "xvc_loop ev base tot m buf bits left rv s =
    (if r < 0 then Some (r, buf, t)
     else case buf_write buf (2 * m + bytes) (take k (le_bytes 4 w)) of None \<Rightarrow> None
          | Some buf \<Rightarrow> xvc_loop ev base tot m buf (bits + 32) (left - 32) r t)"
  using assms by (subst xvc_loop.simps) (simp add: Let_def)

lemma xvc_chunks_step:
  assumes "n \<noteq> 0" and "k = (min n 32 + 7) div 8"
    and "xvc_shift_bits ev base (le_word (take k tms)) (le_word (take k tdi)) 0
      (if n < 32 then write_register (of_nat n) (base + XVC_BAR_LENGTH_REG) s else s) = (r, w, t)"
  shows "xvc_chunks ev base n tms tdi s =
    (if r < 0 then (r, [], t)
     else case xvc_chunks ev base (n - 32) (drop k tms) (drop k tdi) t of (r', rest, t') \<Rightarrow> (r', take k (le_bytes 4 w) @ rest, t'))"
  using assms by (subst xvc_chunks.simps) (simp add: Let_def)

lemma xvc_loop_chunks:
  fixes bits_total :: u32
  assumes "unat bits_total \<le> 2 ^ 32 - 32" and m: "m = (unat bits_total + 7) div 8" "length tms = m" "length tdi = m"
    and "length dn = min (4 * j) m" "length junk = m - length dn" "32 * j < unat bits_total + 32"
  shows "case xvc_chunks ev base (unat bits_total - 32 * j) (drop (4 * j) tms) (drop (4 * j) tdi) s of (r, tdo, s') \<Rightarrow>
    \<exists>buf. xvc_loop ev base bits_total m (tms @ tdi @ dn @ junk) (of_nat (32 * j)) (bits_total - of_nat (32 * j)) 0 s = Some (r, buf, s') \<and>
      (0 \<le> r \<longrightarrow> r = 0 \<and> buf = tms @ tdi @ dn @ tdo)"
  using assms(5-7)
proof (induction "unat bits_total - 32 * j" arbitrary: j dn junk s rule: less_induct)
  case less
  show ?case
  proof (cases "32 * j < unat bits_total")
    case False
    then show ?thesis using less.prems m by (simp add: xvc_loop_stops [OF assms(1)] xvc_chunks.simps del: of_nat_mult)
  next
    case True
    define n where "n = unat bits_total - 32 * j"
    define k where "k = (min n 32 + 7) div 8"
    note c = xvc_counters [OF assms(1) True, folded n_def]
    have k: "4 * j + k \<le> m" "k \<le> 4" "n < 32 \<Longrightarrow> k = (n + 7) div 8" "\<not> n < 32 \<Longrightarrow> k = 4" "n < 32 \<Longrightarrow> 4 * j + k = m"
      using True m(1) by (auto simp: k_def n_def)
    define left :: u32 where "left = bits_total - of_nat (32 * j)"
    have left: "left = of_nat n" "left < 32 \<longleftrightarrow> n < 32" and sh: "k = (if left < 32 then unat (drop_bit 3 (left + 7)) else 4)"
      using arg_cong [OF c(3), of "of_nat :: nat \<Rightarrow> u32"] c(4,5) k unfolding left_def by auto
    have dn: "length dn = 4 * j" and j4: "4 * j \<le> m" using less.prems(1) k(1) by auto
    let ?s = "if n < 32 then write_register (of_nat n) (base + XVC_BAR_LENGTH_REG) s else s"
    obtain r w t where sb: "xvc_shift_bits ev base (le_word (take k (drop (4 * j) tms))) (le_word (take k (drop (4 * j) tdi))) 0 ?s = (r, w, t)"
      by (metis prod_cases3)
    have r0: "r = 0 \<or> r = - ETIMEDOUT" using xvc_shift_result [of ev base _ _ 0 ?s] sb by (metis fst_conv insertE singletonD)
    let ?bs = "take k (le_bytes 4 w)"
    have wr: "buf_write (tms @ tdi @ dn @ junk) (2 * m + 4 * j) ?bs = Some (tms @ tdi @ (dn @ ?bs) @ drop k junk)"
      using buf_write_in [of ?bs junk "2 * m + 4 * j" "tms @ tdi @ dn"] less.prems(2) dn k(1,2) m by simp
    have lp: "xvc_loop ev base bits_total m (tms @ tdi @ dn @ junk) (of_nat (32 * j)) (bits_total - of_nat (32 * j)) 0 s =
        (if r < 0 then Some (r, tms @ tdi @ dn @ junk, t)
         else xvc_loop ev base bits_total m (tms @ tdi @ (dn @ ?bs) @ drop k junk) (of_nat (32 * Suc j)) (bits_total - of_nat (32 * Suc j)) r t)"
    proof -
      have nxt: "of_nat (32 * j) + 32 = (of_nat (32 * Suc j) :: u32)" "left - 32 = bits_total - of_nat (32 * Suc j)"
        by (simp_all add: left_def)
      have rd: "buf_read (tms @ tdi @ dn @ junk) (4 * j) k = Some (take k (drop (4 * j) tms))"
        "buf_read (tms @ tdi @ dn @ junk) (m + 4 * j) k = Some (take k (drop (4 * j) tdi))"
        using k(1) m by (simp_all add: buf_read_in)
      have "xvc_shift_bits ev base (le_word (take k (drop (4 * j) tms))) (le_word (take k (drop (4 * j) tdi))) 0
          (if left < 32 then write_register left (base + XVC_BAR_LENGTH_REG) s else s) = (r, w, t)"
        using sb unfolding left(2) unfolding left(1) .
      from xvc_loop_step [OF c(1) c(2) [symmetric] sh rd this, of 0] show ?thesis
        unfolding wr nxt left_def [symmetric] by (simp only: option.case)
    qed
    have ch: "xvc_chunks ev base n (drop (4 * j) tms) (drop (4 * j) tdi) s =
        (if r < 0 then (r, [], t)
         else case xvc_chunks ev base (unat bits_total - 32 * Suc j) (drop (4 * Suc j) tms) (drop (4 * Suc j) tdi) t of (r', rest, t') \<Rightarrow> (r', ?bs @ rest, t'))"
    proof -
      have "4 * Suc j = 4 * j + k \<or> 4 * j + k = m \<and> m \<le> 4 * Suc j" using k by (cases "n < 32") auto
      then have dr: "drop k (drop (4 * j) xs) = drop (4 * Suc j) xs" if "length xs = m" for xs :: "u8 list"
        using that by (auto simp: add.commute)
      have "n \<noteq> 0" and n: "n - 32 = unat bits_total - 32 * Suc j" using True by (simp_all add: n_def)
      from xvc_chunks_step [OF this(1) k_def sb] show ?thesis unfolding dr [OF m(2)] dr [OF m(3)] n .
    qed
    show ?thesis
    proof (cases "r < 0")
      case True
      then show ?thesis using lp ch by (simp add: n_def del: of_nat_mult)
    next
      case False
      then have "r = 0" using r0 by (auto simp: errno_defs)
      have "length (dn @ ?bs) = min (4 * Suc j) m" using k dn by (cases "n < 32") auto
      moreover have "length (drop k junk) = m - length (dn @ ?bs)" using k dn less.prems(2) by auto
      ultimately have ih: "case xvc_chunks ev base (unat bits_total - 32 * Suc j) (drop (4 * Suc j) tms) (drop (4 * Suc j) tdi) t of (r, tdo, s') \<Rightarrow>
          \<exists>buf. xvc_loop ev base bits_total m (tms @ tdi @ (dn @ ?bs) @ drop k junk) (of_nat (32 * Suc j)) (bits_total - of_nat (32 * Suc j)) 0 t = Some (r, buf, s') \<and>
            (0 \<le> r \<longrightarrow> r = 0 \<and> buf = tms @ tdi @ (dn @ ?bs) @ tdo)"
        using True by (intro less.hyps) auto
      show ?thesis
        using ih unfolding n_def [symmetric] lp ch \<open>r = 0\<close> by (simp split: prod.splits del: of_nat_mult)
    qed
  qed
qed

subsection \<open>The call\<close>

lemma xvc_chunks_length: "0 \<le> fst (xvc_chunks ev base n tms tdi s) \<Longrightarrow> length (fst (snd (xvc_chunks ev base n tms tdi s))) = (n + 7) div 8"
proof (induction ev base n tms tdi s rule: xvc_chunks.induct)
  case (1 ev base n tms tdi s)
  show ?case
  proof (cases "n = 0")
    case True
    then show ?thesis by (simp add: xvc_chunks.simps)
  next
    case False
    let ?k = "(min n 32 + 7) div 8"
    obtain r w t where sb: "xvc_shift_bits ev base (le_word (take ?k tms)) (le_word (take ?k tdi)) 0
        (if n < 32 then write_register (of_nat n) (base + XVC_BAR_LENGTH_REG) s else s) = (r, w, t)" by (metis prod_cases3)
    have k: "?k \<le> 4" "?k + (n - 32 + 7) div 8 = (n + 7) div 8" by (cases "n < 32"; simp)+
    note st = xvc_chunks_step [OF False refl sb]
    have r: "\<not> r < 0" using "1.prems" unfolding st by (auto split: if_splits)
    have "0 \<le> fst (xvc_chunks ev base (n - 32) (drop ?k tms) (drop ?k tdi) t)"
      using "1.prems" r unfolding st by (simp split: prod.splits)
    from "1.IH" [OF False refl refl sb [symmetric] refl refl r this] show ?thesis
      using k r unfolding st by (simp add: split_beta)
  qed
qed

lemma xvc_locked_chunks:
  assumes L: "unat (xo_length obj) \<le> 2 ^ 32 - 32" and m: "m = (unat (xo_length obj) + 7) div 8" "length tms = m" "length tdi = m" "length junk = m"
    and wr: "\<forall>tr i. i < m \<longrightarrow> uwr ev tr (xo_tdo_buf obj + of_nat i)"
  shows "xvc_locked ev base obj m (tms @ tdi @ junk) s =
    (case xvc_chunks ev base (unat (xo_length obj)) tms tdi
        (if 32 \<le> xo_length obj then write_register 0x20 (base + XVC_BAR_LENGTH_REG) s else s) of
       (r, tdo, s') \<Rightarrow> if r < 0 then Some (r, s')
                       else Some (0, emit (ToUser (xo_tdo_buf obj) (if xo_opcode obj = 2 then tdi else tdo)) s'))"
proof -
  define s0 where "s0 = (if 32 \<le> xo_length obj then write_register 0x20 (base + XVC_BAR_LENGTH_REG) s else s)"
  obtain r tdo s' where ch: "xvc_chunks ev base (unat (xo_length obj)) tms tdi s0 = (r, tdo, s')" by (metis prod_cases3)
  have "\<exists>buf. xvc_loop ev base (xo_length obj) m (tms @ tdi @ junk) 0 (xo_length obj) 0 s0 = Some (r, buf, s') \<and>
      (0 \<le> r \<longrightarrow> r = 0 \<and> buf = tms @ tdi @ tdo)"
    using xvc_loop_chunks [OF L m(1-3), where j = 0 and dn = "[]" and junk = junk and ev = ev and base = base and s = s0] m(4) ch by simp
  then obtain buf where lp: "xvc_loop ev base (xo_length obj) m (tms @ tdi @ junk) 0 (xo_length obj) 0 s0 = Some (r, buf, s')"
    and ok: "0 \<le> r \<Longrightarrow> r = 0 \<and> buf = tms @ tdi @ tdo" by blast
  have c: "copy_to_user ev (xo_tdo_buf obj) out s' = (0, emit (ToUser (xo_tdo_buf obj) out) s')" if "length out = m" for out
    using wr that by (intro copy_to_user_all) simp
  have "length tdo = m" if "0 \<le> r" using xvc_chunks_length [of ev base "unat (xo_length obj)" tms tdi s0] that ch m(1) by simp
  then show ?thesis
    using ok m(2,3) unfolding xvc_locked_def s0_def [symmetric] Let_def lp ch
    by (simp add: slice_def c)
qed

text \<open>What a request stands for in the memory of the caller.\<close>

definition at_user :: "env \<Rightarrow> u64 \<Rightarrow> u8 list \<Rightarrow> bool" where
  "at_user ev a bs \<longleftrightarrow> (\<forall>tr i. i < length bs \<longrightarrow> umem ev tr (a + of_nat i) = Some (bs ! i))"

lemma at_user_copy: "at_user ev a bs \<Longrightarrow> copy_from_user ev a (length bs) s = (0, bs)"
  by (intro copy_from_user_all) (simp add: at_user_def)

lemma xvc_bytes:
  fixes n :: u32
  assumes "unat n \<le> 2 ^ 32 - 32"
  shows "unat (drop_bit 3 (n + 7)) = (unat n + 7) div 8"
proof -
  have "unat (n + 7) = unat n + 7" using assms by (subst unat_word_add_lt) simp_all
  then show ?thesis by (simp add: drop_bit_eq_div unat_div_distrib)
qed

text \<open>C18: The virtual cable \<open>ioctl\<close> shifts what it is given.  For every vector of at most \<open>2^32 - 32\<close> bits whose bytes can be read, it
  returns, and it is equivalent to the plain recursion over the 32-bit chunks of the two vectors (\<open>xvc_chunks\<close>), done under
  the lock of the node: the bytes of the answer, or with operation 2 the TDI bytes, are copied to the
  caller, or the call stops with a time-out; the buffer is freed and the lock released in both cases, and
  nothing depends on what the allocator left in the buffer.\<close>

theorem xvc_ioctl_shifts:
  fixes ev junk fp arg s tms tdi bs
  defines "xcdev \<equiv> f_private_data (k_file s fp)" and "obj \<equiv> xvc_of_bytes bs"
  defines "c \<equiv> k_cdev s xcdev" and "n \<equiv> unat (xo_length obj)"
  defines "base \<equiv> d_bar (k_dev s (cd_xdev c)) (cd_bar c) + cd_base c"
  defines "a \<equiv> unat (of_nat ((n + 7) div 8) * 3 :: u32)"
  defines "p \<equiv> ptr_of (ksvc ev (trace s) ''kmalloc'' a)"
  defines "s1 \<equiv> emit (Acquire (LkCdev xcdev)) (snd (kcall ev ''kmalloc'' a s))"
  assumes ok: "xcdev_check xcdev False s = 0" and arg: "at_user ev arg bs" "length bs = 32"
    and op: "xo_opcode obj = 1 \<or> xo_opcode obj = 2" and L: "n \<le> 2 ^ 32 - 32" and mem: "p \<noteq> NULL"
    and vec: "at_user ev (xo_tms_buf obj) tms" "at_user ev (xo_tdi_buf obj) tdi" "length tms = (n + 7) div 8" "length tdi = (n + 7) div 8"
    and wr: "\<forall>tr i. i < (n + 7) div 8 \<longrightarrow> uwr ev tr (xo_tdo_buf obj + of_nat i)"
  shows "xvc_ioctl ev junk fp XDMA_IOCXVC arg s =
    (case xvc_chunks ev base n tms tdi (if 32 \<le> n then write_register 0x20 (base + XVC_BAR_LENGTH_REG) s1 else s1) of
       (r, tdo, s') \<Rightarrow>
         let s' = (if r < 0 then s' else emit (ToUser (xo_tdo_buf obj) (if xo_opcode obj = 2 then tdi else tdo)) s')
         in Some (if r < 0 then r else 0, emit (Kernel ''kfree'' p 0) (emit (Release (LkCdev xcdev)) s')))"
proof -
  have h: "copy_from_user ev arg 32 s = (0, bs)" using at_user_copy [OF arg(1)] arg(2) by simp
  have v: "copy_from_user ev (xo_tms_buf obj) ((n + 7) div 8) t = (0, tms)" "copy_from_user ev (xo_tdi_buf obj) ((n + 7) div 8) t = (0, tdi)" for t
    using at_user_copy [OF vec(1)] at_user_copy [OF vec(2)] vec(3,4) by simp_all
  have m: "unat (drop_bit 3 (xo_length obj + 7)) = (n + 7) div 8" using xvc_bytes L by (simp add: n_def)
  have kc: "kcall ev ''kmalloc'' a s = (ksvc ev (trace s) ''kmalloc'' a, snd (kcall ev ''kmalloc'' a s))" by (simp add: prod_eq_iff)
  have le: "32 \<le> xo_length obj \<longleftrightarrow> 32 \<le> n" by (simp add: n_def word_le_nat_alt)
  define s0 where "s0 = (if 32 \<le> n then write_register 0x20 (base + XVC_BAR_LENGTH_REG) s1 else s1)"
  obtain r tdo s' where ch: "xvc_chunks ev base n tms tdi s0 = (r, tdo, s')" by (metis prod_cases3)
  have lk: "xvc_locked ev base obj ((n + 7) div 8) (tms @ tdi @ map junk [0..<(n + 7) div 8]) s1 =
      (if r < 0 then Some (r, s') else Some (0, emit (ToUser (xo_tdo_buf obj) (if xo_opcode obj = 2 then tdi else tdo)) s'))"
    using xvc_locked_chunks [OF L [unfolded n_def] refl, folded n_def, OF vec(3,4) _ wr, of "map junk [0..<(n + 7) div 8]" base s1] ch
    unfolding le s0_def [symmetric] by simp
  have op': "(xo_opcode obj \<noteq> 1 \<and> xo_opcode obj \<noteq> 2) = False" using op by blast
  have k1: "k_dev s1 = k_dev s" by (simp add: s1_def)
  show ?thesis
    using ok mem unfolding xvc_ioctl_def xcdev_def [symmetric] c_def [symmetric] Let_def h prod.case obj_def [symmetric] m a_def [symmetric]
      s0_def [symmetric] ch
    by (subst kc) (simp add: op' v s1_def [symmetric] k1 base_def [symmetric] lk p_def [symmetric])
qed

text \<open>A length within 7 of \<open>2^32\<close> bits makes the number of bytes wrap to 0: the buffer is allocated with no
  bytes, the copies succeed trivially, and the first chunk is read outside the buffer.\<close>

theorem xvc_length_wraps:
  fixes ev junk fp arg s bs
  defines "obj \<equiv> xvc_of_bytes bs"
  assumes ok: "xcdev_check (f_private_data (k_file s fp)) False s = 0" and arg: "at_user ev arg bs" "length bs = 32"
    and op: "xo_opcode obj = 1 \<or> xo_opcode obj = 2" and mem: "ptr_of (ksvc ev (trace s) ''kmalloc'' 0) \<noteq> NULL"
    and L: "2 ^ 32 - 7 \<le> unat (xo_length obj)"
  shows "xvc_ioctl ev junk fp XDMA_IOCXVC arg s = None"
proof -
  have h: "copy_from_user ev arg 32 s = (0, bs)" using at_user_copy [OF arg(1)] arg(2) by simp
  have z: "copy_from_user ev a 0 t = (0, [])" for a t by (simp add: copy_from_user_def user_bytes_def)
  have "unat (xo_length obj + 7) < 8"
    using L unsigned_less [of "xo_length obj", where 'a = nat] by (simp add: unat_word_ariths mod_if) arith
  then have m: "unat (drop_bit 3 (xo_length obj + 7)) = 0" by (simp add: drop_bit_eq_div unat_div_distrib)
  have big: "0 < xo_length obj" "32 \<le> xo_length obj" "\<not> xo_length obj < 32"
    using L by (simp_all add: word_less_nat_alt word_le_nat_alt)
  have lp: "xvc_loop ev base (xo_length obj) 0 [] 0 (xo_length obj) 0 t = None" for base t
    using big by (subst xvc_loop.simps) (simp add: buf_read_def)
  have op': "(xo_opcode obj \<noteq> 1 \<and> xo_opcode obj \<noteq> 2) = False" using op by blast
  have "ksvc ev (trace s) ''kmalloc'' 0 mod 18446744073709551616 \<noteq> 0" using mem by (auto simp: ptr_of_def)
  then show ?thesis
    using ok mem unfolding xvc_ioctl_def Let_def h prod.case obj_def [symmetric] m
    by (simp add: op' z xvc_locked_def lp Let_def kcall_def)
qed

subsection \<open>A request of four bits\<close>

definition xvc_user :: "u8 list \<Rightarrow> nat \<Rightarrow> u8" where
  "xvc_user n a = (if a = 0x1000 then 1 else if 0x1004 \<le> a \<and> a \<le> 0x1007 then n ! (a - 0x1004) else 0)"

definition env_xvc :: "u8 list \<Rightarrow> env" where
  "env_xvc n = env0\<lparr>umem := (\<lambda>_ a. Some (xvc_user n (unat a))), hw := (\<lambda>_ a. if a mod 16 = 12 then 5 else 0), ksvc := (\<lambda>_ _ _. 16)\<rparr>"

lemma env_xvc_header: "at_user (env_xvc n) 0x1000 (map (\<lambda>i. xvc_user n (0x1000 + i)) [0..<32])"
proof -
  have "unat (0x1000 + of_nat i :: u64) = 0x1000 + i" if "i < 32" for i
    using that by (subst unat_word_add_lt) (simp_all add: unat_of_nat)
  then show ?thesis by (simp add: at_user_def env_xvc_def)
qed

lemma env_xvc_sel [simp]:
  "ksvc (env_xvc n) tr f x = 16" "uwr (env_xvc n) tr a" "umem (env_xvc n) tr 0 = Some 0" "ptr_of 16 = 16" "cd_base (k_cdev node_state c) = 0"
  by (simp_all add: env_xvc_def env0_def xvc_user_def ptr_of_def node_state_def char_state0_def zero_cdev_def)

lemma env_xvc_reads: "read_register (env_xvc n) (0x4000 + XVC_BAR_TDO_REG) t = (5, emit (Rd 0x400C 5) t)"
  by (simp add: env_xvc_def XVC_BAR_TDO_REG_def read_register_def)

theorem xvc_length_wraps_witness:
  "xvc_ioctl (env_xvc [255, 255, 255, 255]) (\<lambda>_. 7) 9 XDMA_IOCXVC 0x1000 node_state = None"
proof -
  have "xvc_of_bytes (map (\<lambda>i. xvc_user [255, 255, 255, 255] (0x1000 + i)) [0..<32]) = \<lparr>xo_opcode = 1, xo_length = 0xffffffff, xo_tms_buf = 0, xo_tdi_buf = 0, xo_tdo_buf = 0\<rparr>"
    by (simp add: xvc_of_bytes_def slice_def xvc_user_def upt_rec)
  then show ?thesis
    using xvc_length_wraps [where ev = "env_xvc [255, 255, 255, 255]" and s = node_state and fp = 9 and arg = "0x1000" and junk = "\<lambda>_. 7",
        OF _ env_xvc_header] by simp
qed

theorem xvc_ioctl_shifts_witness:
  "\<exists>s'. xvc_ioctl (env_xvc [4, 0, 0, 0]) (\<lambda>_. 7) 9 XDMA_IOCXVC 0x1000 node_state = Some (0, s') \<and> ToUser 0 [5] \<in> set (trace s')"
proof -
  have o: "xvc_of_bytes (map (\<lambda>i. xvc_user [4, 0, 0, 0] (0x1000 + i)) [0..<32]) = \<lparr>xo_opcode = 1, xo_length = 4, xo_tms_buf = 0, xo_tdi_buf = 0, xo_tdo_buf = 0\<rparr>"
    by (simp add: xvc_of_bytes_def slice_def xvc_user_def upt_rec)
  have w: "xvc_wait (env_xvc [4, 0, 0, 0]) 0x4000 100 t = (100, snd (read_register (env_xvc [4, 0, 0, 0]) 0x4010 t))" for t
    using xvc_wait.simps(2) [of "env_xvc [4, 0, 0, 0]" "0x4000" 99 t]
    by (simp add: env_xvc_def XVC_BAR_CTRL_REG_def Let_def split_beta)
  have sh: "\<exists>t. xvc_shift_bits (env_xvc [4, 0, 0, 0]) 0x4000 0 0 0 s = (0, 5, t)" for s
    by (simp add: xvc_shift_bits_def COMPLETION_LOOP_MAX_def Let_def w env_xvc_reads)
  have five: "take (Suc 0) (le_bytes 4 (5 :: u32)) = [5]" using le_bytes.simps(2) [of 3 "5 :: u32"] by simp
  obtain t where t: "xvc_chunks (env_xvc [4, 0, 0, 0]) 0x4000 4 [0] [0]
      (emit (Acquire (LkCdev 8)) (snd (kcall (env_xvc [4, 0, 0, 0]) ''kmalloc'' 3 node_state))) = (0, [5], t)"
    using sh [of "write_register 4 (0x4000 + XVC_BAR_LENGTH_REG) (emit (Acquire (LkCdev 8)) (snd (kcall (env_xvc [4, 0, 0, 0]) ''kmalloc'' 3 node_state)))"]
    by (auto simp: xvc_chunks.simps numeral_2_eq_2 five)
  show ?thesis
    using xvc_ioctl_shifts [where ev = "env_xvc [4, 0, 0, 0]" and s = node_state and fp = 9 and arg = "0x1000" and junk = "\<lambda>_. 7" and tms = "[0]" and tdi = "[0]",
        OF _ env_xvc_header, unfolded o]
    by (simp add: t at_user_def)
qed

end
