(* ===== verification/Xdma_Open.thy ===== *)
theory Xdma_Open
  imports Xdma_Device
begin

text \<open>
  What opening and closing a device does to the resources of the kernel (\<^verbatim>\<open>libxdma.c\<close>): the DMA memory and
  the BAR mappings in use, the locks and the list of devices, on success and on every error exit of
  \<open>xdma_device_open\<close>.
\<close>

subsection \<open>Removing engines\<close>

lemma free_resource_more [simp]:
  "mapped (trace (engine_free_resource e s)) = mapped (trace s)" "k_xdev_list (engine_free_resource e s) = k_xdev_list s"
  by (simp_all add: engine_free_resource_def dma_free_def Let_def)

lemma remove_work_more [simp]:
  "mapped (trace (xdma_thread_remove_work e s)) = mapped (trace s)" "k_xdev_list (xdma_thread_remove_work e s) = k_xdev_list s"
  "k_dev (xdma_thread_remove_work e s) = k_dev s"
  by (simp_all add: xdma_thread_remove_work_def Let_def)

lemma engine_destroy_sel:
  fixes ev x e s
  defines "s' \<equiv> snd (engine_destroy ev x e s)"
  assumes "x \<noteq> NULL" "e \<noteq> NULL"
  shows "live (trace s') = live (trace s) - blocks (k_eng s e)" "mapped (trace s') = mapped (trace s)"
    "held l (trace s') = held l (trace s)" "k_xdev_list s' = k_xdev_list s" "k_eng s' = (k_eng s)(e := zero_engine)"
    "k_dev s' = (k_dev s)(x := (k_dev s x)\<lparr>d_engines_num := d_engines_num (k_dev s x) - 1\<rparr>)"
proof -
  have b: "blocks (g\<lparr>e_cmplthp := NULL\<rparr>) = blocks g" for g by (simp add: blocks_def)
  show "live (trace s') = live (trace s) - blocks (k_eng s e)" "mapped (trace s') = mapped (trace s)"
    "held l (trace s') = held l (trace s)" "k_xdev_list s' = k_xdev_list s" "k_eng s' = (k_eng s)(e := zero_engine)"
    "k_dev s' = (k_dev s)(x := (k_dev s x)\<lparr>d_engines_num := d_engines_num (k_dev s x) - 1\<rparr>)"
    using assms by (simp_all add: s'_def engine_destroy_def Let_def remove_work_sel b)
qed

text \<open>The DMA blocks of a list of engines.\<close>

definition all_blocks :: "(ptr \<Rightarrow> xdma_engine) \<Rightarrow> ptr list \<Rightarrow> ptr multiset" where
  "all_blocks E es = (\<Sum>e\<leftarrow>es. blocks (E e))"

lemma all_blocks_simps [simp]:
  "all_blocks E [] = {#}" "all_blocks E (e # es) = blocks (E e) + all_blocks E es"
  "all_blocks E (es @ fs) = all_blocks E es + all_blocks E fs"
  by (simp_all add: all_blocks_def)

lemma all_blocks_cong: "(\<And>e. e \<in> set es \<Longrightarrow> blocks (E e) = blocks (E' e)) \<Longrightarrow> all_blocks E es = all_blocks E' es"
  unfolding all_blocks_def by (intro arg_cong [where f = sum_list] map_cong) auto

text \<open>A device without its engine counter and interrupt masks.\<close>

definition strip_count :: "xdma_dev \<Rightarrow> xdma_dev" where
  "strip_count d = d\<lparr>d_engines_num := 0, d_mask_irq_h2c := 0, d_mask_irq_c2h := 0\<rparr>"

lemma strip_count_eqD:
  assumes "strip_count d' = strip_count d"
  shows "d_bar d' = d_bar d" "d_config_bar_idx d' = d_config_bar_idx d" "h2c_engines d' = h2c_engines d" "c2h_engines d' = c2h_engines d"
    "d_user_max d' = d_user_max d" "d_h2c_channel_max d' = d_h2c_channel_max d" "d_c2h_channel_max d' = d_c2h_channel_max d"
    "d_engine_h2c d' = d_engine_h2c d" "d_engine_c2h d' = d_engine_c2h d" "d_pdev d' = d_pdev d" "d_flags d' = d_flags d"
    "d_got_regions d' = d_got_regions d" "d_regions_in_use d' = d_regions_in_use d" "mapped_bars d' = mapped_bars d" "roles_ok d' = roles_ok d"
    "bars d' is = bars d is" "d_idx d' = d_idx d"
proof -
  have *: "f d' = f d" if "\<And>d. f (strip_count d) = f d" for f :: "xdma_dev \<Rightarrow> 'a"
    using that assms by metis
  show "d_bar d' = d_bar d" "d_config_bar_idx d' = d_config_bar_idx d" "h2c_engines d' = h2c_engines d" "c2h_engines d' = c2h_engines d"
    "d_user_max d' = d_user_max d" "d_h2c_channel_max d' = d_h2c_channel_max d" "d_c2h_channel_max d' = d_c2h_channel_max d"
    "d_engine_h2c d' = d_engine_h2c d" "d_engine_c2h d' = d_engine_c2h d" "d_pdev d' = d_pdev d" "d_flags d' = d_flags d"
    "d_got_regions d' = d_got_regions d" "d_regions_in_use d' = d_regions_in_use d" "mapped_bars d' = mapped_bars d" "roles_ok d' = roles_ok d"
    "d_idx d' = d_idx d"
    by (rule *; simp add: strip_count_def h2c_engines_def c2h_engines_def mapped_bars_def roles_ok_def Let_def)+
  show "bars d' is = bars d is" by (rule *) (simp add: strip_count_def bars_def)
qed

lemma fold_remove_engine:
  assumes "x \<noteq> NULL" "NULL \<notin> set es" "distinct es" "\<forall>e \<in> set es. e_magic (k_eng s e) = MAGIC_ENGINE"
  shows "live (trace (fold (remove_engine ev x) es s)) = live (trace s) - all_blocks (k_eng s) es"
    "mapped (trace (fold (remove_engine ev x) es s)) = mapped (trace s)"
    "held l (trace (fold (remove_engine ev x) es s)) = held l (trace s)"
    "k_xdev_list (fold (remove_engine ev x) es s) = k_xdev_list s"
    "e \<notin> set es \<Longrightarrow> k_eng (fold (remove_engine ev x) es s) e = k_eng s e"
    "strip_count (k_dev (fold (remove_engine ev x) es s) x) = strip_count (k_dev s x)"
    "y \<noteq> x \<Longrightarrow> k_dev (fold (remove_engine ev x) es s) y = k_dev s y"
proof -
  have "live (trace (fold (remove_engine ev x) es s)) = live (trace s) - all_blocks (k_eng s) es
    \<and> mapped (trace (fold (remove_engine ev x) es s)) = mapped (trace s)
    \<and> (\<forall>l. held l (trace (fold (remove_engine ev x) es s)) = held l (trace s))
    \<and> k_xdev_list (fold (remove_engine ev x) es s) = k_xdev_list s
    \<and> (\<forall>e. e \<notin> set es \<longrightarrow> k_eng (fold (remove_engine ev x) es s) e = k_eng s e)
    \<and> strip_count (k_dev (fold (remove_engine ev x) es s) x) = strip_count (k_dev s x)
    \<and> (\<forall>y. y \<noteq> x \<longrightarrow> k_dev (fold (remove_engine ev x) es s) y = k_dev s y)"
    using assms(2-4)
  proof (induction es arbitrary: s)
    case (Cons a es)
    let ?s = "snd (engine_destroy ev x a s)"
    have a: "a \<noteq> NULL" "a \<notin> set es" "e_magic (k_eng s a) = MAGIC_ENGINE" using Cons.prems by auto
    note d = engine_destroy_sel [OF assms(1) a(1), where ev = ev and s = s]
    have m: "\<forall>e \<in> set es. e_magic (k_eng ?s e) = MAGIC_ENGINE" using Cons.prems a by (auto simp: d)
    have b: "all_blocks (k_eng ?s) es = all_blocks (k_eng s) es" using a by (intro all_blocks_cong) (auto simp: d)
    have step: "fold (remove_engine ev x) (a # es) s = fold (remove_engine ev x) es ?s"
      using a by (simp add: remove_engine_def)
    show ?case
      unfolding step using Cons.IH [OF _ _ m, unfolded b] Cons.prems by (auto simp: d strip_count_def)
  qed simp
  then show "live (trace (fold (remove_engine ev x) es s)) = live (trace s) - all_blocks (k_eng s) es"
    "mapped (trace (fold (remove_engine ev x) es s)) = mapped (trace s)"
    "held l (trace (fold (remove_engine ev x) es s)) = held l (trace s)"
    "k_xdev_list (fold (remove_engine ev x) es s) = k_xdev_list s"
    "e \<notin> set es \<Longrightarrow> k_eng (fold (remove_engine ev x) es s) e = k_eng s e"
    "strip_count (k_dev (fold (remove_engine ev x) es s) x) = strip_count (k_dev s x)"
    "y \<noteq> x \<Longrightarrow> k_dev (fold (remove_engine ev x) es s) y = k_dev s y"
    by blast+
qed

lemma remove_engines_sel:
  fixes ev x s
  defines "s' \<equiv> remove_engines ev x s" and "es \<equiv> h2c_engines (k_dev s x) @ c2h_engines (k_dev s x)"
  assumes x: "x \<noteq> NULL" and es: "NULL \<notin> set es" "distinct es" "\<forall>e \<in> set es. e_magic (k_eng s e) = MAGIC_ENGINE"
  shows "live (trace s') = live (trace s) - all_blocks (k_eng s) es" "mapped (trace s') = mapped (trace s)"
    "held l (trace s') = held l (trace s)" "k_xdev_list s' = k_xdev_list s"
    "strip_count (k_dev s' x) = strip_count (k_dev s x)" "y \<noteq> x \<Longrightarrow> k_dev s' y = k_dev s y"
proof -
  let ?h = "h2c_engines (k_dev s x)" and ?c = "c2h_engines (k_dev s x)"
  define s1 where "s1 = fold (remove_engine ev x) ?h s"
  have nh: "NULL \<notin> set ?h" "distinct ?h" "\<forall>e \<in> set ?h. e_magic (k_eng s e) = MAGIC_ENGINE"
    and nc: "NULL \<notin> set ?c" "distinct ?c" and dj: "set ?h \<inter> set ?c = {}" using es by (auto simp: es_def)
  note f1 = fold_remove_engine [OF x nh, where ev = ev, folded s1_def]
  have out: "e \<in> set ?c \<Longrightarrow> k_eng s1 e = k_eng s e" for e using dj by (intro f1(5)) auto
  have mc: "\<forall>e \<in> set ?c. e_magic (k_eng s1 e) = MAGIC_ENGINE" using es by (auto simp: out es_def)
  note f2 = fold_remove_engine [OF x nc mc, where ev = ev]
  have eq: "s' = fold (remove_engine ev x) ?c s1"
    using x strip_count_eqD(4) [OF f1(6)] by (simp add: s'_def remove_engines_def Let_def s1_def)
  have b: "all_blocks (k_eng s1) ?c = all_blocks (k_eng s) ?c"
    by (intro all_blocks_cong) (simp add: out)
  show "live (trace s') = live (trace s) - all_blocks (k_eng s) es" by (simp add: eq f1 f2 b es_def)
  show "mapped (trace s') = mapped (trace s)" "held l (trace s') = held l (trace s)" "k_xdev_list s' = k_xdev_list s"
    "strip_count (k_dev s' x) = strip_count (k_dev s x)" "y \<noteq> x \<Longrightarrow> k_dev s' y = k_dev s y"
    by (simp_all add: eq f1 f2)
qed

subsection \<open>Setting up one engine\<close>

lemma pick_thread_more [simp]:
  "mapped (trace (snd (pick_thread ev c i k x v s))) = mapped (trace s)"
  "k_xdev_list (snd (pick_thread ev c i k x v s)) = k_xdev_list s"
  by (induction ev c i k x v s rule: pick_thread.induct) (simp_all add: Let_def)

lemma add_work_more [simp]:
  "mapped (trace (xdma_thread_add_work ev e s)) = mapped (trace s)" "k_xdev_list (xdma_thread_add_work ev e s) = k_xdev_list s"
  by (simp_all add: xdma_thread_add_work_def Let_def split_beta)

lemma alignments_more [simp]:
  "mapped (trace (engine_alignments ev e s)) = mapped (trace s)" "k_xdev_list (engine_alignments ev e s) = k_xdev_list s"
  by (simp_all add: engine_alignments_def Let_def split_beta)

lemma init_regs_more [simp]:
  "mapped (trace (snd (engine_init_regs ev e s))) = mapped (trace s)" "k_xdev_list (snd (engine_init_regs ev e s)) = k_xdev_list s"
  by (simp_all add: engine_init_regs_def engine_writeback_setup_def Let_def split_beta)

lemma dma_alloc_more [simp]:
  "mapped (trace (snd (dma_alloc ev n s))) = mapped (trace s)" "k_xdev_list (snd (dma_alloc ev n s)) = k_xdev_list s"
  by (simp_all add: dma_alloc_def Let_def split_beta)

lemma alloc_resource_more [simp]:
  "mapped (trace (snd (engine_alloc_resource ev e s))) = mapped (trace s)"
  "k_xdev_list (snd (engine_alloc_resource ev e s)) = k_xdev_list s"
  by (simp_all add: engine_alloc_resource_def Let_def split_beta)

lemma engine_fill_more:
  "mapped (trace (engine_fill ev e x ofs dir ch s)) = mapped (trace s)"
  "k_xdev_list (engine_fill ev e x ofs dir ch s) = k_xdev_list s"
  "strip_count (k_dev (engine_fill ev e x ofs dir ch s) x) = strip_count (k_dev s x)"
  "y \<noteq> x \<Longrightarrow> k_dev (engine_fill ev e x ofs dir ch s) y = k_dev s y"
  "e_channel (k_eng (engine_fill ev e x ofs dir ch s) e) = of_nat ch"
  by (simp_all add: engine_fill_def Let_def split_beta strip_count_def)

lemma engine_init_more:
  fixes ev e x ofs dir ch s
  defines "s' \<equiv> snd (engine_init ev e x ofs dir ch s)"
  assumes nn: "e \<noteq> NULL" "x \<noteq> NULL" and b: "blocks (k_eng s e) = {#}"
  shows "mapped (trace s') = mapped (trace s)" "k_xdev_list s' = k_xdev_list s" "e' \<noteq> e \<Longrightarrow> k_eng s' e' = k_eng s e'"
    "strip_count (k_dev s' x) = strip_count (k_dev s x)" "y \<noteq> x \<Longrightarrow> k_dev s' y = k_dev s y"
    "e_magic (k_eng s' e) = MAGIC_ENGINE" "e_channel (k_eng s' e) = of_nat ch" "e_dir (k_eng s' e) = dir" "e_xdev (k_eng s' e) = x"
proof -
  let ?s1 = "engine_fill ev e x ofs dir ch s"
  note c = engine_init_cases [OF nn b, where ev = ev and ofs = ofs and dir = dir and ch = ch, folded s'_def]
  show "mapped (trace s') = mapped (trace s)" "k_xdev_list s' = k_xdev_list s"
    by (simp_all add: s'_def engine_init_def Let_def split_beta engine_fill_more)
  show "strip_count (k_dev s' x) = strip_count (k_dev s x)" "y \<noteq> x \<Longrightarrow> k_dev s' y = k_dev s y"
    by (simp_all add: c(5) engine_fill_more)
  show "e_magic (k_eng s' e) = MAGIC_ENGINE" "e_channel (k_eng s' e) = of_nat ch" "e_dir (k_eng s' e) = dir" "e_xdev (k_eng s' e) = x"
    by (simp_all add: strip_eqD [OF c(4)] engine_fill_sel engine_fill_more)
  show "k_eng s' e' = k_eng s e'" if "e' \<noteq> e"
  proof -
    have b1: "blocks (k_eng ?s1 e) = {#}" using b by (simp add: engine_fill_sel)
    note al = alloc_resource [OF b1, where ev = ev]
    have x2: "e_xdev (k_eng (snd (engine_alloc_resource ev e ?s1)) e) \<noteq> NULL"
      using strip_eqD(3) [OF al(7)] nn by (simp add: engine_fill_sel)
    show ?thesis
      using that al(8) [of e'] init_regs(5) [OF nn(1) x2, of e' ev] engine_fill_sel(19) [of e' e ev x ofs dir ch s]
      by (simp add: s'_def engine_init_def Let_def split_beta add_work_sel)
  qed
qed

subsection \<open>Probing\<close>

lemma get_id_sel [simp]:
  "k_eng (snd (get_engine_id ev r s)) = k_eng s" "k_dev (snd (get_engine_id ev r s)) = k_dev s" "books (snd (get_engine_id ev r s)) = books s"
  "k_eng (snd (get_engine_channel_id ev r s)) = k_eng s" "k_dev (snd (get_engine_channel_id ev r s)) = k_dev s"
  "books (snd (get_engine_channel_id ev r s)) = books s"
  by (simp_all add: get_engine_id_def get_engine_channel_id_def Let_def split_beta)

text \<open>An engine that has been set up for a channel of a device.\<close>

definition probed :: "ptr \<Rightarrow> dma_data_direction \<Rightarrow> nat \<Rightarrow> xdma_engine \<Rightarrow> bool" where
  "probed x dir ch g \<longleftrightarrow> e_magic g = MAGIC_ENGINE \<and> e_channel g = of_nat ch \<and> e_dir g = dir \<and> e_xdev g = x"

text \<open>The engine of a channel.\<close>

definition engine_of :: "xdma_dev \<Rightarrow> dma_data_direction \<Rightarrow> nat \<Rightarrow> ptr" where
  "engine_of d dir = (if dir = DMA_TO_DEVICE then d_engine_h2c d else d_engine_c2h d)"

text \<open>What probing changes of the state besides engines and DMA memory: counters and masks of the device.\<close>

definition probe_kept :: "ptr \<Rightarrow> kst \<Rightarrow> kst \<Rightarrow> bool" where
  "probe_kept x s s' \<longleftrightarrow> mapped (trace s') = mapped (trace s) \<and> (\<forall>l. held l (trace s') = held l (trace s)) \<and> k_xdev_list s' = k_xdev_list s
     \<and> strip_count (k_dev s' x) = strip_count (k_dev s x) \<and> (\<forall>y. y \<noteq> x \<longrightarrow> k_dev s' y = k_dev s y)"

lemma probe_kept_refl: "probe_kept x s s"
  by (simp add: probe_kept_def)

lemma probe_kept_trans: "probe_kept x s t \<Longrightarrow> probe_kept x t u \<Longrightarrow> probe_kept x s u"
  by (simp add: probe_kept_def)

lemma probe_for_engine_cases:
  fixes ev x dir ch s
  defines "r \<equiv> probe_for_engine ev x dir ch s" and "e \<equiv> engine_of (k_dev s x) dir ch"
  assumes nn: "e \<noteq> NULL" "x \<noteq> NULL" and b: "blocks (k_eng s e) = {#}"
  shows "probe_kept x s (snd r)" "e' \<noteq> e \<Longrightarrow> k_eng (snd r) e' = k_eng s e'"
    "fst r \<noteq> 0 \<Longrightarrow> live (trace (snd r)) = live (trace s) \<and> blocks (k_eng (snd r) e) = {#}"
    "fst r = 0 \<Longrightarrow> live (trace (snd r)) = live (trace s) + blocks (k_eng (snd r) e) \<and> probed x dir ch (k_eng (snd r) e)"
proof -
  define offset where "offset = ch * CHANNEL_SPACING + (if dir = DMA_TO_DEVICE then 0 else H2C_CHANNEL_OFFSET)"
  define regs where "regs = d_bar (k_dev s x) (d_config_bar_idx (k_dev s x)) + offset"
  define s2 where "s2 = snd (get_engine_channel_id ev regs (snd (get_engine_id ev regs s)))"
  have bk: "books s2 = books s" and k: "k_eng s2 = k_eng s" "k_dev s2 = k_dev s" by (simp_all add: s2_def)
  note bs = books_eqD [OF bk]
  have r: "r = (- EINVAL, s2) \<or> r = engine_init ev e x offset dir ch s2"
    by (auto simp: r_def probe_for_engine_def Let_def split_beta offset_def regs_def s2_def e_def engine_of_def)
  have b2: "blocks (k_eng s2 e) = {#}" using b k by simp
  note c = engine_init_cases [OF nn b2, where ev = ev and ofs = offset and dir = dir and ch = ch]
  note m = engine_init_more [OF nn b2, where ev = ev and ofs = offset and dir = dir and ch = ch]
  from r show "probe_kept x s (snd r)"
    by (auto simp: probe_kept_def bs k m c(6))
  from r show "k_eng (snd r) e' = k_eng s e'" if "e' \<noteq> e" using that m(3) k by auto
  from r show "live (trace (snd r)) = live (trace s) \<and> blocks (k_eng (snd r) e) = {#}" if "fst r \<noteq> 0"
    using that c(1,2) bs b2 by auto
  from r show "live (trace (snd r)) = live (trace s) + blocks (k_eng (snd r) e) \<and> probed x dir ch (k_eng (snd r) e)" if "fst r = 0"
    using that c(3) bs m by (auto simp: EINVAL_def probed_def)
qed

lemma probe_channels_ok:
  fixes ev x dir i k s
  defines "n \<equiv> fst (probe_channels ev x dir i k s)" and "s' \<equiv> snd (probe_channels ev x dir i k s)"
    and "A \<equiv> engine_of (k_dev s x) dir"
  assumes x: "x \<noteq> NULL" and A: "inj_on A {i..<i + k}" "\<forall>j \<in> {i..<i + k}. A j \<noteq> NULL \<and> blocks (k_eng s (A j)) = {#}"
  shows "i \<le> n \<and> n \<le> i + k \<and> probe_kept x s s'
    \<and> live (trace s') = live (trace s) + all_blocks (k_eng s') (map A [i..<n])
    \<and> (\<forall>j \<in> {i..<n}. probed x dir j (k_eng s' (A j))) \<and> (\<forall>e. e \<notin> A ` {i..<i + k} \<longrightarrow> k_eng s' e = k_eng s e)"
  using A unfolding n_def s'_def A_def
proof (induction k arbitrary: i s)
  case 0
  then show ?case by (simp add: probe_kept_refl)
next
  case (Suc k)
  let ?A = "engine_of (k_dev s x) dir"
  let ?r = "probe_for_engine ev x dir i s"
  have e: "?A i \<noteq> NULL" "blocks (k_eng s (?A i)) = {#}" using Suc.prems(2) by auto
  note p = probe_for_engine_cases [OF e(1) x e(2), where ev = ev]
  have A1: "engine_of (k_dev (snd ?r) x) dir = ?A"
    using p(1) strip_count_eqD(8,9) [of "k_dev (snd ?r) x" "k_dev s x"] by (auto simp: probe_kept_def engine_of_def)
  have out: "e \<notin> ?A ` {i..<Suc (i + k)} \<Longrightarrow> k_eng (snd ?r) e = k_eng s e" for e by (rule p(2)) auto
  show ?case
  proof (cases "fst ?r = 0")
    case False
    with p out show ?thesis by (auto simp: split_beta)
  next
    case True
    have inj: "inj_on ?A {Suc i..<Suc i + k}" using Suc.prems(1) by (rule inj_on_subset) auto
    have ne: "j \<in> {Suc i..<Suc i + k} \<Longrightarrow> ?A j \<noteq> ?A i" for j
      using inj_onD [OF Suc.prems(1), of j i] by auto
    have "\<forall>j \<in> {Suc i..<Suc i + k}. ?A j \<noteq> NULL \<and> blocks (k_eng (snd ?r) (?A j)) = {#}"
      using Suc.prems(2) p(2) ne by auto
    note IH = Suc.IH [where i = "Suc i" and s = "snd ?r", unfolded A1, OF inj this]
    let ?q = "probe_channels ev x dir (Suc i) k (snd ?r)"
    have q: "probe_channels ev x dir i (Suc k) s = ?q" using True by (simp add: split_beta)
    have "?A i \<notin> ?A ` {Suc i..<Suc i + k}" using ne by (metis imageE)
    with IH have last: "k_eng (snd ?q) (?A i) = k_eng (snd ?r) (?A i)" by blast
    have up: "[i..<fst ?q] = i # [Suc i..<fst ?q]" using IH by (simp add: upt_conv_Cons)
    have iv: "{i..<fst ?q} = insert i {Suc i..<fst ?q}" using IH by auto
    have rest: "k_eng (snd ?q) e = k_eng s e" if "e \<notin> ?A ` {i..<i + Suc k}" for e
    proof -
      have "e \<notin> ?A ` {Suc i..<Suc i + k}" using that by auto
      with IH that out show ?thesis by simp
    qed
    show ?thesis
      unfolding q using IH p(1) p(4) [OF True] rest last up iv
      by (auto simp: ac_simps intro: probe_kept_trans)
  qed
qed

subsection \<open>The engines of a device\<close>

text \<open>The layout of the device structure: engines are not empty and the two arrays do not overlap.\<close>

definition layout_ok :: "env \<Rightarrow> bool" where
  "layout_ok ev \<longleftrightarrow> 0 < sizeof_engine ev \<and> offsetof_h2c ev + XDMA_CHANNEL_NUM_MAX * sizeof_engine ev \<le> offsetof_c2h ev"

lemma engines_at_inj:
  assumes "layout_ok ev"
  shows "inj (h2c_at ev x)" "inj (c2h_at ev x)" "i < XDMA_CHANNEL_NUM_MAX \<Longrightarrow> h2c_at ev x i \<noteq> c2h_at ev x j"
proof -
  show "inj (h2c_at ev x)" "inj (c2h_at ev x)"
    using assms by (auto simp: layout_ok_def h2c_at_def c2h_at_def inj_on_def)
  assume "i < XDMA_CHANNEL_NUM_MAX"
  then have "i * sizeof_engine ev < XDMA_CHANNEL_NUM_MAX * sizeof_engine ev"
    using assms by (simp add: layout_ok_def)
  then show "h2c_at ev x i \<noteq> c2h_at ev x j"
    using assms unfolding layout_ok_def h2c_at_def c2h_at_def by linarith
qed

text \<open>A device structure that is laid out as such, with channel counts that fit it.\<close>

definition placed :: "env \<Rightarrow> ptr \<Rightarrow> xdma_dev \<Rightarrow> bool" where
  "placed ev x d \<longleftrightarrow> d_engine_h2c d = h2c_at ev x \<and> d_engine_c2h d = c2h_at ev x
     \<and> d_h2c_channel_max d \<le> XDMA_CHANNEL_NUM_MAX \<and> d_c2h_channel_max d \<le> XDMA_CHANNEL_NUM_MAX"

abbreviation all_engines :: "xdma_dev \<Rightarrow> ptr list" where
  "all_engines d \<equiv> h2c_engines d @ c2h_engines d"

lemma all_engines_ok:
  assumes "layout_ok ev" "placed ev x d" "x \<noteq> NULL"
  shows "distinct (all_engines d)" "NULL \<notin> set (all_engines d)"
proof -
  have h: "h2c_engines d = map (h2c_at ev x) [0..<d_h2c_channel_max d]" "c2h_engines d = map (c2h_at ev x) [0..<d_c2h_channel_max d]"
    using assms(2) by (auto simp: placed_def h2c_engines_def c2h_engines_def)
  have "set (h2c_engines d) \<inter> set (c2h_engines d) = {}"
    using engines_at_inj(3) [OF assms(1), of _ x] assms(2) by (auto simp: h placed_def)
  then show "distinct (all_engines d)"
    using engines_at_inj(1,2) [OF assms(1), of x] by (auto simp: h distinct_map intro: inj_on_subset)
  show "NULL \<notin> set (all_engines d)" using assms(3) by (auto simp: h h2c_at_def c2h_at_def)
qed

text \<open>All engines of the device are set up, and hold exactly the DMA memory that was not in use before.\<close>

definition engines_up :: "ptr \<Rightarrow> ptr multiset \<Rightarrow> kst \<Rightarrow> bool" where
  "engines_up x L s \<longleftrightarrow>
     (let d = k_dev s x
      in live (trace s) = L + all_blocks (k_eng s) (all_engines d)
       \<and> (\<forall>i < d_h2c_channel_max d. probed x DMA_TO_DEVICE i (k_eng s (d_engine_h2c d i)))
       \<and> (\<forall>i < d_c2h_channel_max d. probed x DMA_FROM_DEVICE i (k_eng s (d_engine_c2h d i))))"

lemma engines_up_magic: "engines_up x L s \<Longrightarrow> \<forall>e \<in> set (all_engines (k_dev s x)). e_magic (k_eng s e) = MAGIC_ENGINE"
  by (auto simp: engines_up_def Let_def h2c_engines_def c2h_engines_def probed_def)

lemma probe_kept_dev:
  assumes "probe_kept x s s'"
  shows "d_engine_h2c (k_dev s' x) = d_engine_h2c (k_dev s x)" "d_engine_c2h (k_dev s' x) = d_engine_c2h (k_dev s x)"
    "d_h2c_channel_max (k_dev s' x) = d_h2c_channel_max (k_dev s x)" "d_c2h_channel_max (k_dev s' x) = d_c2h_channel_max (k_dev s x)"
  using assms strip_count_eqD [of "k_dev s' x" "k_dev s x"] by (auto simp: probe_kept_def)

text \<open>A device whose engines have not been set up.\<close>

definition engines_blank :: "env \<Rightarrow> ptr \<Rightarrow> kst \<Rightarrow> bool" where
  "engines_blank ev x s \<longleftrightarrow>
     (\<forall>i < XDMA_CHANNEL_NUM_MAX. blocks (k_eng s (h2c_at ev x i)) = {#} \<and> blocks (k_eng s (c2h_at ev x i)) = {#})"

text \<open>A device without its engine counter, masks and channel counts.\<close>

definition strip_chan :: "xdma_dev \<Rightarrow> xdma_dev" where
  "strip_chan d = (strip_count d)\<lparr>d_h2c_channel_max := 0, d_c2h_channel_max := 0\<rparr>"

lemma strip_chan_upd [simp]:
  "strip_chan (d\<lparr>d_h2c_channel_max := n\<rparr>) = strip_chan d" "strip_chan (d\<lparr>d_c2h_channel_max := n\<rparr>) = strip_chan d"
  by (simp_all add: strip_chan_def strip_count_def)

lemma probe_engines_ok:
  fixes ev x s
  defines "s' \<equiv> snd (probe_engines ev x s)"
  assumes l: "layout_ok ev" and x: "x \<noteq> NULL" and p: "placed ev x (k_dev s x)" and b: "engines_blank ev x s"
  shows "fst (probe_engines ev x s) = 0" "engines_up x (live (trace s)) s'" "placed ev x (k_dev s' x)"
    "mapped (trace s') = mapped (trace s)" "held l' (trace s') = held l' (trace s)" "k_xdev_list s' = k_xdev_list s"
    "strip_chan (k_dev s' x) = strip_chan (k_dev s x)" "y \<noteq> x \<Longrightarrow> k_dev s' y = k_dev s y"
proof -
  let ?H = "h2c_at ev x" and ?C = "c2h_at ev x" and ?h = "d_h2c_channel_max (k_dev s x)" and ?c = "d_c2h_channel_max (k_dev s x)"
  have e: "engine_of (k_dev s x) DMA_TO_DEVICE = ?H" "engine_of (k_dev s x) DMA_FROM_DEVICE = ?C" and lim: "?h \<le> XDMA_CHANNEL_NUM_MAX" "?c \<le> XDMA_CHANNEL_NUM_MAX"
    using p by (auto simp: placed_def engine_of_def)
  have inj: "inj_on ?H S" "inj_on ?C S" for S using engines_at_inj(1,2) [OF l] inj_on_subset by blast+
  have nn: "?H j \<noteq> NULL" "?C j \<noteq> NULL" for j using x by (simp_all add: h2c_at_def c2h_at_def)
  define r1 where "r1 = probe_channels ev x DMA_TO_DEVICE 0 ?h s"
  have bl: "\<forall>j \<in> {0..<0 + ?h}. ?H j \<noteq> NULL \<and> blocks (k_eng s (?H j)) = {#}" using b lim nn by (auto simp: engines_blank_def)
  note h = probe_channels_ok [OF x, of s DMA_TO_DEVICE 0 ?h ev, unfolded e, OF inj(1) bl, folded r1_def]
  define s1 where "s1 = upd_dev x (\<lambda>d. d\<lparr>d_h2c_channel_max := fst r1\<rparr>) (snd r1)"
  note hk = probe_kept_dev [of x s "snd r1"]
  have e1: "engine_of (k_dev s1 x) DMA_FROM_DEVICE = ?C" "d_c2h_channel_max (k_dev s1 x) = ?c"
    using h hk p by (auto simp: s1_def engine_of_def placed_def)
  define r2 where "r2 = probe_channels ev x DMA_FROM_DEVICE 0 ?c s1"
  have cn: "?C j \<notin> ?H ` {0..<0 + ?h}" for j
  proof
    assume "?C j \<in> ?H ` {0..<0 + ?h}"
    then obtain i where "i < ?h" "?C j = ?H i" by auto
    with engines_at_inj(3) [OF l, of i x j] lim show False by auto
  qed
  have bl2: "\<forall>j \<in> {0..<0 + ?c}. ?C j \<noteq> NULL \<and> blocks (k_eng s1 (?C j)) = {#}"
    using b lim nn h cn by (auto simp: engines_blank_def s1_def)
  note c = probe_channels_ok [OF x, of s1 DMA_FROM_DEVICE 0 ?c ev, unfolded e1, OF inj(2) bl2, folded r2_def]
  have r: "probe_engines ev x s = (0, upd_dev x (\<lambda>d. d\<lparr>d_c2h_channel_max := fst r2\<rparr>) (snd r2))"
    using x e1(2) hk h by (simp add: probe_engines_def Let_def split_beta r1_def [symmetric] s1_def [symmetric] r2_def)
  then show "fst (probe_engines ev x s) = 0" by simp
  have s': "s' = upd_dev x (\<lambda>d. d\<lparr>d_c2h_channel_max := fst r2\<rparr>) (snd r2)" by (simp add: s'_def r)
  note ck = probe_kept_dev [of x s1 "snd r2"]
  have d: "d_engine_h2c (k_dev s' x) = ?H" "d_engine_c2h (k_dev s' x) = ?C" "d_h2c_channel_max (k_dev s' x) = fst r1" "d_c2h_channel_max (k_dev s' x) = fst r2"
    using h c hk ck p by (auto simp: s' s1_def placed_def)
  show "placed ev x (k_dev s' x)" using h c lim d by (auto simp: placed_def)
  have hn: "?H i \<notin> ?C ` {0..<0 + ?c}" if "i < ?h" for i
    using engines_at_inj(3) [OF l, of i x] that lim by auto
  have keep: "k_eng s' (?H i) = k_eng (snd r1) (?H i)" if "i < fst r1" for i
    using c hn h that by (auto simp: s' s1_def)
  have "all_blocks (k_eng (snd r1)) (map ?H [0..<fst r1]) = all_blocks (k_eng s') (map ?H [0..<fst r1])"
    by (intro all_blocks_cong) (auto simp: keep)
  then show "engines_up x (live (trace s)) s'"
    using h c d keep by (auto simp: engines_up_def Let_def h2c_engines_def c2h_engines_def s' s1_def ac_simps)
  show "mapped (trace s') = mapped (trace s)" "held l' (trace s') = held l' (trace s)" "k_xdev_list s' = k_xdev_list s"
    "y \<noteq> x \<Longrightarrow> k_dev s' y = k_dev s y"
    using h c by (auto simp: probe_kept_def s' s1_def)
  have "strip_chan (k_dev (snd r1) x) = strip_chan (k_dev s x)" "strip_chan (k_dev (snd r2) x) = strip_chan (k_dev s1 x)"
    using h c by (simp_all add: probe_kept_def strip_chan_def)
  then show "strip_chan (k_dev s' x) = strip_chan (k_dev s x)" by (simp add: s' s1_def)
qed

subsection \<open>The error exit\<close>

lemma threads_books [simp]:
  "books (snd (xdma_kthread_start ev p n i s)) = books s" "books (snd (xdma_kthread_stop ev p s)) = books s"
  "books (upd_thr p f s) = books s" "books (s\<lparr>k_cs_threads := c\<rparr>) = books s" "books (s\<lparr>k_thread_cnt := n'\<rparr>) = books s"
proof -
  show u: "books (upd_thr p f s) = books s" for f s by (simp add: books_def)
  show "books (snd (xdma_kthread_start ev p n i s)) = books s" "books (snd (xdma_kthread_stop ev p s)) = books s"
    by (simp_all add: xdma_kthread_start_def xdma_kthread_stop_def Let_def split_beta u)
qed (simp_all add: books_def)

lemma threads_create_books [simp]: "books (snd (xdma_threads_create ev cpus n s)) = books s"
proof -
  have "books (snd (threads_create_loop ev cpus n i t)) = books t" for i t
    by (induction cpus arbitrary: i t) (simp_all add: Let_def split_beta)
  then show ?thesis by (simp add: xdma_threads_create_def Let_def split_beta fold_frame [where f = books])
qed

lemma threads_destroy_books [simp]: "books (xdma_threads_destroy ev s) = books s"
  by (simp add: xdma_threads_destroy_def Let_def fold_frame [where f = books])

lemma threads_live [simp]:
  "live (trace (xdma_threads_destroy ev s)) = live (trace s)" "mapped (trace (xdma_threads_destroy ev s)) = mapped (trace s)"
  "live (trace (snd (xdma_threads_create ev cpus n s))) = live (trace s)"
  "mapped (trace (snd (xdma_threads_create ev cpus n s))) = mapped (trace s)"
  using books_eqD [OF threads_destroy_books] books_eqD [OF threads_create_books] by blast+

lemma threads_eng [simp]: "k_eng (xdma_threads_destroy ev s) = k_eng s" "k_eng (snd (xdma_threads_create ev cpus n s)) = k_eng s"
proof -
  have k: "k_eng (snd (xdma_kthread_start ev p m i t)) = k_eng t" "k_eng (snd (xdma_kthread_stop ev p t)) = k_eng t" for p m i t
    by (simp_all add: xdma_kthread_start_def xdma_kthread_stop_def Let_def split_beta)
  have "k_eng (snd (threads_create_loop ev cpus n i t)) = k_eng t" for i t
    by (induction cpus arbitrary: i t) (simp_all add: Let_def split_beta k)
  then show "k_eng (snd (xdma_threads_create ev cpus n s)) = k_eng s"
    by (simp add: xdma_threads_create_def Let_def split_beta fold_frame [where f = k_eng])
  show "k_eng (xdma_threads_destroy ev s) = k_eng s"
    by (simp add: xdma_threads_destroy_def Let_def k fold_frame [where f = k_eng])
qed

lemma list_add_live [simp]:
  "live (trace (snd (xdev_list_add ev cpus x s))) = live (trace s)" "mapped (trace (snd (xdev_list_add ev cpus x s))) = mapped (trace s)"
  "k_eng (snd (xdev_list_add ev cpus x s)) = k_eng s"
  by (simp_all add: xdev_list_add_def Let_def split_beta)

lemma list_remove_books: "books s = (L, M, h, xs) \<Longrightarrow> books (xdev_list_remove ev x s) = (L, M, h, remove1 x xs)"
  by (auto simp: books_def xdev_list_remove_def Let_def)

lemma err_enable_books:
  "books s = (L, M, h, xs @ [x]) \<Longrightarrow> x \<notin> set xs \<Longrightarrow> books (err_enable ev x s) = (L, M, h, xs)"
  by (simp add: err_enable_def free_xdev_def list_remove_books remove1_append)

lemma err_map_books:
  assumes "books s = (L, M, h, xs @ [x])" "x \<notin> set xs"
  shows "books (err_regions ev x p s) = (L, M, h, xs)" "books (err_map ev x p s) = (L, M, h, xs)"
proof -
  have *: "books (err_regions ev x p t) = (L, M, h, xs)" if "books t = (L, M, h, xs @ [x])" for t
    unfolding err_regions_def by (rule err_enable_books) (simp_all add: that assms)
  then show "books (err_regions ev x p s) = (L, M, h, xs)" using assms by blast
  show "books (err_map ev x p s) = (L, M, h, xs)" unfolding err_map_def by (rule *) (simp add: assms)
qed

lemma err_mask_books:
  assumes "books s = (L, M + bars (k_dev s x) [0..<XDMA_BAR_NUM], h, xs @ [x])" "x \<notin> set xs"
  shows "books (err_mask ev x p s) = (L, M, h, xs)"
  unfolding err_mask_def by (rule err_map_books) (use assms in \<open>simp_all add: books_def\<close>)

lemma err_engines_books:
  assumes l: "layout_ok ev" and x: "x \<noteq> NULL" and p: "placed ev x (k_dev s x)" and up: "engines_up x L s"
    and b: "mapped (trace s) = M + bars (k_dev s x) [0..<XDMA_BAR_NUM]" "k_xdev_list s = xs @ [x]" "x \<notin> set xs"
  shows "books (err_engines ev x q s) = (L, M, (\<lambda>l. held l (trace s)), xs)"
proof -
  note r = remove_engines_sel [OF x all_engines_ok(2,1) [OF l p x] engines_up_magic [OF up], where ev = ev]
  have "bars (k_dev (remove_engines ev x s) x) js = bars (k_dev s x) js" for js by (rule strip_count_eqD [OF r(5)])
  moreover have "live (trace s) - all_blocks (k_eng s) (all_engines (k_dev s x)) = L"
    using up by (simp add: engines_up_def Let_def)
  ultimately show ?thesis
    unfolding err_engines_def by (intro err_mask_books) (simp_all add: books_def r b)
qed

text \<open>The interrupt operations leave the engines of a device as they are.\<close>

lemma engines_up_cong:
  assumes "engines_up x L s" "books s' = books s" "\<And>e. strip_line (k_eng s' e) = strip_line (k_eng s e)"
    "d_engine_h2c (k_dev s' x) = d_engine_h2c (k_dev s x)" "d_engine_c2h (k_dev s' x) = d_engine_c2h (k_dev s x)"
    "d_h2c_channel_max (k_dev s' x) = d_h2c_channel_max (k_dev s x)" "d_c2h_channel_max (k_dev s' x) = d_c2h_channel_max (k_dev s x)"
  shows "engines_up x L s'"
proof -
  note e = strip_line_eqD [OF assms(3)]
  have es: "h2c_engines (k_dev s' x) = h2c_engines (k_dev s x)" "c2h_engines (k_dev s' x) = c2h_engines (k_dev s x)"
    using assms by (simp_all add: h2c_engines_def c2h_engines_def)
  have "all_blocks (k_eng s') (all_engines (k_dev s x)) = all_blocks (k_eng s) (all_engines (k_dev s x))"
    by (rule all_blocks_cong) (rule e(1))
  with assms books_eqD [OF assms(2)] show ?thesis
    by (simp add: engines_up_def Let_def es probed_def e)
qed

text \<open>A device on the way to being opened: its BARs are mapped, it is the last on the list.\<close>

definition pending :: "ptr \<Rightarrow> ptr multiset \<Rightarrow> ptr list \<Rightarrow> kst \<Rightarrow> bool" where
  "pending x M xs s \<longleftrightarrow> mapped (trace s) = M + bars (k_dev s x) [0..<XDMA_BAR_NUM] \<and> k_xdev_list s = xs @ [x]"

lemma pending_cong:
  assumes "pending x M xs s" "books s' = books s" "d_bar (k_dev s' x) = d_bar (k_dev s x)"
  shows "pending x M xs s'"
  using assms books_eqD [OF assms(2)] bars_cong [of "[0..<XDMA_BAR_NUM]" "k_dev s' x" "k_dev s x"] by (simp add: pending_def)

text \<open>A device without its interrupt mode and line, the mask of its user interrupts and its input device.\<close>

definition strip_irq :: "xdma_dev \<Rightarrow> xdma_dev" where
  "strip_irq d = d\<lparr>d_msix_enabled := False, d_msi_enabled := False, d_irq_line := 0, d_mask_irq_user := 0, d_input_dev := NULL\<rparr>"

lemma strip_irq_eqD:
  assumes "strip_irq d' = strip_irq d"
  shows "d_bar d' = d_bar d" "d_user_max d' = d_user_max d" "d_h2c_channel_max d' = d_h2c_channel_max d" "d_c2h_channel_max d' = d_c2h_channel_max d"
    "d_engine_h2c d' = d_engine_h2c d" "d_engine_c2h d' = d_engine_c2h d" "d_pdev d' = d_pdev d" "roles_ok d' = roles_ok d" "placed ev x d' = placed ev x d"
    "d_flags d' = d_flags d" "d_idx d' = d_idx d"
proof -
  have *: "f d' = f d" if "\<And>d. f (strip_irq d) = f d" for f :: "xdma_dev \<Rightarrow> 'a"
    using that assms by metis
  show "d_bar d' = d_bar d" "d_user_max d' = d_user_max d" "d_h2c_channel_max d' = d_h2c_channel_max d" "d_c2h_channel_max d' = d_c2h_channel_max d"
    "d_engine_h2c d' = d_engine_h2c d" "d_engine_c2h d' = d_engine_c2h d" "d_pdev d' = d_pdev d" "roles_ok d' = roles_ok d" "placed ev x d' = placed ev x d"
    "d_flags d' = d_flags d" "d_idx d' = d_idx d"
    by (rule *; simp add: strip_irq_def roles_ok_def mapped_bars_def placed_def Let_def)+
qed

lemma strip_irq_msi [simp]:
  "strip_irq (k_dev (snd (enable_msi_msix ev x p s)) y) = strip_irq (k_dev s y)" "strip_irq (k_dev (disable_msi_msix ev x p s) y) = strip_irq (k_dev s y)"
  "k_eng (snd (enable_msi_msix ev x p s)) = k_eng s" "k_eng (disable_msi_msix ev x p s) = k_eng s"
proof -
  have m: "k_dev (snd (msi_msix_capable ev p ty t)) = k_dev t" "k_eng (snd (msi_msix_capable ev p ty t)) = k_eng t" for ty t
    by (simp_all add: msi_msix_capable_def Let_def split_beta)
  show "k_eng (snd (enable_msi_msix ev x p s)) = k_eng s" "k_eng (disable_msi_msix ev x p s) = k_eng s"
    "strip_irq (k_dev (snd (enable_msi_msix ev x p s)) y) = strip_irq (k_dev s y)" "strip_irq (k_dev (disable_msi_msix ev x p s) y) = strip_irq (k_dev s y)"
    by (simp_all add: enable_msi_msix_def disable_msi_msix_def Let_def split_beta m strip_irq_def)
qed

lemma strip_irq_setup [simp]: "strip_irq (k_dev (snd (irq_setup ev x p s)) y) = strip_irq (k_dev s y)"
  using irq_setup_dev [of ev x p s] by (auto simp: strip_irq_def)

text \<open>The interrupt operations keep a pending device with its engines.\<close>

lemma device_irq_cong:
  assumes "books s' = books s" "\<And>e. strip_line (k_eng s' e) = strip_line (k_eng s e)" "strip_irq (k_dev s' x) = strip_irq (k_dev s x)"
  shows "pending x M xs s \<Longrightarrow> pending x M xs s'" "engines_up x L s \<Longrightarrow> engines_up x L s'"
  using assms pending_cong [of x M xs s s'] engines_up_cong [of x L s s'] strip_irq_eqD [OF assms(3)] by auto

lemma flag_clear_sel [simp]:
  "k_eng (xdma_device_flag_clear d f s) = k_eng s" "books (xdma_device_flag_clear d f s) = books s"
  "k_dev (xdma_device_flag_clear d f s) = (k_dev s)(d := (k_dev s d)\<lparr>d_flags := d_flags (k_dev s d) AND NOT f\<rparr>)"
  by (auto simp: xdma_device_flag_clear_def Let_def books_def)

lemma strip_chan_eqD:
  assumes "strip_chan d' = strip_chan d"
  shows "d_bar d' = d_bar d" "d_user_max d' = d_user_max d" "d_pdev d' = d_pdev d" "roles_ok d' = roles_ok d" "d_flags d' = d_flags d" "d_idx d' = d_idx d"
    "d_got_regions d' = d_got_regions d"
proof -
  have *: "f d' = f d" if "\<And>d. f (strip_chan d) = f d" for f :: "xdma_dev \<Rightarrow> 'a"
    using that assms by metis
  show "d_bar d' = d_bar d" "d_user_max d' = d_user_max d" "d_pdev d' = d_pdev d" "roles_ok d' = roles_ok d" "d_flags d' = d_flags d" "d_idx d' = d_idx d"
    "d_got_regions d' = d_got_regions d"
    by (rule *; simp add: strip_chan_def strip_count_def roles_ok_def mapped_bars_def Let_def)+
qed

lemma flag_cleared: "(w AND NOT f) AND f = (0 :: u32)"
  by (metis and.assoc and.commute bit.conj_cancel_right and_zero_eq)

text \<open>What holds of an opened device.\<close>

definition opened :: "env \<Rightarrow> ptr \<Rightarrow> ptr multiset \<Rightarrow> ptr multiset \<Rightarrow> ptr list \<Rightarrow> kst \<Rightarrow> bool" where
  "opened ev x L M xs s \<longleftrightarrow> pending x M xs s \<and> engines_up x L s \<and> placed ev x (k_dev s x)"

lemma err_opened:
  assumes "layout_ok ev" "x \<noteq> NULL" "x \<notin> set xs" "opened ev x L M xs s"
  shows "books (err_engines ev x q s) = (L, M, (\<lambda>l. held l (trace s)), xs)"
  using assms err_engines_books [of ev x s L M xs q] by (simp add: opened_def pending_def)

lemma opened_cong:
  assumes "books s' = books s" "\<And>e. strip_line (k_eng s' e) = strip_line (k_eng s e)" "strip_irq (k_dev s' x) = strip_irq (k_dev s x)"
  shows "opened ev x L M xs s \<Longrightarrow> opened ev x L M xs s'"
  using device_irq_cong [OF assms] strip_irq_eqD(9) [OF assms(3)] by (simp add: opened_def)

lemma open_engines_cases:
  fixes ev x p s
  defines "r \<equiv> open_engines ev x p s"
  assumes l: "layout_ok ev" and x: "x \<noteq> NULL" and pl: "placed ev x (k_dev s x)" and b: "engines_blank ev x s"
    and pen: "pending x M xs s" and xs: "x \<notin> set xs"
  shows "\<not> fst r \<Longrightarrow> books (snd r) = (live (trace s), M, (\<lambda>l. held l (trace s)), xs)"
    "fst r \<Longrightarrow> opened ev x (live (trace s)) M xs (snd r)
       \<and> (\<forall>l. held l (trace (snd r)) = held l (trace s)) \<and> d_flags (k_dev (snd r) x) AND XDEV_FLAG_OFFLINE = 0
       \<and> d_user_max (k_dev (snd r) x) = d_user_max (k_dev s x) \<and> roles_ok (k_dev (snd r) x) = roles_ok (k_dev s x)
       \<and> d_pdev (k_dev (snd r) x) = d_pdev (k_dev s x)"
    "y \<noteq> x \<Longrightarrow> d_pdev (k_dev (snd r) y) = d_pdev (k_dev s y) \<or> \<not> fst r"
proof -
  let ?L = "live (trace s)"
  define s0 where "s0 = snd (read_interrupts ev x (user_interrupts_disable x (NOT 0) (channel_interrupts_disable x (NOT 0)
      (check_nonzero_interrupt_status ev x s))))"
  have s0: "books s0 = books s" "k_eng s0 = k_eng s" "k_dev s0 = k_dev s" by (simp_all add: s0_def)
  define s1 where "s1 = snd (probe_engines ev x s0)"
  have "placed ev x (k_dev s0 x)" "engines_blank ev x s0" using pl b by (simp_all add: s0 engines_blank_def)
  note pr = probe_engines_ok [OF l x this, folded s1_def]
  note c1 = strip_chan_eqD [OF pr(7)] and b0 = books_eqD [OF s0(1)]
  have "bars (k_dev s1 x) [0..<XDMA_BAR_NUM] = bars (k_dev s x) [0..<XDMA_BAR_NUM]" by (rule bars_cong) (simp add: c1 s0)
  then have o1: "opened ev x ?L M xs s1" using pr pen b0 by (simp add: opened_def pending_def)
  define r2 where "r2 = enable_msi_msix ev x p s1"
  have o2: "opened ev x ?L M xs (snd r2)" by (rule opened_cong [OF _ _ _ o1]) (simp_all add: r2_def)
  define r3 where "r3 = irq_setup ev x p (snd r2)"
  have o3: "opened ev x ?L M xs (snd r3)" by (rule opened_cong [OF _ _ _ o2]) (simp_all add: r3_def)
  have od: "opened ev x ?L M xs (disable_msi_msix ev x p (snd r3))" by (rule opened_cong [OF _ _ _ o3]) simp_all
  define s4 where "s4 = snd (read_interrupts ev x (if poll_mode ev = 0 then channel_interrupts_enable x (NOT 0) (snd r3) else snd r3))"
  have s4: "books s4 = books (snd r3)" "k_eng s4 = k_eng (snd r3)" "k_dev s4 = k_dev (snd r3)" by (simp_all add: s4_def)
  have o4: "opened ev x ?L M xs s4" by (rule opened_cong [OF _ _ _ o3]) (simp_all add: s4)
  have eq: "r = (if fst r2 < 0 then (False, err_engines ev x p (snd r2)) else if fst r3 < 0 then (False, err_msix ev x p (snd r3))
      else (True, xdma_device_flag_clear x XDEV_FLAG_OFFLINE s4))"
    unfolding r_def open_engines_def Let_def split_beta s0_def [symmetric] s1_def [symmetric] r2_def [symmetric] r3_def [symmetric]
      s4_def [symmetric]
    using pr(1) by simp
  have bk: "books (snd r2) = books s1" "books (snd r3) = books s1" by (simp_all add: r2_def r3_def)
  have h: "held l (trace (snd r2)) = held l (trace s)" "held l (trace (snd r3)) = held l (trace s)"
    "held l (trace (disable_msi_msix ev x p (snd r3))) = held l (trace s)" for l
    using books_eqD(3) [OF bk(1), of l] books_eqD(3) [OF bk(2), of l] books_eqD(3) [of "disable_msi_msix ev x p (snd r3)" "snd r3" l] pr(5) b0(3) by simp_all
  show "books (snd r) = (?L, M, (\<lambda>l. held l (trace s)), xs)" if "\<not> fst r"
    using that err_opened [OF l x xs o2, of p] err_opened [OF l x xs od, of p] h by (auto simp: eq err_msix_def split: if_splits)
  have d3: "strip_irq (k_dev (snd r3) x) = strip_irq (k_dev s1 x)" by (simp add: r3_def r2_def)
  note f3 = strip_irq_eqD [OF d3]
  have o5: "opened ev x ?L M xs (xdma_device_flag_clear x XDEV_FLAG_OFFLINE s4)"
    using o4 by (auto simp: opened_def intro: pending_cong engines_up_cong) (simp add: placed_def)
  have "roles_ok (k_dev (xdma_device_flag_clear x XDEV_FLAG_OFFLINE s4) x) = roles_ok (k_dev (snd r3) x)"
    by (simp add: s4 roles_ok_def mapped_bars_def)
  then show "opened ev x ?L M xs (snd r)
       \<and> (\<forall>l. held l (trace (snd r)) = held l (trace s)) \<and> d_flags (k_dev (snd r) x) AND XDEV_FLAG_OFFLINE = 0
       \<and> d_user_max (k_dev (snd r) x) = d_user_max (k_dev s x) \<and> roles_ok (k_dev (snd r) x) = roles_ok (k_dev s x)
       \<and> d_pdev (k_dev (snd r) x) = d_pdev (k_dev s x)" if "fst r"
    using that o5 h(2) books_eqD(3) [OF s4(1)] books_eqD(3) [OF flag_clear_sel(2)]
    by (auto simp: eq s4 f3 c1 s0 flag_cleared split: if_splits)
  show "d_pdev (k_dev (snd r) y) = d_pdev (k_dev s y) \<or> \<not> fst r" if "y \<noteq> x"
    using that strip_irq_eqD(7) [of "k_dev (snd r3) y" "k_dev s1 y"] pr(8) by (auto simp: eq s4 s0 r3_def r2_def split: if_splits)
qed

subsection \<open>Opening a device\<close>

lemma fold_upd_eng [simp]:
  "books (fold (\<lambda>i. upd_eng (A i) f) is s) = books s" "k_dev (fold (\<lambda>i. upd_eng (A i) f) is s) = k_dev s"
  by (induction "is" arbitrary: s) simp_all

lemma fold_zero_eng:
  "k_eng (fold (\<lambda>i. upd_eng (A i) (\<lambda>_. zero_engine)) is s) e = (if e \<in> A ` set is then zero_engine else k_eng s e)"
  by (induction "is" arbitrary: s) auto

text \<open>A device that has been allocated: on no list, no BAR looked at, no engine set up.\<close>

lemma alloc_dev_sel:
  fixes ev p s
  defines "x \<equiv> fst (alloc_dev_instance ev p s)" and "s' \<equiv> snd (alloc_dev_instance ev p s)"
  shows "books s' = books s" "y \<noteq> x \<Longrightarrow> k_dev s' y = k_dev s y"
    "x \<noteq> NULL \<Longrightarrow> x = nat (ksvc ev (trace s) ''kzalloc'' (sizeof_dev ev)) \<and> bars_fresh (k_dev s' x) \<and> engines_blank ev x s'
       \<and> d_engine_h2c (k_dev s' x) = h2c_at ev x \<and> d_engine_c2h (k_dev s' x) = c2h_at ev x \<and> d_pdev (k_dev s' x) = p"
proof -
  let ?p = "nat (ksvc ev (trace s) ''kzalloc'' (sizeof_dev ev))"
  show "books s' = books s" by (simp add: s'_def alloc_dev_instance_def Let_def split_beta)
  show "k_dev s' y = k_dev s y" if "y \<noteq> x"
    using that by (simp add: x_def s'_def alloc_dev_instance_def Let_def split_beta split: if_splits)
  assume "x \<noteq> NULL"
  then have p: "p \<noteq> NULL" "?p \<noteq> NULL" and x: "x = ?p"
    by (auto simp: x_def alloc_dev_instance_def Let_def split_beta split: if_splits)
  note d = s'_def alloc_dev_instance_def Let_def split_beta
  have dev: "k_dev s' x = zero_dev\<lparr>d_magic := MAGIC_DEVICE, d_config_bar_idx := - 1, d_user_bar_idx := - 1,
      d_bypass_bar_idx := - 1, d_irq_line := - 1, d_pdev := p,
      d_user_irq := (\<lambda>i. if i < 16 then zero_user_irq\<lparr>ui_user_idx := of_nat i\<rparr> else zero_user_irq),
      d_engine_h2c := h2c_at ev x, d_engine_c2h := c2h_at ev x\<rparr>"
    using p by (simp add: d x)
  have "k_eng s' (h2c_at ev x i) = zero_engine \<and> k_eng s' (c2h_at ev x i) = zero_engine" if "i < XDMA_CHANNEL_NUM_MAX" for i
    using that p by (simp add: d x fold_zero_eng)
  then have eb: "engines_blank ev x s'" by (simp add: engines_blank_def blocks_def zero_engine_def)
  show "x = ?p \<and> bars_fresh (k_dev s' x) \<and> engines_blank ev x s'
       \<and> d_engine_h2c (k_dev s' x) = h2c_at ev x \<and> d_engine_c2h (k_dev s' x) = c2h_at ev x \<and> d_pdev (k_dev s' x) = p"
    by (intro conjI x eb) (simp_all add: dev bars_fresh_def zero_dev_def)
qed

lemma set_dma_mask_sel [simp]:
  "books (snd (set_dma_mask ev p s)) = books s" "k_eng (snd (set_dma_mask ev p s)) = k_eng s" "k_dev (snd (set_dma_mask ev p s)) = k_dev s"
  by (simp_all add: set_dma_mask_def Let_def split_beta)

lemma request_regions_sel [simp]:
  "books (snd (request_regions ev x p s)) = books s" "k_eng (snd (request_regions ev x p s)) = k_eng s"
  "d_pdev (k_dev (snd (request_regions ev x p s)) y) = d_pdev (k_dev s y)"
  "d_user_max (k_dev (snd (request_regions ev x p s)) y) = d_user_max (k_dev s y)"
  "bars_fresh (k_dev (snd (request_regions ev x p s)) y) = bars_fresh (k_dev s y)"
  "placed ev' x' (k_dev (snd (request_regions ev x p s)) y) = placed ev' x' (k_dev s y)"
  by (simp_all add: request_regions_def Let_def split_beta bars_fresh_def placed_def)

lemma open_pci_sel [simp]:
  "books (open_pci ev p s) = books s" "k_eng (open_pci ev p s) = k_eng s" "k_dev (open_pci ev p s) = k_dev s"
  by (simp_all add: open_pci_def pci_enable_capability_def pci_check_intr_pend_def Let_def split_beta)

lemma flag_set_sel [simp]:
  "k_eng (xdma_device_flag_set d f s) = k_eng s" "books (xdma_device_flag_set d f s) = books s"
  "k_dev (xdma_device_flag_set d f s) = (k_dev s)(d := (k_dev s d)\<lparr>d_flags := d_flags (k_dev s d) OR f\<rparr>)"
  by (auto simp: xdma_device_flag_set_def Let_def books_def)

lemma channel_limit_le: "channel_limit mx n \<le> mx"
  by (simp add: channel_limit_def)

lemma bars_kept_fields:
  assumes "bars_kept x s s'"
  shows "d_pdev (k_dev s' y) = d_pdev (k_dev s y)" "d_user_max (k_dev s' x) = d_user_max (k_dev s x)"
    "placed ev x (k_dev s' x) = placed ev x (k_dev s x)"
proof -
  have *: "f (k_dev s' x) = f (k_dev s x)" if "\<And>d. f (strip_bars d) = f d" for f :: "xdma_dev \<Rightarrow> 'a"
    using that assms unfolding bars_kept_def by metis
  have "d_pdev (k_dev s' x) = d_pdev (k_dev s x)" by (rule *) (simp add: strip_bars_def)
  then show "d_pdev (k_dev s' y) = d_pdev (k_dev s y)" using assms by (cases "y = x") (auto simp: bars_kept_def)
  show "d_user_max (k_dev s' x) = d_user_max (k_dev s x)" "placed ev x (k_dev s' x) = placed ev x (k_dev s x)"
    by (rule *; simp add: strip_bars_def placed_def)+
qed

lemma open_rest_cases:
  fixes ev x p s
  defines "r \<equiv> open_rest ev x p s"
  assumes l: "layout_ok ev" and x: "x \<noteq> NULL" and pl: "placed ev x (k_dev s x)" and b: "engines_blank ev x s" and f: "bars_fresh (k_dev s x)"
    and xs: "k_xdev_list s = xs @ [x]" "x \<notin> set xs"
  shows "\<not> fst r \<Longrightarrow> books (snd r) = (live (trace s), mapped (trace s), (\<lambda>l. held l (trace s)), xs)"
    "fst r \<Longrightarrow> opened ev x (live (trace s)) (mapped (trace s)) xs (snd r)
       \<and> (\<forall>l. held l (trace (snd r)) = held l (trace s)) \<and> d_flags (k_dev (snd r) x) AND XDEV_FLAG_OFFLINE = 0
       \<and> d_user_max (k_dev (snd r) x) = d_user_max (k_dev s x) \<and> roles_ok (k_dev (snd r) x)
       \<and> (\<forall>y. d_pdev (k_dev (snd r) y) = d_pdev (k_dev s y))"
proof -
  define r1 where "r1 = request_regions ev x p (open_pci ev p s)"
  have s1: "books (snd r1) = books s" "bars_fresh (k_dev (snd r1) x)" "placed ev x (k_dev (snd r1) x)" "k_eng (snd r1) = k_eng s"
    using f pl by (simp_all add: r1_def)
  note b1 = books_eqD [OF s1(1)]
  define r2 where "r2 = map_bars ev x p (snd r1)"
  from map_bars_cases [OF x s1(2), of ev p, folded r2_def]
  have kept: "bars_kept x (snd r1) (snd r2)"
    and out: "fst r2 = - EINVAL \<and> bars_unmapped x (snd r1) (snd r2) \<or> fst r2 = 0 \<and> bars_ready x (snd r1) (snd r2)" by auto
  have k2: "live (trace (snd r2)) = live (trace s)" "held l (trace (snd r2)) = held l (trace s)" "k_xdev_list (snd r2) = xs @ [x]"
    "k_eng (snd r2) = k_eng s" for l
    using kept b1 s1 xs by (auto simp: bars_kept_def)
  note d2 = bars_kept_fields [OF kept]
  define r3 where "r3 = set_dma_mask ev p (snd r2)"
  have s3: "books (snd r3) = books (snd r2)" "k_eng (snd r3) = k_eng (snd r2)" "k_dev (snd r3) = k_dev (snd r2)" by (simp_all add: r3_def)
  note b3 = books_eqD [OF s3(1)]
  have eq: "r = (if fst r1 \<noteq> 0 then (False, err_regions ev x p (snd r1)) else if fst r2 \<noteq> 0 then (False, err_map ev x p (snd r2))
      else if fst r3 \<noteq> 0 then (False, err_mask ev x p (snd r3)) else open_engines ev x p (snd r3))"
    unfolding r_def open_rest_def Let_def split_beta r1_def [symmetric] r2_def [symmetric] r3_def [symmetric] by simp
  have e1: "books (err_regions ev x p (snd r1)) = (live (trace s), mapped (trace s), (\<lambda>l. held l (trace s)), xs)"
    by (rule err_map_books) (use s1 xs in \<open>simp_all add: books_def\<close>)
  have e2: "books (err_map ev x p (snd r2)) = (live (trace s), mapped (trace s), (\<lambda>l. held l (trace s)), xs)" if "fst r2 \<noteq> 0"
    by (rule err_map_books) (use that out k2 b1 xs in \<open>auto simp: books_def bars_unmapped_def\<close>)
  have pen: "pending x (mapped (trace s)) xs (snd r3)" if "fst r2 = 0"
    using that out k2 b1 b3 xs by (auto simp: pending_def bars_ready_def s3 EINVAL_def)
  have e3: "books (err_mask ev x p (snd r3)) = (live (trace s), mapped (trace s), (\<lambda>l. held l (trace s)), xs)" if "fst r2 = 0"
    by (rule err_mask_books) (use pen [OF that] k2 b3 xs in \<open>simp_all add: books_def pending_def\<close>)
  have "engines_blank ev x (snd r3)" "placed ev x (k_dev (snd r3) x)" using b s1 d2 by (simp_all add: engines_blank_def s3 k2)
  note oe = open_engines_cases [OF l x this(2,1) _ xs(2), where p = p and M = "mapped (trace s)"]
  show "books (snd r) = (live (trace s), mapped (trace s), (\<lambda>l. held l (trace s)), xs)" if "\<not> fst r"
    using that e1 e2 e3 oe(1) pen k2 b3 by (auto simp: eq split: if_splits)
  show "opened ev x (live (trace s)) (mapped (trace s)) xs (snd r)
       \<and> (\<forall>l. held l (trace (snd r)) = held l (trace s)) \<and> d_flags (k_dev (snd r) x) AND XDEV_FLAG_OFFLINE = 0
       \<and> d_user_max (k_dev (snd r) x) = d_user_max (k_dev s x) \<and> roles_ok (k_dev (snd r) x)
       \<and> (\<forall>y. d_pdev (k_dev (snd r) y) = d_pdev (k_dev s y))" if "fst r"
  proof -
    have z: "fst r1 = 0" "fst r2 = 0" "fst r3 = 0" and r: "r = open_engines ev x p (snd r3)"
      using that by (auto simp: eq split: if_splits)
    have ro: "roles_ok (k_dev (snd r3) x)" using out z by (auto simp: bars_ready_def s3 EINVAL_def)
    have u: "d_user_max (k_dev (snd r3) x) = d_user_max (k_dev s x)" "d_pdev (k_dev (snd r3) y) = d_pdev (k_dev s y)" for y
      by (simp_all add: s3 d2 r1_def)
    have "d_pdev (k_dev (snd r) y) = d_pdev (k_dev s y)" for y
      using oe(2) [OF pen [OF z(2)]] oe(3) [OF pen [OF z(2)], of y] that u by (cases "y = x") (auto simp: r)
    with oe(2) [OF pen [OF z(2)]] that ro u k2 b3 show ?thesis by (simp add: r)
  qed
qed

lemma open_instance_sel:
  fixes ev p lim s
  defines "x \<equiv> fst (open_instance ev p lim s)" and "s' \<equiv> snd (open_instance ev p lim s)"
  shows "books s' = books s" "y \<noteq> x \<Longrightarrow> k_dev s' y = k_dev s y"
    "x \<noteq> NULL \<Longrightarrow> p \<noteq> NULL \<and> x = nat (ksvc ev (trace s) ''kzalloc'' (sizeof_dev ev)) \<and> bars_fresh (k_dev s' x) \<and> engines_blank ev x s'
       \<and> placed ev x (k_dev s' x) \<and> d_pdev (k_dev s' x) = p \<and> d_user_max (k_dev s' x) \<le> MAX_USER_IRQ"
proof -
  obtain u h c where lim: "lim = (u, h, c)" by (cases lim)
  have x: "x = fst (alloc_dev_instance ev p s)" by (simp add: x_def open_instance_def lim Let_def split_beta)
  note d = s'_def open_instance_def lim Let_def split_beta
  show "books s' = books s" by (simp add: d alloc_dev_sel(1))
  show "k_dev s' y = k_dev s y" if "y \<noteq> x" using that x by (simp add: d alloc_dev_sel(2))
  assume nn: "x \<noteq> NULL"
  then have p: "p \<noteq> NULL" using x by (cases "p = NULL") (simp_all add: alloc_dev_instance_def)
  note a = alloc_dev_sel(3) [where ev = ev and p = p and s = s, folded x, OF nn]
  have k: "x = nat (ksvc ev (trace s) ''kzalloc'' (sizeof_dev ev))" using a by blast
  have "bars_fresh (k_dev s' x) \<and> engines_blank ev x s' \<and> placed ev x (k_dev s' x) \<and> d_pdev (k_dev s' x) = p
      \<and> d_user_max (k_dev s' x) \<le> MAX_USER_IRQ"
    using nn conjunct2 [OF a] by (simp add: d x [symmetric] bars_fresh_def engines_blank_def placed_def channel_limit_le)
  with p k show "p \<noteq> NULL \<and> x = nat (ksvc ev (trace s) ''kzalloc'' (sizeof_dev ev)) \<and> bars_fresh (k_dev s' x) \<and> engines_blank ev x s'
       \<and> placed ev x (k_dev s' x) \<and> d_pdev (k_dev s' x) = p \<and> d_user_max (k_dev s' x) \<le> MAX_USER_IRQ" by blast
qed

lemma device_open_cases:
  fixes ev cpus pdev lim s
  defines "r \<equiv> xdma_device_open ev cpus pdev lim s" and "x \<equiv> fst (fst (xdma_device_open ev cpus pdev lim s))"
  assumes l: "layout_ok ev" and new: "nat (ksvc ev (trace s) ''kzalloc'' (sizeof_dev ev)) \<notin> set (k_xdev_list s)"
  shows "x = NULL \<Longrightarrow> snd (fst r) = lim \<and> books (snd r) = books s"
    "x \<noteq> NULL \<Longrightarrow> pdev \<noteq> NULL \<and> x \<notin> set (k_xdev_list s) \<and> opened ev x (live (trace s)) (mapped (trace s)) (k_xdev_list s) (snd r)
       \<and> (\<forall>l. held l (trace (snd r)) = held l (trace s)) \<and> d_flags (k_dev (snd r) x) AND XDEV_FLAG_OFFLINE = 0
       \<and> d_user_max (k_dev (snd r) x) \<le> MAX_USER_IRQ \<and> roles_ok (k_dev (snd r) x) \<and> d_pdev (k_dev (snd r) x) = pdev
       \<and> (\<forall>y. y \<noteq> x \<longrightarrow> d_pdev (k_dev (snd r) y) = d_pdev (k_dev s y))
       \<and> snd (fst r) = (d_user_max (k_dev (snd r) x), d_h2c_channel_max (k_dev (snd r) x), d_c2h_channel_max (k_dev (snd r) x))"
proof -
  define a where "a = open_instance ev pdev lim s"
  note al = open_instance_sel [where ev = ev and p = pdev and lim = lim and s = s, folded a_def]
  note f2 = books_eqD [OF al(1)]
  define r3 where "r3 = xdev_list_add ev cpus (fst a) (snd a)"
  note la = list_add_sel [where ev = ev and cpus = cpus and x = "fst a" and s = "snd a", folded r3_def]
    and ll = list_add_live [where ev = ev and cpus = cpus and x = "fst a" and s = "snd a", folded r3_def]
  define r4 where "r4 = kcall ev ''pci_enable_device'' pdev (snd r3)"
  have b4: "books (snd r4) = books (snd r3)" "k_dev (snd r4) = k_dev (snd r3)" "k_eng (snd r4) = k_eng (snd r3)" by (simp_all add: r4_def)
  define r5 where "r5 = open_rest ev (fst a) pdev (snd r4)"
  have eq: "r = (if fst a = NULL then ((NULL, lim), snd a) else if fst r3 < 0 then ((NULL, lim), free_xdev (fst a) (snd r3))
      else if fst r4 \<noteq> 0 then ((NULL, lim), err_enable ev (fst a) (snd r4))
      else if fst r5 then ((fst a, d_user_max (k_dev (snd r5) (fst a)), d_h2c_channel_max (k_dev (snd r5) (fst a)),
           d_c2h_channel_max (k_dev (snd r5) (fst a))), snd r5) else ((NULL, lim), snd r5))"
    unfolding r_def xdma_device_open_def Let_def split_beta a_def [symmetric]
      r3_def [symmetric] r4_def [symmetric] r5_def [symmetric] by (rule refl)
  have e3: "books (free_xdev (fst a) (snd r3)) = books s" if "fst r3 < 0"
    using that la ll f2 by (auto simp: free_xdev_def books_def)
  have b5: "books (snd r4) = (live (trace s), mapped (trace s), (\<lambda>l. held l (trace s)), k_xdev_list s @ [fst a])"
    and n: "fst a \<notin> set (k_xdev_list s)" if "fst a \<noteq> NULL" "\<not> fst r3 < 0"
  proof -
    have "fst r3 = 0" using that la(1) by simp
    with la ll f2 b4 show "books (snd r4) = (live (trace s), mapped (trace s), (\<lambda>l. held l (trace s)), k_xdev_list s @ [fst a])"
      by (auto simp: books_def)
    show "fst a \<notin> set (k_xdev_list s)" using al(3) that new by simp
  qed
  have e4: "books (err_enable ev (fst a) (snd r4)) = books s" if "fst a \<noteq> NULL" "\<not> fst r3 < 0"
    using err_enable_books [OF b5 n] that by (simp add: books_def)
  have dev: "bars_fresh (k_dev (snd r4) (fst a))" "placed ev (fst a) (k_dev (snd r4) (fst a))" "engines_blank ev (fst a) (snd r4)"
    "d_user_max (k_dev (snd r4) (fst a)) \<le> MAX_USER_IRQ" "d_pdev (k_dev (snd r4) (fst a)) = pdev"
    "y \<noteq> fst a \<Longrightarrow> d_pdev (k_dev (snd r4) y) = d_pdev (k_dev s y)" if "fst a \<noteq> NULL" for y
    using that al la(2) ll(3) by (auto simp: b4 bars_fresh_def placed_def engines_blank_def)
  note oc = open_rest_cases [OF l _ dev(2,3,1) _ n, where p = pdev]
  have k5: "live (trace (snd r4)) = live (trace s)" "mapped (trace (snd r4)) = mapped (trace s)" "held l (trace (snd r4)) = held l (trace s)"
    "k_xdev_list (snd r4) = k_xdev_list s @ [fst a]" if "fst a \<noteq> NULL" "\<not> fst r3 < 0" for l
    using b5 [OF that] by (simp_all add: books_def fun_eq_iff)
  show "snd (fst r) = lim \<and> books (snd r) = books s" if "x = NULL"
    using that al(1) e3 e4 oc(1) k5 by (auto simp: x_def r_def [symmetric] eq r5_def books_def split: if_splits)
  show "pdev \<noteq> NULL \<and> x \<notin> set (k_xdev_list s) \<and> opened ev x (live (trace s)) (mapped (trace s)) (k_xdev_list s) (snd r)
       \<and> (\<forall>l. held l (trace (snd r)) = held l (trace s)) \<and> d_flags (k_dev (snd r) x) AND XDEV_FLAG_OFFLINE = 0
       \<and> d_user_max (k_dev (snd r) x) \<le> MAX_USER_IRQ \<and> roles_ok (k_dev (snd r) x) \<and> d_pdev (k_dev (snd r) x) = pdev
       \<and> (\<forall>y. y \<noteq> x \<longrightarrow> d_pdev (k_dev (snd r) y) = d_pdev (k_dev s y))
       \<and> snd (fst r) = (d_user_max (k_dev (snd r) x), d_h2c_channel_max (k_dev (snd r) x), d_c2h_channel_max (k_dev (snd r) x))" if "x \<noteq> NULL"
  proof -
    have z: "fst a \<noteq> NULL" "\<not> fst r3 < 0" "fst r5" and r: "x = fst a" "snd r = snd r5"
      using that by (auto simp: x_def r_def [symmetric] eq split: if_splits)
    note o = oc(2) [OF z(1,1,1,1) k5(4) [OF z(1,2)] z(1,2), folded r5_def, OF z(3), unfolded k5 [OF z(1,2)]]
    have p: "pdev \<noteq> NULL" using al(3) z by blast
    have d: "d_user_max (k_dev (snd r5) (fst a)) \<le> MAX_USER_IRQ" "d_pdev (k_dev (snd r5) (fst a)) = pdev"
      "\<forall>y. y \<noteq> fst a \<longrightarrow> d_pdev (k_dev (snd r5) y) = d_pdev (k_dev s y)"
      using o dev [OF z(1)] by simp_all
    have f: "snd (fst r) = (d_user_max (k_dev (snd r5) (fst a)), d_h2c_channel_max (k_dev (snd r5) (fst a)), d_c2h_channel_max (k_dev (snd r5) (fst a)))"
      using that z by (auto simp: x_def r_def [symmetric] eq split: if_splits)
    show ?thesis unfolding r f using o p d n [OF z(1,2)] by blast
  qed
qed

subsection \<open>Closing a device\<close>

lemma device_close_eq:
  assumes "fst (debug_check_dev_hndl p x s) = 0"
  shows "xdma_device_close ev p x s = err_engines ev x p (disable_msi_msix ev x p (irq_teardown ev x (snd (read_interrupts ev x
    (user_interrupts_disable x (NOT 0) (channel_interrupts_disable x (NOT 0) (snd (debug_check_dev_hndl p x s))))))))"
  using assms check_hndl_pdev(2) [OF assms]
  by (simp add: xdma_device_close_def Let_def split_beta err_engines_def err_mask_def err_map_def err_regions_def err_enable_def free_xdev_def
      del: bit.compl_zero)

lemma check_hndl_books [simp]: "books (snd (debug_check_dev_hndl p x s)) = books s"
proof -
  have "live (trace (snd (debug_check_dev_hndl p x s))) = live (trace s)" "mapped (trace (snd (debug_check_dev_hndl p x s))) = mapped (trace s)"
    by (simp_all add: debug_check_dev_hndl_def xdev_find_by_pdev_def Let_def split_beta)
  then show ?thesis by (simp add: books_def)
qed

lemma device_close_books:
  assumes l: "layout_ok ev" and ok: "fst (debug_check_dev_hndl p x s) = 0" and o: "opened ev x L M xs s" and xs: "x \<notin> set xs"
  shows "books (xdma_device_close ev p x s) = (L, M, (\<lambda>l. held l (trace s)), xs)"
proof -
  define s1 where "s1 = irq_teardown ev x (snd (read_interrupts ev x
    (user_interrupts_disable x (NOT 0) (channel_interrupts_disable x (NOT 0) (snd (debug_check_dev_hndl p x s))))))"
  have s1: "books s1 = books s" "k_eng s1 = k_eng s" "k_dev s1 = k_dev s" by (simp_all add: s1_def)
  let ?t = "disable_msi_msix ev x p s1"
  have "opened ev x L M xs ?t" by (rule opened_cong [OF _ _ _ o]) (simp_all add: s1)
  moreover have "held l (trace ?t) = held l (trace s)" for l by (rule books_eqD(3)) (simp add: s1)
  ultimately show ?thesis
    unfolding device_close_eq [OF ok] s1_def [symmetric] using err_opened [OF l check_hndl_pdev(2) [OF ok] xs] by simp
qed

lemma find_pdev_append: "\<lbrakk>\<forall>y \<in> set xs. d_pdev (D y) \<noteq> p; d_pdev (D x) = p\<rbrakk> \<Longrightarrow> find_pdev D p (xs @ [x]) = x"
  by (induction xs) auto

subsection \<open>Properties\<close>



subsection \<open>A device that can be opened\<close>

text \<open>A function with a configuration BAR 0, mapped at 65536, and one host-to-card engine; it has a legacy interrupt.\<close>

definition env_open :: env where
  "env_open = env0\<lparr>bar_len := (\<lambda>_ i. if i = 0 then 0x10000 else 0),
     ksvc := (\<lambda>_ f _. if take 10 f = ''pci_iomap '' then 0x10000 else if f = ''kzalloc'' then 0x100000
        else if f = ''dma_alloc_coherent'' then 0x200000 else if f = ''kmalloc xpdev'' then 0x300000
        else if f = ''input_allocate_device'' then 0x400000 else if f = ''pci_read_config_byte PCI_INTERRUPT_PIN'' then 1 else 0),
     hw := (\<lambda>_ a. if a = 0x12000 then IRQ_BLOCK_ID else if a = 0x13000 then CONFIG_BLOCK_ID else if a = 0x10000 then 0x1fc00000 else 0)\<rparr>"

lemma env_open_sel:
  "bar_len env_open p i = (if i = 0 then 0x10000 else 0)" "hw env_open tr 0x12000 = IRQ_BLOCK_ID" "hw env_open tr 0x13000 = CONFIG_BLOCK_ID"
  "poll_mode env_open = 0" "layout_ok env_open"
  by (simp_all add: env_open_def layout_ok_def env0_def XDMA_CHANNEL_NUM_MAX_def)

lemma env_open_iomap: "ksvc env_open tr (''pci_iomap '' @ f) p = 0x10000"
  by (simp add: env_open_def)

lemma env_open_bars:
  assumes "bars_fresh (k_dev s x)" "x \<noteq> NULL"
  shows "fst (map_bars env_open x p s) = 0"
proof -
  have m: "sint (ucast (0x10000 :: u64) :: u32) = 0x10000" by (simp add: sint_map_len INT_MAX_def)
  have 6: "XDMA_BAR_NUM = Suc 5" by (simp add: XDMA_BAR_NUM_def)
  have "\<exists>t. map_bars_loop env_open x p 0 XDMA_BAR_NUM [] 0 s = (Inr ([0], 0), t) \<and> d_config_bar_idx (k_dev t x) = 0"
    unfolding 6 map_bars_loop.simps(2) using assms
    by (simp add: map_single_bar_def is_config_bar_def kcall_def read_register_def Let_def m map_bars_loop_absent
        INT_MAX_def XDMA_BAR_SIZE_def reg_offsets XDMA_OFS_INT_CTRL_def XDMA_OFS_CONFIG_def bars_fresh_def env_open_sel
        env_open_iomap [simplified] IRQ_BLOCK_ID_def CONFIG_BLOCK_ID_def)
  then show ?thesis using assms(2) by (auto simp: map_bars_def identify_bars_def)
qed

lemma env_open_svc:
  "ksvc env_open tr ''request_irq'' p = 0" "ksvc env_open tr ''pci_enable_device'' p = 0" "ksvc env_open tr ''pci_request_regions'' p = 0"
  "ksvc env_open tr ''pci_set_dma_mask 64'' p = 0" "ksvc env_open tr ''pci_enable_msi'' p = 0" "ksvc env_open tr ''kzalloc'' p = 0x100000"
  "ksvc env_open tr ''pci_read_config_byte PCI_INTERRUPT_PIN'' p = 1" "ksvc env_open tr (''pci_alloc_irq_vectors MSIX '' @ f) p = 0"
  by (simp_all add: env_open_def)

lemma env_open_lines: "fst (request_engines env_open p j es s) = 0" "fst (request_users env_open p x b i k s) = 0"
  by (induction es arbitrary: j s) (simp_all add: request_irq_def env_open_svc split_beta Let_def,
      induction k arbitrary: i s, simp_all add: request_irq_def env_open_svc split_beta Let_def)

lemma env_open_irq:
  assumes "x \<noteq> NULL" "p \<noteq> NULL"
  shows "fst (enable_msi_msix env_open x p s) = 0" "fst (irq_setup env_open x p s) = 0"
proof -
  show "fst (enable_msi_msix env_open x p s) = 0"
    using assms by (simp add: enable_msi_msix_def kcall_def Let_def split_beta env_open_svc env_open_svc(8) [simplified])
  have "fst (irq_msix_channel_setup env_open x t) = 0" "fst (irq_msix_user_setup env_open x t) = 0"
    "fst (irq_msi_setup env_open x p t) = 0" "fst (irq_legacy_setup env_open x p t) = 0" for t
    using assms by (simp_all add: irq_msix_channel_setup_def irq_msix_user_setup_def irq_msi_setup_def irq_legacy_setup_def
        request_irq_def kcall_def Let_def split_beta env_open_svc env_open_lines)
  then show "fst (irq_setup env_open x p s) = 0" by (simp add: irq_setup_def Let_def split_beta)
qed

lemma env_open_rest:
  assumes "x \<noteq> NULL" "p \<noteq> NULL" "bars_fresh (k_dev s x)"
  shows "fst (open_rest env_open x p s)"
proof -
  have e: "fst (open_engines env_open x p t)" for t
    using assms by (simp add: open_engines_def Let_def split_beta env_open_irq probe_engines_def)
  have "fst (request_regions env_open x p t) = 0" "fst (set_dma_mask env_open p t) = 0" for t
    using assms by (simp_all add: request_regions_def set_dma_mask_def kcall_def Let_def split_beta env_open_svc)
  then show ?thesis using assms by (simp add: open_rest_def Let_def split_beta e env_open_bars)
qed

lemma env_open_opens: "p \<noteq> NULL \<Longrightarrow> fst (fst (xdma_device_open env_open [] p lim s)) = 0x100000"
proof -
  assume p: "p \<noteq> NULL"
  define a where "a = open_instance env_open p lim s"
  have i: "fst a = 0x100000"
    by (simp add: a_def open_instance_def alloc_dev_instance_def p kcall_def Let_def split_beta env_open_svc)
  then have f: "bars_fresh (k_dev (snd a) 0x100000)"
    using open_instance_sel(3) [of env_open p lim s] by (simp add: a_def)
  define r where "r = xdev_list_add env_open [] 0x100000 (snd a)"
  have "fst r = 0" and "bars_fresh (k_dev (snd r) 0x100000)"
    using f by (simp_all add: r_def xdev_list_add_def Let_def split_beta env_open_sel bars_fresh_def)
  then show ?thesis
    unfolding xdma_device_open_def a_def [symmetric]
    by (simp add: Let_def split_beta i r_def [symmetric] kcall_def env_open_svc env_open_rest p)
qed



end
