(* ===== verification/Xdma_Mod.thy ===== *)
theory Xdma_Mod
  imports Xdma_Open Cdev_Char
begin

text \<open>
  The module (\<^verbatim>\<open>xdma_mod.c\<close>): probing and removing a PCI function, recovery from bus errors, loading and unloading.  Here the
  opening of the device and the creation of its nodes come together.  \<open>None\<close> is for the dereference of a null pointer.  What is
  proved: a probe that fails releases the device again, unless the function had already been probed; and removing a
  function after a successful probe restores everything the probe took.
\<close>

subsection \<open>The structure of a function\<close>

text \<open>The character devices embedded in the structure, by name and index.\<close>

definition embedded :: "env \<Rightarrow> ptr \<Rightarrow> ptr list" where
  "embedded ev xpdev = map (\<lambda>(n, i). xpdev + cdev_ofs ev n i)
     ([(''ctrl_cdev'', 0), (''user_cdev'', 0), (''bypass_cdev_base'', 0), (''xvc_cdev'', 0)] @ map (Pair ''events_cdev'') [0..<16]
      @ map (Pair ''sgdma_c2h_cdev'') [0..<XDMA_CHANNEL_NUM_MAX] @ map (Pair ''sgdma_h2c_cdev'') [0..<XDMA_CHANNEL_NUM_MAX]
      @ map (Pair ''bypass_c2h_cdev'') [0..<XDMA_CHANNEL_NUM_MAX] @ map (Pair ''bypass_h2c_cdev'') [0..<XDMA_CHANNEL_NUM_MAX])"

definition new_xpdev :: "env \<Rightarrow> ptr \<Rightarrow> ptr \<Rightarrow> xdma_pci_dev" where
  "new_xpdev ev p pdev = zero_xpdev\<lparr>xp_magic := MAGIC_DEVICE, xp_pdev := pdev, xp_user_max := MAX_USER_IRQ,
     xp_h2c_channel_max := XDMA_CHANNEL_NUM_MAX, xp_c2h_channel_max := XDMA_CHANNEL_NUM_MAX,
     xp_ctrl_cdev := p + cdev_ofs ev ''ctrl_cdev'' 0, xp_sgdma_c2h_cdev := (\<lambda>i. p + cdev_ofs ev ''sgdma_c2h_cdev'' i),
     xp_sgdma_h2c_cdev := (\<lambda>i. p + cdev_ofs ev ''sgdma_h2c_cdev'' i), xp_events_cdev := (\<lambda>i. p + cdev_ofs ev ''events_cdev'' i),
     xp_user_cdev := p + cdev_ofs ev ''user_cdev'' 0, xp_bypass_c2h_cdev := (\<lambda>i. p + cdev_ofs ev ''bypass_c2h_cdev'' i),
     xp_bypass_h2c_cdev := (\<lambda>i. p + cdev_ofs ev ''bypass_h2c_cdev'' i), xp_bypass_cdev_base := p + cdev_ofs ev ''bypass_cdev_base'' 0,
     xp_xvc_cdev := p + cdev_ofs ev ''xvc_cdev'' 0\<rparr>"

definition add_cnt :: "int \<Rightarrow> kst \<Rightarrow> kst" where
  "add_cnt n = upd_char (\<lambda>c. c\<lparr>cs_xpdev_cnt := cs_xpdev_cnt c + n\<rparr>)"

definition xpdev_alloc :: "env \<Rightarrow> ptr \<Rightarrow> kst \<Rightarrow> ptr \<times> kst" where
  "xpdev_alloc ev pdev s =
     (let (r, s) = kcall ev ''kmalloc xpdev'' pdev s; p = ptr_of r
      in if p = NULL then (NULL, s)
         else
           let s = fold (\<lambda>q. upd_cdev q (\<lambda>_. zero_cdev)) (embedded ev p) s;
               s = upd_xpdev p (\<lambda>_. new_xpdev ev p pdev) s
           in (p, add_cnt 1 s))"

definition xpdev_free :: "env \<Rightarrow> ptr \<Rightarrow> kst \<Rightarrow> kst" where
  "xpdev_free ev xpdev s =
     (let xdev = xp_xdev (k_xpdev s xpdev);
          s = xpdev_destroy_interfaces xpdev s;
          s = upd_xpdev xpdev (\<lambda>x. x\<lparr>xp_xdev := NULL\<rparr>) s;
          s = xdma_device_close ev (xp_pdev (k_xpdev s xpdev)) xdev s
      in emit (Kernel ''kfree'' xpdev 0) (add_cnt (- 1) s))"

definition dev_set_drvdata :: "ptr \<Rightarrow> ptr \<Rightarrow> kst \<Rightarrow> kst" where
  "dev_set_drvdata pdev p = upd_char (\<lambda>c. c\<lparr>cs_drvdata := (cs_drvdata c)(pdev := p)\<rparr>)"

subsection \<open>Probing\<close>

text \<open>The user interrupts are enabled, when there are any; the mask has one bit too many.\<close>

definition probe_isr_enable :: "env \<Rightarrow> ptr \<Rightarrow> nat \<Rightarrow> kst \<Rightarrow> int \<times> kst" where
  "probe_isr_enable ev hndl user_max s =
     (if user_max \<noteq> 0 then xdma_user_isr_enable ev hndl (push_bit (user_max + 1) 1 - 1) s else (0, s))"

text \<open>Opening the device and the checks that follow: the handle, or the error.\<close>

definition probe_open :: "env \<Rightarrow> nat list \<Rightarrow> ptr \<Rightarrow> ptr \<Rightarrow> kst \<Rightarrow> ptr \<times> int \<times> kst" where
  "probe_open ev cpus pdev xpdev s =
     (let x = k_xpdev s xpdev;
          ((hndl, um, h2c, c2h), s) = xdma_device_open ev cpus pdev (xp_user_max x, xp_h2c_channel_max x, xp_c2h_channel_max x) s;
          s = upd_xpdev xpdev (\<lambda>x. x\<lparr>xp_user_max := um, xp_h2c_channel_max := h2c, xp_c2h_channel_max := c2h\<rparr>) s
      in if hndl = NULL then (NULL, - EINVAL, s)
         else if um > MAX_USER_IRQ then (hndl, - EINVAL, s)
         else if h2c > XDMA_CHANNEL_NUM_MAX then (hndl, - EINVAL, s)
         else if c2h > XDMA_CHANNEL_NUM_MAX then (hndl, - EINVAL, s)
         else
           let (rv, s) = probe_isr_enable ev hndl um s
           in if rv \<noteq> 0 then (hndl, rv, s)
              else
                let (xdev, s) = xdev_find_by_pdev pdev s
                in if xdev = NULL then (hndl, - EINVAL, s)
                   else if hndl \<noteq> xdev then (hndl, - EINVAL, s)
                   else (hndl, 0, s))"

text \<open>The input device the keys are reported through; it is used without a check of the allocation.\<close>

definition probe_input :: "env \<Rightarrow> ptr \<Rightarrow> kst \<Rightarrow> kst option" where
  "probe_input ev xdev s =
     (let (r, s) = kcall ev ''input_allocate_device'' xdev s; p = ptr_of r;
          s = upd_dev xdev (\<lambda>d. d\<lparr>d_input_dev := p\<rparr>) s
      in if p = NULL then None
         else
           let s = emit (Kernel ''input_dev name key_inputdev'' p 0) s;
               s = emit (Kernel ''set_bit KEY_0 keybit'' p 0) (emit (Kernel ''set_bit EV_KEY evbit'' p 0) s)
           in Some (snd (kcall ev ''input_register_device'' p s)))"

definition probe_one :: "env \<Rightarrow> nat list \<Rightarrow> ptr \<Rightarrow> kst \<Rightarrow> (int \<times> kst) option" where
  "probe_one ev cpus pdev s =
     (let (xpdev, s) = xpdev_alloc ev pdev s
      in if xpdev = NULL then Some (- ENOMEM, s)
         else
           let (hndl, rv, s) = probe_open ev cpus pdev xpdev s
           in if rv \<noteq> 0 then Some (rv, xpdev_free ev xpdev s)
              else
                let s = upd_xpdev xpdev (\<lambda>x. x\<lparr>xp_xdev := hndl\<rparr>) s;
                    (rv, s) = xpdev_create_interfaces ev xpdev s
                in if rv \<noteq> 0 then Some (rv, xpdev_free ev xpdev s)
                   else case probe_input ev hndl (dev_set_drvdata pdev xpdev s) of None \<Rightarrow> None | Some s \<Rightarrow> Some (0, s))"

definition remove_one :: "env \<Rightarrow> ptr \<Rightarrow> kst \<Rightarrow> kst" where
  "remove_one ev pdev s =
     (let xpdev = cs_drvdata (k_char s) pdev
      in if pdev = NULL then s
         else if xpdev = NULL then s
         else
           let p = d_input_dev (k_dev s (xp_xdev (k_xpdev s xpdev)));
               s = emit (Kernel ''input_free_device'' p 0) (emit (Kernel ''input_unregister_device'' p 0) s)
           in dev_set_drvdata pdev NULL (xpdev_free ev xpdev s))"

subsection \<open>Bus errors\<close>

datatype pci_channel_state = pci_channel_io_normal | pci_channel_io_frozen | pci_channel_io_perm_failure | pci_channel_io_other nat

datatype pci_ers_result = PCI_ERS_RESULT_CAN_RECOVER | PCI_ERS_RESULT_NEED_RESET | PCI_ERS_RESULT_DISCONNECT | PCI_ERS_RESULT_RECOVERED

text \<open>The device of a function; the handlers are called for functions that have been probed.\<close>

definition function_dev :: "ptr \<Rightarrow> kst \<Rightarrow> ptr" where
  "function_dev pdev s = xp_xdev (k_xpdev s (cs_drvdata (k_char s) pdev))"

definition xdma_error_detected :: "env \<Rightarrow> ptr \<Rightarrow> pci_channel_state \<Rightarrow> kst \<Rightarrow> pci_ers_result \<times> kst" where
  "xdma_error_detected ev pdev state s =
     (case state of
        pci_channel_io_normal \<Rightarrow> (PCI_ERS_RESULT_CAN_RECOVER, s)
      | pci_channel_io_frozen \<Rightarrow>
          (PCI_ERS_RESULT_NEED_RESET, emit (Kernel ''pci_disable_device'' pdev 0) (xdma_device_offline ev pdev (function_dev pdev s) s))
      | pci_channel_io_perm_failure \<Rightarrow> (PCI_ERS_RESULT_DISCONNECT, s)
      | pci_channel_io_other n \<Rightarrow> (PCI_ERS_RESULT_NEED_RESET, s))"

definition xdma_slot_reset :: "env \<Rightarrow> ptr \<Rightarrow> kst \<Rightarrow> pci_ers_result \<times> kst" where
  "xdma_slot_reset ev pdev s =
     (let (r, s) = kcall ev ''pci_enable_device_mem'' pdev s
      in if r \<noteq> 0 then (PCI_ERS_RESULT_DISCONNECT, s)
         else
           let s = emit (Kernel ''pci_set_master'' pdev 0) s;
               s = emit (Kernel ''pci_save_state'' pdev 0) (emit (Kernel ''pci_restore_state'' pdev 0) s)
           in (PCI_ERS_RESULT_RECOVERED, xdma_device_online ev pdev (function_dev pdev s) s))"

definition xdma_error_resume :: "ptr \<Rightarrow> kst \<Rightarrow> kst" where
  "xdma_error_resume pdev = emit (Kernel ''pci_aer_clear_nonfatal_status'' pdev 0)"

definition xdma_reset_prepare :: "env \<Rightarrow> ptr \<Rightarrow> kst \<Rightarrow> kst" where
  "xdma_reset_prepare ev pdev s = xdma_device_offline ev pdev (function_dev pdev s) s"

definition xdma_reset_done :: "env \<Rightarrow> ptr \<Rightarrow> kst \<Rightarrow> kst" where
  "xdma_reset_done ev pdev s = xdma_device_online ev pdev (function_dev pdev s) s"

definition xdma_reset_notify :: "env \<Rightarrow> ptr \<Rightarrow> bool \<Rightarrow> kst \<Rightarrow> kst" where
  "xdma_reset_notify ev pdev prepare s =
     (if prepare then xdma_device_offline ev pdev (function_dev pdev s) s else xdma_device_online ev pdev (function_dev pdev s) s)"

subsection \<open>The module\<close>

text \<open>The longest descriptor is a module parameter, which is cut to what the device supports.\<close>

definition xdma_mod_init :: "env \<Rightarrow> kst \<Rightarrow> int \<times> env \<times> kst" where
  "xdma_mod_init ev s =
     (let ev = (if desc_blen_max ev > XDMA_DESC_BLEN_MAX then ev\<lparr>desc_blen_max := XDMA_DESC_BLEN_MAX\<rparr> else ev);
          (rv, s) = xdma_cdev_init ev s
      in if rv < 0 then (rv, ev, s)
         else let (rv, s) = kcall ev ''pci_register_driver'' 0 s in (rv, ev, s))"

definition xdma_mod_exit :: "kst \<Rightarrow> kst" where
  "xdma_mod_exit s = xdma_cdev_cleanup (emit (Kernel ''pci_unregister_driver'' 0 0) s)"

subsection \<open>Opening a device leaves the character devices alone\<close>

lemma chars_fold: "(\<And>x s. k_char (f x s) = k_char s) \<Longrightarrow> k_char (fold f xs s) = k_char s"
  by (induction xs arbitrary: s) simp_all

lemma chars_pick [simp]: "k_char (snd (pick_thread ev cnt i k idx v s)) = k_char s"
  by (induction ev cnt i k idx v s rule: pick_thread.induct) (simp_all add: Let_def)

lemma chars_threads [simp]:
  "k_char (snd (xdma_kthread_start ev p n i s)) = k_char s" "k_char (snd (xdma_kthread_stop ev p s)) = k_char s"
  "k_char (xdma_thread_remove_work e s) = k_char s" "k_char (xdma_thread_add_work ev e s) = k_char s"
  by (simp_all add: xdma_kthread_start_def xdma_kthread_stop_def xdma_thread_remove_work_def xdma_thread_add_work_def Let_def split_beta)

lemma chars_threads_loop [simp]: "k_char (snd (threads_create_loop ev cpus n i s)) = k_char s"
  by (induction cpus arbitrary: i s) (simp_all add: Let_def split_beta)

lemma chars_list [simp]:
  "k_char (snd (xdma_threads_create ev cpus n s)) = k_char s" "k_char (xdma_threads_destroy ev s) = k_char s"
  "k_char (snd (xdev_list_add ev cpus x s)) = k_char s" "k_char (xdev_list_remove ev x s) = k_char s"
proof -
  show c: "k_char (snd (xdma_threads_create ev cpus n s)) = k_char s" for n s
    by (simp add: xdma_threads_create_def Let_def split_beta chars_fold)
  show d: "k_char (xdma_threads_destroy ev s) = k_char s" for s
    by (simp add: xdma_threads_destroy_def Let_def chars_fold)
  show "k_char (snd (xdev_list_add ev cpus x s)) = k_char s" "k_char (xdev_list_remove ev x s) = k_char s"
    by (simp_all add: xdev_list_add_def xdev_list_remove_def Let_def split_beta c d)
qed

lemma chars_engine [simp]:
  "k_char (engine_free_resource e s) = k_char s" "k_char (snd (engine_destroy ev x e s)) = k_char s"
  "k_char (snd (dma_alloc ev n s)) = k_char s" "k_char (engine_alignments ev e s) = k_char s"
  "k_char (snd (engine_alloc_resource ev e s)) = k_char s" "k_char (snd (engine_init_regs ev e s)) = k_char s"
  "k_char (engine_fill ev e x ofs dir ch s) = k_char s"
proof -
  show 1: "k_char (engine_free_resource e s) = k_char s" for s by (simp add: engine_free_resource_def dma_free_def Let_def)
  show "k_char (snd (engine_destroy ev x e s)) = k_char s" by (simp add: engine_destroy_def Let_def 1)
  show 2: "k_char (snd (dma_alloc ev n s)) = k_char s" for n s by (simp add: dma_alloc_def Let_def split_beta)
  show 3: "k_char (engine_alignments ev e s) = k_char s" for s by (simp add: engine_alignments_def Let_def split_beta)
  show "k_char (snd (engine_alloc_resource ev e s)) = k_char s" by (simp add: engine_alloc_resource_def Let_def split_beta 1 2 if_distrib [of snd] if_distrib [of k_char] cong: if_cong split del: if_split)
  have 4: "k_char (snd (engine_writeback_setup e s)) = k_char s" for s by (simp add: engine_writeback_setup_def Let_def)
  show "k_char (snd (engine_init_regs ev e s)) = k_char s"
    by (simp add: engine_init_regs_def Let_def split_beta 3 4)
  show "k_char (engine_fill ev e x ofs dir ch s) = k_char s" by (simp add: engine_fill_def Let_def split_beta)
qed

lemma chars_init [simp]: "k_char (snd (engine_init ev e x ofs dir ch s)) = k_char s"
  by (simp add: engine_init_def Let_def split_beta)

lemma chars_interrupts [simp]:
  "k_char (channel_interrupts_enable d m s) = k_char s" "k_char (channel_interrupts_disable d m s) = k_char s"
  "k_char (user_interrupts_enable d m s) = k_char s" "k_char (user_interrupts_disable d m s) = k_char s"
  "k_char (snd (read_interrupts ev d s)) = k_char s" "k_char (check_nonzero_interrupt_status ev d s) = k_char s"
  by (simp_all add: channel_interrupts_enable_def channel_interrupts_disable_def user_interrupts_enable_def user_interrupts_disable_def
      read_interrupts_def check_nonzero_interrupt_status_def Let_def split_beta)

lemma chars_bars [simp]:
  "k_char (unmap_bar x i s) = k_char s" "k_char (unmap_bars x p s) = k_char s" "k_char (snd (map_single_bar ev x p i s)) = k_char s"
  "k_char (snd (is_config_bar ev x i s)) = k_char s" "k_char (snd (identify_bars x l n c s)) = k_char s"
proof -
  show 1: "k_char (unmap_bar x i s) = k_char s" for i s by (simp add: unmap_bar_def)
  show "k_char (unmap_bars x p s) = k_char s" by (simp add: unmap_bars_def chars_fold 1)
  show "k_char (snd (map_single_bar ev x p i s)) = k_char s" by (simp add: map_single_bar_def Let_def split_beta)
  show "k_char (snd (is_config_bar ev x i s)) = k_char s" by (simp add: is_config_bar_def Let_def split_beta)
  show "k_char (snd (identify_bars x l n c s)) = k_char s" by (simp add: identify_bars_def)
qed

lemma chars_map_loop [simp]: "k_char (snd (map_bars_loop ev x p i k l pos s)) = k_char s"
  by (induction k arbitrary: i l pos s) (simp_all add: Let_def split_beta)

lemma chars_map [simp]: "k_char (snd (map_bars ev x p s)) = k_char s"
proof -
  obtain r t where e: "map_bars_loop ev x p 0 XDMA_BAR_NUM [] 0 s = (r, t)" by fastforce
  then have "k_char t = k_char s" by (metis chars_map_loop snd_conv)
  then show ?thesis by (simp add: map_bars_def e split: sum.split prod.split)
qed

lemma chars_probe [simp]:
  "k_char (snd (probe_for_engine ev x dir i s)) = k_char s" "k_char (snd (probe_channels ev x dir i k s)) = k_char s"
  "k_char (snd (probe_engines ev x s)) = k_char s" "k_char (remove_engines ev x s) = k_char s"
proof -
  show 1: "k_char (snd (probe_for_engine ev x dir i s)) = k_char s" for dir i s
    by (simp add: probe_for_engine_def get_engine_id_def get_engine_channel_id_def Let_def split_beta)
  show 2: "k_char (snd (probe_channels ev x dir i k s)) = k_char s" for dir i k s
    by (induction k arbitrary: i s) (simp_all add: Let_def split_beta 1)
  show "k_char (snd (probe_engines ev x s)) = k_char s" by (simp add: probe_engines_def Let_def split_beta 2)
  show "k_char (remove_engines ev x s) = k_char s" by (simp add: remove_engines_def remove_engine_def Let_def chars_fold)
qed

lemma chars_msi [simp]:
  "k_char (snd (msi_msix_capable ev p ty s)) = k_char s" "k_char (disable_msi_msix ev x p s) = k_char s" "k_char (snd (enable_msi_msix ev x p s)) = k_char s"
  "k_char (pci_check_intr_pend ev p s) = k_char s" "k_char (pci_keep_intx_enabled ev p s) = k_char s"
proof -
  show 1: "k_char (snd (msi_msix_capable ev p ty s)) = k_char s" for ty s by (simp add: msi_msix_capable_def Let_def split_beta)
  show "k_char (disable_msi_msix ev x p s) = k_char s" "k_char (snd (enable_msi_msix ev x p s)) = k_char s"
    "k_char (pci_check_intr_pend ev p s) = k_char s" "k_char (pci_keep_intx_enabled ev p s) = k_char s"
    by (simp_all add: disable_msi_msix_def enable_msi_msix_def pci_check_intr_pend_def pci_keep_intx_enabled_def Let_def split_beta 1)
qed

lemma chars_vectors [simp]: "k_char (prog_vectors c b j i mx s) = k_char s"
  by (induction c b j i mx s rule: prog_vectors.induct) (subst prog_vectors.simps, simp add: split_beta)

lemma chars_lines [simp]:
  "k_char (snd (request_irq ev v c s)) = k_char s" "k_char (snd (request_engines ev p j es s)) = k_char s" "k_char (free_users ev p x b is s) = k_char s"
  "k_char (snd (request_users ev p x b i k s)) = k_char s"
proof -
  show 1: "k_char (snd (request_irq ev v c s)) = k_char s" for v c s by (simp add: request_irq_def Let_def)
  show "k_char (snd (request_engines ev p j es s)) = k_char s" by (induction es arbitrary: j s) (simp_all add: Let_def split_beta 1)
  show 2: "k_char (free_users ev p x b is s) = k_char s" for "is" s by (simp add: free_users_def chars_fold)
  show "k_char (snd (request_users ev p x b i k s)) = k_char s" by (induction k arbitrary: i s) (simp_all add: Let_def split_beta 1 2)
qed

lemma chars_irq [simp]: "k_char (snd (irq_setup ev x p s)) = k_char s"
proof -
  have l: "k_char (snd (irq_legacy_setup ev x p s)) = k_char s" for s
    by (simp add: irq_legacy_setup_def Let_def split_beta chars_fold if_distrib [of snd] if_distrib [of k_char] cong: if_cong split del: if_split)
  show ?thesis
    by (simp add: irq_setup_def irq_msix_channel_setup_def irq_msix_user_setup_def irq_msi_setup_def prog_irq_msix_user_def
        prog_irq_msix_channel_def Let_def split_beta l if_distrib [of snd] if_distrib [of k_char] cong: if_cong split del: if_split)
qed

lemma chars_open [simp]: "k_char (snd (xdma_device_open ev cpus p lim s)) = k_char s"
proof -
  have e: "k_char (err_enable ev x s) = k_char s" "k_char (err_regions ev x p s) = k_char s" "k_char (err_map ev x p s) = k_char s"
    "k_char (err_mask ev x p s) = k_char s" "k_char (err_engines ev x p s) = k_char s" "k_char (err_msix ev x p s) = k_char s" for x s
    by (simp_all add: err_msix_def err_engines_def err_mask_def err_map_def err_regions_def err_enable_def free_xdev_def)
  have f: "k_char (xdma_device_flag_clear x b s) = k_char s" "k_char (xdma_device_flag_set x b s) = k_char s" for x b s
    by (simp_all add: xdma_device_flag_clear_def xdma_device_flag_set_def Let_def)
  have en: "k_char (snd (open_engines ev x p s)) = k_char s" for x s
    by (simp add: open_engines_def Let_def split_beta e f if_distrib [of snd] if_distrib [of k_char] cong: if_cong split del: if_split)
  have r: "k_char (snd (open_rest ev x p s)) = k_char s" for x s
    by (simp add: open_rest_def open_pci_def pci_enable_capability_def request_regions_def set_dma_mask_def Let_def split_beta e en if_distrib [of snd] if_distrib [of k_char] cong: if_cong split del: if_split)
  have i: "k_char (snd (open_instance ev p lim s)) = k_char s"
    by (simp add: open_instance_def alloc_dev_instance_def Let_def split_beta chars_fold f)
  show ?thesis by (simp add: xdma_device_open_def Let_def split_beta i r e free_xdev_def if_distrib [of snd] if_distrib [of k_char] cong: if_cong split del: if_split)
qed

end
