(* ===== verification/Xdma_Probe.thy ===== *)
theory Xdma_Probe
  imports Xdma_Mod
begin

text \<open>
  What probing and removing a PCI function (\<^verbatim>\<open>xdma_mod.c\<close>) take and give back.  The contracts of opening and closing a
  device (\<open>Xdma_Open\<close>) carry the proofs; the nodes of a function use none of what those account for.
\<close>

subsection \<open>Creating and destroying nodes is quiet\<close>

text \<open>Nothing changes in the books, the devices, the engines, or in the function apart from its device numbers and flags.\<close>

definition quiet :: "kst \<Rightarrow> kst \<Rightarrow> bool" where
  "quiet s t \<longleftrightarrow> books t = books s \<and> k_dev t = k_dev s \<and> k_eng t = k_eng s \<and> (\<forall>y. strip_xp (k_xpdev t y) = strip_xp (k_xpdev s y))"

lemma quiet_refl [simp]: "quiet s s"
  by (simp add: quiet_def)

lemma quiet_trans: "quiet s t \<Longrightarrow> quiet t u \<Longrightarrow> quiet s u"
  by (simp add: quiet_def)

lemma books_chars [simp]: "books (upd_cdev p f s) = books s" "books (upd_xpdev p g s) = books s" "books (upd_char h s) = books s"
  by (simp_all add: books_def upd_cdev_def upd_xpdev_def)

lemma quiet_upd [simp]:
  "quiet s (upd_cdev p f s)" "quiet s (xpdev_flag_set x b s)" "quiet s (unregister_region p s)"
  by (simp_all add: quiet_def xpdev_flag_set_def strip_xp_def unregister_region_def)

lemma quiet_create_xcdev: "quiet s (snd (create_xcdev ev x p bar e ty s))"
proof -
  have a: "books (snd (alloc_major ev x s)) = books s" for s by (simp add: alloc_major_def Let_def split_beta)
  have c: "books (snd (config_kobject ev p ty s)) = books s" for s by (simp add: config_kobject_def Let_def)
  have n: "books (node_init ty p s) = books s" for s
    by (cases ty) (simp_all add: cdev_ctrl_init_def cdev_sgdma_init_def cdev_bypass_init_def cdev_event_init_def cdev_xvc_init_def)
  have l: "books (snd (node_live ev p ty s)) = books s" for s
    by (simp add: node_live_def create_sys_device_def unregister_region_def Let_def split_beta)
  show ?thesis by (simp add: quiet_def) (simp add: create_xcdev_def Let_def split_beta a c n l)
qed

lemma quiet_and_then: "quiet s (snd r) \<Longrightarrow> (\<And>t. quiet t (snd (f t))) \<Longrightarrow> quiet s (snd (and_then r f))"
  by (auto simp: and_then_def intro: quiet_trans)

lemma quiet_loops: "quiet s (snd (create_events ev x i k s))" "quiet s (snd (create_channels ev x ty c es i k s))"
  by (induction k arbitrary: i s) (auto intro!: quiet_and_then quiet_create_xcdev)

lemma quiet_create: "quiet s (snd (create_all ev x s))"
  by (auto simp: create_all_def create_ctrl_def create_all_events_def create_sgdma_def create_bypass_def create_user_def Let_def
      intro!: quiet_and_then quiet_create_xcdev quiet_loops quiet_trans [OF quiet_upd(2) quiet_create_xcdev])

lemma quiet_destroy_nodes: "quiet s (destroy_nodes ps s)"
proof (induction ps arbitrary: s)
  case (Cons p ps)
  have "quiet s (snd (destroy_xcdev p s))" by (simp add: quiet_def destroy_xcdev_def Let_def)
  then show ?case using Cons [of "snd (destroy_xcdev p s)"] by (auto simp: destroy_nodes_def intro: quiet_trans)
qed (simp add: destroy_nodes_def)

lemma quiet_let: "quiet s a \<Longrightarrow> (\<And>t. quiet s t \<Longrightarrow> quiet s (f t)) \<Longrightarrow> quiet s (let t = a in f t)"
  by simp

lemma quiet_let_any: "(\<And>y. quiet s (f y)) \<Longrightarrow> quiet s (let y = a in f y)"
  by simp

lemma quiet_if: "quiet s t \<Longrightarrow> quiet s u \<Longrightarrow> quiet s (if b then t else u)"
  by simp

lemma quiet_destroy: "quiet s (xpdev_destroy_interfaces x s)"
proof -
  have e: "quiet s (emit (Kernel ''unregister_chrdev_region'' x 0) t)" if "quiet s t" for t using that by (simp add: quiet_def)
  have d: "quiet s (destroy_nodes ps t)" if "quiet s t" for ps t using quiet_trans [OF that quiet_destroy_nodes] .
  show ?thesis
    unfolding xpdev_destroy_interfaces_def
    by (rule quiet_let_any, rule quiet_let_any, rule quiet_let_any) (intro quiet_let quiet_if e d quiet_refl; assumption?)
qed

lemma quiet_interfaces: "quiet s (snd (xpdev_create_interfaces ev x s))"
  using quiet_trans [OF quiet_create quiet_destroy] quiet_create by (simp add: xpdev_create_interfaces_def Let_def split_beta)

subsection \<open>Opening and checking\<close>

lemma check_hndl_iff:
  "fst (debug_check_dev_hndl p x s) = (if p \<noteq> NULL \<and> x \<noteq> NULL \<and> find_pdev (k_dev s) p (k_xdev_list s) = x then 0 else - EINVAL)"
  by (auto simp: debug_check_dev_hndl_def xdev_find_by_pdev_def Let_def errno_defs)

lemma find_pdev_in: "y \<in> set xs \<Longrightarrow> d_pdev (D y) = p \<Longrightarrow> find_pdev D p (xs @ [x]) \<in> set xs"
  by (induction xs) auto

lemma check_hndl_frame [simp]:
  "k_dev (snd (debug_check_dev_hndl p x s)) = k_dev s" "k_eng (snd (debug_check_dev_hndl p x s)) = k_eng s"
  "k_char (snd (debug_check_dev_hndl p x s)) = k_char s" "k_xdev_list (snd (debug_check_dev_hndl p x s)) = k_xdev_list s"
  by (simp_all add: debug_check_dev_hndl_def xdev_find_by_pdev_def Let_def)

lemma isr_enable_frame:
  fixes ev x m s
  defines "r \<equiv> xdma_user_isr_enable ev x m s"
  shows "books (snd r) = books s" "k_eng (snd r) = k_eng s" "k_char (snd r) = k_char s" "strip_irq (k_dev (snd r) y) = strip_irq (k_dev s y)"
    "fst r = (if d_pdev (k_dev s x) \<noteq> NULL \<and> x \<noteq> NULL \<and> find_pdev (k_dev s) (d_pdev (k_dev s x)) (k_xdev_list s) = x then 0 else - EINVAL)"
  by (simp_all add: r_def xdma_user_isr_enable_def Let_def split_beta check_hndl_iff strip_irq_def errno_defs)

lemma probe_isr_frame:
  fixes ev x um s
  defines "r \<equiv> probe_isr_enable ev x um s"
  shows "books (snd r) = books s" "k_eng (snd r) = k_eng s" "k_char (snd r) = k_char s" "strip_irq (k_dev (snd r) y) = strip_irq (k_dev s y)"
    "fst r = 0 \<or> fst r = - EINVAL"
    "d_pdev (k_dev s x) \<noteq> NULL \<Longrightarrow> x \<noteq> NULL \<Longrightarrow> find_pdev (k_dev s) (d_pdev (k_dev s x)) (k_xdev_list s) = x \<Longrightarrow> fst r = 0"
  by (simp_all add: r_def probe_isr_enable_def isr_enable_frame)

lemma find_frame [simp]:
  "books (snd (xdev_find_by_pdev p s)) = books s" "k_eng (snd (xdev_find_by_pdev p s)) = k_eng s" "k_dev (snd (xdev_find_by_pdev p s)) = k_dev s"
  "k_char (snd (xdev_find_by_pdev p s)) = k_char s" "fst (xdev_find_by_pdev p s) = find_pdev (k_dev s) p (k_xdev_list s)"
  by (simp_all add: xdev_find_by_pdev_def books_def Let_def)

text \<open>What is known of a function while it is probed and in use.\<close>

definition in_use :: "env \<Rightarrow> ptr \<Rightarrow> ptr \<Rightarrow> kst \<Rightarrow> kst \<Rightarrow> bool" where
  "in_use ev pdev x s t \<longleftrightarrow> pdev \<noteq> NULL \<and> x \<noteq> NULL \<and> x \<notin> set (k_xdev_list s)
     \<and> opened ev x (live (trace s)) (mapped (trace s)) (k_xdev_list s) t \<and> (\<forall>l. held l (trace t) = held l (trace s))
     \<and> d_pdev (k_dev t x) = pdev \<and> (\<forall>y. y \<noteq> x \<longrightarrow> d_pdev (k_dev t y) = d_pdev (k_dev s y))"

lemma in_use_cong:
  assumes "in_use ev pdev x s t" "books u = books t" "k_eng u = k_eng t" "\<And>y. strip_irq (k_dev u y) = strip_irq (k_dev t y)"
  shows "in_use ev pdev x s u"
  using assms opened_cong [of u t x ev] strip_irq_eqD(7) [OF assms(4)] books_eqD(3) [OF assms(2)] by (auto simp: in_use_def)

lemma in_use_list: "in_use ev pdev x s t \<Longrightarrow> k_xdev_list t = k_xdev_list s @ [x]"
  by (simp add: in_use_def opened_def pending_def)

lemma in_use_found:
  assumes "in_use ev pdev x s t" "\<forall>y \<in> set (k_xdev_list s). d_pdev (k_dev s y) \<noteq> pdev"
  shows "find_pdev (k_dev t) pdev (k_xdev_list t) = x"
  unfolding in_use_list [OF assms(1)]
proof (rule find_pdev_append)
  show "\<forall>y \<in> set (k_xdev_list s). d_pdev (k_dev t y) \<noteq> pdev" "d_pdev (k_dev t x) = pdev"
    using assms by (force simp: in_use_def)+
qed

lemma close_in_use:
  assumes "layout_ok ev" "in_use ev pdev x s t" "\<forall>y \<in> set (k_xdev_list s). d_pdev (k_dev s y) \<noteq> pdev"
  shows "books (xdma_device_close ev pdev x t) = books s"
proof -
  have "fst (debug_check_dev_hndl pdev x t) = 0"
    using in_use_found [OF assms(2,3)] assms(2) by (simp add: check_hndl_iff in_use_def)
  from device_close_books [OF assms(1) this, of "live (trace s)" "mapped (trace s)" "k_xdev_list s"] assms(2) show ?thesis
    by (simp add: in_use_def books_def fun_eq_iff)
qed

lemma open_in_use:
  fixes ev cpus pdev lim s
  defines "r \<equiv> xdma_device_open ev cpus pdev lim s" and "x \<equiv> fst (fst (xdma_device_open ev cpus pdev lim s))"
  assumes l: "layout_ok ev" and new: "nat (ksvc ev (trace s) ''kzalloc'' (sizeof_dev ev)) \<notin> set (k_xdev_list s)"
  shows "x = NULL \<Longrightarrow> snd (fst r) = lim \<and> books (snd r) = books s"
    "x \<noteq> NULL \<Longrightarrow> in_use ev pdev x s (snd r) \<and> fst (snd (fst r)) \<le> MAX_USER_IRQ \<and> fst (snd (snd (fst r))) \<le> XDMA_CHANNEL_NUM_MAX
       \<and> snd (snd (snd (fst r))) \<le> XDMA_CHANNEL_NUM_MAX"
  using device_open_cases [OF l new, of cpus pdev lim, folded x_def r_def] unfolding in_use_def
  by (simp_all add: x_def [symmetric] r_def [symmetric] opened_def placed_def)

subsection \<open>Probing\<close>

lemma alloc_frame:
  fixes ev pdev s
  defines "r \<equiv> xpdev_alloc ev pdev s"
  shows "books (snd r) = books s" "k_dev (snd r) = k_dev s" "k_eng (snd r) = k_eng s"
    "fst r \<noteq> NULL \<Longrightarrow> k_xpdev (snd r) (fst r) = new_xpdev ev (fst r) pdev"
proof -
  have f: "books (fold (\<lambda>q. upd_cdev q (\<lambda>_. zero_cdev)) qs t) = books t" "k_dev (fold (\<lambda>q. upd_cdev q (\<lambda>_. zero_cdev)) qs t) = k_dev t"
    "k_eng (fold (\<lambda>q. upd_cdev q (\<lambda>_. zero_cdev)) qs t) = k_eng t" for qs t
    by (induction qs arbitrary: t) simp_all
  show "books (snd r) = books s" "k_dev (snd r) = k_dev s" "k_eng (snd r) = k_eng s"
    "fst r \<noteq> NULL \<Longrightarrow> k_xpdev (snd r) (fst r) = new_xpdev ev (fst r) pdev"
    by (auto simp: r_def xpdev_alloc_def add_cnt_def Let_def split_beta f split: if_splits)
qed

lemma strip_xp_pdev: "strip_xp x = strip_xp y \<Longrightarrow> xp_pdev x = xp_pdev y"
  by (cases x, cases y, simp add: strip_xp_def)

lemma in_use_base: "in_use ev pdev x s t \<Longrightarrow> books s = books u \<Longrightarrow> k_dev s = k_dev u \<Longrightarrow> in_use ev pdev x u t"
  using books_eqD [of s u] by (simp add: in_use_def)

text \<open>The only way to come out of the opening with a device and an error is a second device of the same function.\<close>

lemma probe_open_cases:
  fixes ev cpus pdev xp s
  defines "r \<equiv> probe_open ev cpus pdev xp s"
  assumes l: "layout_ok ev" and new: "nat (ksvc ev (trace s) ''kzalloc'' (sizeof_dev ev)) \<notin> set (k_xdev_list s)"
  shows "fst r = NULL \<Longrightarrow> fst (snd r) = - EINVAL \<and> books (snd (snd r)) = books s"
    "fst r \<noteq> NULL \<Longrightarrow> in_use ev pdev (fst r) s (snd (snd r))"
    "fst r \<noteq> NULL \<Longrightarrow> \<forall>y \<in> set (k_xdev_list s). d_pdev (k_dev s y) \<noteq> pdev \<Longrightarrow> fst (snd r) = 0"
    "\<exists>y \<in> set (k_xdev_list s). d_pdev (k_dev s y) = pdev \<Longrightarrow> fst (snd r) = - EINVAL"
    "xp_xdev (k_xpdev (snd (snd r)) xp) = xp_xdev (k_xpdev s xp)" "xp_pdev (k_xpdev (snd (snd r)) xp) = xp_pdev (k_xpdev s xp)"
    "cs_drvdata (k_char (snd (snd r))) = cs_drvdata (k_char s)"
proof -
  define lim where "lim = (xp_user_max (k_xpdev s xp), xp_h2c_channel_max (k_xpdev s xp), xp_c2h_channel_max (k_xpdev s xp))"
  define g where "g = xdma_device_open ev cpus pdev lim s"
  obtain x um h2c c2h s1 where g: "g = ((x, um, h2c, c2h), s1)" by (metis prod.exhaust)
  define s2 where "s2 = upd_xpdev xp (\<lambda>x. x\<lparr>xp_user_max := um, xp_h2c_channel_max := h2c, xp_c2h_channel_max := c2h\<rparr>) s1"
  define i where "i = probe_isr_enable ev x um s2"
  have "xdma_device_open ev cpus pdev (xp_user_max (k_xpdev s xp), xp_h2c_channel_max (k_xpdev s xp), xp_c2h_channel_max (k_xpdev s xp)) s
      = ((x, um, h2c, c2h), s1)" using g by (simp add: g_def lim_def)
  then have r: "r = (if x = NULL then (NULL, - EINVAL, s2) else if um > MAX_USER_IRQ \<or> h2c > XDMA_CHANNEL_NUM_MAX \<or> c2h > XDMA_CHANNEL_NUM_MAX
      then (x, - EINVAL, s2) else if fst i \<noteq> 0 then (x, fst i, snd i)
      else (x, if find_pdev (k_dev (snd i)) pdev (k_xdev_list (snd i)) = x then 0 else - EINVAL, snd (xdev_find_by_pdev pdev (snd i))))"
    by (auto simp: r_def probe_open_def Let_def s2_def i_def split_beta)
  note fr = probe_isr_frame [where ev = ev and x = x and um = um and s = s2, folded i_def]
  note op = open_in_use [OF l new, of cpus pdev lim, folded g_def, unfolded g]
  have c: "k_char s1 = k_char s" using chars_open [of ev cpus pdev lim s] by (simp add: g_def [symmetric] g)
  have s2: "books s2 = books s1" "k_dev s2 = k_dev s1" "k_eng s2 = k_eng s1" by (simp_all add: s2_def)
  have r0: "fst r = x" by (simp add: r)
  show "fst (snd r) = - EINVAL \<and> books (snd (snd r)) = books s" if "fst r = NULL"
    using op(1) that unfolding r0 by (simp add: r s2)
  have u: "in_use ev pdev x s s2" if "x \<noteq> NULL"
    by (rule in_use_cong [where t = s1]) (use that op(2) in \<open>simp_all add: s2\<close>)
  have ui: "in_use ev pdev x s (snd i)" if "x \<noteq> NULL"
    by (rule in_use_cong [OF u]) (use that in \<open>simp_all add: fr\<close>)
  have uf: "in_use ev pdev x s (snd (xdev_find_by_pdev pdev (snd i)))" if "x \<noteq> NULL"
    by (rule in_use_cong [OF ui]) (use that in \<open>simp_all\<close>)
  show "fst r \<noteq> NULL \<Longrightarrow> in_use ev pdev (fst r) s (snd (snd r))"
    using u ui uf unfolding r0 by (auto simp: r)
  show "fst (snd r) = 0" if x: "fst r \<noteq> NULL" and one: "\<forall>y \<in> set (k_xdev_list s). d_pdev (k_dev s y) \<noteq> pdev"
  proof -
    have nx: "x \<noteq> NULL" using x by (simp add: r0)
    have "fst i = 0" using fr(6) in_use_found [OF u [OF nx] one] u [OF nx] by (simp add: in_use_def)
    then show ?thesis using in_use_found [OF ui [OF nx] one] op(2) nx by (simp add: r)
  qed
  show "fst (snd r) = - EINVAL" if "\<exists>y \<in> set (k_xdev_list s). d_pdev (k_dev s y) = pdev"
  proof (cases "x = NULL")
    case False
    from that obtain y where y: "y \<in> set (k_xdev_list s)" "d_pdev (k_dev s y) = pdev" by blast
    have "d_pdev (k_dev (snd i) y) = pdev" using ui [OF False] y by (auto simp: in_use_def)
    then have "find_pdev (k_dev (snd i)) pdev (k_xdev_list (snd i)) \<in> set (k_xdev_list s)"
      using find_pdev_in [OF y(1)] by (simp add: in_use_list [OF ui [OF False]])
    then have "find_pdev (k_dev (snd i)) pdev (k_xdev_list (snd i)) \<noteq> x" using ui [OF False] by (auto simp: in_use_def)
    then show ?thesis using fr(5) by (auto simp: r errno_defs)
  qed (simp add: r)
  show "xp_xdev (k_xpdev (snd (snd r)) xp) = xp_xdev (k_xpdev s xp)" "xp_pdev (k_xpdev (snd (snd r)) xp) = xp_pdev (k_xpdev s xp)"
    by (simp_all add: r fr c s2_def)
  have "cs_drvdata (k_char s2) = cs_drvdata (k_char s)" by (simp add: s2_def upd_xpdev_def c)
  then show "cs_drvdata (k_char (snd (snd r))) = cs_drvdata (k_char s)" by (simp add: r fr)
qed

lemma xpdev_free_books:
  assumes l: "layout_ok ev" and u: "xp_xdev (k_xpdev t xp) \<noteq> NULL \<Longrightarrow> in_use ev pdev (xp_xdev (k_xpdev t xp)) s t"
    and n: "xp_xdev (k_xpdev t xp) = NULL \<Longrightarrow> books t = B" and B: "books s = B" and p: "xp_pdev (k_xpdev t xp) = pdev"
    and one: "\<forall>y \<in> set (k_xdev_list s). d_pdev (k_dev s y) \<noteq> pdev"
  shows "books (xpdev_free ev xp t) = B"
proof -
  define x where "x = xp_xdev (k_xpdev t xp)"
  define d where "d = upd_xpdev xp (\<lambda>x. x\<lparr>xp_xdev := NULL\<rparr>) (xpdev_destroy_interfaces xp t)"
  note q = quiet_destroy [of t xp, unfolded quiet_def]
  have "strip_xp (k_xpdev (xpdev_destroy_interfaces xp t) xp) = strip_xp (k_xpdev t xp)" using q by blast
  from strip_xp_pdev [OF this] have "xp_pdev (k_xpdev (xpdev_destroy_interfaces xp t) xp) = pdev" using p by simp
  then have e: "xpdev_free ev xp t = emit (Kernel ''kfree'' xp 0) (add_cnt (- 1) (xdma_device_close ev pdev x d))"
    by (simp add: xpdev_free_def Let_def d_def [symmetric] x_def)
  have "books (xdma_device_close ev pdev x d) = B"
  proof (cases "x = NULL")
    case True
    then show ?thesis using n q by (simp add: x_def xdma_device_close_def d_def)
  next
    case False
    have "in_use ev pdev x s d" by (rule in_use_cong [where t = t]) (use False u q in \<open>simp_all add: x_def d_def\<close>)
    then show ?thesis using close_in_use [OF l _ one] B by blast
  qed
  then show ?thesis unfolding e by (simp add: add_cnt_def books_def)
qed

lemma probe_input_frame:
  assumes "probe_input ev x s = Some t"
  shows "books t = books s" "k_eng t = k_eng s" "k_char t = k_char s" "strip_irq (k_dev t y) = strip_irq (k_dev s y)"
proof -
  have b: "books (emit (Kernel ''set_bit KEY_0 keybit'' p 0) s) = books s" "books (emit (Kernel ''set_bit EV_KEY evbit'' p 0) s) = books s"
    "books (emit (Kernel ''input_dev name key_inputdev'' p 0) s) = books s" for p s by (simp_all add: books_def)
  show "books t = books s" "k_eng t = k_eng s" "k_char t = k_char s" "strip_irq (k_dev t y) = strip_irq (k_dev s y)"
    using assms by (auto simp: probe_input_def Let_def split_beta strip_irq_def b split: if_splits)
qed

text \<open>A function between the opening of its device and the end of the probe, with the nodes being created.\<close>

lemma create_in_use:
  fixes ev pdev xp x s t
  defines "r \<equiv> xpdev_create_interfaces ev xp (upd_xpdev xp (\<lambda>y. y\<lparr>xp_xdev := x\<rparr>) t)"
  assumes "in_use ev pdev x s t" "xp_pdev (k_xpdev t xp) = pdev"
  shows "in_use ev pdev x s (snd r)" "xp_xdev (k_xpdev (snd r) xp) = x" "xp_pdev (k_xpdev (snd r) xp) = pdev"
proof -
  note q = quiet_interfaces [of "upd_xpdev xp (\<lambda>y. y\<lparr>xp_xdev := x\<rparr>) t" ev xp, unfolded quiet_def, folded r_def]
  show "in_use ev pdev x s (snd r)" by (rule in_use_cong [OF assms(2)]) (use q in simp_all)
  have "strip_xp (k_xpdev (snd r) xp) = strip_xp ((k_xpdev t xp)\<lparr>xp_xdev := x\<rparr>)" using q by simp
  from strip_xp_eqD(1) [OF this] strip_xp_pdev [OF this] assms(3)
  show "xp_xdev (k_xpdev (snd r) xp) = x" "xp_pdev (k_xpdev (snd r) xp) = pdev" by simp_all
qed

lemma probe_one_cases:
  fixes ev cpus pdev s
  defines "s1 \<equiv> snd (xpdev_alloc ev pdev s)" and "xp \<equiv> fst (xpdev_alloc ev pdev s)"
  defines "p \<equiv> probe_open ev cpus pdev (fst (xpdev_alloc ev pdev s)) (snd (xpdev_alloc ev pdev s))"
  assumes l: "layout_ok ev" and new: "nat (ksvc ev (trace s1) ''kzalloc'' (sizeof_dev ev)) \<notin> set (k_xdev_list s)"
    and one: "\<forall>y \<in> set (k_xdev_list s). d_pdev (k_dev s y) \<noteq> pdev" and r: "probe_one ev cpus pdev s = Some (rv, s')"
  shows "rv \<noteq> 0 \<Longrightarrow> books s' = books s"
    "rv = 0 \<Longrightarrow> in_use ev pdev (fst p) s s' \<and> xp \<noteq> NULL \<and> cs_drvdata (k_char s') pdev = xp \<and> xp_xdev (k_xpdev s' xp) = fst p \<and> xp_pdev (k_xpdev s' xp) = pdev"
proof -
  note al = alloc_frame [of ev pdev s, folded s1_def xp_def]
  have b: "k_xdev_list s1 = k_xdev_list s" using books_eqD [OF al(1)] by simp
  note oc = probe_open_cases [where ev = ev and cpus = cpus and pdev = pdev and xp = xp and s = s1, OF l new [folded b], folded p_def [folded s1_def xp_def], unfolded b al(2), folded p_def]
  have z: "xp_xdev (k_xpdev s1 xp) = NULL \<and> xp_pdev (k_xpdev s1 xp) = pdev" if "xp \<noteq> NULL"
    using al(4) that by (simp add: new_xpdev_def zero_xpdev_def)
  have u: "in_use ev pdev (fst p) s (snd (snd p))" if "fst p \<noteq> NULL"
    using in_use_base [OF oc(2) [OF that] al(1,2)] .
  define c where "c = xpdev_create_interfaces ev xp (upd_xpdev xp (\<lambda>y. y\<lparr>xp_xdev := fst p\<rparr>) (snd (snd p)))"
  have e: "xp \<noteq> NULL \<Longrightarrow> probe_one ev cpus pdev s =
     (if fst (snd p) \<noteq> 0 then Some (fst (snd p), xpdev_free ev xp (snd (snd p)))
      else if fst c \<noteq> 0 then Some (fst c, xpdev_free ev xp (snd c))
      else case probe_input ev (fst p) (dev_set_drvdata pdev xp (snd c)) of None \<Rightarrow> None | Some s \<Rightarrow> Some (0, s))"
    and e0: "xp = NULL \<Longrightarrow> probe_one ev cpus pdev s = Some (- ENOMEM, s1)"
    by (simp_all add: probe_one_def Let_def split_beta s1_def xp_def p_def c_def)
  have nz: "fst p \<noteq> NULL" if "fst (snd p) = 0" using oc(1) that by (force simp: errno_defs)
  have cu: "in_use ev pdev (fst p) s (snd c) \<and> xp_xdev (k_xpdev (snd c) xp) = fst p \<and> xp_pdev (k_xpdev (snd c) xp) = pdev"
    if "fst (snd p) = 0" "xp \<noteq> NULL"
    using create_in_use [OF u [OF nz [OF that(1)]], of xp] oc(6) z [OF that(2)] by (simp add: c_def)
  show "books s' = books s" if rv: "rv \<noteq> 0"
  proof (cases "xp = NULL")
    case True
    then show ?thesis using r e0 al(1) by simp
  next
    case False
    show ?thesis
    proof (cases "fst (snd p) = 0")
      case True
      with r rv False have "s' = xpdev_free ev xp (snd c)" by (auto simp: e split: if_splits option.splits)
      moreover have "books (xpdev_free ev xp (snd c)) = books s"
        using xpdev_free_books [OF l _ _ refl, of "snd c" xp pdev s] cu [OF True False] nz [OF True] one by simp
      ultimately show ?thesis by simp
    next
      case f: False
      then have n: "fst p = NULL" using oc(3) one by auto
      have "s' = xpdev_free ev xp (snd (snd p))" using r f False by (simp add: e)
      moreover have "books (xpdev_free ev xp (snd (snd p))) = books s"
        using xpdev_free_books [OF l _ _ refl, of "snd (snd p)" xp pdev s] oc(1) [OF n] oc(5,6) z [OF False] al(1) one by simp
      ultimately show ?thesis by simp
    qed
  qed
  show "in_use ev pdev (fst p) s s' \<and> xp \<noteq> NULL \<and> cs_drvdata (k_char s') pdev = xp \<and> xp_xdev (k_xpdev s' xp) = fst p \<and> xp_pdev (k_xpdev s' xp) = pdev"
    if rv: "rv = 0"
  proof -
    have x: "xp \<noteq> NULL" using r e0 rv by (auto simp: errno_defs)
    with r rv have f: "fst (snd p) = 0" "probe_input ev (fst p) (dev_set_drvdata pdev xp (snd c)) = Some s'"
      by (auto simp: e split: if_splits option.splits)
    note i = probe_input_frame [OF f(2)]
    have d: "books (dev_set_drvdata pdev xp t) = books t" "k_dev (dev_set_drvdata pdev xp t) = k_dev t" "k_eng (dev_set_drvdata pdev xp t) = k_eng t"
      "k_xpdev (dev_set_drvdata pdev xp t) = k_xpdev t" "cs_drvdata (k_char (dev_set_drvdata pdev xp t)) pdev = xp" for t
      by (simp_all add: dev_set_drvdata_def)
    have "in_use ev pdev (fst p) s s'" by (rule in_use_cong [where t = "snd c"]) (use cu [OF f(1) x] in \<open>simp_all add: i d\<close>)
    then show ?thesis using cu [OF f(1) x] x by (simp add: i d)
  qed
qed

subsection \<open>Properties\<close>



text \<open>A PCI function that already has a device on the list is refused with \<^verbatim>\<open>-EINVAL\<close>, but when the device it opened meanwhile
  was set up, it is not closed: the structure of the function does not know it yet, so its memory, its mappings and its place
  on the list stay taken.\<close>

theorem probe_duplicate_leaks:
  fixes ev cpus pdev s
  defines "s1 \<equiv> snd (xpdev_alloc ev pdev s)" and "xp \<equiv> fst (xpdev_alloc ev pdev s)"
  defines "hndl \<equiv> fst (probe_open ev cpus pdev (fst (xpdev_alloc ev pdev s)) (snd (xpdev_alloc ev pdev s)))"
  assumes l: "layout_ok ev" and new: "nat (ksvc ev (trace s1) ''kzalloc'' (sizeof_dev ev)) \<notin> set (k_xdev_list s)"
    and dup: "\<exists>y \<in> set (k_xdev_list s). d_pdev (k_dev s y) = pdev" and xp: "xp \<noteq> NULL"
  shows "\<exists>s'. probe_one ev cpus pdev s = Some (- EINVAL, s') \<and> (hndl \<noteq> NULL \<longrightarrow> k_xdev_list s' = k_xdev_list s @ [hndl]
    \<and> mapped (trace s') = mapped (trace s) + bars (k_dev s' hndl) [0..<XDMA_BAR_NUM])"
proof -
  define p where "p = probe_open ev cpus pdev xp s1"
  note al = alloc_frame [of ev pdev s, folded s1_def xp_def]
  have b: "k_xdev_list s1 = k_xdev_list s" using books_eqD [OF al(1)] by simp
  note oc = probe_open_cases [where ev = ev and cpus = cpus and pdev = pdev and xp = xp and s = s1, OF l new [folded b], folded p_def, unfolded b al(2)]
  have h: "hndl = fst p" by (simp add: hndl_def p_def s1_def xp_def)
  define t where "t = snd (snd p)"
  define q where "q = upd_xpdev xp (\<lambda>x. x\<lparr>xp_xdev := NULL\<rparr>) (xpdev_destroy_interfaces xp t)"
  have "xp_xdev (k_xpdev t xp) = NULL" using oc(5) al(4) xp by (simp add: t_def new_xpdev_def zero_xpdev_def)
  then have e: "probe_one ev cpus pdev s = Some (- EINVAL, emit (Kernel ''kfree'' xp 0) (add_cnt (- 1) q))"
    using oc(4) [OF dup] xp
    by (simp add: probe_one_def Let_def split_beta s1_def [symmetric] xp_def [symmetric] p_def [symmetric] xpdev_free_def q_def t_def
        xdma_device_close_def errno_defs)
  have "in_use ev pdev hndl s (emit (Kernel ''kfree'' xp 0) (add_cnt (- 1) q))" if "hndl \<noteq> NULL"
  proof (rule in_use_cong [where t = t])
    note qd = quiet_destroy [of t xp, unfolded quiet_def]
    show "in_use ev pdev hndl s t" using in_use_base [OF oc(2) al(1,2)] that by (simp add: h t_def)
    have "books q = books t" using qd by (simp add: q_def)
    then show "books (emit (Kernel ''kfree'' xp 0) (add_cnt (- 1) q)) = books t" by (simp add: add_cnt_def books_def)
  qed (use quiet_destroy [of t xp] in \<open>simp_all add: quiet_def q_def add_cnt_def\<close>)
  with e show ?thesis by (auto simp: in_use_def opened_def pending_def)
qed

subsection \<open>Functions that are probed\<close>

text \<open>The first function, whose nodes are created; the same with a class of nodes, where the creation fails as no system device is
  made; and the function probed again.\<close>

definition with_class :: kst where
  "with_class = kst0\<lparr>k_char := char_state0\<lparr>cs_class := 3\<rparr>\<rparr>"

definition with_device :: kst where
  "with_device = kst0\<lparr>k_xdev_list := [5], k_dev := (\<lambda>_. zero_dev\<lparr>d_pdev := 9\<rparr>)\<rparr>"

lemma env_open_alloc:
  "fst (xpdev_alloc env_open 9 s) = 0x300000" "cs_class (k_char (snd (xpdev_alloc env_open 9 s))) = cs_class (k_char s)"
  "ksvc env_open tr ''kzalloc'' n = 0x100000"
proof -
  have f: "cs_class (k_char (fold (\<lambda>q. upd_cdev q (\<lambda>_. zero_cdev)) qs t)) = cs_class (k_char t)" for qs t
    by (induction qs arbitrary: t) (simp_all add: upd_cdev_def)
  have k: "ksvc env_open tr ''kmalloc xpdev'' n = 0x300000" for tr n by (simp add: env_open_def)
  show "fst (xpdev_alloc env_open 9 s) = 0x300000" "cs_class (k_char (snd (xpdev_alloc env_open 9 s))) = cs_class (k_char s)"
    by (simp_all add: xpdev_alloc_def Let_def split_beta k ptr_of_def f add_cnt_def upd_xpdev_def)
  show "ksvc env_open tr ''kzalloc'' n = 0x100000" by (simp add: env_open_def)
qed

lemma env_open_probe:
  fixes s
  defines "p \<equiv> probe_open env_open [] 9 0x300000 s"
  assumes s: "k_xdev_list s = []"
  shows "fst p = 0x100000" "cs_class (k_char (snd (snd p))) = cs_class (k_char s)" "fst (snd p) = 0" "in_use env_open 9 0x100000 s (snd (snd p))"
proof -
  show h: "fst p = 0x100000" by (simp add: p_def probe_open_def Let_def split_beta env_open_opens)
  have f: "k_char (snd (probe_isr_enable ev x um t)) = k_char t" for ev x um t by (rule probe_isr_frame(3))
  have c: "cs_class (k_char (upd_xpdev x g t)) = cs_class (k_char t)" for x g t by (simp add: upd_xpdev_def)
  show "cs_class (k_char (snd (snd p))) = cs_class (k_char s)" by (simp add: p_def probe_open_def Let_def split_beta f c)
  note oc = probe_open_cases [where ev = env_open and cpus = "[]" and pdev = 9 and xp = "0x300000" and s = s, OF env_open_sel(5), folded p_def]
  show "fst (snd p) = 0" "in_use env_open 9 0x100000 s (snd (snd p))" using oc(2,3) h s by (simp_all add: env_open_alloc)
qed

lemma env_open_probe_one:
  fixes s
  defines "p \<equiv> probe_open env_open [] 9 0x300000 (snd (xpdev_alloc env_open 9 s))"
  defines "c \<equiv> xpdev_create_interfaces env_open 0x300000 (upd_xpdev 0x300000 (\<lambda>y. y\<lparr>xp_xdev := 0x100000\<rparr>)
      (snd (snd (probe_open env_open [] 9 0x300000 (snd (xpdev_alloc env_open 9 s))))))"
  assumes s: "k_xdev_list s = []"
  shows "\<exists>s'. probe_one env_open [] 9 s = Some (fst c, s')"
    "cs_class (k_char s) = NULL \<Longrightarrow> fst c = 0" "cs_class (k_char s) \<noteq> NULL \<Longrightarrow> fst c = - 1"
proof -
  have l: "k_xdev_list (snd (xpdev_alloc env_open 9 s)) = []" using books_eqD(4) [OF alloc_frame(1)] s by simp
  note p = env_open_probe [OF l, folded p_def]
  have i: "ksvc env_open tr ''input_allocate_device'' x = 0x400000" for tr x by (simp add: env_open_def)
  show "\<exists>s'. probe_one env_open [] 9 s = Some (fst c, s')"
    using p by (simp add: probe_one_def Let_def split_beta env_open_alloc p_def [symmetric] c_def probe_input_def i ptr_of_def)
  define t where "t = upd_xpdev 0x300000 (\<lambda>y. y\<lparr>xp_xdev := 0x100000\<rparr>) (snd (snd p))"
  have c: "c = xpdev_create_interfaces env_open 0x300000 t" and cl: "cs_class (k_char t) = cs_class (k_char s)"
    using p(2) by (simp_all add: c_def t_def p_def env_open_alloc upd_xpdev_def)
  have sv: "ksvc env_open tr ''alloc_chrdev_region'' q = 0" "ksvc env_open tr (''kobject_set_name '' @ g) q = 0" "ksvc env_open tr (''cdev_add '' @ g) q = 0"
    "ksvc env_open tr (''device_create '' @ g) q = 0" for tr g q by (simp_all add: env_open_def)
  have "placed env_open 0x100000 (k_dev t 0x100000)" using p(4) by (simp add: in_use_def opened_def t_def)
  then have "d_engine_h2c (k_dev t 0x100000) j \<noteq> NULL \<and> d_engine_c2h (k_dev t 0x100000) j \<noteq> NULL" for j
    by (simp add: placed_def h2c_at_def c2h_at_def)
  then show "fst c = 0" if "cs_class (k_char s) = NULL"
    unfolding c using that cl sv [simplified] by (intro creatable_ok) (simp add: creatable_def t_def)
  have "fst (create_xcdev env_open x q bar e CHAR_CTRL u) = - 1" if "cs_class (k_char u) \<noteq> NULL" for x q bar e u
  proof -
    have "fst (alloc_major env_open x v) = 0" for v by (simp add: alloc_major_def Let_def split_beta sv)
    then show ?thesis using that
      by (simp add: create_xcdev_def Let_def split_beta config_kobject_def node_live_def create_sys_device_def engine_types_def sv sv [simplified] ptr_of_def
          cdev_ctrl_init_def upd_cdev_def)
  qed
  then show "fst c = - 1" if "cs_class (k_char s) \<noteq> NULL"
    unfolding c using that cl by (simp add: xpdev_create_interfaces_def create_all_def create_ctrl_def and_then_def Let_def split_beta)
qed



theorem probe_duplicate_leaks_witness:
  "\<exists>s'. probe_one env_open [] 9 with_device = Some (- EINVAL, s') \<and> k_xdev_list s' = [5, 0x100000]"
proof -
  have "fst (probe_open env_open [] 9 0x300000 s) = 0x100000" for s by (simp add: probe_open_def Let_def split_beta env_open_opens)
  then show ?thesis
    using probe_duplicate_leaks [OF env_open_sel(5), of 9 with_device "[]"] by (auto simp: with_device_def kst0_def env_open_alloc)
qed

end
