(* ===== verification/Tools_Base.thy ===== *)
theory Tools_Base
  imports Cdev_User
begin

text \<open>
  What the user-space tools (\<^verbatim>\<open>tools/\<close>) share.  A tool is a process: its effects are the system calls it makes and its
  accesses to the register window it has mapped, newest first; what the calls and the loads return is a
  parameter that may depend on all of them.  Opened files are seen through their calls: \<open>on_files\<close> replays the calls and
  says what the memory of the process and the contents of the files are.
\<close>

datatype uevent =
    Sys string "int list" int   \<comment> \<open>a system or library call, its arguments and its result\<close>
  | Load nat u32                \<comment> \<open>a 32-bit load from the window at an offset\<close>
  | Store nat "u8 list"         \<comment> \<open>bytes stored to the window, the lowest offset first\<close>

record uenv =
  usys :: "uevent list \<Rightarrow> string \<Rightarrow> int list \<Rightarrow> int"
  uload :: "uevent list \<Rightarrow> nat \<Rightarrow> u32"
  udata :: "uevent list \<Rightarrow> int list \<Rightarrow> u8 list"   \<comment> \<open>the bytes a reading call puts into its buffer\<close>

type_synonym ust = "uevent list"

definition sysc :: "uenv \<Rightarrow> string \<Rightarrow> int list \<Rightarrow> ust \<Rightarrow> int \<times> ust" where
  "sysc w f xs s = (usys w s f xs, Sys f xs (usys w s f xs) # s)"

text \<open>The call that opens a file of a given name.\<close>

definition open_of :: "string \<Rightarrow> string" where
  "open_of f = ''open '' @ f"

definition closes :: "uenv \<Rightarrow> int list \<Rightarrow> ust \<Rightarrow> ust" where
  "closes w fds s = fold (\<lambda>fd s. snd (sysc w ''close'' [fd] s)) fds s"

lemma sysc_sel [simp]: "fst (sysc w f xs s) = usys w s f xs" "snd (sysc w f xs s) = Sys f xs (usys w s f xs) # s"
  by (simp_all add: sysc_def)

lemma sint_unat:
  assumes "unat (x :: 'a :: len word) < 2 ^ (LENGTH('a) - Suc 0)"
  shows "sint x = int (unat x)"
proof -
  have u: "uint x = int (unat x)" by simp
  have "int (unat x) < int (2 ^ (LENGTH('a) - Suc 0))" using assms by (simp only: of_nat_less_iff)
  then have "int (unat x) < 2 ^ (LENGTH('a) - Suc 0)" by (simp only: of_nat_power of_nat_numeral)
  then have "signed_take_bit (LENGTH('a) - Suc 0) (uint x) = uint x"
    unfolding u by (intro signed_take_bit_int_eq_self) linarith+
  then show ?thesis by (simp add: sint_uint)
qed

text \<open>The exit code: a wide result cut to an \<^verbatim>\<open>int\<close>.\<close>

definition c_int :: "int \<Rightarrow> int" where
  "c_int x = sint (word_of_int x :: u32)"

lemma c_int_small: "- (2 ^ 31) \<le> x \<Longrightarrow> x < 2 ^ 31 \<Longrightarrow> c_int x = x"
  by (simp add: c_int_def sint_sbintrunc' signed_take_bit_int_eq_self)

subsection \<open>The contents of a file\<close>

text \<open>Copying \<open>n\<close> bytes.\<close>

definition copied :: "(nat \<Rightarrow> 'a) \<Rightarrow> nat \<Rightarrow> nat \<Rightarrow> nat \<Rightarrow> (nat \<Rightarrow> 'a) \<Rightarrow> nat \<Rightarrow> 'a" where
  "copied from p q n to = (\<lambda>a. if q \<le> a \<and> a < q + n then from (p + (a - q)) else to a)"

lemma copied_0 [simp]: "copied from p q 0 to = to"
  by (auto simp: copied_def fun_eq_iff)

lemma copied_copied: "copied from (p + n) (q + n) m (copied from p q n to) = copied from p q (n + m) to"
  by (auto simp: copied_def fun_eq_iff)

text \<open>
  The memory of the process, the contents of the opened files and their positions.  A regular file
  advances its position as it is read and written; the nodes of the driver do not (\<open>adv\<close>).
\<close>

type_synonym fstate = "(nat \<Rightarrow> u8) \<times> (int \<Rightarrow> nat \<Rightarrow> u8) \<times> (int \<Rightarrow> int)"

definition file_step :: "(int \<Rightarrow> bool) \<Rightarrow> uevent \<Rightarrow> fstate \<Rightarrow> fstate" where
  "file_step adv e st =
     (case (e, st) of
        (Sys f xs r, mem, dev, pos) \<Rightarrow>
          if xs = [] \<or> r < 0 then st
          else
            let fd = hd xs; pos' = (if adv fd then pos(fd := pos fd + r) else pos)
            in if f = ''lseek'' then (mem, dev, pos(fd := r))
               else if f = ''write'' then (mem, dev(fd := copied mem (nat (xs ! 1)) (nat (pos fd)) (nat r) (dev fd)), pos')
               else if f = ''read'' then (copied (dev fd) (nat (pos fd)) (nat (xs ! 1)) (nat r) mem, dev, pos')
               else st
      | _ \<Rightarrow> st)"

definition on_files :: "(int \<Rightarrow> bool) \<Rightarrow> fstate \<Rightarrow> ust \<Rightarrow> fstate" where
  "on_files adv st s = foldr (file_step adv) s st"

lemma on_files_Cons: "on_files adv st (e # s) = file_step adv e (on_files adv st s)"
  by (simp add: on_files_def)

lemma on_files_other:
  "f \<notin> {''lseek'', ''read'', ''write''} \<Longrightarrow> on_files adv st (Sys f xs r # s) = on_files adv st s"
  "on_files adv st (Load a v # s) = on_files adv st s" "on_files adv st (Store a bs # s) = on_files adv st s"
  by (auto simp: on_files_Cons file_step_def Let_def split: prod.splits)

lemma on_files_open [simp]: "on_files adv st (Sys (open_of f) xs r # s) = on_files adv st s"
  by (rule on_files_other(1)) (simp add: open_of_def)

lemma on_files_closes [simp]: "on_files adv st (closes w fds s) = on_files adv st s"
  by (induction fds arbitrary: s) (simp_all add: closes_def on_files_other)

end
