(* ===== verification/Tools_Dma.thy ===== *)
theory Tools_Dma
  imports Tools_Base
begin

text \<open>
  The DMA tools (\<^verbatim>\<open>pcie_xdma_tools/\<close>): the loops that read and write a buffer in pieces a system call can handle
  (\<^verbatim>\<open>dma_utils.c\<close>), and the transfers of \<^verbatim>\<open>dma_to_device.c\<close> and \<^verbatim>\<open>dma_from_device.c\<close>.  The times measured are only
  printed and left out, except for their subtraction; parsing of options is left out.  Proved: what the loops move,
  whatever the system calls answer, and what the exit codes say and do not say.
\<close>

subsection \<open>Reading and writing a buffer\<close>

definition RW_MAX_SIZE :: u64 where "RW_MAX_SIZE = 0x7ffff000"

lemma piece_words:
  fixes c n b :: u64
  assumes "c < n" "b = (if n - c > RW_MAX_SIZE then RW_MAX_SIZE else n - c)"
  shows "unat (c + b) = unat c + unat b" "0 < unat b" "unat b \<le> unat n - unat c" "unat b \<le> 0x7ffff000" "unat b < unat n - unat c \<Longrightarrow> unat b = 0x7ffff000"
proof -
  have d: "unat (n - c) = unat n - unat c" using assms(1) by (simp add: unat_sub)
  have b: "unat b = (if unat n - unat c > 0x7ffff000 then 0x7ffff000 else unat n - unat c)"
    using assms(2) by (simp add: d RW_MAX_SIZE_def word_less_nat_alt)
  have n: "unat c < unat n" "unat n < 2 ^ 64" using assms(1) by (simp_all add: word_less_nat_alt unsigned_less [of n, where 'a = nat, simplified])
  have "unat c + unat b < 2 ^ 64" using n b by auto
  then show "unat (c + b) = unat c + unat b" by (simp add: unat_word_ariths)
  show "0 < unat b" "unat b \<le> unat n - unat c" "unat b \<le> 0x7ffff000" "unat b < unat n - unat c \<Longrightarrow> unat b = 0x7ffff000"
    using n b by auto
qed

text \<open>
  The body the two loops share, up to the system call.  A file offset is a signed word; the buffer and the counters
  are unsigned.  The seek is left out at offset 0.
\<close>

function rw_loop :: "uenv \<Rightarrow> string \<Rightarrow> int \<Rightarrow> u64 \<Rightarrow> u64 \<Rightarrow> u64 \<Rightarrow> u64 \<Rightarrow> ust \<Rightarrow> int \<times> ust" where
  "rw_loop w call fd sz buf offset cnt s =
     (if cnt < sz then
        let bytes = (if sz - cnt > RW_MAX_SIZE then RW_MAX_SIZE else sz - cnt);
            (rc, s) = (if offset \<noteq> 0 then sysc w ''lseek'' [fd, sint offset, 0] s else (sint offset, s))
        in if rc \<noteq> sint offset then (- EIO, s)
           else
             let (rc, s) = sysc w call [fd, uint buf, uint bytes] s
             in if rc < 0 then (- EIO, s)
                else
                  let cnt = cnt + of_int rc
                  in if rc \<noteq> uint bytes then (sint cnt, s)
                     else rw_loop w call fd sz (buf + bytes) (offset + bytes) cnt s
      else (sint cnt, s))"
  by pat_completeness auto
termination
proof (relation "measure (\<lambda>(w, call, fd, sz, buf, offset, cnt, s). unat sz - unat cnt)", goal_cases)
  case (2 w call fd sz buf offset cnt s bytes rs rc s' rs2 rc2 s'' cnt')
  then show ?case using piece_words [of cnt sz bytes] by (auto simp: word_less_nat_alt)
qed simp

declare rw_loop.simps [simp del]

definition read_to_buffer :: "uenv \<Rightarrow> int \<Rightarrow> u64 \<Rightarrow> u64 \<Rightarrow> u64 \<Rightarrow> ust \<Rightarrow> int \<times> ust" where
  "read_to_buffer w fd buf sz base s = rw_loop w ''read'' fd sz buf base 0 s"

definition write_from_buffer :: "uenv \<Rightarrow> int \<Rightarrow> u64 \<Rightarrow> u64 \<Rightarrow> u64 \<Rightarrow> ust \<Rightarrow> int \<times> ust" where
  "write_from_buffer w fd buf sz base s = rw_loop w ''write'' fd sz buf base 0 s"

text \<open>What moving \<open>n\<close> bytes between the buffer and the file does.\<close>

definition moved :: "string \<Rightarrow> int \<Rightarrow> nat \<Rightarrow> nat \<Rightarrow> nat \<Rightarrow> fstate \<Rightarrow> (nat \<Rightarrow> u8) \<times> (int \<Rightarrow> nat \<Rightarrow> u8)" where
  "moved call fd p q n st = (case st of (mem, dev, pos) \<Rightarrow>
     if call = ''write'' then (mem, dev(fd := copied mem p q n (dev fd))) else (copied (dev fd) q p n mem, dev))"

text \<open>A system call never moves more than it was asked to, as the manuals have it; one that is \<open>whole\<close> moves all of it.\<close>

definition bounded :: "uenv \<Rightarrow> string \<Rightarrow> int \<Rightarrow> bool" where
  "bounded w call fd \<longleftrightarrow> (\<forall>s a n. 0 \<le> n \<longrightarrow> usys w s call [fd, a, n] \<le> n)"

definition whole :: "uenv \<Rightarrow> string \<Rightarrow> int \<Rightarrow> bool" where
  "whole w call fd \<longleftrightarrow> (\<forall>s a n. 0 \<le> n \<longrightarrow> usys w s call [fd, a, n] = n) \<and> (\<forall>s n. 0 \<le> n \<longrightarrow> usys w s ''lseek'' [fd, n, 0] = n)"

lemma whole_bounded: "whole w call fd \<Longrightarrow> bounded w call fd"
  by (simp add: whole_def bounded_def)

lemma moved_0 [simp]: "moved call fd p q 0 (mem, dev, pos) = (mem, dev)"
  by (simp add: moved_def)

lemma sint_small64: "unat (x :: u64) < 2 ^ 63 \<Longrightarrow> sint x = int (unat x)"
  by (rule sint_unat) simp

lemma moved_moved:
  assumes "moved call fd p q n (mem, dev, pos) = (m, d)"
  shows "moved call fd (p + n) (q + n) k (m, d, pos') = moved call fd p q (n + k) (mem, dev, pos)"
  using assms by (auto simp: moved_def copied_copied split: if_splits)

text \<open>The loop moves the first bytes of what is left, in order, and reports how many, or fails with \<^verbatim>\<open>-EIO\<close>.\<close>

lemma rw_loop_moves:
  assumes call: "call = ''read'' \<or> call = ''write''" and bd: "bounded w call fd"
    and room: "unat offset + (unat sz - unat cnt) < 2 ^ 63" "unat buf + (unat sz - unat cnt) < 2 ^ 63" "unat sz < 2 ^ 63" "unat cnt \<le> unat sz"
    and st: "on_files adv st s = (mem, dev, pos)" and pos: "offset \<noteq> 0 \<or> pos fd = 0"
  shows "\<exists>n pos'. n \<le> unat sz - unat cnt
    \<and> on_files adv st (snd (rw_loop w call fd sz buf offset cnt s)) = (let (m, d) = moved call fd (unat buf) (unat offset) n (mem, dev, pos) in (m, d, pos(fd := pos')))
    \<and> (fst (rw_loop w call fd sz buf offset cnt s) = - EIO \<or> fst (rw_loop w call fd sz buf offset cnt s) = int (unat cnt + n))
    \<and> (whole w call fd \<longrightarrow> n = unat sz - unat cnt \<and> fst (rw_loop w call fd sz buf offset cnt s) = int (unat sz)
         \<and> (\<not> adv fd \<and> offset = 0 \<and> unat sz - unat cnt \<le> 0x7ffff000 \<longrightarrow> pos' = 0))
    \<and> (cnt = sz \<longrightarrow> pos' = pos fd)"
  using room st pos
proof (induction "unat sz - unat cnt" arbitrary: buf offset cnt s mem dev pos rule: less_induct)
  case less
  show ?case
  proof (cases "cnt < sz")
    case False
    then have "cnt = sz" using less.prems(4) by (simp add: word_less_nat_alt word_unat_eq_iff)
    then show ?thesis using less.prems by (intro exI [of _ 0] exI [of _ "pos fd"]) (auto simp: rw_loop.simps [of _ _ _ sz] sint_small64)
  next
    case lt: True
    then have ne: "cnt \<noteq> sz" by auto
    define b where "b = (if sz - cnt > RW_MAX_SIZE then RW_MAX_SIZE else sz - cnt)"
    note pw = piece_words [OF lt b_def]
    define s1 where "s1 = (if offset \<noteq> 0 then snd (sysc w ''lseek'' [fd, sint offset, 0] s) else s)"
    define rc1 where "rc1 = (if offset \<noteq> 0 then usys w s ''lseek'' [fd, sint offset, 0] else sint offset)"
    define rc2 where "rc2 = usys w s1 call [fd, uint buf, uint b]"
    define s2 where "s2 = Sys call [fd, uint buf, uint b] rc2 # s1"
    have l: "rw_loop w call fd sz buf offset cnt s =
       (if rc1 \<noteq> sint offset then (- EIO, s1) else if rc2 < 0 then (- EIO, s2)
        else if rc2 \<noteq> uint b then (sint (cnt + of_int rc2), s2) else rw_loop w call fd sz (buf + b) (offset + b) (cnt + of_int rc2) s2)"
      using lt by (cases "offset = 0"; subst rw_loop.simps; unfold b_def [symmetric]; simp add: s1_def rc1_def rc2_def s2_def sysc_def)
    have o: "sint offset = int (unat offset)" using less.prems(1) by (intro sint_small64) simp
    define p1 where "p1 = (if offset \<noteq> 0 \<and> 0 \<le> rc1 then rc1 else pos fd)"
    have p1: "on_files adv st s1 = (mem, dev, pos(fd := p1))" "rc1 = sint offset \<Longrightarrow> p1 = int (unat offset)" "offset = 0 \<Longrightarrow> p1 = pos fd"
      using less.prems(5,6) o by (auto simp: p1_def s1_def rc1_def on_files_Cons file_step_def Let_def)
    have u: "uint buf = int (unat buf)" "uint b = int (unat b)" by simp_all
    have rb: "rc2 \<le> int (unat b)" using bd by (simp add: bounded_def rc2_def)
    have f2: "on_files adv st s2 = (let (m, d) = moved call fd (unat buf) (unat offset) (nat rc2) (mem, dev, pos) in (m, d, pos(fd := if adv fd then p1 + rc2 else p1)))"
      if "rc1 = sint offset" "0 \<le> rc2"
      using that p1 call by (auto simp: s2_def on_files_Cons file_step_def moved_def Let_def)
    show ?thesis
    proof (cases "rc1 \<noteq> sint offset \<or> rc2 < 0")
      case True
      have "on_files adv st s2 = (mem, dev, pos(fd := p1))" if "rc2 < 0" using that p1 by (simp add: s2_def on_files_Cons file_step_def Let_def)
      then have "on_files adv st (snd (rw_loop w call fd sz buf offset cnt s)) = (mem, dev, pos(fd := p1))" "fst (rw_loop w call fd sz buf offset cnt s) = - EIO"
        using True p1(1) by (auto simp: l)
      moreover have "\<not> whole w call fd" using True o by (auto simp: whole_def rc1_def rc2_def split: if_splits)
      ultimately show ?thesis using ne by (intro exI [of _ "0 :: nat"] exI [of _ p1]) simp
    next
      case False
      then have ok: "rc1 = sint offset" "0 \<le> rc2" by auto
      note f = f2 [OF ok]
      show ?thesis
      proof (cases "rc2 = uint b")
        case part: False
        have rn: "nat rc2 \<le> unat b" using rb by linarith
        from part have w: "\<not> whole w call fd" by (auto simp: whole_def rc2_def)
        have "unat (cnt + of_int rc2) = unat cnt + nat rc2"
        proof -
          have "of_int rc2 = (of_nat (nat rc2) :: u64)" using ok(2) by simp
          moreover have "unat cnt + nat rc2 \<le> unat sz" using rb pw(3) less.prems(4) by linarith
          then have "unat cnt + nat rc2 < 2 ^ 64" using less.prems(3) by simp
          ultimately show ?thesis by (simp add: unat_word_ariths unat_of_nat)
        qed
        then have "sint (cnt + of_int rc2) = int (unat cnt + nat rc2)"
          using rn pw(3) less.prems(3,4) by (subst sint_small64) auto
        then show ?thesis using f part ok w rn pw(3) ne
          by (intro exI [of _ "nat rc2"] exI [of _ "if adv fd then p1 + rc2 else p1"]) (auto simp: l)
      next
        case full: True
        then have n: "nat rc2 = unat b" "of_int rc2 = b" by simp_all
        note c = pw(1)
        have ob: "unat (offset + b) = unat offset + unat b" "unat (buf + b) = unat buf + unat b"
          using less.prems(1,2) pw(3) by (auto simp: unat_word_ariths)
        have e: "rw_loop w call fd sz buf offset cnt s = rw_loop w call fd sz (buf + b) (offset + b) (cnt + b) s2"
          using ok full by (simp add: l n(2))
        obtain m d where md: "moved call fd (unat buf) (unat offset) (unat b) (mem, dev, pos) = (m, d)" by fastforce
        define pos1 where "pos1 = pos(fd := if adv fd then p1 + rc2 else p1)"
        have "\<exists>n pos'. n \<le> unat sz - unat (cnt + b)
          \<and> on_files adv st (snd (rw_loop w call fd sz (buf + b) (offset + b) (cnt + b) s2)) =
             (let (m, d) = moved call fd (unat (buf + b)) (unat (offset + b)) n (m, d, pos1) in (m, d, pos1(fd := pos')))
          \<and> (fst (rw_loop w call fd sz (buf + b) (offset + b) (cnt + b) s2) = - EIO \<or> fst (rw_loop w call fd sz (buf + b) (offset + b) (cnt + b) s2) = int (unat (cnt + b) + n))
          \<and> (whole w call fd \<longrightarrow> n = unat sz - unat (cnt + b) \<and> fst (rw_loop w call fd sz (buf + b) (offset + b) (cnt + b) s2) = int (unat sz)
              \<and> (\<not> adv fd \<and> offset + b = 0 \<and> unat sz - unat (cnt + b) \<le> 0x7ffff000 \<longrightarrow> pos' = 0))
          \<and> (cnt + b = sz \<longrightarrow> pos' = pos1 fd)"
        proof (rule less.hyps)
          show "on_files adv st s2 = (m, d, pos1)" using f md by (simp add: n pos1_def)
          show "offset + b \<noteq> 0 \<or> pos1 fd = 0" using ob(1) pw(2) by (metis add_is_0 not_gr0 unat_0)
        qed (use c ob pw less.prems lt in \<open>auto simp: word_less_nat_alt\<close>)
        then obtain n' pos' where n': "n' \<le> unat sz - unat (cnt + b)"
          "on_files adv st (snd (rw_loop w call fd sz buf offset cnt s)) =
             (let (m, d) = moved call fd (unat (buf + b)) (unat (offset + b)) n' (m, d, pos(fd := if adv fd then p1 + rc2 else p1)) in (m, d, pos(fd := pos')))"
          "fst (rw_loop w call fd sz buf offset cnt s) = - EIO \<or> fst (rw_loop w call fd sz buf offset cnt s) = int (unat (cnt + b) + n')"
          "whole w call fd \<longrightarrow> n' = unat sz - unat (cnt + b) \<and> fst (rw_loop w call fd sz buf offset cnt s) = int (unat sz)"
          "cnt + b = sz \<longrightarrow> pos' = (if adv fd then p1 + rc2 else p1)"
          unfolding e [symmetric] pos1_def fun_upd_upd fun_upd_same by blast
        have "cnt + b = sz" if "unat sz - unat cnt \<le> 0x7ffff000"
        proof -
          have "\<not> unat b < unat sz - unat cnt" using pw(5) that by auto
          then have "unat cnt + unat b = unat sz" using pw(3) lt by (simp add: word_less_nat_alt)
          then show ?thesis by (simp add: word_unat_eq_iff pw(1))
        qed
        then have "pos' = 0" if "\<not> adv fd" "offset = 0" "unat sz - unat cnt \<le> 0x7ffff000"
          using n'(5) that p1(3) less.prems(6) by auto
        then show ?thesis
          using n'(1,3,4) lt ne pw(1,3) n'(2) moved_moved [OF md, of n' "pos(fd := if adv fd then p1 + rc2 else p1)"]
          by (intro exI [of _ "unat b + n'"] exI [of _ pos']) (auto simp: ob add.assoc)
      qed
    qed
  qed
qed

subsection \<open>Times\<close>

record timespec =
  tv_sec :: int
  tv_nsec :: int

definition timespec_check :: "timespec \<Rightarrow> int" where
  "timespec_check t = (if tv_nsec t < 0 \<or> tv_nsec t \<ge> 1000000000 then - 1 else 0)"

definition timespec_sub :: "timespec \<Rightarrow> timespec \<Rightarrow> timespec" where
  "timespec_sub t1 t2 =
     (if timespec_check t1 < 0 then t1
      else if timespec_check t2 < 0 then t1
      else
        let t = t1\<lparr>tv_sec := tv_sec t1 - tv_sec t2, tv_nsec := tv_nsec t1 - tv_nsec t2\<rparr>
        in if tv_nsec t \<ge> 1000000000 then t\<lparr>tv_sec := tv_sec t + 1, tv_nsec := tv_nsec t - 1000000000\<rparr>
           else if tv_nsec t < 0 then t\<lparr>tv_sec := tv_sec t - 1, tv_nsec := tv_nsec t + 1000000000\<rparr>
           else t)"

subsection \<open>Transfers to the device\<close>

text \<open>
  One transfer, through an aperture or not: whether it went through, the code, the number of bytes done.  The structure passed
  to the \<open>ioctl\<close> comes back with an error and a count.
\<close>

definition one_transfer :: "uenv \<Rightarrow> bool \<Rightarrow> int \<Rightarrow> u64 \<Rightarrow> u64 \<Rightarrow> u64 \<Rightarrow> u64 \<Rightarrow> ust \<Rightarrow> bool \<times> int \<times> u64 \<times> ust" where
  "one_transfer w to_dev fpga addr aperture sz buf s =
     (if aperture \<noteq> 0 then
        let (rc, s) = sysc w (if to_dev then ''ioctl APERTURE_W'' else ''ioctl APERTURE_R'') [fpga, uint buf, uint sz, uint addr, uint aperture] s;
            (err, s) = sysc w ''io.error'' [uint buf] s;
            (dn, s) = sysc w ''io.done'' [uint buf] s
        in (\<not> (rc < 0 \<or> err \<noteq> 0), rc, of_int dn, s)
      else
        let (rc, s) = (if to_dev then write_from_buffer w fpga buf sz addr s else read_to_buffer w fpga buf sz addr s)
        in (\<not> rc < 0, rc, of_int rc, s))"

text \<open>The transfers that are left: the last code, and whether one of them was short.\<close>

fun h2c_loop :: "uenv \<Rightarrow> int \<Rightarrow> int \<Rightarrow> u64 \<Rightarrow> u64 \<Rightarrow> u64 \<Rightarrow> u64 \<Rightarrow> nat \<Rightarrow> u64 \<Rightarrow> bool \<Rightarrow> int \<Rightarrow> ust \<Rightarrow> int \<times> bool \<times> ust" where
  "h2c_loop w fpga out addr aperture sz buf 0 oo underflow rc s = (rc, underflow, s)"
| "h2c_loop w fpga out addr aperture sz buf (Suc k) oo underflow rc s =
     (let (rc, s) = sysc w ''clock_gettime'' [1] s;
          (ok, rc, bytes, s) = one_transfer w True fpga addr aperture sz buf s
      in if \<not> ok then (rc, underflow, s)
         else
           let (rc, s) = sysc w ''clock_gettime'' [1] s;
               underflow = (underflow \<or> bytes < sz)
           in if out \<ge> 0 then
                let (rc, s) = write_from_buffer w out buf bytes oo s
                in if rc < 0 \<or> (of_int rc :: u64) < bytes then (rc, underflow, s)
                   else h2c_loop w fpga out addr aperture sz buf k (oo + bytes) underflow rc s
              else h2c_loop w fpga out addr aperture sz buf k oo underflow rc s)"

text \<open>The files are closed and the buffer is freed on every path; a short transfer is an error.\<close>

definition h2c_out :: "uenv \<Rightarrow> int list \<Rightarrow> int \<times> bool \<times> ust \<Rightarrow> int \<times> ust" where
  "h2c_out w fds r =
     (let (rc, underflow, s) = r; s = closes w (filter (\<lambda>fd. fd \<ge> 0) fds) s
      in (if rc < 0 then c_int rc else if underflow then - EIO else 0, s))"

text \<open>The buffer: \<open>posix_memalign\<close>, the file that is read into it.  The code starts undefined (\<open>junk\<close>).\<close>

definition h2c_run :: "uenv \<Rightarrow> int \<Rightarrow> int \<Rightarrow> int \<Rightarrow> u64 \<Rightarrow> u64 \<Rightarrow> u64 \<Rightarrow> u64 \<Rightarrow> nat \<Rightarrow> int \<Rightarrow> ust \<Rightarrow> int \<times> bool \<times> ust" where
  "h2c_run w fpga infd out addr aperture sz offset cnt junk s =
     (let (allocated, s) = sysc w ''posix_memalign'' [4096, uint (sz + 4096)] s
      in if allocated = 0 then (- ENOMEM, False, s)
         else
           let buf = of_int allocated + offset;
               (rc, s) = (if infd \<ge> 0 then read_to_buffer w infd buf sz 0 s else (junk, s))
           in if infd \<ge> 0 \<and> (rc < 0 \<or> (of_int rc :: u64) < sz) then (rc, False, s)
              else h2c_loop w fpga out addr aperture sz buf cnt 0 False rc s)"

definition test_dma_to_device ::
    "uenv \<Rightarrow> string \<Rightarrow> u64 \<Rightarrow> u64 \<Rightarrow> u64 \<Rightarrow> u64 \<Rightarrow> nat \<Rightarrow> string option \<Rightarrow> string option \<Rightarrow> int \<Rightarrow> ust \<Rightarrow> int \<times> ust" where
  "test_dma_to_device w devname addr aperture sz offset cnt infname ofname junk s =
     (let (fpga, s) = sysc w (open_of devname) [2] s
      in if fpga < 0 then (- EINVAL, s)
         else
           let (infd, s) = (case infname of None \<Rightarrow> (- 1, s) | Some f \<Rightarrow> sysc w (open_of f) [0] s)
           in if infname \<noteq> None \<and> infd < 0 then h2c_out w [fpga, infd, - 1] (- EINVAL, False, s)
              else
                let (out, s) = (case ofname of None \<Rightarrow> (- 1, s) | Some f \<Rightarrow> sysc w (open_of f) [0x101242] s)
                in if ofname \<noteq> None \<and> out < 0 then h2c_out w [fpga, infd, out] (- EINVAL, False, s)
                   else h2c_out w [fpga, infd, out] (h2c_run w fpga infd out addr aperture sz offset cnt junk s))"

subsection \<open>Transfers from the device\<close>

text \<open>Whether the loop was left early, the code, whether a transfer was short.\<close>

fun c2h_loop :: "uenv \<Rightarrow> int \<Rightarrow> int \<Rightarrow> u64 \<Rightarrow> u64 \<Rightarrow> u64 \<Rightarrow> u64 \<Rightarrow> nat \<Rightarrow> u64 \<Rightarrow> bool \<Rightarrow> ust \<Rightarrow> bool \<times> int \<times> bool \<times> ust" where
  "c2h_loop w fpga out addr aperture sz buf 0 oo underflow s = (False, 0, underflow, s)"
| "c2h_loop w fpga out addr aperture sz buf (Suc k) oo underflow s =
     (let (rc, s) = sysc w ''clock_gettime'' [1] s;
          (ok, rc, bytes, s) = one_transfer w False fpga addr aperture sz buf s
      in if \<not> ok then (True, rc, underflow, s)
         else
           let (r, s) = sysc w ''clock_gettime'' [1] s;
               underflow = (underflow \<or> bytes < sz)
           in if out \<ge> 0 then
                let (rc, s) = write_from_buffer w out buf bytes oo s
                in if rc < 0 \<or> (of_int rc :: u64) < bytes then (True, rc, underflow, s)
                   else c2h_loop w fpga out addr aperture sz buf k (oo + bytes) underflow s
              else c2h_loop w fpga out addr aperture sz buf k oo underflow s)"

definition test_dma_from_device ::
    "uenv \<Rightarrow> bool \<Rightarrow> string \<Rightarrow> u64 \<Rightarrow> u64 \<Rightarrow> u64 \<Rightarrow> u64 \<Rightarrow> nat \<Rightarrow> string option \<Rightarrow> ust \<Rightarrow> int \<times> ust" where
  "test_dma_from_device w eop_flush devname addr aperture sz offset cnt ofname s =
     (let (fpga, s) = sysc w (open_of devname) [if eop_flush then 0x202 else 2] s
      in if fpga < 0 then (- EINVAL, s)
         else
           let (out, s) = (case ofname of None \<Rightarrow> (- 1, s) | Some f \<Rightarrow> sysc w (open_of f) [0x101242] s)
           in if ofname \<noteq> None \<and> out < 0 then (- EINVAL, closes w [fpga] s)
              else
                let (allocated, s) = sysc w ''posix_memalign'' [4096, uint (sz + 4096)] s;
                    fds = filter (\<lambda>fd. fd \<ge> 0) [fpga, out]
                in if allocated = 0 then (- ENOMEM, closes w fds s)
                   else
                     let (left, rc, underflow, s) = c2h_loop w fpga out addr aperture sz (of_int allocated + offset) cnt 0 False s
                     in (if left then c_int rc else if \<not> underflow then 0 else if eop_flush then 0 else - EIO, closes w fds s))"

subsection \<open>Properties\<close>

text \<open>The difference of two normalised times is normalised and exact.\<close>

lemma timespec_sub_exact:
  assumes "timespec_check t1 = 0" "timespec_check t2 = 0"
  shows "timespec_check (timespec_sub t1 t2) = 0
    \<and> tv_sec (timespec_sub t1 t2) * 1000000000 + tv_nsec (timespec_sub t1 t2)
      = (tv_sec t1 * 1000000000 + tv_nsec t1) - (tv_sec t2 * 1000000000 + tv_nsec t2)"
  using assms by (auto simp: timespec_sub_def timespec_check_def Let_def split: if_splits)

lemma moves_start:
  assumes "call = ''read'' \<or> call = ''write''" "bounded w call fd" "unat base + unat sz < 2 ^ 63" "unat buf + unat sz < 2 ^ 63"
    "on_files adv st s = (mem, dev, pos)" "base \<noteq> 0 \<or> pos fd = 0"
  shows "\<exists>n p'. n \<le> unat sz
    \<and> on_files adv st (snd (rw_loop w call fd sz buf base 0 s)) = (let (m, d) = moved call fd (unat buf) (unat base) n (mem, dev, pos) in (m, d, pos(fd := p')))
    \<and> (fst (rw_loop w call fd sz buf base 0 s) = - EIO \<or> fst (rw_loop w call fd sz buf base 0 s) = int n)
    \<and> (whole w call fd \<longrightarrow> n = unat sz \<and> fst (rw_loop w call fd sz buf base 0 s) = int (unat sz) \<and> (\<not> adv fd \<and> base = 0 \<and> unat sz \<le> 0x7ffff000 \<longrightarrow> p' = 0))"
  using rw_loop_moves [of call w fd base sz 0 buf adv st s mem dev pos] assms by auto

text \<open>C19: the two loops of \<^verbatim>\<open>dma_utils.c\<close> move a buffer.  Whatever the system calls answer, as long as none moves more than it was asked to, what has
  happened is that the first \<open>n\<close> bytes of the buffer went to the file at the base offset (or came from there), contiguously
  and in order although in pieces of at most 2 GB, and nothing else changed; \<open>n\<close> is reported, or \<^verbatim>\<open>-EIO\<close>.  When no call is short, \<open>n\<close> is the size.\<close>

theorem buffer_moves:
  fixes w fd buf base sz s
  assumes "bounded w ''write'' fd" "bounded w ''read'' fd" "unat base + unat sz < 2 ^ 63" "unat buf + unat sz < 2 ^ 63"
    and "on_files adv st s = (mem, dev, pos)" "base \<noteq> 0 \<or> pos fd = 0"
  shows "(\<exists>n p'. n \<le> unat sz \<and> fst (write_from_buffer w fd buf sz base s) \<in> {- EIO, int n}
      \<and> on_files adv st (snd (write_from_buffer w fd buf sz base s)) = (mem, dev(fd := copied mem (unat buf) (unat base) n (dev fd)), pos(fd := p'))
      \<and> (whole w ''write'' fd \<longrightarrow> n = unat sz \<and> fst (write_from_buffer w fd buf sz base s) = int (unat sz)))
    \<and> (\<exists>n p'. n \<le> unat sz \<and> fst (read_to_buffer w fd buf sz base s) \<in> {- EIO, int n}
      \<and> on_files adv st (snd (read_to_buffer w fd buf sz base s)) = (copied (dev fd) (unat base) (unat buf) n mem, dev, pos(fd := p'))
      \<and> (whole w ''read'' fd \<longrightarrow> n = unat sz \<and> fst (read_to_buffer w fd buf sz base s) = int (unat sz)))"
  using moves_start [of "''write''" w fd base sz buf adv st s mem dev pos] moves_start [of "''read''" w fd base sz buf adv st s mem dev pos] assms
  unfolding write_from_buffer_def read_to_buffer_def moved_def by simp blast

lemma read_whole:
  assumes "whole w ''read'' fd" "unat sz < 2 ^ 63" "unat buf + unat sz < 2 ^ 63" "on_files adv st s = (mem, dev, pos)" "pos fd = 0"
  shows "fst (read_to_buffer w fd buf sz 0 s) = int (unat sz)
    \<and> (\<exists>p'. on_files adv st (snd (read_to_buffer w fd buf sz 0 s)) = (copied (dev fd) 0 (unat buf) (unat sz) mem, dev, pos(fd := p')))"
  using moves_start [of "''read''" w fd 0 sz buf adv st s mem dev pos] assms whole_bounded [OF assms(1)]
  unfolding read_to_buffer_def moved_def by auto

lemma write_whole:
  assumes "whole w ''write'' fd" "\<not> adv fd" "unat base + unat sz < 2 ^ 63" "unat buf + unat sz < 2 ^ 63"
    "on_files adv st s = (mem, dev, pos)" "base \<noteq> 0 \<or> pos fd = 0 \<and> unat sz \<le> 0x7ffff000"
  shows "fst (write_from_buffer w fd buf sz base s) = int (unat sz)
    \<and> (\<exists>p'. on_files adv st (snd (write_from_buffer w fd buf sz base s)) = (mem, dev(fd := copied mem (unat buf) (unat base) (unat sz) (dev fd)), pos(fd := p'))
        \<and> (base = 0 \<longrightarrow> p' = 0))"
  using moves_start [of "''write''" w fd base sz buf adv st s mem dev pos] assms whole_bounded [OF assms(1)]
  unfolding write_from_buffer_def moved_def by auto

lemma copied_twice [simp]: "copied mem p q n (copied mem p q n dev) = copied mem p q n dev"
  by (auto simp: copied_def fun_eq_iff)

lemma copied_via: "copied (copied from 0 p n mem) p q n to = copied from 0 q n to"
  by (auto simp: copied_def fun_eq_iff)

text \<open>The loop over the transfers of the same buffer.\<close>

lemma h2c_loop_sends:
  assumes "whole w ''write'' fpga" "\<not> adv fpga" "unat addr + unat sz < 2 ^ 63" "unat buf + unat sz < 2 ^ 63" "\<forall>s. usys w s ''clock_gettime'' [1] = 0"
    "on_files adv st s = (mem, dev, pos)" "addr \<noteq> 0 \<or> pos fpga = 0 \<and> unat sz \<le> 0x7ffff000"
  shows "\<exists>p' s'. h2c_loop w fpga (- 1) addr 0 sz buf (Suc k) oo False rc s = (0, False, s')
    \<and> on_files adv st s' = (mem, dev(fpga := copied mem (unat buf) (unat addr) (unat sz) (dev fpga)), p')"
proof -
  define snt where "snt d = d(fpga := copied mem (unat buf) (unat addr) (unat sz) (d fpga))" for d :: "int \<Rightarrow> nat \<Rightarrow> u8"
  have twice: "snt (snt d) = snt d" for d by (simp add: snt_def)
  have "\<exists>s'. h2c_loop w fpga (- 1) addr 0 sz buf (Suc k) oo False rc s = (0, False, s') \<and> (\<exists>p'. on_files adv st s' = (mem, snt dev, p'))"
    using assms(6,7)
  proof (induction k arbitrary: s dev pos rc)
    case (0 s dev pos rc)
    let ?s = "Sys ''clock_gettime'' [1] 0 # s"
    have "on_files adv st ?s = (mem, dev, pos)" using 0 by (simp add: on_files_other)
    note m = write_whole [OF assms(1-4) this 0(2), folded snt_def]
    then have "of_int (fst (write_from_buffer w fpga buf sz addr ?s)) = sz" by simp
    with m show ?case
      by (auto simp: assms(5) sysc_def one_transfer_def split_beta on_files_other)
  next
    case (Suc k s dev pos rc)
    let ?s = "Sys ''clock_gettime'' [1] 0 # s"
    have "on_files adv st ?s = (mem, dev, pos)" using Suc.prems by (simp add: on_files_other)
    note m = write_whole [OF assms(1-4) this Suc.prems(2), folded snt_def]
    then obtain p' where p: "on_files adv st (snd (write_from_buffer w fpga buf sz addr ?s)) = (mem, snt dev, pos(fpga := p'))" "addr = 0 \<longrightarrow> p' = 0"
      by blast
    let ?t = "Sys ''clock_gettime'' [1] 0 # snd (write_from_buffer w fpga buf sz addr ?s)"
    have "of_int (fst (write_from_buffer w fpga buf sz addr ?s)) = sz" using m by simp
    then have e: "h2c_loop w fpga (- 1) addr 0 sz buf (Suc (Suc k)) oo False rc s = h2c_loop w fpga (- 1) addr 0 sz buf (Suc k) oo False 0 ?t"
      using m by (simp add: assms(5) sysc_def one_transfer_def split_beta del: h2c_loop.simps)
        (subst h2c_loop.simps, simp add: assms(5) sysc_def one_transfer_def split_beta del: h2c_loop.simps)
    have t: "on_files adv st ?t = (mem, snt dev, pos(fpga := p'))" using p by (simp add: on_files_other)
    have "addr \<noteq> 0 \<or> (pos(fpga := p')) fpga = 0 \<and> unat sz \<le> 0x7ffff000" using Suc.prems(2) p(2) by auto
    from Suc.IH [OF t this, of 0] show ?case unfolding e twice .
  qed
  then show ?thesis by (auto simp only: snt_def)
qed

text \<open>C20: the host-to-card tool delivers its file.  When the calls on the device node and on the input file are never short, any number
  of transfers of any size (at address 0: of at most 2 GB, as the tool does not seek there) ends with exit code 0 and
  has the effect of one: from the given address on the device holds the first bytes of the file, and all else
  on it is unchanged.\<close>

theorem to_device_delivers:
  fixes w devname f addr sz offset k s
  defines "fpga \<equiv> usys w s (open_of devname) [2]"
  defines "s1 \<equiv> Sys (open_of devname) [2] (usys w s (open_of devname) [2]) # s"
  defines "infd \<equiv> usys w s1 (open_of f) [0]"
  defines "s2 \<equiv> Sys (open_of f) [0] (usys w s1 (open_of f) [0]) # s1"
  defines "a \<equiv> usys w s2 ''posix_memalign'' [4096, uint (sz + 4096)]"
  assumes fds: "0 \<le> fpga" "0 \<le> infd" "infd \<noteq> fpga" "a \<noteq> 0" and calls: "whole w ''write'' fpga" "whole w ''read'' infd"
    and clock: "\<forall>s. usys w s ''clock_gettime'' [1] = 0"
    and room: "unat addr + unat sz < 2 ^ 63" "unat (of_int a + offset) + unat sz < 2 ^ 63" and z: "addr \<noteq> 0 \<or> unat sz \<le> 0x7ffff000"
    and st: "on_files adv st s = (mem, dev, pos)" "pos fpga = 0" "pos infd = 0" "\<not> adv fpga"
  shows "\<exists>s' m' p'. test_dma_to_device w devname addr 0 sz offset (Suc k) (Some f) None junk s = (0, s')
    \<and> on_files adv st s' = (m', dev(fpga := copied (dev infd) 0 (unat addr) (unat sz) (dev fpga)), p')"
proof -
  define buf where "buf = of_int a + offset"
  define s3 where "s3 = Sys ''posix_memalign'' [4096, uint (sz + 4096)] a # s2"
  define r where "r = read_to_buffer w infd buf sz 0 s3"
  have "on_files adv st s3 = (mem, dev, pos)"
    using st(1) by (simp add: s3_def s2_def s1_def on_files_other(1))
  moreover have "unat sz < 2 ^ 63" using room(1) by simp
  ultimately obtain p' where rr: "fst r = int (unat sz)" "on_files adv st (snd r) = (copied (dev infd) 0 (unat buf) (unat sz) mem, dev, pos(infd := p'))"
    using read_whole [where pos = pos and adv = adv and st = st and s = s3 and mem = mem and dev = dev, OF calls(2) _ room(2) [folded buf_def] _ st(3)]
    by (auto simp: r_def)
  have "addr \<noteq> 0 \<or> (pos(infd := p')) fpga = 0 \<and> unat sz \<le> 0x7ffff000" using z st(2) fds(3) by auto
  from h2c_loop_sends [where k = k and oo = 0 and rc = "int (unat sz)", OF calls(1) st(4) room(1) room(2) [folded buf_def] clock rr(2) this]
  obtain s' q where l: "h2c_loop w fpga (- 1) addr 0 sz buf (Suc k) 0 False (int (unat sz)) (snd r) = (0, False, s')"
    "on_files adv st s' = (copied (dev infd) 0 (unat buf) (unat sz) mem, dev(fpga := copied (copied (dev infd) 0 (unat buf) (unat sz) mem) (unat buf) (unat addr) (unat sz) (dev fpga)), q)"
    by auto
  have "h2c_run w fpga infd (- 1) addr 0 sz offset (Suc k) junk s2 = (0, False, s')"
    using fds l(1) rr(1) by (simp add: h2c_run_def sysc_def Let_def a_def [symmetric] buf_def [symmetric] s3_def [symmetric] r_def [symmetric] split_beta del: h2c_loop.simps)
  then have "test_dma_to_device w devname addr 0 sz offset (Suc k) (Some f) None junk s = h2c_out w [fpga, infd, - 1] (0, False, s')"
    using fds by (simp add: test_dma_to_device_def sysc_def Let_def fpga_def [symmetric] s1_def [symmetric, folded fpga_def] infd_def [symmetric, folded fpga_def] s2_def [symmetric, folded infd_def])
  then show ?thesis using l(2) by (simp add: h2c_out_def copied_via)
qed

text \<open>An input file that is too short is not noticed.  When reading it gives fewer bytes than the size of the transfer, nothing is written to the
  device, and the tool still ends with exit code 0, which its help text says means that all bytes were transferred.\<close>

theorem short_input_succeeds:
  fixes w devname f addr sz offset cnt s
  defines "fpga \<equiv> usys w s (open_of devname) [2]"
  defines "s1 \<equiv> Sys (open_of devname) [2] (usys w s (open_of devname) [2]) # s"
  defines "infd \<equiv> usys w s1 (open_of f) [0]"
  defines "s2 \<equiv> Sys (open_of f) [0] (usys w s1 (open_of f) [0]) # s1"
  defines "a \<equiv> usys w s2 ''posix_memalign'' [4096, uint (sz + 4096)]"
  defines "r \<equiv> read_to_buffer w infd (of_int a + offset) sz 0 (Sys ''posix_memalign'' [4096, uint (sz + 4096)] a # s2)"
  assumes fds: "0 \<le> fpga" "0 \<le> infd" "a \<noteq> 0" and short: "0 \<le> fst r" "fst r < int (unat sz)" and b: "bounded w ''read'' infd"
    and room: "unat sz < 2 ^ 63" "unat (of_int a + offset) + unat sz < 2 ^ 63"
    and st: "on_files adv st s = (mem, dev, pos)" "pos infd = 0"
  shows "\<exists>s'. test_dma_to_device w devname addr aperture sz offset cnt (Some f) None junk s = (0, s') \<and> fst (snd (on_files adv st s')) = dev"
proof -
  have "on_files adv st (Sys ''posix_memalign'' [4096, uint (sz + 4096)] a # s2) = (mem, dev, pos)"
    using st(1) by (simp add: s2_def s1_def on_files_other(1))
  then have d: "fst (snd (on_files adv st (snd r))) = dev"
    using moves_start [of "''read''" w infd 0 sz "of_int a + offset" adv st "Sys ''posix_memalign'' [4096, uint (sz + 4096)] a # s2" mem dev pos] b room st
    by (auto simp: r_def read_to_buffer_def moved_def)
  obtain n where n: "fst r = int n" using short(1) nonneg_int_cases by blast
  have "unat (of_int (fst r) :: u64) < unat sz" using short(2) room(1) by (simp only: n of_int_of_nat_eq unat_of_nat of_nat_less_iff) simp
  then have sh: "(of_int (fst r) :: u64) < sz" by (simp add: word_less_nat_alt)
  have "h2c_run w fpga infd (- 1) addr aperture sz offset cnt junk s2 = (fst r, False, snd r)"
    using fds sh by (simp add: h2c_run_def sysc_def Let_def a_def [symmetric] r_def [symmetric] split_beta)
  then have "test_dma_to_device w devname addr aperture sz offset cnt (Some f) None junk s = h2c_out w [fpga, infd, - 1] (fst r, False, snd r)"
    using fds by (simp add: test_dma_to_device_def sysc_def Let_def fpga_def [symmetric] s1_def [symmetric, folded fpga_def] infd_def [symmetric, folded fpga_def] s2_def [symmetric, folded infd_def])
  then show ?thesis using short d by (simp add: h2c_out_def)
qed

subsection \<open>A system where calls are never short, and one with a file of five bytes\<close>

definition file_env :: "int \<Rightarrow> uenv" where
  "file_env k = \<lparr>usys = (\<lambda>_ f xs. if f = ''write'' then xs ! 2 else if f = ''read'' then min (xs ! 2) k else if f = ''lseek'' then xs ! 1
       else if f = open_of ''dev'' then 3 else if f = open_of ''in'' then 4 else if f = ''posix_memalign'' then 4096 else 0),
     uload = (\<lambda>_ _. 0), udata = (\<lambda>_ _. [])\<rparr>"

lemma file_env_sel:
  "usys (file_env k) s ''write'' [fd, a, n] = n" "usys (file_env k) s ''read'' [fd, a, n] = min n k" "usys (file_env k) s ''lseek'' [fd, n, 0] = n"
  "usys (file_env k) s (open_of ''dev'') xs = 3" "usys (file_env k) s (open_of ''in'') xs = 4" "usys (file_env k) s ''posix_memalign'' xs = 4096"
  "usys (file_env k) s ''clock_gettime'' xs = 0"
  by (simp_all add: file_env_def open_of_def)

lemma file_env_calls: "whole (file_env k) ''write'' fd" "bounded (file_env k) ''read'' fd" "bounded (file_env k) ''write'' fd"
  by (simp_all add: whole_def bounded_def file_env_sel)

definition counting :: fstate where
  "counting = (of_nat, \<lambda>_. of_nat, \<lambda>_. 0)"

theorem buffer_moves_witness:
  "fst (snd (on_files (\<lambda>_. False) counting (snd (write_from_buffer (file_env 9) 3 100 8 16 [])))) 3 20 = 104"
proof -
  have "on_files (\<lambda>_. False) counting [] = (of_nat, \<lambda>_. of_nat, \<lambda>_. 0)" by (simp add: counting_def on_files_def)
  from buffer_moves [OF file_env_calls(3,2) _ _ this, of 16 8 100 9 3] file_env_calls(1) [of 9 3]
  show ?thesis by (auto simp: copied_def)
qed

theorem short_input_succeeds_witness:
  "\<exists>s'. test_dma_to_device (file_env 5) ''dev'' 16 0 8 0 3 (Some ''in'') None 0 [] = (0, s') \<and> fst (snd (on_files (\<lambda>_. False) counting s')) 3 20 = 20"
proof -
  have "on_files (\<lambda>_. False) counting [] = (of_nat, \<lambda>_. of_nat, \<lambda>_. 0)" by (simp add: counting_def on_files_def)
  moreover have "fst (read_to_buffer (file_env 5) 4 4096 8 0 s) = 5" for s
    by (simp add: read_to_buffer_def rw_loop.simps [of _ _ _ 8] RW_MAX_SIZE_def sysc_def file_env_sel)
  ultimately show ?thesis
    using short_input_succeeds [where w = "file_env 5" and devname = "''dev''" and f = "''in''" and sz = 8 and offset = 0 and s = "[]" and adv = "\<lambda>_. False"
        and st = counting and addr = 16 and aperture = 0 and cnt = 3 and junk = 0] file_env_calls(2) by (auto simp: file_env_sel)
qed

text \<open>With a regular file.\<close>

lemma file_env_whole: "whole ((file_env 9)\<lparr>usys := (\<lambda>s f xs. if f = ''read'' then xs ! 2 else usys (file_env 9) s f xs)\<rparr>) call fd" if "call = ''read'' \<or> call = ''write''"
  using that by (auto simp: whole_def file_env_sel)

theorem to_device_delivers_witness:
  "\<exists>w s'. test_dma_to_device w ''dev'' 16 0 8 0 3 (Some ''in'') None 0 [] = (0, s') \<and> fst (snd (on_files (\<lambda>_. False) counting s')) 3 20 = 4"
proof -
  let ?w = "(file_env 9)\<lparr>usys := (\<lambda>s f xs. if f = ''read'' then xs ! 2 else usys (file_env 9) s f xs)\<rparr>"
  have "on_files (\<lambda>_. False) counting [] = (of_nat, \<lambda>_. of_nat, \<lambda>_. 0)" by (simp add: counting_def on_files_def)
  moreover have "open_of f \<noteq> ''read''" for f by (simp add: open_of_def)
  ultimately show ?thesis
    using to_device_delivers [where w = ?w and devname = "''dev''" and f = "''in''" and sz = 8 and offset = 0 and s = "[]" and adv = "\<lambda>_. False"
        and st = counting and addr = 16 and k = 2 and junk = 0] file_env_whole
    by (intro exI [of _ ?w]) (auto simp: file_env_sel copied_def numeral_3_eq_3)
qed

end
