(* ===== verification/Tools_A53.thy ===== *)
theory Tools_A53
  imports Tools_Base
begin

text \<open>
  The mailbox of the ARM core on the card (\<^verbatim>\<open>pcie_a53_rw/\<close>: \<^verbatim>\<open>main.c\<close>, \<^verbatim>\<open>arm_pcie_protocol.c\<close>).  The process maps a megabyte of the
  user BAR and writes a command, or a file in pieces, into the shared memory behind it, raises an interrupt, polls until the core has
  cleared it, and reads the answer.  A little-endian host is assumed, where the byte-order macros are the identity.  \<open>None\<close>
  is for an overrun of a buffer of the process, a null pointer that is used, or \<^verbatim>\<open>exit\<close>.  Positions in strings and files are natural numbers.  Proved: what the
  core finds in the shared memory when it is interrupted, and that the answer stays in its buffer.
\<close>

subsection \<open>The register window\<close>

definition MAP_SIZE :: nat where "MAP_SIZE = 1024 * 1024"

text \<open>What has been stored in the window.\<close>

fun window :: "ust \<Rightarrow> nat \<Rightarrow> u8 option" where
  "window [] = Map.empty"
| "window (Store a bs # s) = (\<lambda>x. if a \<le> x \<and> x < a + length bs then Some (bs ! (x - a)) else window s x)"
| "window (Sys f xs r # s) = window s"
| "window (Load a v # s) = window s"

definition open_xdma_dev :: "uenv \<Rightarrow> string \<Rightarrow> ust \<Rightarrow> (u32 \<times> ust) option" where
  "open_xdma_dev w f s =
     (let (fd, s) = sysc w (open_of f) [0x101002] s
      in if fd = - 1 then None
         else
           let (base, s) = sysc w ''mmap'' [int MAP_SIZE, fd] s
           in if base = - 1 then None else Some (0, s))"

definition xdma_reg_read :: "uenv \<Rightarrow> u32 \<Rightarrow> ust \<Rightarrow> u32 \<times> ust" where
  "xdma_reg_read w addr s = (uload w s (unat addr), Load (unat addr) (uload w s (unat addr)) # s)"

definition xdma_reg_write :: "u32 \<Rightarrow> u32 \<Rightarrow> ust \<Rightarrow> ust" where
  "xdma_reg_write addr v s = Store (unat addr) (le_bytes 4 v) # s"

text \<open>A byte and a half word are stored as 32 bits.\<close>

definition xdma_reg_write_bytes :: "u32 \<Rightarrow> u8 \<Rightarrow> ust \<Rightarrow> ust" where
  "xdma_reg_write_bytes addr v s = Store (unat addr) (le_bytes 4 (ucast v :: u32)) # s"

definition xdma_reg_write_word :: "u32 \<Rightarrow> u16 \<Rightarrow> ust \<Rightarrow> ust" where
  "xdma_reg_write_word addr v s = Store (unat addr) (le_bytes 4 (ucast v :: u32)) # s"

definition xdma_memcpy_write :: "u32 \<Rightarrow> u8 list \<Rightarrow> ust \<Rightarrow> ust" where
  "xdma_memcpy_write addr bs s = Store (unat addr) bs # s"

definition close_xdma_dev :: "uenv \<Rightarrow> int \<Rightarrow> ust \<Rightarrow> (u32 \<times> ust) option" where
  "close_xdma_dev w fd s =
     (let (r, s) = sysc w ''munmap'' [int MAP_SIZE] s
      in if r = - 1 then None else Some (0, closes w [fd] s))"

subsection \<open>Commands\<close>

definition RESULT_BUF_LENGTH :: nat where "RESULT_BUF_LENGTH = 4096"

text \<open>A string is written to the window in words from \<open>base\<close> on; the last one is padded with zeros.\<close>

function put_string :: "u32 \<Rightarrow> u8 list \<Rightarrow> nat \<Rightarrow> ust \<Rightarrow> ust" where
  "put_string base bs cursor s =
     (if cursor < length bs
      then put_string base bs (cursor + 4) (xdma_reg_write (of_nat cursor + base) (le_word (take 4 (drop cursor bs))) s)
      else s)"
  by pat_completeness auto
termination by (relation "measure (\<lambda>(base, bs, cursor, s). length bs - cursor)") auto

text \<open>Polling the interrupt register: the rounds that are left, and the value read last.\<close>

fun wait_clear :: "uenv \<Rightarrow> nat \<Rightarrow> u32 \<Rightarrow> ust \<Rightarrow> nat \<times> u32 \<times> ust" where
  "wait_clear w 0 result s = (0, result, s)"
| "wait_clear w (Suc k) result s =
     (let (r, s) = sysc w ''usleep'' [100] s; (v, s) = xdma_reg_read w 0x30300 s
      in if v = 0 then (Suc k, v, s) else wait_clear w k v s)"

text \<open>The answer is read word by word into its buffer; the position in the window is a word of 32 bits.\<close>

function read_answer :: "uenv \<Rightarrow> u32 \<Rightarrow> u32 \<Rightarrow> nat \<Rightarrow> u8 list \<Rightarrow> ust \<Rightarrow> (u8 list \<times> ust) option" where
  "read_answer w result_length cursor buf_cursor buf s =
     (if cursor < result_length then
        let (word, s) = xdma_reg_read w (0x8008 + cursor) s
        in if buf_cursor + 4 > length buf then None
           else read_answer w result_length (cursor + 4) (buf_cursor + 4) (take buf_cursor buf @ le_bytes 4 word @ drop (buf_cursor + 4) buf) s
      else Some (buf, s))"
  by pat_completeness auto
termination by (relation "measure (\<lambda>(w, n, cursor, b, buf, s). length buf - b)") auto

declare put_string.simps [simp del] read_answer.simps [simp del]

text \<open>The code and the buffer of the answer.\<close>

definition send_cmd_to_a53_sync :: "uenv \<Rightarrow> u8 list \<Rightarrow> u8 list \<times> ust \<Rightarrow> (u32 \<times> u8 list \<times> ust) option" where
  "send_cmd_to_a53_sync w cmd st =
     (let (cmd_result, s) = st;
          s = xdma_reg_write 0 0x5a5aa5a5 s;
          s = put_string 8 cmd 0 s;
          s = xdma_reg_write 0x4 (of_nat (length cmd)) s;
          s = xdma_reg_write 0x30304 0x3 s;
          s = xdma_reg_write 0x30300 0x01 s;
          (rounds, result, s) = wait_clear w 1000 0 s
      in if rounds = 0 \<and> result \<noteq> 0 then Some (- 1, cmd_result, xdma_reg_write 0x30300 0x0 s)
         else
           let (result, s) = xdma_reg_read w 0x30308 s
           in if result \<noteq> 0 then Some (- 1, cmd_result, s)
              else
                let (word, s) = xdma_reg_read w 0x8000 s
                in if word \<noteq> 0x5a5aa5a5 then Some (- 1, cmd_result, s)
                   else
                     let (len, s) = xdma_reg_read w 0x8004 s;
                         cursor = (if unat len < RESULT_BUF_LENGTH then 0 else len - of_nat (unat len mod RESULT_BUF_LENGTH))
                     in case read_answer w len cursor 0 (replicate RESULT_BUF_LENGTH 0) s of
                          None \<Rightarrow> None
                        | Some (buf, s) \<Rightarrow> Some (0, buf, s))"

text \<open>
  The answer as a number: \<^verbatim>\<open>strtol\<close> in base 16 (white space, a sign, a prefix, digits, cut to the range of a \<^verbatim>\<open>long\<close>), of
  the bytes up to the first zero, cut to 32 bits.
\<close>

definition c_string :: "u8 list \<Rightarrow> u8 list" where
  "c_string = takeWhile (\<lambda>b. b \<noteq> 0)"

definition hex_digit :: "u8 \<Rightarrow> nat option" where
  "hex_digit b =
     (if 48 \<le> b \<and> b \<le> 57 then Some (unat b - 48) else if 97 \<le> b \<and> b \<le> 102 then Some (unat b - 87)
      else if 65 \<le> b \<and> b \<le> 70 then Some (unat b - 55) else None)"

fun hex_value :: "nat \<Rightarrow> u8 list \<Rightarrow> nat" where
  "hex_value acc [] = acc"
| "hex_value acc (b # bs) = (case hex_digit b of None \<Rightarrow> acc | Some d \<Rightarrow> hex_value (16 * acc + d) bs)"

definition drop_prefix :: "u8 list \<Rightarrow> u8 list" where
  "drop_prefix bs = (case bs of z # x # d # r \<Rightarrow> if z = 48 \<and> (x = 120 \<or> x = 88) \<and> hex_digit d \<noteq> None then d # r else bs | _ \<Rightarrow> bs)"

definition strtol16 :: "u8 list \<Rightarrow> int" where
  "strtol16 bs =
     (let bs = dropWhile (\<lambda>b. b = 32 \<or> 9 \<le> b \<and> b \<le> 13) bs;
          neg = (bs \<noteq> [] \<and> hd bs = 45);
          bs = (if bs \<noteq> [] \<and> (hd bs = 45 \<or> hd bs = 43) then tl bs else bs);
          v = int (hex_value 0 (drop_prefix bs))
      in max (- (2 ^ 63)) (min (2 ^ 63 - 1) (if neg then - v else v)))"

definition get_cmd_result :: "u8 list \<Rightarrow> u32" where
  "get_cmd_result cmd_result = of_int (strtol16 (c_string cmd_result))"

subsection \<open>Files\<close>

definition UDATALEN :: nat where "UDATALEN = 0xF600"

definition checksum :: "u8 list \<Rightarrow> u32" where
  "checksum bs = sum_list (map ucast bs)"

text \<open>
  One piece of a file: its offset, its length, whether it is the last, and the \<open>read_size\<close> bytes of the buffer that count for
  the checksum; then the interrupt.
\<close>

definition write_piece :: "uenv \<Rightarrow> u32 \<Rightarrow> u32 \<Rightarrow> u32 \<Rightarrow> nat \<Rightarrow> u8 list \<Rightarrow> ust \<Rightarrow> ust" where
  "write_piece w offset len sync read_size buffer s =
     (let s = xdma_reg_write 104 offset s;
          s = xdma_reg_write 108 len s;
          s = snd (xdma_reg_read w 108 s);
          s = xdma_reg_write 110 sync s;
          last_byte = ucast (checksum (take read_size buffer) AND 0xFF);
          s = xdma_reg_write_bytes 111 last_byte s;
          s = snd (xdma_reg_read w 111 s);
          s = xdma_memcpy_write 120 (take (unat len) buffer) s;
          s = xdma_reg_write 0x30304 0x4 s
      in xdma_reg_write 0x30300 0x01 s)"

text \<open>Waiting for the core, which may take 100000 rounds for all pieces together: the error, or the rounds that are left.\<close>

definition await_piece :: "uenv \<Rightarrow> nat \<Rightarrow> ust \<Rightarrow> ust + nat \<times> ust" where
  "await_piece w rounds s =
     (let (rounds, result, s) = wait_clear w rounds 0 s
      in if rounds = 0 \<and> result \<noteq> 0 then Inl (xdma_reg_write 0x30300 0x0 s)
         else
           let (result, s) = xdma_reg_read w 0x30308 s
           in if result \<noteq> 0 then Inl s else Inr (rounds, s))"

text \<open>
  Reading \<open>n\<close> bytes at a position into the buffer: an error when the read is short; a seek that fails is none, the
  cleared buffer is used then, with the old \<open>read_size\<close>.
\<close>

definition read_piece :: "uenv \<Rightarrow> int \<Rightarrow> nat \<Rightarrow> nat \<Rightarrow> u8 list \<Rightarrow> ust \<Rightarrow> ust + nat \<times> u8 list \<times> ust" where
  "read_piece w pos n read_size buffer s =
     (let buffer = replicate n 0 @ drop n buffer;
          (ret, s) = sysc w ''fseek'' [pos, 0] s
      in if ret = 0 then
           let data = udata w s [pos, int n]; (r, s) = sysc w ''fread'' [pos, int n] s
           in if nat r \<noteq> n then Inl s else Inr (n, data @ drop n buffer, s)
         else Inr (read_size, buffer, s))"

definition fclose :: "uenv \<Rightarrow> ust \<Rightarrow> ust" where
  "fclose w s = snd (sysc w ''fclose'' [] s)"

text \<open>A piece is read, written and acknowledged; the file is left open when the core does not answer.\<close>

definition send_piece :: "uenv \<Rightarrow> nat \<Rightarrow> nat \<Rightarrow> u32 \<Rightarrow> nat \<times> nat \<times> u8 list \<times> ust \<Rightarrow> (u32 \<times> ust) + (nat \<times> nat \<times> u8 list \<times> ust)" where
  "send_piece w offset n sync st =
     (let (rounds, read_size, buffer, s) = st
      in case read_piece w (sint (of_nat offset :: u32)) n read_size buffer s of
           Inl s \<Rightarrow> Inl (1, fclose w s)
         | Inr (read_size, buffer, s) \<Rightarrow>
             (case await_piece w rounds (write_piece w (of_nat offset) (of_nat n) sync read_size buffer s) of
                Inl s \<Rightarrow> Inl (- 1, s)
              | Inr (rounds, s) \<Rightarrow> Inr (rounds, read_size, buffer, s)))"

fun send_pieces :: "uenv \<Rightarrow> nat \<Rightarrow> nat \<Rightarrow> nat \<times> nat \<times> u8 list \<times> ust \<Rightarrow> (u32 \<times> ust) + (nat \<times> nat \<times> u8 list \<times> ust)" where
  "send_pieces w i 0 st = Inr st"
| "send_pieces w i (Suc k) st =
     (case send_piece w (i * UDATALEN) UDATALEN 0 st of Inl e \<Rightarrow> Inl e | Inr st \<Rightarrow> send_pieces w (Suc i) k st)"

text \<open>The path on the core; the array it is put in has 96 characters.\<close>

definition common_path :: "u8 list \<Rightarrow> u8 list" where
  "common_path p = [47, 101, 116, 99, 47, 99, 111, 109, 109, 111, 110, 47] @ p"

definition send_file_to_a53_sync :: "uenv \<Rightarrow> u8 list \<Rightarrow> ust \<Rightarrow> (u32 \<times> ust) option" where
  "send_file_to_a53_sync w path s =
     (let (f, s) = sysc w ''fopen'' (map uint path) s
      in if f = 0 then Some (- 1, s)
         else
           let s = snd (sysc w ''fseek'' [0, 2] s);
               (pos, s) = sysc w ''ftell'' [] s; file_size = of_int pos :: u32;
               s = snd (sysc w ''rewind'' [] s);
               (buffer, s) = sysc w ''malloc'' [uint file_size] s;
               ps_path = common_path path
           in if length ps_path \<ge> 96 then None
              else if buffer = 0 \<and> file_size \<noteq> 0 then None
              else
                let s = xdma_reg_write 0 0x5B5BB5B5 s;
                    s = put_string 4 ps_path 0 s;
                    s = xdma_reg_write 100 file_size s;
                    s = snd (xdma_reg_read w 100 s);
                    a = unat file_size div UDATALEN; b = unat file_size mod UDATALEN
                in case send_pieces w 0 a (100000, 0, replicate (unat file_size) 0, s) of
                     Inl e \<Rightarrow> Some e
                   | Inr st \<Rightarrow>
                       (case send_piece w (a * UDATALEN) b 1 st of
                          Inl e \<Rightarrow> Some e
                        | Inr (rounds, read_size, buffer, s) \<Rightarrow> Some (0, fclose w s)))"

subsection \<open>Bytes in the window\<close>

lemma le_bytes_0 [simp]: "le_bytes n (0 :: 'a :: len word) = replicate n 0"
  by (induction n) simp_all

lemma le_bytes_nth: "k < n \<Longrightarrow> le_bytes n w ! k = ucast (drop_bit (8 * k) w)"
proof (induction n arbitrary: k w)
  case (Suc n)
  then show ?case by (cases k) (simp_all add: algebra_simps)
qed simp

lemma bit_le_word: "bit (le_word bs :: 'a :: len word) i \<longleftrightarrow> i < LENGTH('a) \<and> i div 8 < length bs \<and> bit (bs ! (i div 8)) (i mod 8)"
proof (induction bs arbitrary: i)
  case (Cons b bs)
  show ?case
  proof (cases "i < 8")
    case True
    then show ?thesis by (simp add: bit_simps)
  next
    case False
    then have "i div 8 = Suc ((i - 8) div 8)" "i mod 8 = (i - 8) mod 8" by (simp_all add: div_if mod_if)
    moreover have "\<not> bit b i" using False bit_imp_le_length [of b i] by auto
    ultimately show ?thesis using False by (auto simp: bit_simps Cons)
  qed
qed simp

lemma le_bytes_word:
  assumes "length bs \<le> n" "8 * n \<le> LENGTH('a)"
  shows "le_bytes n (le_word bs :: 'a :: len word) = bs @ replicate (n - length bs) 0"
proof (rule nth_equalityI)
  show "length (le_bytes n (le_word bs :: 'a word)) = length (bs @ replicate (n - length bs) 0)" using assms(1) by simp
  fix k assume "k < length (le_bytes n (le_word bs :: 'a word))"
  then have k: "k < n" by simp
  then have l: "8 * k + 8 \<le> LENGTH('a)" using assms(2) by simp
  have "ucast (drop_bit (8 * k) (le_word bs :: 'a word)) = (if k < length bs then bs ! k else 0)"
    by (rule bit_word_eqI) (use l in \<open>auto simp: bit_simps bit_le_word\<close>)
  then show "le_bytes n (le_word bs :: 'a word) ! k = (bs @ replicate (n - length bs) 0) ! k"
    using k by (simp add: le_bytes_nth nth_append)
qed

text \<open>A string in the window.\<close>

lemma window_put:
  assumes "unat base + length bs + 4 \<le> 2 ^ 32" "4 dvd c"
  shows "window (put_string base bs c s) x =
    (if c < length bs \<and> unat base + c \<le> x \<and> x < unat base + 4 * ((length bs + 3) div 4) then Some (if x - unat base < length bs then bs ! (x - unat base) else 0)
     else window s x)"
  using assms(2)
proof (induction "length bs - c" arbitrary: c s rule: less_induct)
  case less
  show ?case
  proof (cases "c < length bs")
    case False
    then show ?thesis by (simp add: put_string.simps [of base bs c])
  next
    case True
    obtain j where j: "c = 4 * j" using less.prems by (elim dvdE)
    have a: "unat (of_nat c + base) = unat base + c" using True assms(1) by (simp add: unat_word_ariths unat_of_nat)
    have w: "le_bytes 4 (le_word (take 4 (drop c bs)) :: u32) = take 4 (drop c bs) @ replicate (4 - length (take 4 (drop c bs))) 0"
      by (rule le_bytes_word) simp_all
    have n: "(take 4 (drop c bs) @ replicate (4 - length (take 4 (drop c bs))) 0) ! i = (if c + i < length bs then bs ! (c + i) else 0)" if "i < 4" for i
      using that True by (auto simp: nth_append)
    have e: "put_string base bs c s = put_string base bs (c + 4) (xdma_reg_write (of_nat c + base) (le_word (take 4 (drop c bs))) s)"
      using True by (simp add: put_string.simps [of base bs c])
    have d: "4 dvd c + 4" using less.prems by simp
    note ih = less.hyps [OF _ d, of "xdma_reg_write (of_nat c + base) (le_word (take 4 (drop c bs))) s"]
    have t: "window (xdma_reg_write (of_nat c + base) (le_word (take 4 (drop c bs))) s) x =
       (if unat base + c \<le> x \<and> x < unat base + c + 4 then Some (if x - unat base < length bs then bs ! (x - unat base) else 0) else window s x)"
      using n [of "x - (unat base + c)"] by (auto simp: xdma_reg_write_def a w)
    have k: "length bs \<le> 4 * ((length bs + 3) div 4)" "4 * ((length bs + 3) div 4) < length bs + 4" by linarith+
    have k2: "c + 4 \<le> 4 * ((length bs + 3) div 4)" using True j by presburger
    have k3: "4 * ((length bs + 3) div 4) = c + 4" if "\<not> c + 4 < length bs" using that True j by presburger
    have m: "length bs - (c + 4) < length bs - c" using True by simp
    show ?thesis unfolding e ih [OF m] t using True k k2 k3 by auto
  qed
qed

subsection \<open>What the core finds\<close>

text \<open>The contents of the window at each interrupt of the core, the first one first.\<close>

fun interrupts :: "ust \<Rightarrow> (nat \<Rightarrow> u8 option) list" where
  "interrupts [] = []"
| "interrupts (Store a bs # s) = interrupts s @ (if a = 0x30300 \<and> bs = [1, 0, 0, 0] then [window s] else [])"
| "interrupts (Sys f xs r # s) = interrupts s"
| "interrupts (Load a v # s) = interrupts s"

definition bytes_at :: "(nat \<Rightarrow> u8 option) \<Rightarrow> nat \<Rightarrow> nat \<Rightarrow> u8 list" where
  "bytes_at win a n = map (\<lambda>i. the (win (a + i))) [0..<n]"

lemma interrupts_put: "unat base + length bs \<le> 0x30300 \<Longrightarrow> interrupts (put_string base bs c s) = interrupts s"
proof (induction "length bs - c" arbitrary: c s rule: less_induct)
  case less
  show ?case
  proof (cases "c < length bs")
    case True
    have "unat (of_nat c + base) = unat base + c" using True less.prems by (simp add: unat_word_ariths unat_of_nat)
    then have "interrupts (xdma_reg_write (of_nat c + base) v s) = interrupts s" for v
      using True less.prems by (simp add: xdma_reg_write_def)
    then show ?thesis using True less by (subst put_string.simps) simp
  qed (simp add: put_string.simps [of base bs c])
qed

lemma quiet_wait [simp]:
  "interrupts (snd (snd (wait_clear w k r s))) = interrupts s" "window (snd (snd (wait_clear w k r s))) = window s"
  by (induction k arbitrary: r s) (simp_all add: xdma_reg_read_def Let_def sysc_def)

lemma quiet_read [simp]: "interrupts (snd (xdma_reg_read w a s)) = interrupts s" "window (snd (xdma_reg_read w a s)) = window s"
  by (simp_all add: xdma_reg_read_def)

lemma quiet_answer: "read_answer w n c b buf s = Some (buf', s') \<Longrightarrow> interrupts s' = interrupts s \<and> window s' = window s"
proof (induction w n c b buf s rule: read_answer.induct)
  case (1 w n c b buf s)
  show ?case
    using 1(2) 1(1) [OF _ refl, of "fst (xdma_reg_read w (0x8008 + c) s)" "snd (xdma_reg_read w (0x8008 + c) s)"]
    by (subst (asm) read_answer.simps) (auto simp: split_beta Let_def split: if_splits)
qed

lemma le_bytes_one: "le_bytes 4 (1 :: u32) = [1, 0, 0, 0]" "le_bytes 4 (v :: u32) = [1, 0, 0, 0] \<longleftrightarrow> v = 1"
proof -
  show o: "le_bytes 4 (1 :: u32) = [1, 0, 0, 0]" by (simp add: numeral_eq_Suc drop_bit_Suc)
  show "le_bytes 4 (v :: u32) = [1, 0, 0, 0] \<longleftrightarrow> v = 1"
    using le_word_bytes_id [of 4 v] le_word_bytes_id [of 4 "1 :: u32"] o by force
qed

lemma replicate_one: "replicate 4 (0 :: u8) \<noteq> [1, 0, 0, 0]"
  by (simp add: numeral_eq_Suc)

text \<open>C22: a command reaches the core as a whole.  However the core answers, sending a command raises exactly one interrupt, and at that moment the
  shared memory holds the flag, the length, the type of a command and exactly its bytes; commands up to the answer area are meant.\<close>

theorem command_delivered:
  fixes w cmd buf s
  assumes "length cmd < 0x7ff8" and "send_cmd_to_a53_sync w cmd (buf, s) = Some (c, buf', s')"
  shows "\<exists>win. interrupts s' = interrupts s @ [win] \<and> le_word (bytes_at win 0 4) = (0x5a5aa5a5 :: u32) \<and> le_word (bytes_at win 4 4) = (of_nat (length cmd) :: u32)
    \<and> le_word (bytes_at win 0x30304 4) = (3 :: u32) \<and> bytes_at win 8 (length cmd) = cmd"
proof -
  define s1 where "s1 = xdma_reg_write 0x30304 0x3 (xdma_reg_write 0x4 (of_nat (length cmd)) (put_string 8 cmd 0 (xdma_reg_write 0 0x5a5aa5a5 s)))"
  define s2 where "s2 = xdma_reg_write 0x30300 1 s1"
  have w: "window s1 x = (if 0x30304 \<le> x \<and> x < 0x30308 then Some (le_bytes 4 (3 :: u32) ! (x - 0x30304))
      else if 4 \<le> x \<and> x < 8 then Some (le_bytes 4 (of_nat (length cmd) :: u32) ! (x - 4))
      else if 0 < length cmd \<and> 8 \<le> x \<and> x < 8 + 4 * ((length cmd + 3) div 4) then Some (if x - 8 < length cmd then cmd ! (x - 8) else 0)
      else if x < 4 then Some (le_bytes 4 (0x5a5aa5a5 :: u32) ! x) else window s x)" for x
    using window_put [of 8 cmd 0 "xdma_reg_write 0 0x5a5aa5a5 s" x] assms(1) by (simp add: s1_def xdma_reg_write_def)
  have b: "bytes_at (window s1) a 4 = bs" if "length bs = 4" "\<And>i. i < 4 \<Longrightarrow> window s1 (a + i) = Some (bs ! i)" for a bs
    using that by (intro nth_equalityI) (simp_all add: bytes_at_def)
  have 1: "bytes_at (window s1) 0 4 = le_bytes 4 (0x5a5aa5a5 :: u32)" "bytes_at (window s1) 4 4 = le_bytes 4 (of_nat (length cmd) :: u32)"
    "bytes_at (window s1) 0x30304 4 = le_bytes 4 (3 :: u32)" by (rule b; simp add: w)+
  have "4 * ((length cmd + 3) div 4) < 0x7ffc" "length cmd \<le> 4 * ((length cmd + 3) div 4)" using assms(1) by linarith+
  then have 2: "bytes_at (window s1) 8 (length cmd) = cmd" by (intro nth_equalityI) (auto simp: bytes_at_def w)
  have i1: "interrupts s1 = interrupts s"
    using interrupts_put [of 8 cmd 0] assms(1) by (simp add: s1_def xdma_reg_write_def)
  have i2: "interrupts s2 = interrupts s @ [window s1]" by (simp add: s2_def i1 xdma_reg_write_def le_bytes_one)
  have "interrupts s' = interrupts s2"
    using assms(2) unfolding send_cmd_to_a53_sync_def prod.case Let_def s1_def [symmetric] s2_def [symmetric]
    by (auto simp: split_beta xdma_reg_write_def replicate_one dest!: quiet_answer split: if_splits option.splits)
  then have "interrupts s' = interrupts s @ [window s1]" by (simp add: i2)
  then show ?thesis using 1 2 by (intro exI [of _ "window s1"]) (simp add: le_word_bytes_id)
qed

text \<open>Reading the answer, from a core whose memory is \<open>d\<close>.\<close>

definition answer_words :: "(nat \<Rightarrow> u32) \<Rightarrow> u32 \<Rightarrow> nat \<Rightarrow> u8 list" where
  "answer_words d c k = concat (map (\<lambda>i. le_bytes 4 (d (unat (0x8008 + c + of_nat (4 * i))))) [0..<k])"

lemma answer_words_Suc: "answer_words d c (Suc k) = le_bytes 4 (d (unat (0x8008 + c))) @ answer_words d (c + 4) k"
  by (simp add: answer_words_def upt_conv_Cons map_Suc_upt [symmetric] comp_def algebra_simps del: upt_Suc)

lemma answer_words_length [simp]: "length (answer_words d c k) = 4 * k"
  by (induction k arbitrary: c) (simp_all add: answer_words_Suc, simp add: answer_words_def)

lemma read_answer_words:
  assumes d: "\<forall>s a. uload w s a = d a"
  shows "b + 4 * k \<le> length buf \<Longrightarrow> unat c + 4 * k < 2 ^ 32 \<Longrightarrow> (\<forall>i < k. unat c + 4 * i < unat n) \<Longrightarrow>
    \<exists>s'. read_answer w n c b buf s = read_answer w n (c + of_nat (4 * k)) (b + 4 * k) (take b buf @ answer_words d c k @ drop (b + 4 * k) buf) s'"
proof (induction k arbitrary: b c buf s)
  case (Suc k)
  define buf' where "buf' = take b buf @ le_bytes 4 (d (unat (0x8008 + c))) @ drop (b + 4) buf"
  have "c < n" using Suc.prems(3) by (force simp: word_less_nat_alt)
  then have "read_answer w n c b buf s = read_answer w n (c + 4) (b + 4) buf' (snd (xdma_reg_read w (0x8008 + c) s))"
    using Suc.prems(1) d by (subst read_answer.simps) (simp add: xdma_reg_read_def buf'_def)
  moreover have c4: "unat (c + 4) = unat c + 4" using Suc.prems(2) by (simp add: unat_word_ariths)
  have n: "\<forall>i < k. unat (c + 4) + 4 * i < unat n" using Suc.prems(3) by (auto simp: c4 dest: spec [of _ "Suc _"])
  have "b + 4 + 4 * k \<le> length buf'" "unat (c + 4) + 4 * k < 2 ^ 32" using Suc.prems(1,2) by (simp_all add: buf'_def c4)
  then obtain s' where "read_answer w n (c + 4) (b + 4) buf' (snd (xdma_reg_read w (0x8008 + c) s)) =
      read_answer w n (c + 4 + of_nat (4 * k)) (b + 4 + 4 * k) (take (b + 4) buf' @ answer_words d (c + 4) k @ drop (b + 4 + 4 * k) buf') s'"
    using Suc.IH [OF _ _ n] by blast
  moreover have "take (b + 4) buf' = take b buf @ le_bytes 4 (d (unat (0x8008 + c)))" "drop (b + 4 + 4 * k) buf' = drop (b + 4 * Suc k) buf"
    using Suc.prems(1) by (simp_all add: buf'_def algebra_simps)
  ultimately show ?case by (auto simp: answer_words_Suc algebra_simps)
qed (auto simp: answer_words_def)


subsection \<open>A file arrives\<close>

text \<open>A message: offset, length, whether it is the last one, checksum, data.\<close>

type_synonym piece_msg = "u32 \<times> u32 \<times> u8 \<times> u8 \<times> u8 list"

definition message_of :: "(nat \<Rightarrow> u8 option) \<Rightarrow> piece_msg" where
  "message_of win = (le_word (bytes_at win 104 4), le_word (bytes_at win 108 2), the (win 110), the (win 111),
     bytes_at win 120 (unat (le_word (bytes_at win 108 2) :: u32)))"

definition messages :: "ust \<Rightarrow> piece_msg list" where
  "messages s = map message_of (interrupts s)"

definition byte_sum :: "u8 list \<Rightarrow> u8" where
  "byte_sum bs = sum_list bs"

text \<open>What a file of some contents is cut into.\<close>

function file_pieces :: "nat \<Rightarrow> u8 list \<Rightarrow> piece_msg list" where
  "file_pieces off bs =
     (if length bs < UDATALEN then [(of_nat off, of_nat (length bs), 1, byte_sum bs, bs)]
      else (of_nat off, of_nat UDATALEN, 0, byte_sum (take UDATALEN bs), take UDATALEN bs) # file_pieces (off + UDATALEN) (drop UDATALEN bs))"
  by pat_completeness auto
termination by (relation "measure (\<lambda>(off, bs). length bs)") (auto simp: UDATALEN_def)

declare file_pieces.simps [simp del]

lemma file_pieces_data: "concat (map (\<lambda>(off, len, last, sum, bs). bs) (file_pieces off bs)) = bs"
  by (induction off bs rule: file_pieces.induct) (subst file_pieces.simps, simp)

lemma ucast_byte_add: "(ucast (x + y :: u32) :: u8) = ucast x + ucast y"
proof -
  have "take_bit 8 (take_bit 32 a + take_bit 32 b) = take_bit 8 (a + b)" for a b :: int
    using take_bit_add [of 8 "take_bit 32 a" "take_bit 32 b"] by (simp add: take_bit_add)
  then show ?thesis by transfer simp
qed

lemma ucast_byte_id: "(ucast (ucast (x :: u8) :: u32) :: u8) = x"
  by (rule bit_word_eqI) (auto simp: bit_simps)

lemma checksum_byte: "ucast (checksum bs AND 0xFF) = byte_sum bs"
proof -
  have "ucast (checksum bs) = byte_sum bs"
    by (induction bs) (simp_all add: checksum_def byte_sum_def ucast_byte_add ucast_byte_id)
  moreover have "ucast (checksum bs AND 0xFF) = (ucast (checksum bs) :: u8)"
  proof -
    have m: "(0xFF :: u32) = mask 8" by (simp add: mask_eq_exp_minus_1)
    show ?thesis unfolding m by (intro bit_word_eqI) (auto simp: bit_simps)
  qed
  ultimately show ?thesis by simp
qed

lemma piece_message:
  assumes "unat len < 2 ^ 16" "unat len \<le> length buffer" "unat sync < 256"
  shows "\<exists>win. interrupts (write_piece w off len sync rs buffer s) = interrupts s @ [win]
    \<and> message_of win = (off, len, ucast sync, byte_sum (take rs buffer), take (unat len) buffer)"
proof -
  define sm where "sm = byte_sum (take rs buffer)"
  define win where "win = window (xdma_reg_write 0x30304 0x4 (xdma_memcpy_write 120 (take (unat len) buffer) (snd (xdma_reg_read w 111
     (xdma_reg_write_bytes 111 sm (xdma_reg_write 110 sync (snd (xdma_reg_read w 108 (xdma_reg_write 108 len (xdma_reg_write 104 off s))))))))))"
  have i: "interrupts (write_piece w off len sync rs buffer s) = interrupts s @ [win]"
    by (simp add: write_piece_def Let_def checksum_byte sm_def [symmetric] win_def xdma_reg_write_def xdma_reg_write_bytes_def xdma_memcpy_write_def xdma_reg_read_def le_bytes_one)
  have w: "win x = (if 104 \<le> x \<and> x < 108 then Some (le_bytes 4 off ! (x - 104)) else if x = 108 \<or> x = 109 then Some (le_bytes 4 len ! (x - 108))
      else if x = 110 then Some (ucast sync) else if x = 111 then Some sm else Some (take (unat len) buffer ! (x - 120)))"
    if "104 \<le> x \<and> x < 112 \<or> 120 \<le> x \<and> x < 120 + unat len" for x
  proof -
    have b: "le_bytes 4 sync ! 0 = (ucast sync :: u8)" "le_bytes 4 (ucast sm :: u32) ! 0 = sm" by (simp_all add: le_bytes_nth ucast_byte_id)
    show ?thesis using that assms(1,2)
      by (auto simp: win_def xdma_reg_write_def xdma_reg_write_bytes_def xdma_memcpy_write_def xdma_reg_read_def b [simplified])
  qed
  have 1: "bytes_at win 104 4 = le_bytes 4 off" by (intro nth_equalityI) (simp_all add: bytes_at_def w)
  have "bytes_at win 108 2 = le_bytes 2 len"
    by (intro nth_equalityI) (auto simp: bytes_at_def w le_bytes_nth less_2_cases_iff)
  then have 2: "le_word (bytes_at win 108 2) = len"
    using assms(1) by (simp add: le_word_bytes word_unat_eq_iff unsigned_take_bit_eq take_bit_nat_eq_self)
  have 3: "bytes_at win 120 (unat len) = take (unat len) buffer"
    using assms(2) by (intro nth_equalityI) (simp_all add: bytes_at_def w)
  show ?thesis using i by (intro exI [of _ win]) (simp add: message_of_def 1 2 3 w sm_def le_word_bytes_id)
qed

text \<open>The input file can be read, with the contents \<open>bs\<close>.\<close>

definition reads_file :: "uenv \<Rightarrow> u8 list \<Rightarrow> bool" where
  "reads_file w bs \<longleftrightarrow> (\<forall>s p. usys w s ''fseek'' [p, 0] = 0) \<and> (\<forall>s p n. usys w s ''fread'' [p, n] = n)
     \<and> (\<forall>s p n. udata w s [int p, int n] = take n (drop p bs)) \<and> (\<forall>s. usys w s ''ftell'' [] = int (length bs))"

lemma await_quiet: "await_piece w k s = Inr (k', s') \<Longrightarrow> interrupts s' = interrupts s"
  by (auto simp: await_piece_def Let_def split_beta split: if_splits)

lemma send_piece_message:
  assumes r: "reads_file w bs" and n: "p + n \<le> length bs" "p < 2 ^ 31" "n < 2 ^ 16" "unat sync < 256" and b: "length buf = length bs"
    and ok: "send_piece w p n sync (k, rs, buf, s) = Inr (k', rs', buf', s')"
  shows "messages s' = messages s @ [(of_nat p, of_nat n, ucast sync, byte_sum (take n (drop p bs)), take n (drop p bs))] \<and> length buf' = length bs"
proof -
  define s1 where "s1 = Sys ''fread'' [int p, int n] (int n) # Sys ''fseek'' [int p, 0] 0 # s"
  have "sint (of_nat p :: u32) = int p"
    using n(2) by (subst sint_unat) (simp_all add: unat_of_nat)
  then have "read_piece w (sint (of_nat p :: u32)) n rs buf s = Inr (n, take n (drop p bs) @ drop n (replicate n 0 @ drop n buf), s1)"
    using r by (simp add: read_piece_def reads_file_def sysc_def s1_def Let_def)
  then have rp: "read_piece w (sint (of_nat p :: u32)) n rs buf s = Inr (n, take n (drop p bs) @ drop n buf, s1)" by simp
  define buf1 where "buf1 = take n (drop p bs) @ drop n buf"
  have l: "length buf1 = length bs" "take n buf1 = take n (drop p bs)" using n(1) b by (simp_all add: buf1_def)
  have un: "unat (of_nat n :: u32) = n" using n(3) by (simp add: unat_of_nat)
  define s2 where "s2 = write_piece w (of_nat p) (of_nat n) sync n buf1 s1"
  from piece_message [of "of_nat n" buf1 sync w "of_nat p" n s1] n l un
  obtain win where "interrupts s2 = interrupts s1 @ [win]" "message_of win = (of_nat p, of_nat n, ucast sync, byte_sum (take n buf1), take n buf1)"
    by (auto simp: s2_def)
  moreover have "interrupts s1 = interrupts s" by (simp add: s1_def)
  moreover have "interrupts s' = interrupts s2" "buf' = buf1"
    using ok rp by (auto simp: send_piece_def buf1_def [symmetric] s2_def [symmetric] split: sum.splits dest: await_quiet)
  ultimately show ?thesis using l by (simp add: messages_def)
qed

lemma send_pieces_messages:
  assumes r: "reads_file w bs" and b: "length bs < 2 ^ 31"
  shows "length buf = length bs \<Longrightarrow> (i + m) * UDATALEN \<le> length bs \<Longrightarrow> send_pieces w i m (k, rs, buf, s) = Inr (k', rs', buf', s') \<Longrightarrow>
    length buf' = length bs \<and> messages s @ file_pieces (i * UDATALEN) (drop (i * UDATALEN) bs) = messages s' @ file_pieces ((i + m) * UDATALEN) (drop ((i + m) * UDATALEN) bs)"
proof (induction m arbitrary: i k rs buf s)
  case (Suc m)
  obtain st where st: "send_piece w (i * UDATALEN) UDATALEN 0 (k, rs, buf, s) = Inr st" "send_pieces w (Suc i) m st = Inr (k', rs', buf', s')"
    using Suc.prems(3) by (auto split: sum.splits)
  obtain k1 r1 buf1 s1 where e: "st = (k1, r1, buf1, s1)" by (cases st)
  have n: "i * UDATALEN + UDATALEN \<le> length bs" using Suc.prems(2) by (simp add: algebra_simps)
  have "i * UDATALEN < 2 ^ 31" using n b by (simp add: UDATALEN_def)
  note p = send_piece_message [OF r n this _ _ Suc.prems(1) st(1) [unfolded e]]
  have m1: "messages s1 = messages s @ [(of_nat (i * UDATALEN), of_nat UDATALEN, 0, byte_sum (take UDATALEN (drop (i * UDATALEN) bs)), take UDATALEN (drop (i * UDATALEN) bs))]"
    "length buf1 = length bs" using p by (simp_all add: UDATALEN_def)
  have ih: "length buf' = length bs \<and> messages s1 @ file_pieces (Suc i * UDATALEN) (drop (Suc i * UDATALEN) bs) = messages s' @ file_pieces ((Suc i + m) * UDATALEN) (drop ((Suc i + m) * UDATALEN) bs)"
    using Suc.IH [OF m1(2) _ st(2) [unfolded e]] Suc.prems(2) by simp
  have "file_pieces (i * UDATALEN) (drop (i * UDATALEN) bs) =
      (of_nat (i * UDATALEN), of_nat UDATALEN, 0, byte_sum (take UDATALEN (drop (i * UDATALEN) bs)), take UDATALEN (drop (i * UDATALEN) bs))
      # file_pieces (Suc i * UDATALEN) (drop (Suc i * UDATALEN) bs)"
    using n by (subst file_pieces.simps) (simp add: add.commute)
  then show ?case using ih m1(1) by simp
qed auto

lemma send_piece_code: "send_piece w p n sync st = Inl (c, s') \<Longrightarrow> c \<noteq> 0"
  by (auto simp: send_piece_def split: prod.splits sum.splits)

lemma send_pieces_code: "send_pieces w i m st = Inl (c, s') \<Longrightarrow> c \<noteq> 0"
  by (induction m arbitrary: i st) (auto split: sum.splits dest: send_piece_code)

text \<open>C21: a file reaches the core as it is.  When the tool sends a file of less than 2 GB with success, the core has been interrupted once for every piece of 63 kB and
  once for what is left, and has found in the shared memory each time the offset, the length, the data of the piece and their checksum, and
  the mark of the last piece on the last alone; the data of all pieces together is the file.\<close>

theorem file_delivered:
  fixes w path s bs
  assumes "reads_file w bs" and "length bs < 2 ^ 31" and "send_file_to_a53_sync w path s = Some (0, s')"
  shows "messages s' = messages s @ file_pieces 0 bs \<and> concat (map (\<lambda>(off, len, lst, sum, d). d) (file_pieces 0 bs)) = bs"
proof -
  have fs: "unat (of_int (int (length bs)) :: u32) = length bs" using assms(2) by (simp add: unat_of_nat)
  define sA where "sA = snd (sysc w ''fopen'' (map uint path) s)"
  define sC where "sC = snd (sysc w ''ftell'' [] (snd (sysc w ''fseek'' [0, 2] sA)))"
  define m where "m = sysc w ''malloc'' [uint (of_int (int (length bs)) :: u32)] (snd (sysc w ''rewind'' [] sC))"
  define s0 where "s0 = snd (xdma_reg_read w 100 (xdma_reg_write 100 (of_int (int (length bs))) (put_string 4 (common_path path) 0 (xdma_reg_write 0 0x5B5BB5B5 (snd m)))))"
  have ft: "fst (sysc w ''ftell'' [] t) = int (length bs)" for t using assms(1) by (simp add: reads_file_def)
  have e: "send_file_to_a53_sync w path s = (if usys w s ''fopen'' (map uint path) = 0 then Some (- 1, sA)
      else if length (common_path path) \<ge> 96 then None
      else if fst m = 0 \<and> (of_int (int (length bs)) :: u32) \<noteq> 0 then None
      else case send_pieces w 0 (length bs div UDATALEN) (100000, 0, replicate (length bs) 0, s0) of Inl e \<Rightarrow> Some e
        | Inr st \<Rightarrow> (case send_piece w (length bs div UDATALEN * UDATALEN) (length bs mod UDATALEN) 1 st of Inl e \<Rightarrow> Some e
            | Inr (rounds, read_size, buffer, s) \<Rightarrow> Some (0, fclose w s)))"
    unfolding send_file_to_a53_sync_def Let_def split_beta ft fs sA_def [symmetric] sC_def [symmetric] m_def [symmetric] s0_def [symmetric] by simp
  have "length (common_path path) < 96" using assms(3) e by (auto split: if_splits)
  moreover have "\<exists>st k rs buf t. send_pieces w 0 (length bs div UDATALEN) (100000, 0, replicate (length bs) 0, s0) = Inr st
      \<and> send_piece w (length bs div UDATALEN * UDATALEN) (length bs mod UDATALEN) 1 st = Inr (k, rs, buf, t) \<and> s' = fclose w t"
  proof (cases "send_pieces w 0 (length bs div UDATALEN) (100000, 0, replicate (length bs) 0, s0)")
    case (Inl c)
    then have "fst c \<noteq> 0" using send_pieces_code [of w 0 _ _ "fst c" "snd c"] by simp
    then show ?thesis using Inl assms(3) e by (auto split: if_splits)
  next
    case st: (Inr st)
    show ?thesis
    proof (cases "send_piece w (length bs div UDATALEN * UDATALEN) (length bs mod UDATALEN) 1 st")
      case (Inl c)
      then have "fst c \<noteq> 0" using send_piece_code [of w _ _ _ st "fst c" "snd c"] by simp
      then show ?thesis using Inl st assms(3) e by (auto split: if_splits)
    next
      case (Inr r)
      then show ?thesis using st assms(3) e by (cases r) (auto split: if_splits)
    qed
  qed
  moreover have "interrupts (snd m) = interrupts s" by (simp add: m_def sC_def sA_def)
  ultimately obtain st k rs buf t where s0: "s0 = snd (xdma_reg_read w 100 (xdma_reg_write 100 (of_int (int (length bs))) (put_string 4 (common_path path) 0 (xdma_reg_write 0 0x5B5BB5B5 (snd m)))))"
      "interrupts (snd m) = interrupts s" "length (common_path path) < 96"
    and st: "send_pieces w 0 (length bs div UDATALEN) (100000, 0, replicate (length bs) 0, s0) = Inr st"
      "send_piece w (length bs div UDATALEN * UDATALEN) (length bs mod UDATALEN) 1 st = Inr (k, rs, buf, t)" "s' = fclose w t"
    unfolding s0_def by blast
  have i0: "interrupts s0 = interrupts s"
    using s0(2,3) interrupts_put [of 4 "common_path path" 0] by (simp add: s0(1) xdma_reg_write_def)
  obtain k1 r1 b1 t1 where e: "st = (k1, r1, b1, t1)" by (cases st)
  have U: "0 < UDATALEN" "UDATALEN < 2 ^ 16" by (simp_all add: UDATALEN_def)
  have n: "length bs div UDATALEN * UDATALEN + length bs mod UDATALEN = length bs" "length bs div UDATALEN * UDATALEN \<le> length bs" by simp_all
  have m1: "length b1 = length bs" "messages s0 @ file_pieces 0 bs = messages t1 @ file_pieces (length bs div UDATALEN * UDATALEN) (drop (length bs div UDATALEN * UDATALEN) bs)"
    using send_pieces_messages [OF assms(1,2) _ _ st(1) [unfolded e]] n by auto
  define r where "r = length bs mod UDATALEN"
  have r: "r < UDATALEN" using U by (simp add: r_def)
  have tk: "take r (drop (length bs div UDATALEN * UDATALEN) bs) = drop (length bs div UDATALEN * UDATALEN) bs" "length (drop (length bs div UDATALEN * UDATALEN) bs) = r"
    by (simp_all add: r_def minus_div_mult_eq_mod)
  have "messages t = messages t1 @ [(of_nat (length bs div UDATALEN * UDATALEN), of_nat r, 1, byte_sum (take r (drop (length bs div UDATALEN * UDATALEN) bs)), take r (drop (length bs div UDATALEN * UDATALEN) bs))]"
    using send_piece_message [OF assms(1) _ le_less_trans [OF n(2) assms(2)] _ _ m1(1) st(2) [unfolded e]] n r U(2) tk unfolding r_def [symmetric] by simp
  moreover have "file_pieces (length bs div UDATALEN * UDATALEN) (drop (length bs div UDATALEN * UDATALEN) bs) =
      [(of_nat (length bs div UDATALEN * UDATALEN), of_nat r, 1, byte_sum (drop (length bs div UDATALEN * UDATALEN) bs), drop (length bs div UDATALEN * UDATALEN) bs)]"
    using r tk(2) by (subst file_pieces.simps) simp
  moreover have "messages s' = messages t" "messages s0 = messages s" using st(3) i0 by (simp_all add: messages_def fclose_def)
  ultimately show ?thesis using m1(2) tk(1) file_pieces_data by simp
qed

subsection \<open>Cores that answer\<close>

definition core_env :: "(nat \<Rightarrow> u32) \<Rightarrow> u8 list \<Rightarrow> uenv" where
  "core_env d bs = \<lparr>usys = (\<lambda>_ f xs. if f = ''fseek'' then 0 else if f = ''fread'' then xs ! 1 else if f = ''ftell'' then int (length bs) else 1),
     uload = (\<lambda>_ a. d a), udata = (\<lambda>_ xs. take (nat (xs ! 1)) (drop (nat (xs ! 0)) bs))\<rparr>"

text \<open>A core with an answer of three bytes, ``hi'' and a zero.\<close>

definition core_hi :: "nat \<Rightarrow> u32" where
  "core_hi a = (if a = 0x8000 then 0x5a5aa5a5 else if a = 0x8004 then 3 else if a = 0x8008 then 0x6968 else 0)"

lemma core_env_sel: "reads_file (core_env d bs) bs" "\<forall>s a. uload (core_env d bs) s a = d a"
  by (simp_all add: reads_file_def core_env_def)


theorem command_delivered_witness:
  "\<exists>s' win. Option.bind (send_cmd_to_a53_sync (core_env (\<lambda>a. 0) []) [108, 115] ([], [])) (\<lambda>(c, b, t). Some (c, t)) = Some (- 1, s')
     \<and> interrupts s' = [win] \<and> bytes_at win 8 2 = [108, 115]"
proof -
  have "\<exists>b s'. send_cmd_to_a53_sync (core_env (\<lambda>a. 0) []) [108, 115] ([], []) = Some (- 1, b, s')"
    by (simp add: send_cmd_to_a53_sync_def core_env_def sysc_def Let_def xdma_reg_read_def wait_clear.simps(2) [of _ 999, simplified])
  then obtain b s' where r: "send_cmd_to_a53_sync (core_env (\<lambda>a. 0) []) [108, 115] ([], []) = Some (- 1, b, s')" by blast
  show ?thesis using command_delivered [OF _ r] r by (auto simp: numeral_2_eq_2)
qed

theorem file_delivered_witness:
  "\<exists>s'. send_file_to_a53_sync (core_env core_hi [7, 9]) [102] [] = Some (0, s') \<and> messages s' = [(0, 2, 1, 16, [7, 9])]"
proof -
  have "\<exists>s'. send_file_to_a53_sync (core_env core_hi [7, 9]) [102] [] = Some (0, s')"
    by (simp add: send_file_to_a53_sync_def core_env_def sysc_def Let_def common_path_def UDATALEN_def send_piece_def read_piece_def await_piece_def
        xdma_reg_read_def core_hi_def wait_clear.simps(2) [of _ 99999, simplified] split_beta)
  then obtain s' where r: "send_file_to_a53_sync (core_env core_hi [7, 9]) [102] [] = Some (0, s')" ..
  have "file_pieces 0 [7, 9] = [(0, 2, 1, 16, [7, 9])]" by (subst file_pieces.simps) (simp add: UDATALEN_def byte_sum_def)
  then show ?thesis using file_delivered [OF core_env_sel(1) _ r] r by (simp add: messages_def)
qed

end
